(* ===== verification/Prelude.thy ===== *)
theory Prelude
  imports Complex_Main "HOL-Library.Word"
begin

text \<open>
  Shared foundations of the development: how the C++ code can fail, how fallible code is
  sequenced, and the generic facts on sums, lists and functions that the component
  theories use.

  Failures are values of \<open>error\<close>. A result \<open>Inl e\<close> is an execution that ends the process
  (\<open>ASSERT\<close> in a build without \<open>NDEBUG\<close>, \<open>FATAL\<close>, a \<open>std::out_of_range\<close> thrown by
  \<open>std::array::at\<close> inside a \<open>noexcept\<close> function) or one whose behaviour C++ leaves undefined
  (null dereference, unchecked index, signed overflow, inactive union member), or a loop that never returns.
\<close>

section \<open>Failures and results\<close>

datatype error =
    Assert_failed string   \<comment> \<open>\<open>ASSERT(cond, msg)\<close> with a false condition: exit(EXIT_FAILURE)\<close>
  | Fatal string           \<comment> \<open>\<open>FATAL(msg)\<close>: exit(EXIT_FAILURE)\<close>
  | Out_of_range           \<comment> \<open>\<open>std::array::at\<close> throws in a \<open>noexcept\<close> function: std::terminate\<close>
  | Null_deref             \<comment> \<open>dereference of \<open>nullptr\<close>: undefined behaviour\<close>
  | Out_of_bounds          \<comment> \<open>unchecked \<open>operator[]\<close> past the end: undefined behaviour\<close>
  | Signed_overflow        \<comment> \<open>signed arithmetic out of range: undefined behaviour\<close>
  | Wrong_member           \<comment> \<open>read of an inactive member of a union: undefined behaviour\<close>
  | No_return              \<comment> \<open>a loop that never ends\<close>

type_synonym 'a result = "error + 'a"

text \<open>Sequencing of fallible code: the first failure is the result.\<close>

fun rbind :: "'a result \<Rightarrow> ('a \<Rightarrow> 'b result) \<Rightarrow> 'b result" where
  "rbind (Inl e) f = Inl e"
| "rbind (Inr x) f = f x"

definition ASSERT :: "bool \<Rightarrow> string \<Rightarrow> unit result" where
  "ASSERT cond msg = (if \<not> cond then Inl (Assert_failed msg) else Inr ())"

definition FATAL :: "string \<Rightarrow> 'a result" where
  "FATAL msg = Inl (Fatal msg)"

text \<open>The result of a loop defined by \<open>partial_function (option)\<close>.\<close>

definition loop_result :: "'a result option \<Rightarrow> 'a result" where
  "loop_result r = (case r of None \<Rightarrow> Inl No_return | Some x \<Rightarrow> x)"

definition succeeds :: "'a result \<Rightarrow> bool" where
  "succeeds r = (case r of Inl _ \<Rightarrow> False | Inr _ \<Rightarrow> True)"

section \<open>Collections of hints\<close>

named_theorems result_simps \<open>evaluation of fallible code\<close>
named_theorems model_defs \<open>definitions that a concrete evaluation unfolds\<close>

section \<open>Facts on results\<close>

declare Let_def [simp]

lemma rbind_cong [fundef_cong]:
  "m = m' \<Longrightarrow> (\<And>x. m' = Inr x \<Longrightarrow> f x = g x) \<Longrightarrow> rbind m f = rbind m' g"
  by (cases m') auto

lemma rbind_eq_Inr_iff [result_simps]: "rbind m f = Inr y \<longleftrightarrow> (\<exists>x. m = Inr x \<and> f x = Inr y)"
  by (cases m) auto

lemma rbind_eq_InrE:
  assumes "rbind m f = Inr y"
  obtains x where "m = Inr x" "f x = Inr y"
  using assms by (cases m) auto

lemma rbind_assoc: "rbind (rbind m f) g = rbind m (\<lambda>x. rbind (f x) g)"
  by (cases m) auto

lemma rbind_if [simp]: "rbind (if c then a else b) f = (if c then rbind a f else rbind b f)"
  by simp

lemma ASSERT_True [simp]: "ASSERT True msg = Inr ()"
  by (simp add: ASSERT_def)

lemma ASSERT_False [simp]: "ASSERT False msg = Inl (Assert_failed msg)"
  by (simp add: ASSERT_def)

lemma ASSERT_eq_Inr_iff [result_simps]: "ASSERT c msg = Inr u \<longleftrightarrow> c"
  by (cases c) auto

lemma loop_result_simps [simp]:
  "loop_result None = Inl No_return" "loop_result (Some r) = r"
  by (simp_all add: loop_result_def)

lemma loop_result_eq_Inr_iff [result_simps]: "loop_result r = Inr x \<longleftrightarrow> r = Some (Inr x)"
  by (cases r) auto

lemma succeeds_simps [simp]: "\<not> succeeds (Inl e)" "succeeds (Inr x)"
  by (simp_all add: succeeds_def)

lemma succeeds_iff: "succeeds r \<longleftrightarrow> (\<exists>x. r = Inr x)"
  by (cases r) auto

section \<open>Folds that can fail\<close>

fun rfold :: "('x \<Rightarrow> 'w \<Rightarrow> 'w result) \<Rightarrow> 'x list \<Rightarrow> 'w \<Rightarrow> 'w result" where
  "rfold h [] w = Inr w"
| "rfold h (x # xs) w = rbind (h x w) (rfold h xs)"

lemma rfold_append: "rfold h (xs @ ys) w = rbind (rfold h xs w) (rfold h ys)"
proof (induction xs arbitrary: w)
  case (Cons x xs)
  then show ?case by (cases "h x w") simp_all
qed simp

lemma rbind_Inr_right [simp]: "rbind m Inr = m"
  by (cases m) auto

lemma rfold_map: "rfold h (map f xs) w = rfold (\<lambda>x. h (f x)) xs w"
proof (induction xs arbitrary: w)
  case (Cons x xs)
  then show ?case by (cases "h (f x) w") simp_all
qed simp

text \<open>A step that keeps an invariant while it succeeds keeps it through the fold.\<close>

lemma rfold_invariant:
  assumes "rfold h xs w = Inr w'" "I w" "\<And>x w w'. x \<in> set xs \<Longrightarrow> h x w = Inr w' \<Longrightarrow> I w \<Longrightarrow> I w'"
  shows "I w'"
  using assms
proof (induction xs arbitrary: w)
  case (Cons x xs)
  from Cons.prems(1) obtain v where v: "h x w = Inr v" "rfold h xs v = Inr w'" by (auto elim: rbind_eq_InrE)
  have "I v" by (rule Cons.prems(3) [OF _ v(1) Cons.prems(2)]) simp
  then show ?case by (rule Cons.IH [OF v(2)]) (rule Cons.prems(3), simp_all)
qed simp

section \<open>Lists\<close>

lemma split_list_distinct:
  assumes "x \<in> set xs" "distinct xs"
  obtains us vs where "xs = us @ x # vs" "x \<notin> set us" "x \<notin> set vs"
  using assms by (metis distinct.simps(2) distinct_append split_list not_distinct_conv_prefix
      split_list_first)

lemma remove1_append_mid: "x \<notin> set us \<Longrightarrow> remove1 x (us @ x # vs) = us @ vs"
  by (simp add: remove1_append)

lemma takeWhile_dropWhile_mid:
  assumes "\<forall>u\<in>set us. P u" "\<And>v vs'. vs = v # vs' \<Longrightarrow> \<not> P v"
  shows "takeWhile P (us @ vs) = us" "dropWhile P (us @ vs) = vs"
  using assms by (induction us) (cases vs; auto)+

end
