(* ===== verification/Types.thy ===== *)
theory Types
  imports Prelude
begin

text \<open>
  The shared vocabulary of \<open>src/src/include/common/types.hpp\<close>: identifier and number types at
  the width the code gives them, their INVALID sentinels, the \<open>Side\<close> and \<open>AlgoType\<close>
  enumerations and the printers of both.

  \<open>Price\<close> is the only signed type. It is a datatype over a 64 bit word whose order is the
  signed one, so that \<open><\<close> and \<open>\<le>\<close> on prices are the comparisons of \<open>int64_t\<close>. An
  enumeration of the code has a fixed underlying type and can hold a byte no enumerator names (the
  order gateway reads it from the network), which is the constructor \<open>_OTHER\<close>.
\<close>

section \<open>Capacities\<close>

definition ME_MAX_TICKERS :: nat where
  "ME_MAX_TICKERS = 8"

definition ME_MAX_CLIENT_UPDATES :: nat where
  "ME_MAX_CLIENT_UPDATES = 256 * 1024"

definition ME_MAX_MARKET_UPDATES :: nat where
  "ME_MAX_MARKET_UPDATES = 256 * 1024"

definition ME_MAX_NUM_CLIENTS :: nat where
  "ME_MAX_NUM_CLIENTS = 256"

definition ME_MAX_ORDER_IDS :: nat where
  "ME_MAX_ORDER_IDS = 1024 * 1024"

definition ME_MAX_PRICE_LEVELS :: nat where
  "ME_MAX_PRICE_LEVELS = 256"

section \<open>Numbers\<close>

type_synonym OrderId = "64 word"
type_synonym TickerId = "32 word"
type_synonym ClientId = "32 word"
type_synonym Qty = "32 word"
type_synonym Priority = "64 word"
type_synonym SeqNum = "64 word"

datatype i64 = I64 (bits64: "64 word")

type_synonym Price = i64

text \<open>\<open>int64_t\<close> compares by its signed value.\<close>

instantiation i64 :: linorder
begin

definition less_eq_i64 :: "i64 \<Rightarrow> i64 \<Rightarrow> bool" where
  "less_eq_i64 a b \<longleftrightarrow> sint (bits64 a) \<le> sint (bits64 b)"

definition less_i64 :: "i64 \<Rightarrow> i64 \<Rightarrow> bool" where
  "less_i64 a b \<longleftrightarrow> sint (bits64 a) < sint (bits64 b)"

instance
proof
  fix a b c :: i64
  show "a < b \<longleftrightarrow> a \<le> b \<and> \<not> b \<le> a"
    by (auto simp: less_eq_i64_def less_i64_def)
  show "a \<le> a"
    by (simp add: less_eq_i64_def)
  show "a \<le> b \<Longrightarrow> b \<le> c \<Longrightarrow> a \<le> c"
    by (simp add: less_eq_i64_def)
  show "a \<le> b \<Longrightarrow> b \<le> a \<Longrightarrow> a = b"
    by (rule i64.expand, rule signed_word_eqI [where 'a = int]) (simp add: less_eq_i64_def)
  show "a \<le> b \<or> b \<le> a"
    by (auto simp: less_eq_i64_def)
qed

end

lemma i64_less_I64 [simp]: "I64 a < I64 b \<longleftrightarrow> sint a < sint b"
  by (simp add: less_i64_def)

lemma i64_less_eq_I64 [simp]: "I64 a \<le> I64 b \<longleftrightarrow> sint a \<le> sint b"
  by (simp add: less_eq_i64_def)

definition i64_max :: i64 where
  "i64_max = I64 0x7FFFFFFFFFFFFFFF"

definition i64_min :: i64 where
  "i64_min = I64 0x8000000000000000"

definition ORDER_ID_INVALID :: OrderId where
  "ORDER_ID_INVALID = - 1"

definition TICKER_ID_INVALID :: TickerId where
  "TICKER_ID_INVALID = - 1"

definition CLIENT_ID_INVALID :: ClientId where
  "CLIENT_ID_INVALID = - 1"

definition PRICE_INVALID :: Price where
  "PRICE_INVALID = i64_max"

definition QTY_INVALID :: Qty where
  "QTY_INVALID = - 1"

definition PRIORITY_INVALID :: Priority where
  "PRIORITY_INVALID = - 1"

section \<open>Enumerations\<close>

datatype Side = Side_INVALID | Side_BUY | Side_SELL | Side_MAX | Side_OTHER "8 word"

datatype AlgoType =
    AlgoType_INVALID | AlgoType_RANDOM | AlgoType_MAKER | AlgoType_TAKER | AlgoType_MAX
  | AlgoType_OTHER "8 word"

fun SideToValue :: "Side \<Rightarrow> int" where
  "SideToValue Side_INVALID = 0"
| "SideToValue Side_BUY = 1"
| "SideToValue Side_SELL = -1"
| "SideToValue Side_MAX = 2"
| "SideToValue (Side_OTHER w) = sint w"

text \<open>The cast to \<open>size_t\<close> wraps, so SELL is index 0.\<close>

definition SideToIndex :: "Side \<Rightarrow> nat" where
  "SideToIndex side = unat ((of_int (SideToValue side) :: 64 word) + 1)"

fun AlgoType_of_int :: "int \<Rightarrow> AlgoType" where
  "AlgoType_of_int i =
     (if i = 0 then AlgoType_INVALID
      else if i = 1 then AlgoType_RANDOM
      else if i = 2 then AlgoType_MAKER
      else if i = 3 then AlgoType_TAKER
      else if i = 4 then AlgoType_MAX
      else AlgoType_OTHER (of_int i))"

section \<open>Printing\<close>

definition digit_char :: "nat \<Rightarrow> char" where
  "digit_char d = char_of (48 + d)"

text \<open>\<open>std::to_string\<close> of an unsigned and of a signed integer.\<close>

fun dec_string :: "nat \<Rightarrow> string" where
  "dec_string n =
     (if n < 10 then [digit_char n] else dec_string (n div 10) @ [digit_char (n mod 10)])"

declare dec_string.simps [simp del]

definition int_string :: "int \<Rightarrow> string" where
  "int_string i = (if i < 0 then ''-'' @ dec_string (nat (- i)) else dec_string (nat i))"

definition OrderIdToString :: "OrderId \<Rightarrow> string" where
  "OrderIdToString order_id =
     (if order_id = ORDER_ID_INVALID then ''INVALID'' else dec_string (unat order_id))"

definition TickerIdToString :: "TickerId \<Rightarrow> string" where
  "TickerIdToString ticker_id =
     (if ticker_id = TICKER_ID_INVALID then ''INVALID'' else dec_string (unat ticker_id))"

definition ClientIdToString :: "ClientId \<Rightarrow> string" where
  "ClientIdToString client_id =
     (if client_id = CLIENT_ID_INVALID then ''INVALID'' else dec_string (unat client_id))"

definition PriceToString :: "Price \<Rightarrow> string" where
  "PriceToString price =
     (if price = PRICE_INVALID then ''INVALID'' else int_string (sint (bits64 price)))"

definition QtyToString :: "Qty \<Rightarrow> string" where
  "QtyToString qty = (if qty = QTY_INVALID then ''INVALID'' else dec_string (unat qty))"

definition PriorityToString :: "Priority \<Rightarrow> string" where
  "PriorityToString priority =
     (if priority = PRIORITY_INVALID then ''INVALID'' else dec_string (unat priority))"

fun SideToString :: "Side \<Rightarrow> string" where
  "SideToString Side_BUY = ''BUY''"
| "SideToString Side_SELL = ''SELL''"
| "SideToString Side_INVALID = ''INVALID''"
| "SideToString Side_MAX = ''MAX''"
| "SideToString (Side_OTHER _) = ''UNKNOWN''"

fun AlgoTypeToString :: "AlgoType \<Rightarrow> string" where
  "AlgoTypeToString AlgoType_RANDOM = ''RANDOM''"
| "AlgoTypeToString AlgoType_MAKER = ''MAKER''"
| "AlgoTypeToString AlgoType_TAKER = ''TAKER''"
| "AlgoTypeToString AlgoType_INVALID = ''INVALID''"
| "AlgoTypeToString AlgoType_MAX = ''MAX''"
| "AlgoTypeToString (AlgoType_OTHER _) = ''UNKNOWN''"

text \<open>The loop tries the enumerators from INVALID (0) to MAX (4) and returns the first match.\<close>

fun try_algo_types :: "string \<Rightarrow> int list \<Rightarrow> AlgoType" where
  "try_algo_types str [] = AlgoType_INVALID"
| "try_algo_types str (i # is) =
     (let algo_type = AlgoType_of_int i
      in if AlgoTypeToString algo_type = str then algo_type else try_algo_types str is)"

definition StringToAlgoType :: "string \<Rightarrow> AlgoType" where
  "StringToAlgoType str = try_algo_types str [0, 1, 2, 3, 4]"

section \<open>Facts on the sentinels, sides and printers\<close>

lemma SideToIndex_simps [simp]:
  "SideToIndex Side_SELL = 0" "SideToIndex Side_INVALID = 1"
  "SideToIndex Side_BUY = 2" "SideToIndex Side_MAX = 3"
  by (simp_all add: SideToIndex_def)

fun digits_value :: "nat \<Rightarrow> string \<Rightarrow> nat" where
  "digits_value acc [] = acc"
| "digits_value acc (c # cs) = digits_value (10 * acc + (of_char c - 48)) cs"

lemma digits_value_append: "digits_value a (xs @ ys) = digits_value (digits_value a xs) ys"
  by (induction a xs rule: digits_value.induct) auto

lemma of_digit_char: "d < 10 \<Longrightarrow> of_char (digit_char d) = 48 + d"
  by (simp add: digit_char_def)

lemma digits_value_dec_string: "digits_value 0 (dec_string n) = n"
proof (induction n rule: dec_string.induct)
  case (1 n)
  show ?case
  proof (cases "n < 10")
    case True
    then show ?thesis by (simp add: dec_string.simps [of n] of_digit_char)
  next
    case False
    with 1 show ?thesis
      by (simp add: dec_string.simps [of n] digits_value_append of_digit_char)
  qed
qed

lemma dec_string_inject [simp]: "dec_string m = dec_string n \<longleftrightarrow> m = n"
  using digits_value_dec_string by metis

lemma set_dec_string: "c \<in> set (dec_string n) \<Longrightarrow> 48 \<le> (of_char c :: nat) \<and> of_char c < (58 :: nat)"
proof (induction n rule: dec_string.induct)
  case (1 n)
  then show ?case
    by (cases "n < 10") (auto simp: dec_string.simps [of n] of_digit_char)
qed

lemma dec_string_nonempty: "dec_string n \<noteq> []"
  by (subst dec_string.simps) simp

lemma length_dec_string: "n < 10 ^ k \<Longrightarrow> 0 < k \<Longrightarrow> length (dec_string n) \<le> k"
proof (induction k arbitrary: n)
  case (Suc k)
  show ?case
  proof (cases "n < 10")
    case False
    then have "0 < k" using Suc.prems by (cases k) auto
    then have "length (dec_string (n div 10)) \<le> k" using Suc by (intro Suc.IH) auto
    then show ?thesis by (subst dec_string.simps) simp
  qed (subst dec_string.simps, simp)
qed simp

lemma dec_string_hd: "48 \<le> (of_char (hd (dec_string n)) :: nat) \<and> of_char (hd (dec_string n)) < (58 :: nat)"
  using set_dec_string dec_string_nonempty hd_in_set by blast

lemma dec_string_neq_INVALID [simp]:
  "dec_string n \<noteq> ''INVALID''" "''INVALID'' \<noteq> dec_string n"
proof -
  show "dec_string n \<noteq> ''INVALID''"
  proof
    assume "dec_string n = ''INVALID''"
    with dec_string_hd [of n] show False by simp
  qed
  then show "''INVALID'' \<noteq> dec_string n" by metis
qed

lemma int_string_inject: "int_string i = int_string j \<longleftrightarrow> i = j"
proof -
  have "''-'' @ dec_string m \<noteq> dec_string n" for m n
    using dec_string_hd [of n] by (cases "dec_string n") auto
  then show ?thesis
    by (auto simp: int_string_def dest: sym split: if_splits)
qed

lemma int_string_neq_INVALID: "int_string i \<noteq> ''INVALID''"
  by (simp add: int_string_def)

end
