(* ===== verification/Memory_Pool.thy ===== *)
theory Memory_Pool
  imports Prelude
begin

text \<open>
  \<open>common::MemoryPool<T>\<close> (\<open>src/src/include/runtime/memory_pool.hpp\<close>): a vector of blocks
  allocated once, a free flag per block and the index of the block the next allocation takes.
  The vector is a function of the index with its length beside it, a pointer into the pool is the
  index of its block and \<open>None\<close> is \<open>nullptr\<close>.

  The pool promises what the locale \<open>object_pool\<close> states: an allocation hands out a block that was
  not live and leaves the other objects alone. It promises this only while two blocks are free:
  \<open>Allocate\<close> looks for its successor before it returns, so taking the last free block fails
  (\<open>Allocate_last_block_fails\<close>) in a build that checks assertions and never returns in one
  that does not (\<open>release_scan_full\<close>).
\<close>

section \<open>State\<close>

type_synonym ptr = "nat option"

record 'a ObjectBlock =
  blk_object :: 'a
  blk_is_free :: bool

record 'a MemoryPool =
  store :: "nat \<Rightarrow> 'a ObjectBlock"
  store_size :: nat
  next_free_index :: nat

definition MemoryPool_new :: "nat \<Rightarrow> 'a \<Rightarrow> 'a MemoryPool" where
  "MemoryPool_new num_elems dflt =
     \<lparr>store = (\<lambda>_. \<lparr>blk_object = dflt, blk_is_free = True\<rparr>), store_size = num_elems,
      next_free_index = 0\<rparr>"

section \<open>Operations\<close>

text \<open>
  The loop of \<open>UpdateNextFreeIndex\<close>. The first disjunct is the unchecked \<open>store_[i]\<close> past the
  end of the vector.
\<close>

function scan_free :: "'a MemoryPool \<Rightarrow> nat \<Rightarrow> nat \<Rightarrow> nat result" where
  "scan_free P initial i =
     (if store_size P \<le> i \<or> store_size P \<le> initial then Inl Out_of_bounds
      else if \<not> blk_is_free (store P i) then
        (let i1 = i + 1;
             i2 = (if i1 = store_size P then 0 else i1)
         in if initial = i2 then rbind (ASSERT (initial \<noteq> i2) ''Memory Pool out of space.'') (\<lambda>_. Inr i2)
            else scan_free P initial i2)
      else Inr i)"
  by pat_completeness auto
termination
  by (relation "measure (\<lambda>(P, ini, i). if ini \<le> i then store_size P - i + ini else ini - i)") auto

declare scan_free.simps [simp del]

definition UpdateNextFreeIndex :: "'a MemoryPool \<Rightarrow> 'a MemoryPool result" where
  "UpdateNextFreeIndex P =
     rbind (scan_free P (next_free_index P) (next_free_index P)) (\<lambda>i.
     Inr (P\<lparr>next_free_index := i\<rparr>))"

text \<open>The same loop when \<open>NDEBUG\<close> removes the assertion: nothing stops it on a full pool.\<close>

partial_function (option) scan_free_release :: "'a MemoryPool \<Rightarrow> nat \<Rightarrow> nat option" where
  "scan_free_release pool i =
     (if \<not> blk_is_free (store pool i) then
        scan_free_release pool (if i + 1 = store_size pool then 0 else i + 1)
      else Some i)"

definition set_block :: "nat \<Rightarrow> 'a ObjectBlock \<Rightarrow> 'a MemoryPool \<Rightarrow> 'a MemoryPool" where
  "set_block i blk P = P\<lparr>store := (store P)(i := blk)\<rparr>"

definition Allocate :: "'a \<Rightarrow> 'a MemoryPool \<Rightarrow> (nat \<times> 'a MemoryPool) result" where
  "Allocate args P =
     (let i = next_free_index P
      in rbind (ASSERT (blk_is_free (store P i)) ''Expected free ObjectBlock at index:'') (\<lambda>_.
         rbind (UpdateNextFreeIndex (set_block i \<lparr>blk_object = args, blk_is_free = False\<rparr> P)) (\<lambda>P.
         Inr (i, P))))"

definition Deallocate :: "nat \<Rightarrow> 'a MemoryPool \<Rightarrow> 'a MemoryPool result" where
  "Deallocate i P =
     rbind (ASSERT (i < store_size P) ''Element being deallocated does not belong to this Memory pool.'') (\<lambda>_.
     rbind (ASSERT (\<not> blk_is_free (store P i)) ''Expected in-use ObjectBlock at index:'') (\<lambda>_.
     Inr (set_block i ((store P i)\<lparr>blk_is_free := True\<rparr>) P)))"

text \<open>Reading and writing the object a pointer refers to.\<close>

definition obj :: "'a MemoryPool \<Rightarrow> nat \<Rightarrow> 'a" where
  "obj P a = blk_object (store P a)"

definition upd_obj :: "nat \<Rightarrow> ('a \<Rightarrow> 'a) \<Rightarrow> 'a MemoryPool \<Rightarrow> 'a MemoryPool" where
  "upd_obj a f P = set_block a ((store P a)\<lparr>blk_object := f (obj P a)\<rparr>) P"

definition deref :: "'a MemoryPool \<Rightarrow> ptr \<Rightarrow> 'a result" where
  "deref P p = (case p of None \<Rightarrow> Inl Null_deref | Some a \<Rightarrow> Inr (obj P a))"

definition assign :: "ptr \<Rightarrow> ('a \<Rightarrow> 'a) \<Rightarrow> 'a MemoryPool \<Rightarrow> 'a MemoryPool result" where
  "assign p f P = (case p of None \<Rightarrow> Inl Null_deref | Some a \<Rightarrow> Inr (upd_obj a f P))"

section \<open>Well-formedness\<close>

definition live :: "'a MemoryPool \<Rightarrow> nat set" where
  "live P = {i. i < store_size P \<and> \<not> blk_is_free (store P i)}"

definition pool_ok :: "'a MemoryPool \<Rightarrow> bool" where
  "pool_ok P \<longleftrightarrow> next_free_index P < store_size P \<and> blk_is_free (store P (next_free_index P))"

text \<open>Room for one more object: two blocks are free.\<close>

definition has_room :: "'a MemoryPool \<Rightarrow> bool" where
  "has_room P \<longleftrightarrow> card (live P) + 1 < store_size P"

lemma finite_live [simp]: "finite (live P)"
  by (simp add: live_def)

lemma obj_upd_obj [simp]: "obj (upd_obj a f P) b = (if b = a then f (obj P a) else obj P b)"
  by (simp add: obj_def upd_obj_def set_block_def)

lemma live_upd_obj [simp]: "live (upd_obj a f P) = live P"
  by (auto simp: live_def upd_obj_def set_block_def)

lemma store_size_upd_obj [simp]: "store_size (upd_obj a f P) = store_size P"
  by (simp add: upd_obj_def set_block_def)

lemma pool_ok_upd_obj [simp]: "pool_ok (upd_obj a f P) = pool_ok P"
  by (simp add: pool_ok_def upd_obj_def set_block_def)

lemma has_room_upd_obj [simp]: "has_room (upd_obj a f P) = has_room P"
  by (simp add: has_room_def)

lemma deref_simps [simp]: "deref P None = Inl Null_deref" "deref P (Some a) = Inr (obj P a)"
  by (simp_all add: deref_def)

lemma assign_simps [simp]:
  "assign None f P = Inl Null_deref" "assign (Some a) f P = Inr (upd_obj a f P)"
  by (simp_all add: assign_def)

section \<open>The scan\<close>

text \<open>The blocks the scan has still to look at when it stands at \<open>i\<close>.\<close>

definition scan_rest :: "'a MemoryPool \<Rightarrow> nat \<Rightarrow> nat \<Rightarrow> nat set" where
  "scan_rest P initial i = (if initial \<le> i then {i..<store_size P} \<union> {..<initial} else {i..<initial})"

lemma scan_free_step:
  assumes "i < store_size P" "initial < store_size P" "\<not> blk_is_free (store P i)"
    "j = (if i + 1 = store_size P then 0 else i + 1)"
  shows "scan_free P initial i =
    (if initial = j then Inl (Assert_failed ''Memory Pool out of space.'')
     else scan_free P initial j)"
  using assms by (subst scan_free.simps) simp

lemma scan_free_here:
  "i < store_size P \<Longrightarrow> initial < store_size P \<Longrightarrow> blk_is_free (store P i) \<Longrightarrow>
   scan_free P initial i = Inr i"
  by (subst scan_free.simps) simp

lemma scan_free_cases:
  assumes "i < store_size P" "initial < store_size P"
  shows "(\<exists>k\<in>scan_rest P initial i. scan_free P initial i = Inr k \<and> blk_is_free (store P k)) \<or>
    (scan_free P initial i = Inl (Assert_failed ''Memory Pool out of space.'') \<and>
     (\<forall>k\<in>scan_rest P initial i. \<not> blk_is_free (store P k)))"
  using assms
proof (induction P initial i rule: scan_free.induct)
  case (1 P initial i)
  define j where "j = (if i + 1 = store_size P then 0 else i + 1)"
  show ?case
  proof (cases "blk_is_free (store P i)")
    case True
    with 1 show ?thesis by (auto simp: scan_free_here scan_rest_def)
  next
    case used: False
    have split: "scan_rest P initial i = insert i (if initial = j then {} else scan_rest P initial j)"
      using 1 by (auto simp: scan_rest_def j_def)
    have step: "scan_free P initial i =
      (if initial = j then Inl (Assert_failed ''Memory Pool out of space.'')
       else scan_free P initial j)"
      using 1 used by (intro scan_free_step) (simp_all add: j_def)
    show ?thesis
    proof (cases "initial = j")
      case True
      with step used split show ?thesis by simp
    next
      case False
      have "j < store_size P" using 1 by (auto simp: j_def)
      with 1 used False have
        "(\<exists>k\<in>scan_rest P initial j. scan_free P initial j = Inr k \<and> blk_is_free (store P k)) \<or>
         (scan_free P initial j = Inl (Assert_failed ''Memory Pool out of space.'') \<and>
          (\<forall>k\<in>scan_rest P initial j. \<not> blk_is_free (store P k)))"
        by (simp add: j_def)
      with step split used False show ?thesis by auto
    qed
  qed
qed

lemma scan_rest_start: "initial < store_size P \<Longrightarrow> scan_rest P initial initial = {..<store_size P}"
  by (auto simp: scan_rest_def)

lemma scan_free_finds:
  assumes "initial < store_size P" "k < store_size P" "blk_is_free (store P k)"
  obtains j where "scan_free P initial initial = Inr j" "j < store_size P" "blk_is_free (store P j)"
  using scan_free_cases [of initial P initial] scan_rest_start [of initial P] assms by auto

lemma scan_free_full:
  assumes "initial < store_size P" "\<forall>k < store_size P. \<not> blk_is_free (store P k)"
  shows "scan_free P initial initial = Inl (Assert_failed ''Memory Pool out of space.'')"
  using scan_free_cases [of initial P initial] scan_rest_start [of initial P] assms by auto

lemma has_room_free_block:
  assumes "has_room P" "i < store_size P"
  obtains k where "k < store_size P" "k \<noteq> i" "blk_is_free (store P k)"
proof -
  have "card (insert i (live P)) < card {..<store_size P}"
    using assms(1) by (simp add: has_room_def card_insert_if)
  then have "\<not> {..<store_size P} \<subseteq> insert i (live P)"
    by (meson card_mono finite_insert finite_live linorder_not_less)
  then show thesis using that by (auto simp: live_def)
qed

lemma live_set_block:
  "i < store_size P \<Longrightarrow>
   live (set_block i blk P) = (if blk_is_free blk then live P - {i} else insert i (live P))"
  by (auto simp: live_def set_block_def)

section \<open>What the operations do\<close>

lemma Allocate_ok:
  assumes "pool_ok P" "has_room P"
  obtains a P' where "Allocate x P = Inr (a, P')" "a \<notin> live P" "live P' = insert a (live P)"
    "pool_ok P'" "store_size P' = store_size P" "obj P' a = x" "\<And>b. b \<noteq> a \<Longrightarrow> obj P' b = obj P b"
proof -
  let ?i = "next_free_index P"
  let ?Q = "set_block ?i \<lparr>blk_object = x, blk_is_free = False\<rparr> P"
  have i: "?i < store_size P" "blk_is_free (store P ?i)"
    using assms(1) by (simp_all add: pool_ok_def)
  obtain k where k: "k < store_size P" "k \<noteq> ?i" "blk_is_free (store P k)"
    using assms(2) i(1) by (rule has_room_free_block)
  then obtain j where j: "scan_free ?Q ?i ?i = Inr j" "j < store_size ?Q" "blk_is_free (store ?Q j)"
    using i by (auto simp: set_block_def intro: scan_free_finds [of ?i ?Q k])
  show thesis
  proof
    show "Allocate x P = Inr (?i, ?Q\<lparr>next_free_index := j\<rparr>)"
      using i j(1) by (simp add: Allocate_def UpdateNextFreeIndex_def set_block_def)
    show "?i \<notin> live P" using i by (simp add: live_def)
    show "live (?Q\<lparr>next_free_index := j\<rparr>) = insert ?i (live P)"
      using live_set_block [OF i(1), of "\<lparr>blk_object = x, blk_is_free = False\<rparr>"]
      by (simp add: live_def)
    show "pool_ok (?Q\<lparr>next_free_index := j\<rparr>)" using j by (simp add: pool_ok_def)
  qed (simp_all add: set_block_def obj_def)
qed

lemma Deallocate_ok:
  assumes "pool_ok P" "a \<in> live P"
  obtains P' where "Deallocate a P = Inr P'" "live P' = live P - {a}" "pool_ok P'"
    "store_size P' = store_size P" "\<And>b. obj P' b = obj P b"
proof
  let ?P = "set_block a ((store P a)\<lparr>blk_is_free := True\<rparr>) P"
  show "Deallocate a P = Inr ?P" using assms(2) by (simp add: Deallocate_def live_def)
  show "live ?P = live P - {a}" using assms(2) by (auto simp: live_def set_block_def)
  show "pool_ok ?P" using assms(1) by (auto simp: pool_ok_def set_block_def)
  show "store_size ?P = store_size P" by (simp add: set_block_def)
  show "obj ?P b = obj P b" for b by (simp add: set_block_def obj_def)
qed

lemma Deallocate_InrD:
  "Deallocate a P = Inr P' \<Longrightarrow>
   a \<in> live P \<and> live P' = live P - {a} \<and> store_size P' = store_size P \<and> (\<forall>b. obj P' b = obj P b)"
  by (auto simp: Deallocate_def result_simps live_def set_block_def obj_def split: if_splits)

section \<open>The interface the order books rely on\<close>

text \<open>
  A pool of objects addressed by number. Its clients use three facts: the address handed out was
  not live, other objects keep their value, and a freed address leaves the live set.
\<close>

locale object_pool =
  fixes alloc :: "'o \<Rightarrow> 'p \<Rightarrow> (nat \<times> 'p) result"
    and dealloc :: "nat \<Rightarrow> 'p \<Rightarrow> 'p result"
    and contents :: "'p \<Rightarrow> nat \<Rightarrow> 'o"
    and lives :: "'p \<Rightarrow> nat set"
    and capacity :: "'p \<Rightarrow> nat"
    and ok :: "'p \<Rightarrow> bool"
  assumes alloc_law: "ok P \<Longrightarrow> card (lives P) + 1 < capacity P \<Longrightarrow>
      \<exists>a P'. alloc x P = Inr (a, P') \<and> a \<notin> lives P \<and> lives P' = insert a (lives P) \<and> ok P' \<and>
        capacity P' = capacity P \<and> contents P' a = x \<and> (\<forall>b. b \<noteq> a \<longrightarrow> contents P' b = contents P b)"
    and dealloc_law: "ok P \<Longrightarrow> a \<in> lives P \<Longrightarrow>
      \<exists>P'. dealloc a P = Inr P' \<and> lives P' = lives P - {a} \<and> ok P' \<and>
        capacity P' = capacity P \<and> contents P' = contents P"
    and finite_lives: "finite (lives P)"
begin

lemma allocE:
  assumes "ok P" "card (lives P) + 1 < capacity P"
  obtains a P' where "alloc x P = Inr (a, P')" "a \<notin> lives P" "lives P' = insert a (lives P)" "ok P'"
    "capacity P' = capacity P" "contents P' a = x" "\<And>b. b \<noteq> a \<Longrightarrow> contents P' b = contents P b"
  using alloc_law [OF assms, of x] by blast

lemma deallocE:
  assumes "ok P" "a \<in> lives P"
  obtains P' where "dealloc a P = Inr P'" "lives P' = lives P - {a}" "ok P'"
    "capacity P' = capacity P" "\<And>b. contents P' b = contents P b"
  using dealloc_law [OF assms] by metis

text \<open>An object survives the life of another one, and the pool is as roomy as before.\<close>

lemma alloc_dealloc:
  assumes "ok P" "card (lives P) + 1 < capacity P" "b \<in> lives P"
  shows "\<exists>a P' P''. alloc x P = Inr (a, P') \<and> dealloc a P' = Inr P'' \<and> lives P'' = lives P \<and>
    ok P'' \<and> contents P'' b = contents P b"
proof -
  obtain a P' where P': "alloc x P = Inr (a, P')" "a \<notin> lives P" "lives P' = insert a (lives P)"
    "ok P'" "\<And>c. c \<noteq> a \<Longrightarrow> contents P' c = contents P c"
    using assms(1,2) by (rule allocE [where x = x]) blast
  from P'(3) have "a \<in> lives P'" by simp
  with P'(4) obtain P'' where "dealloc a P' = Inr P''" "lives P'' = lives P' - {a}" "ok P''"
    "\<And>c. contents P'' c = contents P' c"
    by (rule deallocE) blast
  with P' assms(3) show ?thesis by (metis Diff_insert_absorb)
qed

end

interpretation mem_pool: object_pool Allocate Deallocate obj live store_size pool_ok
proof unfold_locales
  fix P :: "'a MemoryPool" and x
  assume "pool_ok P" "card (live P) + 1 < store_size P"
  then show "\<exists>a P'. Allocate x P = Inr (a, P') \<and> a \<notin> live P \<and> live P' = insert a (live P) \<and>
      pool_ok P' \<and> store_size P' = store_size P \<and> obj P' a = x \<and> (\<forall>b. b \<noteq> a \<longrightarrow> obj P' b = obj P b)"
    by (metis Allocate_ok has_room_def)
next
  fix P :: "'a MemoryPool" and a
  assume "pool_ok P" "a \<in> live P"
  then show "\<exists>P'. Deallocate a P = Inr P' \<and> live P' = live P - {a} \<and> pool_ok P' \<and>
      store_size P' = store_size P \<and> obj P' = obj P"
    by (metis Deallocate_ok ext)
qed simp

section \<open>Properties\<close>

lemma live_MemoryPool_new [simp]: "live (MemoryPool_new n x) = {}"
  by (simp add: live_def MemoryPool_new_def)

lemma pool_ok_MemoryPool_new [simp]: "pool_ok (MemoryPool_new n x) \<longleftrightarrow> 0 < n"
  by (simp add: pool_ok_def MemoryPool_new_def)

lemma store_size_MemoryPool_new [simp]: "store_size (MemoryPool_new n x) = n"
  by (simp add: MemoryPool_new_def)

lemma scan_free_release_returns_free:
  assumes "scan_free_release P i = Some r" "i < store_size P"
  shows "r < store_size P \<and> blk_is_free (store P r)"
proof -
  have "i < store_size P \<longrightarrow> r < store_size P \<and> blk_is_free (store P r)"
  proof (rule scan_free_release.raw_induct
      [where P = "\<lambda>P i r. i < store_size P \<longrightarrow> r < store_size P \<and> blk_is_free (store P r)",
       OF _ assms(1)])
    fix f :: "'a MemoryPool \<Rightarrow> nat \<Rightarrow> nat option" and P i r
    assume IH: "\<And>P i r. f P i = Some r \<Longrightarrow>
        i < store_size P \<longrightarrow> r < store_size P \<and> blk_is_free (store P r)"
      and eq: "(if \<not> blk_is_free (store P i) then f P (if i + 1 = store_size P then 0 else i + 1)
        else Some i) = Some r"
    show "i < store_size P \<longrightarrow> r < store_size P \<and> blk_is_free (store P r)"
      using eq IH [of P "if i + 1 = store_size P then 0 else i + 1" r]
      by (auto split: if_splits)
  qed
  with assms(2) show ?thesis by simp
qed

text \<open>
  Allocating from a pool with at least two free blocks succeeds, returns a block that was not
  in use, constructs the new object in it and changes no other object; the pool is again ready to
  allocate.
\<close>

theorem Allocate_fresh:
  assumes "pool_ok P" "has_room P"
  shows "\<exists>a P'. Allocate x P = Inr (a, P') \<and> a \<notin> live P \<and> live P' = insert a (live P) \<and> pool_ok P' \<and>
    obj P' a = x \<and> (\<forall>b. b \<noteq> a \<longrightarrow> obj P' b = obj P b)"
  using mem_pool.alloc_law [of P x] assms by (auto simp: has_room_def)

theorem Allocate_fresh_witness:
  "\<exists>a P'. Allocate (7::nat) (MemoryPool_new 2 0) = Inr (a, P') \<and> a \<notin> live (MemoryPool_new 2 (0::nat)) \<and>
    live P' = insert a (live (MemoryPool_new 2 (0::nat))) \<and> pool_ok P' \<and> obj P' a = 7 \<and>
    (\<forall>b. b \<noteq> a \<longrightarrow> obj P' b = obj (MemoryPool_new 2 (0::nat)) b)"
  by (rule Allocate_fresh) (simp_all add: has_room_def)

text \<open>
  A pool whose last free block is requested ends the process: the search for the next free
  block runs before the object is returned and asserts that it finds one. A pool constructed for
  n objects therefore holds at most n - 1.
\<close>

theorem Allocate_last_block_fails:
  assumes "pool_ok P" "\<forall>k < store_size P. k \<noteq> next_free_index P \<longrightarrow> \<not> blk_is_free (store P k)"
  shows "Allocate x P = Inl (Assert_failed ''Memory Pool out of space.'')"
proof -
  let ?i = "next_free_index P"
  let ?Q = "set_block ?i \<lparr>blk_object = x, blk_is_free = False\<rparr> P"
  have "scan_free ?Q ?i ?i = Inl (Assert_failed ''Memory Pool out of space.'')"
    using assms by (intro scan_free_full) (auto simp: pool_ok_def set_block_def)
  then show ?thesis
    using assms(1) by (simp add: Allocate_def UpdateNextFreeIndex_def pool_ok_def set_block_def)
qed

theorem Allocate_last_block_fails_witness:
  "Allocate (7::nat) (MemoryPool_new 1 0) = Inl (Assert_failed ''Memory Pool out of space.'')"
  by (rule Allocate_last_block_fails) (simp, simp add: MemoryPool_new_def)

text \<open>
  C38: In a build with NDEBUG the same request never returns: the search loop runs forever on a
  pool without a free block, from whatever block it starts.
\<close>

theorem release_scan_full_hangs:
  assumes "\<forall>k < store_size P. \<not> blk_is_free (store P k)" "i < store_size P"
  shows "scan_free_release P i = None"
  using scan_free_release_returns_free [of P i] assms by (cases "scan_free_release P i") auto

theorem release_scan_full_hangs_witness:
  "scan_free_release \<lparr>store = (\<lambda>_. \<lparr>blk_object = (0::nat), blk_is_free = False\<rparr>), store_size = 3,
     next_free_index = 1\<rparr> 1 = None"
  by (rule release_scan_full_hangs) simp_all

end
