(* ===== verification/Circular_List.thy ===== *)
theory Circular_List
  imports Prelude
begin

text \<open>
  Intrusive circular doubly linked lists. Both order books of the program thread their price
  levels and the orders of a level through \<open>prev\<close> and \<open>next\<close> pointers that form a ring. This
  theory says when two pointer fields, as functions of the address, form the ring of a given
  address list, and what the two link surgeries of the code (insert at the tail, unlink) do to it.
\<close>

fun chain :: "(nat \<Rightarrow> nat option) \<Rightarrow> (nat \<Rightarrow> nat option) \<Rightarrow> nat list \<Rightarrow> bool" where
  "chain nxt prv [] \<longleftrightarrow> True"
| "chain nxt prv [a] \<longleftrightarrow> True"
| "chain nxt prv (a # b # xs) \<longleftrightarrow> nxt a = Some b \<and> prv b = Some a \<and> chain nxt prv (b # xs)"

definition ring :: "(nat \<Rightarrow> nat option) \<Rightarrow> (nat \<Rightarrow> nat option) \<Rightarrow> nat list \<Rightarrow> bool" where
  "ring nxt prv xs \<longleftrightarrow> distinct xs \<and> (xs \<noteq> [] \<longrightarrow> chain nxt prv (xs @ [hd xs]))"

section \<open>Chains\<close>

lemma chain_append_Cons: "chain n p (us @ a # vs) \<longleftrightarrow> chain n p (us @ [a]) \<and> chain n p (a # vs)"
  by (induction n p us rule: chain.induct) auto

lemma chain_Cons: "chain n p (a # vs) \<longleftrightarrow> vs = [] \<or> (n a = Some (hd vs) \<and> p (hd vs) = Some a \<and> chain n p vs)"
  by (cases vs) auto

lemma chain_cong:
  assumes "\<forall>a\<in>set (butlast xs). n' a = n a" "\<forall>a\<in>set (tl xs). p' a = p a"
  shows "chain n' p' xs = chain n p xs"
  using assms by (induction n p xs rule: chain.induct) auto

section \<open>Rings\<close>

lemma ring_distinct: "ring n p xs \<Longrightarrow> distinct xs"
  by (simp add: ring_def)

lemma ring_Nil [simp]: "ring n p []"
  by (simp add: ring_def)

lemma ring_single [simp]: "ring n p [a] \<longleftrightarrow> n a = Some a \<and> p a = Some a"
  by (simp add: ring_def)

lemma ring_cong:
  assumes "\<And>a. a \<in> set xs \<Longrightarrow> n' a = n a" "\<And>a. a \<in> set xs \<Longrightarrow> p' a = p a"
  shows "ring n' p' xs = ring n p xs"
proof (cases xs)
  case (Cons x ys)
  then have "chain n' p' (xs @ [x]) = chain n p (xs @ [x])"
    using assms by (intro chain_cong) auto
  with Cons show ?thesis by (simp add: ring_def)
qed simp

lemma ring_snoc:
  "ring n p (ys @ [l]) \<longleftrightarrow> distinct (ys @ [l]) \<and> chain n p (ys @ [l]) \<and>
     n l = Some (hd (ys @ [l])) \<and> p (hd (ys @ [l])) = Some l"
  using chain_append_Cons [of n p ys l "[hd (ys @ [l])]"] by (auto simp: ring_def)

lemma ring_last:
  assumes "xs \<noteq> []"
  shows "ring n p xs \<longleftrightarrow> distinct xs \<and> chain n p xs \<and> n (last xs) = Some (hd xs) \<and> p (hd xs) = Some (last xs)"
  using assms ring_snoc [of n p "butlast xs" "last xs"] by simp

lemma in_butlast_iff: "distinct xs \<Longrightarrow> xs \<noteq> [] \<Longrightarrow> a \<in> set (butlast xs) \<longleftrightarrow> a \<in> set xs \<and> a \<noteq> last xs"
  by (cases xs rule: rev_cases) auto

lemma in_tl_iff: "distinct xs \<Longrightarrow> xs \<noteq> [] \<Longrightarrow> a \<in> set (tl xs) \<longleftrightarrow> a \<in> set xs \<and> a \<noteq> hd xs"
  by (cases xs) auto

text \<open>A ring has no first element: rotating the address list changes nothing.\<close>

lemma ring_rotate: "ring n p (us @ vs) \<longleftrightarrow> ring n p (vs @ us)"
proof (cases us)
  case us: (Cons u us')
  show ?thesis
  proof (cases vs)
    case vs: (Cons v vs')
    have "chain n p ((us @ vs) @ [u]) \<longleftrightarrow> chain n p ((vs @ us) @ [v])"
      using chain_append_Cons [of n p us v "vs' @ [u]"] chain_append_Cons [of n p vs u "us' @ [v]"]
      by (auto simp: us vs)
    with us vs show ?thesis by (auto simp: ring_def)
  qed simp
qed simp

lemma ring_rotate_to:
  assumes "ring n p xs" "xs = us @ a # vs"
  shows "ring n p (a # vs @ us)"
  using assms ring_rotate [of n p us "a # vs"] by simp

lemma ring_next_hd:
  assumes "ring n p (a # xs)"
  shows "n a = Some (hd (xs @ [a]))" "p (hd (xs @ [a])) = Some a"
  using assms by (cases xs; auto simp: ring_def)+

lemma ring_prev_hd:
  assumes "ring n p (a # xs)"
  shows "p a = Some (last (a # xs))" "n (last (a # xs)) = Some a"
  using assms ring_last [of "a # xs" n p] by simp_all

lemma ring_next:
  assumes "ring n p (us @ a # vs)"
  shows "n a = Some (hd (vs @ us @ [a]))"
proof -
  from assms have "ring n p (a # (vs @ us))" by (rule ring_rotate_to) simp
  from ring_next_hd(1) [OF this] show ?thesis by simp
qed

lemma ring_prev:
  assumes "ring n p (us @ a # vs)"
  shows "p a = Some (last (a # vs @ us))"
  using ring_prev_hd(1) [OF ring_rotate_to [OF assms refl]] by simp

lemma ring_self_next_iff: "ring n p (us @ a # vs) \<Longrightarrow> n a = Some a \<longleftrightarrow> us = [] \<and> vs = []"
proof -
  assume r: "ring n p (us @ a # vs)"
  have "hd (vs @ us @ [a]) = a \<longleftrightarrow> us = [] \<and> vs = []"
    using ring_distinct [OF r] by (cases vs; cases us) auto
  with ring_next [OF r] show ?thesis by auto
qed

lemma ring_self_prev_iff: "ring n p (us @ a # vs) \<Longrightarrow> p a = Some a \<longleftrightarrow> us = [] \<and> vs = []"
proof -
  assume r: "ring n p (us @ a # vs)"
  have "last (a # vs @ us) = a \<longleftrightarrow> us = [] \<and> vs = []"
    using ring_distinct [OF r] by (auto simp: last_append split: if_splits dest: last_in_set)
  with ring_prev [OF r] show ?thesis by auto
qed

section \<open>Insertion at the tail\<close>

text \<open>
  The new element goes between the last element and the first: four pointers change. In a ring of
  one element the first and the last are the same address, so two of them are its own.
\<close>

lemma ring_insert_tail:
  assumes r: "ring n p (x # xs)" and new: "new \<notin> set (x # xs)"
    and links: "n' (last (x # xs)) = Some new" "p' new = Some (last (x # xs))"
      "n' new = Some x" "p' x = Some new"
    and frame: "\<And>a. a \<in> set (x # xs) \<Longrightarrow> a \<noteq> last (x # xs) \<Longrightarrow> n' a = n a"
      "\<And>a. a \<in> set (x # xs) \<Longrightarrow> a \<noteq> x \<Longrightarrow> p' a = p a"
  shows "ring n' p' ((x # xs) @ [new])"
proof -
  let ?l = "last (x # xs)"
  have d: "distinct (x # xs)" and c: "chain n p (x # xs)"
    using r ring_last [of "x # xs" n p] by simp_all
  have "a \<in> set (butlast (x # xs)) \<longleftrightarrow> a \<in> set (x # xs) \<and> a \<noteq> ?l" for a
    using d by (rule in_butlast_iff) simp
  moreover have "a \<in> set (tl (x # xs)) \<longleftrightarrow> a \<in> set (x # xs) \<and> a \<noteq> x" for a
    using d in_tl_iff [of "x # xs" a] by simp
  ultimately have "chain n' p' (x # xs) = chain n p (x # xs)"
    using frame by (intro chain_cong ballI) blast+
  with c have "chain n' p' (butlast (x # xs) @ [?l])" by simp
  moreover have "chain n' p' (?l # [new])" using links by simp
  ultimately have "chain n' p' (butlast (x # xs) @ ?l # [new])"
    by (subst chain_append_Cons) simp
  then have "chain n' p' ((x # xs) @ [new])"
    using append_butlast_last_id [of "x # xs"] by (metis append.assoc append_Cons append_Nil list.distinct(1))
  with d new links show ?thesis by (subst ring_snoc) auto
qed

text \<open>Insertion before an element \<open>t\<close> is insertion at the tail of the ring read from \<open>t\<close>.\<close>

lemma ring_insert_before:
  assumes r: "ring n p (us @ t # vs)" and new: "new \<notin> set (us @ t # vs)"
    and prev: "p t = Some l"
    and links: "n' l = Some new" "p' new = Some l" "n' new = Some t" "p' t = Some new"
    and frame: "\<And>a. a \<in> set (us @ t # vs) \<Longrightarrow> a \<noteq> l \<Longrightarrow> n' a = n a"
      "\<And>a. a \<in> set (us @ t # vs) \<Longrightarrow> a \<noteq> t \<Longrightarrow> p' a = p a"
  shows "ring n' p' (us @ new # t # vs)"
proof -
  have rt: "ring n p (t # (vs @ us))" using r by (rule ring_rotate_to) simp
  have l: "l = last (t # (vs @ us))" using ring_prev_hd(1) [OF rt] prev by simp
  have "ring n' p' ((t # (vs @ us)) @ [new])"
    using rt new links frame by (intro ring_insert_tail [OF rt]) (auto simp: l)
  then have "ring n' p' ((t # vs) @ (us @ [new]))" by simp
  then have "ring n' p' ((us @ [new]) @ (t # vs))" by (subst ring_rotate)
  then show ?thesis by simp
qed

section \<open>Unlinking\<close>

lemma ring_unlink_hd:
  assumes r: "ring n p (x # xs)" "xs \<noteq> []"
    and links: "n' (last xs) = Some (hd xs)" "p' (hd xs) = Some (last xs)"
    and frame: "\<And>a. a \<in> set xs \<Longrightarrow> a \<noteq> last xs \<Longrightarrow> n' a = n a"
      "\<And>a. a \<in> set xs \<Longrightarrow> a \<noteq> hd xs \<Longrightarrow> p' a = p a"
  shows "ring n' p' xs"
proof -
  have d: "distinct xs" and c: "chain n p xs"
    using r ring_last [of "x # xs" n p] chain_Cons [of n p x xs] by auto
  have "chain n' p' xs = chain n p xs"
    using frame d r(2) by (intro chain_cong) (auto simp: in_butlast_iff in_tl_iff)
  with c d links show ?thesis using ring_last [OF r(2), of n' p'] by simp
qed

lemma ring_unlink:
  assumes r: "ring n p (us @ a # vs)" "us @ vs \<noteq> []"
    and ends: "p a = Some b" "n a = Some f"
    and links: "n' b = Some f" "p' f = Some b"
    and frame: "\<And>x. x \<in> set (us @ vs) \<Longrightarrow> x \<noteq> b \<Longrightarrow> n' x = n x"
      "\<And>x. x \<in> set (us @ vs) \<Longrightarrow> x \<noteq> f \<Longrightarrow> p' x = p x"
  shows "ring n' p' (us @ vs)"
proof -
  have ra: "ring n p (a # (vs @ us))" using r(1) by (rule ring_rotate_to) simp
  have ne: "vs @ us \<noteq> []" using r(2) by auto
  have b: "b = last (vs @ us)" using ring_prev_hd(1) [OF ra] ends(1) ne by (simp only: last.simps) auto
  have f: "f = hd (vs @ us)" using ring_next_hd(1) [OF ra] ends(2) ne by (metis hd_append option.inject)
  have "ring n' p' (vs @ us)"
    using links frame by (intro ring_unlink_hd [OF ra ne]) (auto simp: b f)
  then show ?thesis by (subst ring_rotate)
qed

end
