(* ===== verification/Order_Levels.thy ===== *)
theory Order_Levels
  imports Types Memory_Pool Circular_List
begin

text \<open>
  What the two limit order books of the program have in common. The exchange
  (\<open>src/src/include/matching_engine/exchange_order_book.hpp\<close>) and the trading engine
  (\<open>src/src/include/trading_engine/trading_order_book.hpp\<close>) keep the same structure, with the
  same code: orders and price levels live in memory pools, the orders of a level form a ring from
  \<open>first_order_\<close>, the levels of a side form a ring from the best one, and an array of 256 slots
  finds the level of a price. A trading order is a subset of an exchange order
  (\<open>trading_order.hpp\<close>), so the exchange order is a record extension of it.

  \<open>book_ok b L\<close> says that the heap of \<open>b\<close> represents the address lists \<open>L\<close>: for each side the
  list of its levels, each with the list of its orders.
\<close>

section \<open>Orders, levels and the heap they live in\<close>

record TradingOrder =
  o_order_id :: OrderId
  o_side :: Side
  o_price :: Price
  o_qty :: Qty
  o_priority :: Priority
  o_prev_order :: ptr
  o_next_order :: ptr

record OrdersAtPrice =
  l_side :: Side
  l_price :: Price
  l_first_order :: ptr
  l_prev_entry :: ptr
  l_next_entry :: ptr

definition OrdersAtPrice_default :: OrdersAtPrice where
  "OrdersAtPrice_default =
     \<lparr>l_side = Side_INVALID, l_price = PRICE_INVALID, l_first_order = None, l_prev_entry = None,
      l_next_entry = None\<rparr>"

record 'o OrderBook =
  orders_at_price_pool :: "OrdersAtPrice MemoryPool"
  bids_by_price :: ptr
  asks_by_price :: ptr
  price_orders_at_price :: "nat \<Rightarrow> ptr"
  order_pool :: "'o MemoryPool"

section \<open>Access\<close>

text \<open>\<open>price % ME_MAX_PRICE_LEVELS\<close> converts the price to the unsigned type of the capacity.\<close>

definition PriceToIndex :: "Price \<Rightarrow> nat" where
  "PriceToIndex price = unat (bits64 price) mod ME_MAX_PRICE_LEVELS"

definition GetOrdersAtPrice :: "Price \<Rightarrow> ('o, 'b) OrderBook_scheme \<Rightarrow> ptr" where
  "GetOrdersAtPrice price b = price_orders_at_price b (PriceToIndex price)"

definition best_by_price :: "Side \<Rightarrow> ('o, 'b) OrderBook_scheme \<Rightarrow> ptr" where
  "best_by_price side b = (if side = Side_BUY then bids_by_price b else asks_by_price b)"

definition set_best :: "Side \<Rightarrow> ptr \<Rightarrow> ('o, 'b) OrderBook_scheme \<Rightarrow> ('o, 'b) OrderBook_scheme" where
  "set_best side p b =
     (if side = Side_BUY then b\<lparr>bids_by_price := p\<rparr> else b\<lparr>asks_by_price := p\<rparr>)"

definition level :: "('o, 'b) OrderBook_scheme \<Rightarrow> ptr \<Rightarrow> OrdersAtPrice result" where
  "level b p = deref (orders_at_price_pool b) p"

definition set_level ::
  "ptr \<Rightarrow> (OrdersAtPrice \<Rightarrow> OrdersAtPrice) \<Rightarrow> ('o, 'b) OrderBook_scheme \<Rightarrow> ('o, 'b) OrderBook_scheme result" where
  "set_level p f b =
     rbind (assign p f (orders_at_price_pool b)) (\<lambda>P. Inr (b\<lparr>orders_at_price_pool := P\<rparr>))"

definition order :: "('o, 'b) OrderBook_scheme \<Rightarrow> ptr \<Rightarrow> 'o result" where
  "order b p = deref (order_pool b) p"

definition set_order ::
  "ptr \<Rightarrow> ('o \<Rightarrow> 'o) \<Rightarrow> ('o, 'b) OrderBook_scheme \<Rightarrow> ('o, 'b) OrderBook_scheme result" where
  "set_order p f b = rbind (assign p f (order_pool b)) (\<lambda>P. Inr (b\<lparr>order_pool := P\<rparr>))"

definition dealloc_ptr :: "ptr \<Rightarrow> 'a MemoryPool \<Rightarrow> 'a MemoryPool result" where
  "dealloc_ptr p P =
     (case p of
        None \<Rightarrow> Inl (Assert_failed ''Element being deallocated does not belong to this Memory pool.'')
      | Some a \<Rightarrow> Deallocate a P)"

section \<open>Inserting and removing a price level\<close>

text \<open>
  The condition the code repeats: a new level of the side and price given belongs behind a level
  of price \<open>target_price\<close>.
\<close>

definition goes_after :: "Side \<Rightarrow> Price \<Rightarrow> Price \<Rightarrow> bool" where
  "goes_after side price target_price \<longleftrightarrow>
     (side = Side_SELL \<and> price > target_price) \<or> (side = Side_BUY \<and> price < target_price)"

text \<open>The loop \<open>while (add_after && target != best_orders_by_price)\<close>.\<close>

partial_function (option) find_target ::
  "('o, 'b) OrderBook_scheme \<Rightarrow> Side \<Rightarrow> Price \<Rightarrow> ptr \<Rightarrow> bool \<Rightarrow> ptr \<Rightarrow> (bool \<times> ptr) result option" where
  "find_target b side price best add_after target =
     (if add_after \<and> target \<noteq> best then
        (case level b target of
           Inl e \<Rightarrow> Some (Inl e)
         | Inr t \<Rightarrow>
             if goes_after side price (l_price t)
             then find_target b side price best True (l_next_entry t)
             else find_target b side price best False target)
      else Some (Inr (add_after, target)))"

text \<open>Add \<open>new\<close> after \<open>target\<close>.\<close>

definition link_after ::
  "ptr \<Rightarrow> ptr \<Rightarrow> ptr \<Rightarrow> ('o, 'b) OrderBook_scheme \<Rightarrow> ('o, 'b) OrderBook_scheme result" where
  "link_after new target best b =
     rbind (if target = best then rbind (level b best) (\<lambda>bst. Inr (l_prev_entry bst)) else Inr target) (\<lambda>target.
     rbind (set_level new (\<lambda>l. l\<lparr>l_prev_entry := target\<rparr>) b) (\<lambda>b.
     rbind (level b target) (\<lambda>t.
     rbind (set_level (l_next_entry t) (\<lambda>l. l\<lparr>l_prev_entry := new\<rparr>) b) (\<lambda>b.
     rbind (level b target) (\<lambda>t.
     rbind (set_level new (\<lambda>l. l\<lparr>l_next_entry := l_next_entry t\<rparr>) b) (\<lambda>b.
     set_level target (\<lambda>l. l\<lparr>l_next_entry := new\<rparr>) b))))))"

text \<open>Add \<open>new\<close> before \<open>target\<close>; a new level better than the best one becomes the best.\<close>

definition link_before ::
  "ptr \<Rightarrow> ptr \<Rightarrow> ptr \<Rightarrow> ('o, 'b) OrderBook_scheme \<Rightarrow> ('o, 'b) OrderBook_scheme result" where
  "link_before new target best b =
     rbind (level b target) (\<lambda>t.
     rbind (set_level new (\<lambda>l. l\<lparr>l_prev_entry := l_prev_entry t\<rparr>) b) (\<lambda>b.
     rbind (set_level new (\<lambda>l. l\<lparr>l_next_entry := target\<rparr>) b) (\<lambda>b.
     rbind (level b target) (\<lambda>t.
     rbind (set_level (l_prev_entry t) (\<lambda>l. l\<lparr>l_next_entry := new\<rparr>) b) (\<lambda>b.
     rbind (set_level target (\<lambda>l. l\<lparr>l_prev_entry := new\<rparr>) b) (\<lambda>b.
     rbind (level b new) (\<lambda>n.
     rbind (level b best) (\<lambda>bst.
     if (l_side n = Side_BUY \<and> l_price n > l_price bst) \<or> (l_side n = Side_SELL \<and> l_price n < l_price bst)
     then
       rbind (level b target) (\<lambda>t.
       rbind (set_level target
                (\<lambda>l. l\<lparr>l_next_entry := (if l_next_entry t = best then new else l_next_entry t)\<rparr>) b) (\<lambda>b.
       Inr (set_best (l_side n) new b)))
     else Inr b))))))))"

definition AddOrdersAtPrice ::
  "ptr \<Rightarrow> ('o, 'b) OrderBook_scheme \<Rightarrow> ('o, 'b) OrderBook_scheme result" where
  "AddOrdersAtPrice new b =
     rbind (level b new) (\<lambda>n.
     let b = b\<lparr>price_orders_at_price := (price_orders_at_price b)(PriceToIndex (l_price n) := new)\<rparr>;
         best = best_by_price (l_side n) b
     in if best = None then
          set_level new (\<lambda>l. l\<lparr>l_prev_entry := new, l_next_entry := new\<rparr>) (set_best (l_side n) new b)
        else
          rbind (level b best) (\<lambda>bst.
          rbind (if goes_after (l_side n) (l_price n) (l_price bst)
                 then (let target = l_next_entry bst
                       in rbind (level b target) (\<lambda>t.
                          Inr (goes_after (l_side n) (l_price n) (l_price t), target)))
                 else Inr (False, best)) (\<lambda>(add_after, target).
          rbind (loop_result (find_target b (l_side n) (l_price n) best add_after target)) (\<lambda>(add_after, target).
          if add_after then link_after new target best b else link_before new target best b))))"

definition RemoveOrdersAtPrice ::
  "Side \<Rightarrow> Price \<Rightarrow> ('o, 'b) OrderBook_scheme \<Rightarrow> ('o, 'b) OrderBook_scheme result" where
  "RemoveOrdersAtPrice side price b =
     (let best = best_by_price side b;
          lp = GetOrdersAtPrice price b
      in rbind (level b lp) (\<lambda>l.
         rbind
           (if l_next_entry l = lp then Inr (set_best side None b)
            else
              rbind (set_level (l_prev_entry l) (\<lambda>q. q\<lparr>l_next_entry := l_next_entry l\<rparr>) b) (\<lambda>b.
              rbind (level b lp) (\<lambda>l.
              rbind (set_level (l_next_entry l) (\<lambda>q. q\<lparr>l_prev_entry := l_prev_entry l\<rparr>) b) (\<lambda>b.
              rbind (level b lp) (\<lambda>l.
              set_level lp (\<lambda>q. q\<lparr>l_prev_entry := None, l_next_entry := None\<rparr>)
                (if lp = best then set_best side (l_next_entry l) b else b)))))) (\<lambda>b.
         let b = b\<lparr>price_orders_at_price := (price_orders_at_price b)(PriceToIndex price := None)\<rparr>
         in rbind (dealloc_ptr lp (orders_at_price_pool b)) (\<lambda>P.
            Inr (b\<lparr>orders_at_price_pool := P\<rparr>)))))"

section \<open>Linking and unlinking an order\<close>

text \<open>
  \<open>AddOrder\<close> and \<open>RemoveOrder\<close> of the books without their last statements, which keep the map
  from order ids and return the order to its pool.
\<close>

definition link_order ::
  "nat \<Rightarrow> ('r TradingOrder_scheme, 'b) OrderBook_scheme \<Rightarrow> ('r TradingOrder_scheme, 'b) OrderBook_scheme result" where
  "link_order x b =
     rbind (order b (Some x)) (\<lambda>o1.
     let lp = GetOrdersAtPrice (o_price o1) b
     in if lp = None then
          rbind (set_order (Some x) (\<lambda>q. q\<lparr>o_prev_order := Some x, o_next_order := Some x\<rparr>) b) (\<lambda>b.
          rbind (Allocate \<lparr>l_side = o_side o1, l_price = o_price o1, l_first_order = Some x,
                           l_prev_entry = None, l_next_entry = None\<rparr> (orders_at_price_pool b)) (\<lambda>(a, P).
          AddOrdersAtPrice (Some a) (b\<lparr>orders_at_price_pool := P\<rparr>)))
        else
          rbind (level b lp) (\<lambda>l.
          let first = l_first_order l
          in rbind (order b first) (\<lambda>f.
             rbind (set_order (o_prev_order f) (\<lambda>q. q\<lparr>o_next_order := Some x\<rparr>) b) (\<lambda>b.
             rbind (order b first) (\<lambda>f.
             rbind (set_order (Some x) (\<lambda>q. q\<lparr>o_prev_order := o_prev_order f\<rparr>) b) (\<lambda>b.
             rbind (set_order (Some x) (\<lambda>q. q\<lparr>o_next_order := first\<rparr>) b) (\<lambda>b.
             set_order first (\<lambda>q. q\<lparr>o_prev_order := Some x\<rparr>) b)))))))"

definition unlink_order ::
  "nat \<Rightarrow> ('r TradingOrder_scheme, 'b) OrderBook_scheme \<Rightarrow> ('r TradingOrder_scheme, 'b) OrderBook_scheme result" where
  "unlink_order x b =
     rbind (order b (Some x)) (\<lambda>o1.
     let lp = GetOrdersAtPrice (o_price o1) b
     in if o_prev_order o1 = Some x then RemoveOrdersAtPrice (o_side o1) (o_price o1) b
        else
          (let before = o_prev_order o1; after = o_next_order o1
           in rbind (set_order before (\<lambda>q. q\<lparr>o_next_order := after\<rparr>) b) (\<lambda>b.
              rbind (set_order after (\<lambda>q. q\<lparr>o_prev_order := before\<rparr>) b) (\<lambda>b.
              rbind (level b lp) (\<lambda>l.
              rbind (if l_first_order l = Some x
                     then set_level lp (\<lambda>q. q\<lparr>l_first_order := after\<rparr>) b else Inr b) (\<lambda>b.
              set_order (Some x) (\<lambda>q. q\<lparr>o_prev_order := None, o_next_order := None\<rparr>) b))))))"

end
