(* ===== verification/Order_Levels_Rep.thy ===== *)
theory Order_Levels_Rep
  imports Order_Levels
begin

text \<open>
  The heap of an order book as address lists. \<open>book_ok b L\<close> relates the pools, the ring pointers,
  the best pointers and the price slots of \<open>b\<close> to \<open>L\<close>, which gives for each side its levels from
  the best one, each with the addresses of its orders from the oldest. The lemmas say what the
  operations of \<open>Order_Levels\<close> do to \<open>L\<close>, so that nothing later looks at a pointer again.
\<close>

type_synonym levels = "(nat \<times> nat list) list"

abbreviation lvl :: "('o, 'b) OrderBook_scheme \<Rightarrow> nat \<Rightarrow> OrdersAtPrice" where
  "lvl b \<equiv> obj (orders_at_price_pool b)"

abbreviation ord :: "('o, 'b) OrderBook_scheme \<Rightarrow> nat \<Rightarrow> 'o" where
  "ord b \<equiv> obj (order_pool b)"

definition addrs :: "levels \<Rightarrow> nat list" where
  "addrs ls = concat (map snd ls)"

definition lprice :: "('o, 'b) OrderBook_scheme \<Rightarrow> nat \<times> nat list \<Rightarrow> Price" where
  "lprice b lv = l_price (lvl b (fst lv))"

definition level_ok :: "('r TradingOrder_scheme, 'b) OrderBook_scheme \<Rightarrow> Side \<Rightarrow> nat \<times> nat list \<Rightarrow> bool" where
  "level_ok b s lv \<longleftrightarrow>
     snd lv \<noteq> [] \<and> l_side (lvl b (fst lv)) = s \<and> l_first_order (lvl b (fst lv)) = Some (hd (snd lv)) \<and>
     ring (\<lambda>x. o_next_order (ord b x)) (\<lambda>x. o_prev_order (ord b x)) (snd lv) \<and>
     (\<forall>x\<in>set (snd lv). o_price (ord b x) = lprice b lv \<and> o_side (ord b x) = s)"

definition side_ok :: "('r TradingOrder_scheme, 'b) OrderBook_scheme \<Rightarrow> Side \<Rightarrow> levels \<Rightarrow> bool" where
  "side_ok b s ls \<longleftrightarrow>
     best_by_price s b = (if ls = [] then None else Some (fst (hd ls))) \<and>
     ring (\<lambda>a. l_next_entry (lvl b a)) (\<lambda>a. l_prev_entry (lvl b a)) (map fst ls) \<and>
     (\<forall>lv\<in>set ls. level_ok b s lv) \<and>
     sorted_wrt (\<lambda>p q. goes_after s q p) (map (lprice b) ls)"

definition index_ok :: "('o, 'b) OrderBook_scheme \<Rightarrow> levels \<Rightarrow> bool" where
  "index_ok b ls \<longleftrightarrow>
     (\<forall>lv\<in>set ls. price_orders_at_price b (PriceToIndex (lprice b lv)) = Some (fst lv)) \<and>
     (\<forall>i a. price_orders_at_price b i = Some a \<longrightarrow> (\<exists>lv\<in>set ls. fst lv = a \<and> PriceToIndex (lprice b lv) = i))"

abbreviation all_levels :: "(Side \<Rightarrow> levels) \<Rightarrow> levels" where
  "all_levels L \<equiv> L Side_BUY @ L Side_SELL"

definition book_ok :: "('r TradingOrder_scheme, 'b) OrderBook_scheme \<Rightarrow> (Side \<Rightarrow> levels) \<Rightarrow> bool" where
  "book_ok b L \<longleftrightarrow>
     (\<forall>s\<in>{Side_BUY, Side_SELL}. side_ok b s (L s)) \<and>
     distinct (map fst (all_levels L)) \<and> distinct (addrs (all_levels L)) \<and>
     index_ok b (all_levels L) \<and>
     pool_ok (orders_at_price_pool b) \<and> live (orders_at_price_pool b) = fst ` set (all_levels L)"

abbreviation trade_side :: "Side \<Rightarrow> bool" where
  "trade_side s \<equiv> s = Side_BUY \<or> s = Side_SELL"

definition other_side :: "Side \<Rightarrow> Side" where
  "other_side s = (if s = Side_BUY then Side_SELL else Side_BUY)"

section \<open>Elementary facts\<close>

lemma addrs_simps [simp]:
  "addrs [] = []" "addrs (lv # ls) = snd lv @ addrs ls" "addrs (us @ vs) = addrs us @ addrs vs"
  by (simp_all add: addrs_def)

lemma in_addrs_iff: "x \<in> set (addrs ls) \<longleftrightarrow> (\<exists>lv\<in>set ls. x \<in> set (snd lv))"
  by (auto simp: addrs_def)

lemma goes_after_trans: "goes_after s q p \<Longrightarrow> goes_after s r q \<Longrightarrow> goes_after s r p"
  by (auto simp: goes_after_def)

lemma goes_after_irrefl [simp]: "\<not> goes_after s p p"
  by (simp add: goes_after_def)

lemma goes_after_linear: "trade_side s \<Longrightarrow> p \<noteq> q \<Longrightarrow> goes_after s q p \<or> goes_after s p q"
  by (auto simp: goes_after_def)

lemma goes_after_asym: "goes_after s q p \<Longrightarrow> \<not> goes_after s p q"
  by (auto simp: goes_after_def)

lemma PriceToIndex_less [simp]: "PriceToIndex p < ME_MAX_PRICE_LEVELS"
  by (simp add: PriceToIndex_def ME_MAX_PRICE_LEVELS_def)

lemma level_Some [simp]: "level b (Some a) = Inr (lvl b a)" "level b None = Inl Null_deref"
  by (simp_all add: level_def)

lemma order_Some [simp]: "order b (Some a) = Inr (ord b a)" "order b None = Inl Null_deref"
  by (simp_all add: order_def)

lemma set_level_Some [simp]:
  "set_level (Some a) f b = Inr (b\<lparr>orders_at_price_pool := upd_obj a f (orders_at_price_pool b)\<rparr>)"
  "set_level None f b = Inl Null_deref"
  by (simp_all add: set_level_def)

lemma set_order_Some [simp]:
  "set_order (Some a) f b = Inr (b\<lparr>order_pool := upd_obj a f (order_pool b)\<rparr>)"
  "set_order None f b = Inl Null_deref"
  by (simp_all add: set_order_def)

lemma best_by_price_set_best [simp]:
  "trade_side s \<Longrightarrow> trade_side t \<Longrightarrow> best_by_price t (set_best s p b) = (if t = s then p else best_by_price t b)"
  by (auto simp: best_by_price_def set_best_def)

lemma set_best_frame [simp]:
  "orders_at_price_pool (set_best s p b) = orders_at_price_pool b"
  "price_orders_at_price (set_best s p b) = price_orders_at_price b"
  "order_pool (set_best s p b) = order_pool b" "more (set_best s p b) = more b"
  by (simp_all add: set_best_def)

lemma best_by_price_frame [simp]:
  "best_by_price s (b\<lparr>orders_at_price_pool := P\<rparr>) = best_by_price s b"
  "best_by_price s (b\<lparr>price_orders_at_price := m\<rparr>) = best_by_price s b"
  "best_by_price s (b\<lparr>order_pool := Q\<rparr>) = best_by_price s b"
  by (simp_all add: best_by_price_def)

section \<open>Walking the levels\<close>

lemma find_target_walk:
  assumes "ring (\<lambda>a. l_next_entry (lvl b a)) prv (map fst (ws' @ ws @ vs))" "ws' \<noteq> []"
    and "\<forall>w\<in>set ws. goes_after s p (lprice b w)"
    and "vs \<noteq> [] \<Longrightarrow> \<not> goes_after s p (lprice b (hd vs))"
  shows "find_target b s p (Some (fst (hd ws'))) True (Some (fst (hd (ws @ vs @ [hd ws'])))) =
    Some (Inr (vs = [], Some (fst (hd (vs @ [hd ws'])))))"
  using assms
proof (induction ws arbitrary: ws')
  case Nil
  have "vs \<noteq> [] \<Longrightarrow> fst (hd vs) \<noteq> fst (hd ws')"
    using ring_distinct [OF Nil.prems(1)] Nil.prems(2) by (cases vs; cases ws') auto
  with Nil.prems show ?case
    by (cases vs) (auto simp: find_target.simps [of b s p _ True] find_target.simps [of b s p _ False] lprice_def)
next
  case (Cons w ws)
  have d: "distinct (map fst (ws' @ w # ws @ vs))"
    using ring_distinct [OF Cons.prems(1)] by simp
  have neq: "fst w \<noteq> fst (hd ws')" using d Cons.prems(2) by (cases ws') auto
  have "ring (\<lambda>a. l_next_entry (lvl b a)) prv (map fst ws' @ fst w # map fst (ws @ vs))"
    using Cons.prems(1) by simp
  from ring_next [OF this] have nxt:
    "l_next_entry (lvl b (fst w)) = Some (fst (hd (ws @ vs @ [hd ws'])))"
    using Cons.prems(2) by (cases ws; cases vs; cases ws') auto
  have "find_target b s p (Some (fst (hd (ws' @ [w])))) True (Some (fst (hd (ws @ vs @ [hd (ws' @ [w])])))) =
    Some (Inr (vs = [], Some (fst (hd (vs @ [hd (ws' @ [w])])))))"
    using Cons.prems by (intro Cons.IH) auto
  moreover have "find_target b s p (Some (fst (hd ws'))) True (Some (fst w)) =
     find_target b s p (Some (fst (hd ws'))) True (l_next_entry (lvl b (fst w)))"
    using neq Cons.prems(3) by (simp add: find_target.simps [of b s p _ True "Some (fst w)"] lprice_def)
  ultimately show ?case using nxt Cons.prems(2) by simp
qed

section \<open>Splitting a side at a price\<close>

lemma side_split:
  assumes "sorted_wrt (\<lambda>p q. goes_after s q p) (map f ls)"
  obtains us vs where "ls = us @ vs" "\<forall>u\<in>set us. goes_after s p (f u)" "\<forall>v\<in>set vs. \<not> goes_after s p (f v)"
proof -
  let ?Q = "\<lambda>u. goes_after s p (f u)"
  have after: "\<not> ?Q v" if "v \<in> set (dropWhile ?Q ls)" for v
    using assms that
  proof (induction ls)
    case (Cons l ls)
    then show ?case
      using goes_after_trans [of s "f v" "f l" p] by (cases "?Q l") auto
  qed simp
  show thesis
  proof (rule that)
    show "ls = takeWhile ?Q ls @ dropWhile ?Q ls" by simp
    show "\<forall>u\<in>set (takeWhile ?Q ls). ?Q u" by (blast dest: set_takeWhileD)
    show "\<forall>v\<in>set (dropWhile ?Q ls). \<not> ?Q v" using after by blast
  qed
qed

text \<open>
  What relinking the levels of one side leaves alone: everything but the ring pointers of the
  levels at \<open>A\<close>, the best pointer of side \<open>s\<close>, the price slots and the freed levels \<open>D\<close>.
\<close>

definition relinked ::
  "nat set \<Rightarrow> nat set \<Rightarrow> Side \<Rightarrow> ('o, 'b) OrderBook_scheme \<Rightarrow> ('o, 'b) OrderBook_scheme \<Rightarrow> bool" where
  "relinked A D s b b' \<longleftrightarrow>
     order_pool b' = order_pool b \<and> more b' = more b \<and>
     (\<forall>t. trade_side t \<longrightarrow> t \<noteq> s \<longrightarrow> best_by_price t b' = best_by_price t b) \<and>
     live (orders_at_price_pool b') = live (orders_at_price_pool b) - D \<and>
     (pool_ok (orders_at_price_pool b) \<longrightarrow> pool_ok (orders_at_price_pool b')) \<and>
     store_size (orders_at_price_pool b') = store_size (orders_at_price_pool b) \<and>
     (\<forall>c. l_side (lvl b' c) = l_side (lvl b c) \<and> l_price (lvl b' c) = l_price (lvl b c) \<and>
       l_first_order (lvl b' c) = l_first_order (lvl b c)) \<and>
     (\<forall>c. c \<notin> A \<longrightarrow> lvl b' c = lvl b c)"

abbreviation lring :: "('o, 'b) OrderBook_scheme \<Rightarrow> nat list \<Rightarrow> bool" where
  "lring b xs \<equiv> ring (\<lambda>a. l_next_entry (lvl b a)) (\<lambda>a. l_prev_entry (lvl b a)) xs"

lemma link_before_ok:
  assumes r: "lring b (us @ t # vs)" and a: "a \<notin> set (us @ t # vs)"
    and h: "h = hd (us @ [t])" and s: "trade_side s" "l_side (lvl b a) = s"
    and better: "goes_after s (l_price (lvl b h)) (l_price (lvl b a)) \<longleftrightarrow> us = []"
  obtains b' where "link_before (Some a) (Some t) (Some h) b = Inr b'" "lring b' (us @ a # t # vs)"
    "relinked (insert a (set (us @ t # vs))) {} s b b'"
    "price_orders_at_price b' = price_orders_at_price b"
    "best_by_price s b' = (if us = [] then Some a else best_by_price s b)"
proof -
  obtain l where l: "l = last (t # vs @ us)" by simp
  have prev: "l_prev_entry (lvl b t) = Some l"
    using ring_prev [OF r] l by simp
  have lin: "l \<in> set (us @ t # vs)" using last_in_set [of "t # vs @ us"] l by auto
  have ne: "a \<noteq> t" "a \<noteq> l" "a \<noteq> h" using a lin h by (auto simp: hd_append)
  let ?P = "upd_obj t (\<lambda>q. q\<lparr>l_prev_entry := Some a\<rparr>) (upd_obj l (\<lambda>q. q\<lparr>l_next_entry := Some a\<rparr>)
     (upd_obj a (\<lambda>q. q\<lparr>l_next_entry := Some t\<rparr>) (upd_obj a (\<lambda>q. q\<lparr>l_prev_entry := Some l\<rparr>)
       (orders_at_price_pool b))))"
  let ?b = "b\<lparr>orders_at_price_pool := ?P\<rparr>"
  have ring: "lring ?b (us @ a # t # vs)"
    using ne a by (intro ring_insert_before [OF r a prev]) auto
  have rel: "relinked (insert a (set (us @ t # vs))) {} s b ?b"
    using lin by (auto simp: relinked_def)
  have better': "(s = Side_BUY \<and> l_price (lvl b h) < l_price (lvl b a) \<or>
      s = Side_SELL \<and> l_price (lvl b a) < l_price (lvl b h)) \<longleftrightarrow> us = []"
    using better by (auto simp: goes_after_def)
  show thesis
  proof (cases "us = []")
    case False
    then have res: "link_before (Some a) (Some t) (Some h) b = Inr ?b"
      using prev ne better' s by (elim disjE; cases "h = l"; cases "h = t") (simp_all add: link_before_def)
    show thesis by (rule that [OF res ring rel]) (use False in simp_all)
  next
    case True
    with h have ht: "h = t" by simp
    have nt: "l_next_entry (lvl ?b t) \<noteq> Some t"
      using ring_next [OF r] ring_distinct [OF r] ne l True by (cases vs) auto
    let ?b' = "set_best s (Some a) (b\<lparr>orders_at_price_pool :=
        upd_obj t (\<lambda>q. q\<lparr>l_next_entry := l_next_entry (lvl ?b t)\<rparr>) ?P\<rparr>)"
    have res: "link_before (Some a) (Some t) (Some h) b = Inr ?b'"
      using prev ne better' s True ht nt by (elim disjE; cases "t = l") (simp_all add: link_before_def)
    have same: "lvl ?b' c = lvl ?b c" for c by simp
    from rel have rel': "relinked (insert a (set (us @ t # vs))) {} s b ?b'"
      using s by (auto simp: relinked_def)
    have ring': "lring ?b' (us @ a # t # vs)" using ring by (simp only: same)
    show thesis by (rule that [OF res ring' rel']) (use True s in simp_all)
  qed
qed

lemma link_after_ok:
  assumes r: "lring b us" "us \<noteq> []" and a: "a \<notin> set us" and h: "h = hd us"
  obtains b' where "link_after (Some a) (Some h) (Some h) b = Inr b'" "lring b' (us @ [a])"
    "relinked (insert a (set us)) {} s b b'"
    "price_orders_at_price b' = price_orders_at_price b" "best_by_price t b' = best_by_price t b"
proof -
  obtain us' where us: "us = h # us'" using r(2) h by (cases us) auto
  obtain l where l: "l = last us" by simp
  have prev: "l_prev_entry (lvl b h) = Some l" and nxt: "l_next_entry (lvl b l) = Some h"
    using ring_prev_hd [OF r(1) [unfolded us]] l us by simp_all
  have lin: "l \<in> set us" "h \<in> set us" using r(2) l us by auto
  then have ne: "a \<noteq> h" "a \<noteq> l" using a by auto
  let ?P = "upd_obj l (\<lambda>q. q\<lparr>l_next_entry := Some a\<rparr>) (upd_obj a (\<lambda>q. q\<lparr>l_next_entry := Some h\<rparr>)
     (upd_obj h (\<lambda>q. q\<lparr>l_prev_entry := Some a\<rparr>) (upd_obj a (\<lambda>q. q\<lparr>l_prev_entry := Some l\<rparr>)
       (orders_at_price_pool b))))"
  let ?b = "b\<lparr>orders_at_price_pool := ?P\<rparr>"
  have 1: "link_after (Some a) (Some h) (Some h) b = Inr ?b"
    using prev nxt ne by (auto simp: link_after_def)
  have "lring ?b ((h # us') @ [a])"
    using ne a by (intro ring_insert_tail [OF r(1) [unfolded us]]) (auto simp: us l)
  then have 2: "lring ?b (us @ [a])" by (simp only: us)
  have 3: "relinked (insert a (set us)) {} s b ?b"
    using lin by (auto simp: relinked_def)
  show thesis by (rule that [OF 1 2 3]) simp_all
qed

text \<open>Where a new level goes: the walk from the best level \<open>u\<close> ends behind the levels that are better.\<close>

lemma find_target_position:
  assumes r: "lring b (map fst (u # us @ vs))"
    and us: "\<forall>w\<in>set (u # us). goes_after s p (lprice b w)" and vs: "\<forall>v\<in>set vs. \<not> goes_after s p (lprice b v)"
    and t: "t = fst (hd (us @ vs @ [u]))"
  shows "l_next_entry (lvl b (fst u)) = Some t"
    "find_target b s p (Some (fst u)) (goes_after s p (l_price (lvl b t))) (Some t) =
      Some (Inr (vs = [], Some (fst (hd (vs @ [u])))))"
proof -
  show "l_next_entry (lvl b (fst u)) = Some t"
    using ring_next_hd(1) [of _ _ "fst u" "map fst (us @ vs)"] r t by (cases us; cases vs) auto
  have walk: "find_target b s p (Some (fst u)) True (Some t) = Some (Inr (vs = [], Some (fst (hd (vs @ [u])))))"
    using find_target_walk [of b _ "[u]" us vs s p] r us vs t by (cases vs) simp_all
  show "find_target b s p (Some (fst u)) (goes_after s p (l_price (lvl b t))) (Some t) =
      Some (Inr (vs = [], Some (fst (hd (vs @ [u])))))"
  proof (cases "goes_after s p (l_price (lvl b t))")
    case False
    then have "us = [] \<and> vs \<noteq> []" using us t by (cases us; cases vs) (auto simp: lprice_def)
    with False t show ?thesis by (cases vs) (simp_all add: find_target.simps)
  qed (use walk in simp)
qed

text \<open>The level \<open>a\<close> has entered a side between \<open>us\<close> and \<open>vs\<close>.\<close>

definition level_added ::
  "nat \<Rightarrow> Side \<Rightarrow> levels \<Rightarrow> levels \<Rightarrow> ('o, 'b) OrderBook_scheme \<Rightarrow> ('o, 'b) OrderBook_scheme \<Rightarrow> bool" where
  "level_added a s us vs b b' \<longleftrightarrow>
     lring b' (map fst us @ a # map fst vs) \<and>
     best_by_price s b' = (if us = [] then Some a else Some (fst (hd us))) \<and>
     relinked (insert a (fst ` set (us @ vs))) {} s b b' \<and>
     price_orders_at_price b' = (price_orders_at_price b)(PriceToIndex (l_price (lvl b a)) := Some a)"

abbreviation with_slot :: "nat \<Rightarrow> ('o, 'b) OrderBook_scheme \<Rightarrow> ('o, 'b) OrderBook_scheme" where
  "with_slot a b \<equiv>
     b\<lparr>price_orders_at_price := (price_orders_at_price b)(PriceToIndex (l_price (lvl b a)) := Some a)\<rparr>"

lemma lprice_with_slot [simp]: "lprice (with_slot a b) = lprice b"
  by (rule ext) (simp add: lprice_def)

lemma AddOrdersAtPrice_alone:
  assumes "trade_side s" "best_by_price s b = None" "l_side (lvl b a) = s"
  shows "\<exists>b'. AddOrdersAtPrice (Some a) b = Inr b' \<and> level_added a s [] [] b b'"
proof -
  let ?b' = "set_best s (Some a) (with_slot a b\<lparr>orders_at_price_pool :=
      upd_obj a (\<lambda>l. l\<lparr>l_prev_entry := Some a, l_next_entry := Some a\<rparr>) (orders_at_price_pool b)\<rparr>)"
  have "AddOrdersAtPrice (Some a) b = Inr ?b'"
    using assms by (auto simp: AddOrdersAtPrice_def set_best_def)
  moreover have "level_added a s [] [] b ?b'" using assms(1) by (auto simp: level_added_def relinked_def)
  ultimately show ?thesis by blast
qed

lemma AddOrdersAtPrice_first:
  assumes s: "trade_side s" and best: "best_by_price s b = Some (fst v)" and side: "l_side (lvl b a) = s"
    and r: "lring b (map fst (v # vs))" and a: "a \<notin> fst ` set (v # vs)"
    and better: "goes_after s (lprice b v) (l_price (lvl b a))"
  shows "\<exists>b'. AddOrdersAtPrice (Some a) b = Inr b' \<and> level_added a s [] (v # vs) b b'"
proof -
  obtain b' where b': "link_before (Some a) (Some (fst v)) (Some (fst v)) (with_slot a b) = Inr b'"
    "lring b' ([] @ a # fst v # map fst vs)"
    "relinked (insert a (set ([] @ fst v # map fst vs))) {} s (with_slot a b) b'"
    "price_orders_at_price b' = price_orders_at_price (with_slot a b)"
    "best_by_price s b' = (if ([]::nat list) = [] then Some a else best_by_price s (with_slot a b))"
    by (rule link_before_ok [of "with_slot a b" "[]" "fst v" "map fst vs" a "fst v" s])
      (use r a s side better in \<open>auto simp: lprice_def\<close>)
  have "AddOrdersAtPrice (Some a) b = Inr b'"
    using b'(1) best side goes_after_asym [OF better]
    by (simp add: AddOrdersAtPrice_def find_target.simps lprice_def)
  moreover have "level_added a s [] (v # vs) b b'" using b' by (auto simp: level_added_def relinked_def)
  ultimately show ?thesis by blast
qed

lemma AddOrdersAtPrice_later:
  assumes s: "trade_side s" and best: "best_by_price s b = Some (fst u)" and side: "l_side (lvl b a) = s"
    and r: "lring b (map fst (u # us @ vs))" and a: "a \<notin> fst ` set (u # us @ vs)"
    and us: "\<forall>w\<in>set (u # us). goes_after s (l_price (lvl b a)) (lprice b w)"
    and vs: "\<forall>v\<in>set vs. \<not> goes_after s (l_price (lvl b a)) (lprice b v)"
  shows "\<exists>b'. AddOrdersAtPrice (Some a) b = Inr b' \<and> level_added a s (u # us) vs b b'"
proof -
  let ?b = "with_slot a b" and ?h = "fst u"
  have rb: "lring ?b (map fst (u # us @ vs))" using r by simp
  note position = find_target_position [OF rb, of s "l_price (lvl b a)", unfolded lprice_with_slot, OF us vs refl]
  have ga: "goes_after s (l_price (lvl b a)) (l_price (lvl b ?h))" using us by (simp add: lprice_def)
  have walk: "AddOrdersAtPrice (Some a) b =
      (if vs = [] then link_after (Some a) (Some ?h) (Some ?h) ?b
       else link_before (Some a) (Some (fst (hd vs))) (Some ?h) ?b)"
    using best side ga position by (cases vs) (simp_all add: AddOrdersAtPrice_def)
  show ?thesis
  proof (cases vs)
    case Nil
    obtain b' where "link_after (Some a) (Some ?h) (Some ?h) ?b = Inr b'"
      "lring b' (map fst (u # us) @ [a])" "relinked (insert a (set (map fst (u # us)))) {} s ?b b'"
      "price_orders_at_price b' = price_orders_at_price ?b" "best_by_price s b' = best_by_price s ?b"
      by (rule link_after_ok [of ?b "map fst (u # us)" a ?h s s]) (use rb Nil a in auto)
    then show ?thesis using walk Nil best by (auto simp: level_added_def relinked_def)
  next
    case (Cons v vs')
    obtain b' where "link_before (Some a) (Some (fst v)) (Some ?h) ?b = Inr b'"
      "lring b' (map fst (u # us) @ a # fst v # map fst vs')"
      "relinked (insert a (set (map fst (u # us) @ fst v # map fst vs'))) {} s ?b b'"
      "price_orders_at_price b' = price_orders_at_price ?b"
      "best_by_price s b' = (if map fst (u # us) = [] then Some a else best_by_price s ?b)"
      by (rule link_before_ok [of ?b "map fst (u # us)" "fst v" "map fst vs'" a ?h s])
        (use rb Cons a s side ga in \<open>auto dest: goes_after_asym\<close>)
    then show ?thesis using walk Cons best by (auto simp: level_added_def relinked_def)
  qed
qed

lemma AddOrdersAtPrice_ok:
  assumes s: "trade_side s" and so: "side_ok b s ls"
    and a: "a \<notin> fst ` set ls" "l_side (lvl b a) = s"
    and free: "\<forall>lv\<in>set ls. lprice b lv \<noteq> l_price (lvl b a)"
  obtains b' us vs where "AddOrdersAtPrice (Some a) b = Inr b'" "ls = us @ vs"
    "\<forall>u\<in>set us. goes_after s (l_price (lvl b a)) (lprice b u)"
    "\<forall>v\<in>set vs. goes_after s (lprice b v) (l_price (lvl b a))"
    "lring b' (map fst us @ a # map fst vs)"
    "best_by_price s b' = (if us = [] then Some a else Some (fst (hd us)))"
    "relinked (insert a (fst ` set ls)) {} s b b'"
    "price_orders_at_price b' =
       (price_orders_at_price b)(PriceToIndex (l_price (lvl b a)) := Some a)"
proof -
  let ?p = "l_price (lvl b a)"
  from so have srt: "sorted_wrt (\<lambda>p q. goes_after s q p) (map (lprice b) ls)"
    and r: "lring b (map fst ls)"
    and best: "best_by_price s b = (if ls = [] then None else Some (fst (hd ls)))"
    by (simp_all add: side_ok_def)
  obtain us vs where ls: "ls = us @ vs" and us: "\<forall>u\<in>set us. goes_after s ?p (lprice b u)"
    and vs: "\<forall>v\<in>set vs. \<not> goes_after s ?p (lprice b v)"
    using side_split [OF srt, of ?p] by blast
  have vs': "\<forall>v\<in>set vs. goes_after s (lprice b v) ?p"
    using vs goes_after_linear [OF s] free ls by (metis Un_iff set_append)
  have "\<exists>b'. AddOrdersAtPrice (Some a) b = Inr b' \<and> level_added a s us vs b b'"
  proof (cases us)
    case Nil
    with ls r a best vs' s show ?thesis by (cases vs) (simp_all add: AddOrdersAtPrice_alone AddOrdersAtPrice_first)
  next
    case (Cons u us')
    with ls r a best us vs s show ?thesis by (intro AddOrdersAtPrice_later [of s b u a us' vs, folded Cons]) auto
  qed
  then show thesis using that [OF _ ls us vs'] ls by (auto simp: level_added_def)
qed

text \<open>The level \<open>a\<close> has left a side of which \<open>ls\<close> remains.\<close>

definition level_removed ::
  "nat \<Rightarrow> Side \<Rightarrow> levels \<Rightarrow> ('o, 'b) OrderBook_scheme \<Rightarrow> ('o, 'b) OrderBook_scheme \<Rightarrow> bool" where
  "level_removed a s ls b b' \<longleftrightarrow>
     lring b' (map fst ls) \<and> best_by_price s b' = (if ls = [] then None else Some (fst (hd ls))) \<and>
     relinked (insert a (fst ` set ls)) {a} s b b' \<and>
     price_orders_at_price b' = (price_orders_at_price b)(PriceToIndex (l_price (lvl b a)) := None)"

lemma RemoveOrdersAtPrice_last:
  assumes s: "trade_side s" and r: "lring b [a]" and slot: "GetOrdersAtPrice (l_price (lvl b a)) b = Some a"
    and pool: "pool_ok (orders_at_price_pool b)" "a \<in> live (orders_at_price_pool b)"
  shows "\<exists>b'. RemoveOrdersAtPrice s (l_price (lvl b a)) b = Inr b' \<and> level_removed a s [] b b'"
proof -
  obtain P where P: "Deallocate a (orders_at_price_pool b) = Inr P"
    "live P = live (orders_at_price_pool b) - {a}" "pool_ok P"
    "store_size P = store_size (orders_at_price_pool b)" "\<And>c. obj P c = lvl b c"
    using mem_pool.deallocE [OF pool] by blast
  let ?b' = "set_best s None (b\<lparr>price_orders_at_price :=
      (price_orders_at_price b)(PriceToIndex (l_price (lvl b a)) := None), orders_at_price_pool := P\<rparr>)"
  have "l_next_entry (lvl b a) = Some a" using ring_self_next_iff [of _ _ "[]" a "[]"] r by simp
  then have "RemoveOrdersAtPrice s (l_price (lvl b a)) b = Inr ?b'"
    using slot P(1) s by (auto simp: RemoveOrdersAtPrice_def dealloc_ptr_def set_best_def)
  moreover have "level_removed a s [] b ?b'" using s P by (auto simp: level_removed_def relinked_def)
  ultimately show ?thesis by blast
qed

lemma RemoveOrdersAtPrice_more:
  assumes s: "trade_side s" and more: "us @ vs \<noteq> []" and r: "lring b (map fst us @ a # map fst vs)"
    and best: "best_by_price s b = Some (fst (hd (us @ [(a, os)])))"
    and lp: "GetOrdersAtPrice (l_price (lvl b a)) b = Some a"
    and pool: "pool_ok (orders_at_price_pool b)" "a \<in> live (orders_at_price_pool b)"
  shows "\<exists>b'. RemoveOrdersAtPrice s (l_price (lvl b a)) b = Inr b' \<and> level_removed a s (us @ vs) b b'"
proof -
  let ?p = "l_price (lvl b a)"
  let ?i = "PriceToIndex ?p"
  have self: "l_next_entry (lvl b a) = Some a \<longleftrightarrow> us @ vs = []"
    using ring_self_next_iff [OF r] by simp
  obtain p0 f0 where ends: "l_prev_entry (lvl b a) = Some p0" "l_next_entry (lvl b a) = Some f0"
    using ring_prev [OF r] ring_next [OF r] by blast
  have p0: "p0 = last (a # map fst vs @ map fst us)" and f0: "f0 = hd (map fst vs @ map fst us @ [a])"
    using ring_prev [OF r] ring_next [OF r] ends by simp_all
  have mem: "p0 \<in> set (map fst (us @ vs))" "f0 \<in> set (map fst (us @ vs))"
    using more p0 f0 last_in_set [of "map fst vs @ map fst us"] by (cases vs; cases us; auto)+
  have ne: "p0 \<noteq> a" "f0 \<noteq> a" using mem ring_distinct [OF r] by auto
  have notin: "(a, y) \<notin> set us" "(a, y) \<notin> set vs" for y
    using ring_distinct [OF r] by force+
  let ?P = "upd_obj a (\<lambda>q. q\<lparr>l_prev_entry := None, l_next_entry := None\<rparr>)
     (upd_obj f0 (\<lambda>q. q\<lparr>l_prev_entry := Some p0\<rparr>)
     (upd_obj p0 (\<lambda>q. q\<lparr>l_next_entry := Some f0\<rparr>) (orders_at_price_pool b)))"
  have "pool_ok ?P" "a \<in> live ?P" using pool by simp_all
  then obtain P where P: "Deallocate a ?P = Inr P" "live P = live (orders_at_price_pool b) - {a}"
    "pool_ok P" "store_size P = store_size (orders_at_price_pool b)" "\<And>c. obj P c = obj ?P c"
    using mem_pool.deallocE [of ?P a] by (metis live_upd_obj store_size_upd_obj)
  let ?bb = "b\<lparr>price_orders_at_price := (price_orders_at_price b)(?i := None), orders_at_price_pool := P\<rparr>"
  let ?b' = "if Some a = best_by_price s b then set_best s (Some f0) ?bb else ?bb"
  have res: "RemoveOrdersAtPrice s ?p b = Inr ?b'"
    using more lp self ends ne P(1) s
    by (auto simp: RemoveOrdersAtPrice_def dealloc_ptr_def set_best_def)
  have ring: "lring ?b' (map fst us @ map fst vs)"
    using ne by (intro ring_unlink [OF r _ ends]) (use more mem notin in \<open>auto simp: P(5)\<close>)
  have bst: "best_by_price s ?b' = Some (fst (hd (us @ vs)))"
    using best f0 more s ring_distinct [OF r] by (cases us; cases vs) auto
  have frame: "order_pool ?b' = order_pool b" "more ?b' = more b"
    "orders_at_price_pool ?b' = P"
    "price_orders_at_price ?b' = (price_orders_at_price b)(?i := None)"
    by simp_all
  have other: "best_by_price t ?b' = best_by_price t b" if "trade_side t" "t \<noteq> s" for t
    using that s by simp
  have fields: "lvl ?b' c = obj ?P c" for c using P(5) by simp
  have same: "obj ?P c = lvl b c" if "c \<notin> insert a (fst ` set (us @ vs))" for c
    using that mem by auto
  have rel: "relinked (insert a (fst ` set (us @ vs))) {a} s b ?b'"
    unfolding relinked_def
  proof (intro conjI allI impI)
    fix c
    show "l_side (lvl ?b' c) = l_side (lvl b c)" "l_price (lvl ?b' c) = l_price (lvl b c)"
      "l_first_order (lvl ?b' c) = l_first_order (lvl b c)"
      by (simp_all only: fields) simp_all
    assume "c \<notin> insert a (fst ` set (us @ vs))"
    from same [OF this] show "lvl ?b' c = lvl b c" by (simp only: fields)
  qed (use other in \<open>simp_all only: frame P\<close>)
  have "level_removed a s (us @ vs) b ?b'"
    unfolding level_removed_def using ring bst rel frame(4) more by (simp only: map_append if_False)
  with res show ?thesis by blast
qed

lemma RemoveOrdersAtPrice_ok:
  assumes s: "trade_side s" and so: "side_ok b s (us @ (a, os) # vs)"
    and slot: "price_orders_at_price b (PriceToIndex (l_price (lvl b a))) = Some a"
    and pool: "pool_ok (orders_at_price_pool b)" "a \<in> live (orders_at_price_pool b)"
  obtains b' where "RemoveOrdersAtPrice s (l_price (lvl b a)) b = Inr b'"
    "lring b' (map fst (us @ vs))"
    "best_by_price s b' = (if us @ vs = [] then None else Some (fst (hd (us @ vs))))"
    "relinked (insert a (fst ` set (us @ vs))) {a} s b b'"
    "price_orders_at_price b' = (price_orders_at_price b)(PriceToIndex (l_price (lvl b a)) := None)"
proof -
  from so have best: "best_by_price s b = Some (fst (hd (us @ [(a, os)])))"
    by (cases us) (auto simp: side_ok_def)
  from so have "lring b (map fst (us @ (a, os) # vs))" by (simp add: side_ok_def)
  then have r: "lring b (map fst us @ a # map fst vs)" by simp
  have lp: "GetOrdersAtPrice (l_price (lvl b a)) b = Some a" using slot by (simp add: GetOrdersAtPrice_def)
  have "\<exists>b'. RemoveOrdersAtPrice s (l_price (lvl b a)) b = Inr b' \<and> level_removed a s (us @ vs) b b'"
  proof (cases "us @ vs = []")
    case True
    then show ?thesis using RemoveOrdersAtPrice_last [OF s _ lp pool] r by simp
  next
    case False
    then show ?thesis by (rule RemoveOrdersAtPrice_more [OF s _ r best lp pool])
  qed
  then show thesis using that by (auto simp: level_removed_def)
qed

section \<open>An order joins or leaves the book\<close>

text \<open>An order without its pointers: what the operations on the rings never change.\<close>

definition strip :: "'r TradingOrder_scheme \<Rightarrow> 'r TradingOrder_scheme" where
  "strip q = q\<lparr>o_prev_order := None, o_next_order := None\<rparr>"

lemma strip_fields:
  assumes "strip q = strip q'"
  shows "o_order_id q = o_order_id q'" "o_side q = o_side q'" "o_price q = o_price q'"
    "o_qty q = o_qty q'" "o_priority q = o_priority q'" "TradingOrder.more q = TradingOrder.more q'"
  using assms by (cases q; cases q'; simp add: strip_def)+

lemma strip_links [simp]:
  "strip (q\<lparr>o_prev_order := p\<rparr>) = strip q" "strip (q\<lparr>o_next_order := n\<rparr>) = strip q"
  by (simp_all add: strip_def)

lemma level_ok_frame:
  assumes "level_ok b s lv"
    and "l_side (lvl b' (fst lv)) = l_side (lvl b (fst lv))"
      "l_price (lvl b' (fst lv)) = l_price (lvl b (fst lv))"
      "l_first_order (lvl b' (fst lv)) = l_first_order (lvl b (fst lv))"
    and "\<And>x. x \<in> set (snd lv) \<Longrightarrow> ord b' x = ord b x"
  shows "level_ok b' s lv"
proof -
  have "ring (\<lambda>x. o_next_order (ord b' x)) (\<lambda>x. o_prev_order (ord b' x)) (snd lv) =
      ring (\<lambda>x. o_next_order (ord b x)) (\<lambda>x. o_prev_order (ord b x)) (snd lv)"
    using assms(5) by (intro ring_cong) auto
  with assms show ?thesis by (simp add: level_ok_def lprice_def)
qed

lemma map_lprice_cong:
  "(\<And>c. l_price (lvl b' c) = l_price (lvl b c)) \<Longrightarrow> lprice b' = lprice b"
  by (rule ext) (simp add: lprice_def)

lemma book_okD:
  assumes "book_ok b L" "trade_side s"
  shows "side_ok b s (L s)" "distinct (map fst (all_levels L))" "distinct (addrs (all_levels L))"
    "index_ok b (all_levels L)" "pool_ok (orders_at_price_pool b)"
    "live (orders_at_price_pool b) = fst ` set (all_levels L)"
  using assms by (auto simp: book_ok_def)

lemma all_levels_cases: "trade_side s \<Longrightarrow> set (all_levels L) = set (L s) \<union> set (L (other_side s))"
  by (auto simp: other_side_def)

lemma trade_side_other [simp]: "trade_side (other_side s)" "s \<noteq> other_side s" "other_side s \<noteq> s"
  by (auto simp: other_side_def)

lemma trade_sides: "trade_side s \<Longrightarrow> {Side_BUY, Side_SELL} = {s, other_side s}"
  by (auto simp: other_side_def)

lemma index_ok_set: "set xs = set ys \<Longrightarrow> index_ok b xs = index_ok b ys"
  by (simp add: index_ok_def)

text \<open>The two sides share no level and no order.\<close>

lemma sides_disjoint:
  assumes "book_ok b L" "trade_side s"
  shows "fst ` set (L s) \<inter> fst ` set (L (other_side s)) = {}"
    "set (addrs (L s)) \<inter> set (addrs (L (other_side s))) = {}"
    "distinct (map fst (L s))" "distinct (addrs (L s))"
  using assms by (auto simp: book_ok_def other_side_def)

text \<open>
  A book is well-formed again after one side got a new list of levels and the other side was left
  alone.
\<close>

lemma book_okI:
  assumes "book_ok b L" "trade_side s" and new: "side_ok b' s ls"
    and d: "distinct (map fst ls)" "distinct (addrs ls)"
      "fst ` set ls \<inter> fst ` set (L (other_side s)) = {}"
      "set (addrs ls) \<inter> set (addrs (L (other_side s))) = {}"
    and frame: "best_by_price (other_side s) b' = best_by_price (other_side s) b"
      "\<And>c. c \<in> fst ` set (L (other_side s)) \<Longrightarrow> lvl b' c = lvl b c"
      "\<And>x. x \<in> set (addrs (L (other_side s))) \<Longrightarrow> ord b' x = ord b x"
    and index: "index_ok b' (ls @ L (other_side s))"
    and pool: "pool_ok (orders_at_price_pool b')"
      "live (orders_at_price_pool b') = fst ` set ls \<union> fst ` set (L (other_side s))"
  shows "book_ok b' (L(s := ls))"
proof -
  let ?t = "other_side s"
  have old: "side_ok b ?t (L ?t)" using assms(1) book_okD(1) trade_side_other(1) by blast
  have "level_ok b' ?t lv" if "lv \<in> set (L ?t)" for lv
  proof (rule level_ok_frame [of b])
    show "level_ok b ?t lv" using old that by (simp add: side_ok_def)
    show "ord b' x = ord b x" if "x \<in> set (snd lv)" for x
      using frame(3) that \<open>lv \<in> set (L ?t)\<close> by (auto simp: in_addrs_iff)
  qed (use frame(2) that in auto)
  moreover have "lring b' (map fst (L ?t)) = lring b (map fst (L ?t))"
    using frame(2) by (intro ring_cong) auto
  moreover have "map (lprice b') (L ?t) = map (lprice b) (L ?t)"
    using frame(2) by (auto simp: lprice_def)
  ultimately have "side_ok b' ?t (L ?t)"
    using old frame(1) by (simp add: side_ok_def del: map_eq_conv)
  moreover have "index_ok b' (all_levels (L(s := ls)))"
  proof (rule index_ok_set [THEN iffD2, OF _ index])
    show "set (all_levels (L(s := ls))) = set (ls @ L ?t)"
      using assms(2) by (auto simp: other_side_def)
  qed
  ultimately show ?thesis
    using assms(2) new d pool book_okD(2,3) [OF assms(1,2)]
    by (elim disjE) (simp_all add: book_ok_def other_side_def image_Un Int_commute Un_commute)
qed

text \<open>What adding or removing an order leaves alone, up to the pointers of the other orders.\<close>

definition orders_kept ::
  "('r TradingOrder_scheme, 'b) OrderBook_scheme \<Rightarrow> ('r TradingOrder_scheme, 'b) OrderBook_scheme \<Rightarrow> bool" where
  "orders_kept b b' \<longleftrightarrow>
     (\<forall>y. strip (ord b' y) = strip (ord b y)) \<and> OrderBook.more b' = OrderBook.more b \<and>
     live (order_pool b') = live (order_pool b) \<and>
     (pool_ok (order_pool b) \<longrightarrow> pool_ok (order_pool b')) \<and>
     store_size (order_pool b') = store_size (order_pool b) \<and>
     store_size (orders_at_price_pool b') = store_size (orders_at_price_pool b)"

lemma lprice_order_pool [simp]: "lprice (b\<lparr>order_pool := Q\<rparr>) = lprice b"
  by (rule ext) (simp add: lprice_def)

lemma live_levels:
  assumes "book_ok b L" "trade_side s"
  shows "live (orders_at_price_pool b) = fst ` set (L s) \<union> fst ` set (L (other_side s))"
  using book_okD(6) [OF assms] all_levels_cases [OF assms(2), of L] by (metis image_Un)

lemma index_sides:
  assumes "book_ok b L" "trade_side s"
  shows "index_ok b (L s @ L (other_side s))"
  using book_okD(4) [OF assms] index_ok_set [of "all_levels L" "L s @ L (other_side s)" b]
    all_levels_cases [OF assms(2), of L] by simp

lemma addrs_upper: "lv \<in> set ls \<Longrightarrow> set (snd lv) \<subseteq> set (addrs ls)"
  by (auto simp: in_addrs_iff)

lemma order_price:
  "side_ok b s ls \<Longrightarrow> lv \<in> set ls \<Longrightarrow> y \<in> set (snd lv) \<Longrightarrow>
   o_price (ord b y) = lprice b lv \<and> o_side (ord b y) = s"
  by (auto simp: side_ok_def level_ok_def)

lemma side_prices:
  assumes "side_ok b s (us @ lv # vs)"
  shows "y \<in> set (addrs us) \<Longrightarrow> goes_after s (lprice b lv) (o_price (ord b y))"
    "y \<in> set (addrs vs) \<Longrightarrow> goes_after s (o_price (ord b y)) (lprice b lv)"
proof -
  have srt: "sorted_wrt (\<lambda>p q. goes_after s q p) (map (lprice b) (us @ lv # vs))"
    using assms by (simp add: side_ok_def)
  show "goes_after s (lprice b lv) (o_price (ord b y))" if "y \<in> set (addrs us)"
  proof -
    obtain u where u: "u \<in> set us" "y \<in> set (snd u)" using \<open>y \<in> set (addrs us)\<close> unfolding in_addrs_iff by blast
    with order_price [OF assms, of u y] srt show ?thesis by (auto simp: sorted_wrt_append)
  qed
  show "goes_after s (o_price (ord b y)) (lprice b lv)" if "y \<in> set (addrs vs)"
  proof -
    obtain v where v: "v \<in> set vs" "y \<in> set (snd v)" using \<open>y \<in> set (addrs vs)\<close> unfolding in_addrs_iff by blast
    with order_price [OF assms, of v y] srt show ?thesis by (auto simp: sorted_wrt_append)
  qed
qed

lemma price_slot:
  assumes "book_ok b L" "lv \<in> set (all_levels L)"
  shows "GetOrdersAtPrice (lprice b lv) b = Some (fst lv)"
  using assms by (auto simp: book_ok_def index_ok_def GetOrdersAtPrice_def)

lemma price_slot_Some:
  assumes "book_ok b L" "GetOrdersAtPrice p b = Some a"
  obtains lv where "lv \<in> set (all_levels L)" "fst lv = a" "PriceToIndex (lprice b lv) = PriceToIndex p"
  using book_okD(4) [OF assms(1), of Side_BUY] assms(2)
  unfolding index_ok_def GetOrdersAtPrice_def by blast

lemma price_slot_None:
  assumes "book_ok b L" "GetOrdersAtPrice p b = None" "lv \<in> set (all_levels L)"
  shows "PriceToIndex (lprice b lv) \<noteq> PriceToIndex p"
  using book_okD(4) [OF assms(1), of Side_BUY] assms(2,3)
  unfolding index_ok_def GetOrdersAtPrice_def by (metis option.distinct(1))

text \<open>The orders of one level change, by pointers and by leaving or joining orders \<open>X\<close>.\<close>

lemma book_ok_level:
  assumes ok: "book_ok b L" and s: "trade_side s" and L: "L s = us @ (a, os) # vs"
    and lv: "level_ok b' s (a, os')" and os': "distinct os'" "set os' \<subseteq> set os \<union> X"
    and X: "X \<inter> set (addrs (all_levels L)) = {}"
    and fields: "\<And>c. l_price (lvl b' c) = l_price (lvl b c)" "\<And>c. l_next_entry (lvl b' c) = l_next_entry (lvl b c)"
      "\<And>c. l_prev_entry (lvl b' c) = l_prev_entry (lvl b c)" "\<And>c. c \<noteq> a \<Longrightarrow> lvl b' c = lvl b c"
    and oo: "\<And>y. y \<notin> set os \<union> X \<Longrightarrow> ord b' y = ord b y"
    and frame: "price_orders_at_price b' = price_orders_at_price b" "\<And>t. best_by_price t b' = best_by_price t b"
      "pool_ok (orders_at_price_pool b')" "live (orders_at_price_pool b') = live (orders_at_price_pool b)"
  shows "book_ok b' (L(s := us @ (a, os') # vs))"
proof -
  let ?t = "other_side s" and ?ls = "us @ (a, os') # vs"
  have so: "side_ok b s (us @ (a, os) # vs)" using book_okD(1) [OF ok s] L by simp
  have lp: "lprice b' = lprice b" by (rule map_lprice_cong) (rule fields)
  have Xs: "X \<inter> set (addrs (L s)) = {}" "X \<inter> set (addrs (L ?t)) = {}" using X s by (auto simp: other_side_def)
  have "level_ok b' s w" if w: "w \<in> set us \<union> set vs" for w
  proof (rule level_ok_frame [of b])
    show "level_ok b s w" using so w by (auto simp: side_ok_def)
    have "fst w \<noteq> a" using sides_disjoint(3) [OF ok s] w L by force
    then show "l_first_order (lvl b' (fst w)) = l_first_order (lvl b (fst w))" by (simp add: fields)
    from \<open>fst w \<noteq> a\<close> show "l_side (lvl b' (fst w)) = l_side (lvl b (fst w))" by (simp add: fields)
    have "set (snd w) \<inter> (set os \<union> X) = {}"
      using sides_disjoint(4) [OF ok s] Xs(1) w L addrs_upper [of w us] addrs_upper [of w vs] by auto
    then show "ord b' y = ord b y" if "y \<in> set (snd w)" for y using that by (intro oo) blast
  qed (simp_all add: fields)
  with lv have so': "side_ok b' s ?ls"
    using so unfolding side_ok_def lp fields
    by (cases us) (simp_all add: frame lprice_def [of _ "(a, _)"] ball_Un)
  show ?thesis
  proof (rule book_okI [OF ok s so'])
    have "set (addrs us) \<inter> set (addrs vs) = {}" "distinct (addrs us)" "distinct (addrs vs)"
      "(set os \<union> X) \<inter> (set (addrs us) \<union> set (addrs vs)) = {}"
      using sides_disjoint(4) [OF ok s] Xs(1) L by auto
    with os' show "distinct (addrs ?ls)" by auto
    show "distinct (map fst ?ls)" "fst ` set ?ls \<inter> fst ` set (L ?t) = {}"
      using sides_disjoint(1,3) [OF ok s] L by auto
    show "set (addrs ?ls) \<inter> set (addrs (L ?t)) = {}" using sides_disjoint(2) [OF ok s] L os'(2) Xs(2) by auto
    show "ord b' y = ord b y" if "y \<in> set (addrs (L ?t))" for y
      using that L sides_disjoint(2) [OF ok s] Xs(2) by (intro oo) auto
    show "lvl b' c = lvl b c" if "c \<in> fst ` set (L ?t)" for c
      using that L sides_disjoint(1) [OF ok s] by (intro fields) auto
    show "index_ok b' (?ls @ L ?t)"
      using index_sides [OF ok s] unfolding index_ok_def lp frame(1) by (simp add: L lprice_def [of _ "(a, _)"])
    show "live (orders_at_price_pool b') = fst ` set ?ls \<union> fst ` set (L ?t)"
      using live_levels [OF ok s] L by (simp add: frame)
  qed (simp_all add: frame)
qed

lemma link_order_existing:
  assumes ok: "book_ok b L" and s: "trade_side s" and x: "x \<notin> set (addrs (all_levels L))"
    and xo: "o_side (ord b x) = s" "o_price (ord b x) = lprice b (a, os)"
    and L: "L s = us @ (a, os) # vs"
  obtains b' where "link_order x b = Inr b'" "book_ok b' (L(s := us @ (a, os @ [x]) # vs))"
    "orders_kept b b'"
proof -
  have so: "side_ok b s (us @ (a, os) # vs)" using book_okD(1) [OF ok s] L by simp
  then have lv: "level_ok b s (a, os)" by (simp add: side_ok_def)
  obtain f os' where os: "os = f # os'" using lv by (cases os) (auto simp: level_ok_def)
  obtain l where l: "l = last os" by simp
  have r: "ring (\<lambda>x. o_next_order (ord b x)) (\<lambda>x. o_prev_order (ord b x)) (f # os')"
    using lv by (simp add: level_ok_def os)
  have prev: "o_prev_order (ord b f) = Some l" using ring_prev_hd(1) [OF r] l os by simp
  have xnot: "x \<notin> set os" "\<And>w. w \<in> set (L s) \<Longrightarrow> x \<notin> set (snd w)"
    using x L s by (auto simp: in_addrs_iff)
  have ne: "x \<noteq> f" "x \<noteq> l" using xnot(1) os l by auto
  have slot: "GetOrdersAtPrice (lprice b (a, os)) b = Some a"
    using price_slot [OF ok, of "(a, os)"] L s all_levels_cases [OF s, of L] by auto
  let ?P = "upd_obj f (\<lambda>q. q\<lparr>o_prev_order := Some x\<rparr>) (upd_obj x (\<lambda>q. q\<lparr>o_next_order := Some f\<rparr>)
     (upd_obj x (\<lambda>q. q\<lparr>o_prev_order := Some l\<rparr>) (upd_obj l (\<lambda>q. q\<lparr>o_next_order := Some x\<rparr>)
       (order_pool b))))"
  let ?b = "b\<lparr>order_pool := ?P\<rparr>"
  have res: "link_order x b = Inr ?b"
    using lv slot xo prev ne by (auto simp: link_order_def level_ok_def os)
  have other: "ord ?b y = ord b y" if "y \<notin> set os" "y \<noteq> x" for y
    using that os l by auto
  have fields: "o_price (obj ?P y) = o_price (ord b y)" "o_side (obj ?P y) = o_side (ord b y)" for y
    by auto
  have ring': "ring (\<lambda>x. o_next_order (ord ?b x)) (\<lambda>x. o_prev_order (ord ?b x)) (os @ [x])"
    unfolding os using ne xnot(1) by (intro ring_insert_tail [OF r]) (auto simp: l os)
  have lv': "level_ok ?b s (a, os @ [x])"
    using lv ring' xo unfolding level_ok_def by (simp add: lprice_def fields os del: obj_upd_obj)
  have "distinct (os @ [x])" using sides_disjoint(4) [OF ok s] xnot L by simp
  then have book: "book_ok ?b (L(s := us @ (a, os @ [x]) # vs))"
    by (rule book_ok_level [OF ok s L lv', where X = "{x}"])
      (use x other book_okD(5) [OF ok s] in simp_all)
  have "orders_kept b ?b" by (simp add: orders_kept_def)
  with res book show thesis by (rule that)
qed


lemma side_ok_frame:
  assumes "side_ok b s ls" "best_by_price s b' = best_by_price s b"
    "\<And>c. c \<in> fst ` set ls \<Longrightarrow> lvl b' c = lvl b c"
    "\<And>x. x \<in> set (addrs ls) \<Longrightarrow> ord b' x = ord b x"
  shows "side_ok b' s ls"
proof -
  have "level_ok b' s lv" if "lv \<in> set ls" for lv
  proof (rule level_ok_frame [of b])
    show "level_ok b s lv" using assms(1) that by (simp add: side_ok_def)
    show "ord b' x = ord b x" if "x \<in> set (snd lv)" for x
      using assms(4) that \<open>lv \<in> set ls\<close> by (auto simp: in_addrs_iff)
  qed (use assms(3) that in auto)
  moreover have "lring b' (map fst ls) = lring b (map fst ls)"
    using assms(3) by (intro ring_cong) auto
  moreover have "map (lprice b') ls = map (lprice b) ls"
    using assms(3) by (auto simp: lprice_def)
  ultimately show ?thesis
    using assms(1,2) by (simp add: side_ok_def del: map_eq_conv)
qed

lemma relinkedD:
  assumes "relinked A D s b b'"
  shows "order_pool b' = order_pool b" "more b' = more b"
    "trade_side t \<Longrightarrow> t \<noteq> s \<Longrightarrow> best_by_price t b' = best_by_price t b"
    "live (orders_at_price_pool b') = live (orders_at_price_pool b) - D"
    "pool_ok (orders_at_price_pool b) \<Longrightarrow> pool_ok (orders_at_price_pool b')"
    "store_size (orders_at_price_pool b') = store_size (orders_at_price_pool b)"
    "l_side (lvl b' c) = l_side (lvl b c)" "l_price (lvl b' c) = l_price (lvl b c)"
    "l_first_order (lvl b' c) = l_first_order (lvl b c)" "c \<notin> A \<Longrightarrow> lvl b' c = lvl b c"
  using assms by (auto simp: relinked_def)

lemma side_ok_relinked:
  assumes lv: "\<And>w. w \<in> set ls \<Longrightarrow> level_ok b s w" and rel: "relinked A D s b b'"
    and "lring b' (map fst ls)" "best_by_price s b' = (if ls = [] then None else Some (fst (hd ls)))"
    "sorted_wrt (\<lambda>p q. goes_after s q p) (map (lprice b) ls)"
  shows "side_ok b' s ls"
proof -
  have "level_ok b' s w" if "w \<in> set ls" for w
    by (rule level_ok_frame [OF lv [OF that]]) (simp_all add: relinkedD [OF rel])
  moreover have "lprice b' = lprice b"
    by (rule map_lprice_cong) (rule relinkedD(8) [OF rel])
  ultimately show ?thesis using assms(3-5) by (simp add: side_ok_def)
qed

lemma index_ok_insert:
  assumes "index_ok b ls" "\<And>w. w \<in> set ls \<Longrightarrow> lprice b' w = lprice b w"
    "price_orders_at_price b' = (price_orders_at_price b)(i := Some (fst lv))"
    "PriceToIndex (lprice b' lv) = i" "\<And>w. w \<in> set ls \<Longrightarrow> PriceToIndex (lprice b w) \<noteq> i"
    "set ls' = insert lv (set ls)"
  shows "index_ok b' ls'"
  unfolding index_ok_def
proof (intro conjI ballI allI impI)
  fix w assume w: "w \<in> set ls'"
  show "price_orders_at_price b' (PriceToIndex (lprice b' w)) = Some (fst w)"
  proof (cases "w \<in> set ls")
    case True
    with assms(1,2,5) show ?thesis by (simp add: assms(3) index_ok_def)
  next
    case False
    with w assms(6) have "w = lv" by blast
    with assms(4) show ?thesis by (simp add: assms(3))
  qed
next
  fix j a assume ja: "price_orders_at_price b' j = Some a"
  show "\<exists>w\<in>set ls'. fst w = a \<and> PriceToIndex (lprice b' w) = j"
  proof (cases "j = i")
    case True
    with ja assms(3,4,6) show ?thesis by auto
  next
    case False
    with ja assms(3) have "price_orders_at_price b j = Some a" by simp
    with assms(1) obtain w where "w \<in> set ls" "fst w = a" "PriceToIndex (lprice b w) = j"
      unfolding index_ok_def by blast
    with assms(2,6) show ?thesis by (metis insert_iff)
  qed
qed

lemma index_ok_remove:
  assumes "index_ok b ls" "\<And>w. w \<in> set ls' \<Longrightarrow> lprice b' w = lprice b w"
    "price_orders_at_price b' = (price_orders_at_price b)(PriceToIndex (lprice b lv) := None)"
    "set ls = insert lv (set ls')" "\<And>w. w \<in> set ls' \<Longrightarrow> fst w \<noteq> fst lv"
  shows "index_ok b' ls'"
  unfolding index_ok_def
proof (intro conjI ballI allI impI)
  fix w assume w: "w \<in> set ls'"
  then have w1: "price_orders_at_price b (PriceToIndex (lprice b w)) = Some (fst w)"
    and "price_orders_at_price b (PriceToIndex (lprice b lv)) = Some (fst lv)"
    using assms(1,4) by (simp_all add: index_ok_def)
  with assms(5) [OF w] have "PriceToIndex (lprice b w) \<noteq> PriceToIndex (lprice b lv)" by auto
  with w1 show "price_orders_at_price b' (PriceToIndex (lprice b' w)) = Some (fst w)"
    using assms(2) [OF w] by (simp add: assms(3))
next
  fix j a assume "price_orders_at_price b' j = Some a"
  then have j: "price_orders_at_price b j = Some a" "j \<noteq> PriceToIndex (lprice b lv)"
    by (auto simp: assms(3) split: if_splits)
  with assms(1) obtain w where "w \<in> set ls" "fst w = a" "PriceToIndex (lprice b w) = j"
    unfolding index_ok_def by blast
  with assms(2,4) j(2) show "\<exists>w\<in>set ls'. fst w = a \<and> PriceToIndex (lprice b' w) = j"
    by (metis insert_iff)
qed

text \<open>A new level with one order enters a side.\<close>

lemma book_ok_new_level:
  assumes ok: "book_ok b L" and s: "trade_side s" and L: "L s = us @ vs"
    and so': "side_ok b' s (us @ (a, [x]) # vs)"
    and a: "a \<notin> fst ` set (all_levels L)" and x: "x \<notin> set (addrs (all_levels L))"
    and none: "GetOrdersAtPrice p b = None" and price: "lprice b' (a, [x]) = p"
      "\<And>w. w \<in> set (all_levels L) \<Longrightarrow> lprice b' w = lprice b w"
    and oo: "\<And>y. y \<noteq> x \<Longrightarrow> ord b' y = ord b y"
    and lo: "\<And>c. c \<notin> insert a (fst ` set (L s)) \<Longrightarrow> lvl b' c = lvl b c"
    and frame: "best_by_price (other_side s) b' = best_by_price (other_side s) b"
      "price_orders_at_price b' = (price_orders_at_price b)(PriceToIndex p := Some a)"
      "pool_ok (orders_at_price_pool b')"
      "live (orders_at_price_pool b') = insert a (live (orders_at_price_pool b))"
  shows "book_ok b' (L(s := us @ (a, [x]) # vs))"
proof (rule book_okI [OF ok s so'])
  let ?t = "other_side s" and ?ls = "us @ (a, [x]) # vs"
  have in_all: "set (L s) \<union> set (L ?t) = set (all_levels L)" using all_levels_cases [OF s, of L] by simp
  have a': "a \<notin> fst ` set (L s)" "a \<notin> fst ` set (L ?t)" using a s by (auto simp: other_side_def)
  have x': "x \<notin> set (addrs (L s))" "x \<notin> set (addrs (L ?t))" using x s by (auto simp: other_side_def)
  show "distinct (map fst ?ls)" "distinct (addrs ?ls)" "fst ` set ?ls \<inter> fst ` set (L ?t) = {}"
    "set (addrs ?ls) \<inter> set (addrs (L ?t)) = {}"
    using sides_disjoint [OF ok s] a' x' unfolding L by auto
  show "ord b' y = ord b y" if "y \<in> set (addrs (L ?t))" for y using that x'(2) by (intro oo) blast
  show "lvl b' c = lvl b c" if "c \<in> fst ` set (L ?t)" for c
    using that a'(2) sides_disjoint(1) [OF ok s] by (intro lo) blast
  show "index_ok b' (?ls @ L ?t)"
  proof (rule index_ok_insert [OF index_sides [OF ok s], of _ "PriceToIndex p" "(a, [x])"])
    show "PriceToIndex (lprice b w) \<noteq> PriceToIndex p" if "w \<in> set (L s @ L ?t)" for w
      using price_slot_None [OF ok none, of w] that in_all by simp
    show "lprice b' w = lprice b w" if "w \<in> set (L s @ L ?t)" for w using price(2) [of w] that in_all by simp
  qed (simp_all add: frame price L)
  show "live (orders_at_price_pool b') = fst ` set ?ls \<union> fst ` set (L ?t)"
    using live_levels [OF ok s] L by (auto simp: frame)
qed (rule frame)+

lemma link_order_new:
  assumes ok: "book_ok b L" and s: "trade_side s" and x: "x \<notin> set (addrs (all_levels L))"
    and xs: "o_side (ord b x) = s" and none: "GetOrdersAtPrice (o_price (ord b x)) b = None"
    and room: "has_room (orders_at_price_pool b)"
  obtains b' a us vs where "link_order x b = Inr b'" "L s = us @ vs"
    "\<forall>u\<in>set us. goes_after s (o_price (ord b x)) (lprice b u)"
    "\<forall>v\<in>set vs. goes_after s (lprice b v) (o_price (ord b x))"
    "book_ok b' (L(s := us @ (a, [x]) # vs))" "orders_kept b b'"
proof -
  let ?t = "other_side s"
  let ?p = "o_price (ord b x)"
  let ?l = "\<lparr>l_side = s, l_price = ?p, l_first_order = Some x, l_prev_entry = None, l_next_entry = None\<rparr>"
  let ?O = "upd_obj x (\<lambda>q. q\<lparr>o_prev_order := Some x, o_next_order := Some x\<rparr>) (order_pool b)"
  have xn: "x \<notin> set (addrs (L s))" "x \<notin> set (addrs (L ?t))" using x s by (auto simp: other_side_def)
  obtain a P where P: "Allocate ?l (orders_at_price_pool b) = Inr (a, P)"
    "a \<notin> live (orders_at_price_pool b)" "live P = insert a (live (orders_at_price_pool b))" "pool_ok P"
    "store_size P = store_size (orders_at_price_pool b)" "obj P a = ?l" "\<And>c. c \<noteq> a \<Longrightarrow> obj P c = lvl b c"
    using mem_pool.allocE [OF book_okD(5) [OF ok s], of ?l] room unfolding has_room_def by blast
  have a: "a \<notin> fst ` set (L s)" "a \<notin> fst ` set (L ?t)" using P(2) live_levels [OF ok s] by auto
  define b2 where "b2 = b\<lparr>order_pool := ?O, orders_at_price_pool := P\<rparr>"
  have b2: "order_pool b2 = ?O" "orders_at_price_pool b2 = P" "more b2 = more b"
    "price_orders_at_price b2 = price_orders_at_price b" "best_by_price t b2 = best_by_price t b" for t
    by (simp_all add: b2_def)
  have la: "lvl b2 a = ?l" using P(6) b2 by simp
  have lo: "lvl b2 c = lvl b c" if "c \<noteq> a" for c using P(7) [OF that] b2 by simp
  have oo: "ord b2 y = ord b y" if "y \<noteq> x" for y using that by (simp add: b2)
  have other: "w \<in> set (L s) \<union> set (L ?t) \<Longrightarrow> lprice b2 w = lprice b w" for w
    unfolding lprice_def by (intro arg_cong [where f = l_price] lo) (use a in blast)
  have diff: "PriceToIndex (lprice b w) \<noteq> PriceToIndex ?p" if "w \<in> set (L s) \<union> set (L ?t)" for w
    using price_slot_None [OF ok none] that all_levels_cases [OF s, of L] by blast
  have so: "side_ok b2 s (L s)"
  proof (rule side_ok_frame [OF book_okD(1) [OF ok s]])
    show "lvl b2 c = lvl b c" if "c \<in> fst ` set (L s)" for c by (rule lo) (use a that in blast)
    show "ord b2 y = ord b y" if "y \<in> set (addrs (L s))" for y by (rule oo) (use xn that in blast)
  qed (simp add: b2)
  have free: "\<forall>w\<in>set (L s). lprice b2 w \<noteq> l_price (lvl b2 a)"
    using diff other all_levels_cases [OF s, of L] la by fastforce
  have la': "l_side (lvl b2 a) = s" "l_price (lvl b2 a) = ?p" using la by simp_all
  obtain b' us vs where b': "AddOrdersAtPrice (Some a) b2 = Inr b'" "L s = us @ vs"
    "\<forall>u\<in>set us. goes_after s ?p (lprice b2 u)" "\<forall>v\<in>set vs. goes_after s (lprice b2 v) ?p"
    "lring b' (map fst us @ a # map fst vs)"
    "best_by_price s b' = (if us = [] then Some a else Some (fst (hd us)))"
    "relinked (insert a (fst ` set (L s))) {} s b2 b'"
    "price_orders_at_price b' = (price_orders_at_price b2)(PriceToIndex ?p := Some a)"
    using AddOrdersAtPrice_ok [OF s so a(1) la'(1) free] unfolding la'(2) by blast
  note rel = relinkedD [OF b'(7)]
  have op: "order_pool b' = ?O" using rel(1) b2 by simp
  have res: "link_order x b = Inr b'"
    using none xs P(1) b'(1) by (simp add: link_order_def b2_def GetOrdersAtPrice_def)
  have in_sides: "set us \<union> set vs \<subseteq> set (L s)" using b'(2) by auto
  have lva: "level_ok b2 s (a, [x])" using xs la' by (simp add: level_ok_def lprice_def b2 la P(6))
  have so': "side_ok b' s (us @ (a, [x]) # vs)"
  proof (rule side_ok_relinked [OF _ b'(7)])
    show "level_ok b2 s w" if "w \<in> set (us @ (a, [x]) # vs)" for w
      using that lva so b'(2) by (auto simp: side_ok_def)
    show "sorted_wrt (\<lambda>p q. goes_after s q p) (map (lprice b2) (us @ (a, [x]) # vs))"
      using so b'(2-4) la' goes_after_trans unfolding side_ok_def
      by (auto simp: sorted_wrt_append lprice_def [of _ "(a, _)"])
  qed (use b'(5,6) in \<open>simp_all add: hd_append\<close>)
  have book: "book_ok b' (L(s := us @ (a, [x]) # vs))"
  proof (rule book_ok_new_level [OF ok s b'(2) so' _ x none])
    show "a \<notin> fst ` set (all_levels L)" using a s by (auto simp: other_side_def)
    have lp: "lprice b' w = lprice b2 w" for w using rel(8) by (simp add: lprice_def)
    show "lprice b' (a, [x]) = ?p" using la' unfolding lp by (simp add: lprice_def)
    show "lprice b' w = lprice b w" if "w \<in> set (all_levels L)" for w
      unfolding lp using that all_levels_cases [OF s, of L] by (intro other) blast
    show "ord b' y = ord b y" if "y \<noteq> x" for y using oo [OF that] op b2 by simp
    show "lvl b' c = lvl b c" if "c \<notin> insert a (fst ` set (L s))" for c
      using that rel(10) [of c] lo [of c] by auto
    show "best_by_price ?t b' = best_by_price ?t b" using rel(3) [of ?t] b2 by simp
    show "price_orders_at_price b' = (price_orders_at_price b)(PriceToIndex ?p := Some a)" using b'(8) b2 by simp
    show "pool_ok (orders_at_price_pool b')" using rel(5) P(4) b2 by simp
    show "live (orders_at_price_pool b') = insert a (live (orders_at_price_pool b))" using P(3) by (simp add: rel(4) b2)
  qed
  have "orders_kept b b'"
    unfolding orders_kept_def op rel(2,6) b2 P(5) by (auto simp: strip_def)
  then show thesis
    using that [OF res b'(2) _ _ book] b'(3,4) other in_sides by fastforce
qed

text \<open>The level of a price holds exactly the orders of that price.\<close>

lemma level_orders_filter:
  assumes "side_ok b s (us @ lv # vs)"
  shows "filter (\<lambda>y. o_price (ord b y) = lprice b lv) (addrs (us @ lv # vs)) = snd lv"
proof -
  have "\<forall>y\<in>set (addrs us) \<union> set (addrs vs). o_price (ord b y) \<noteq> lprice b lv"
    using side_prices [OF assms] by fastforce
  moreover have "\<forall>y\<in>set (snd lv). o_price (ord b y) = lprice b lv"
    using order_price [OF assms, of lv] by simp
  ultimately show ?thesis by (simp add: filter_empty_conv)
qed

lemma no_level_no_orders:
  assumes "book_ok b L" "trade_side s" "GetOrdersAtPrice p b = None"
  shows "filter (\<lambda>y. o_price (ord b y) = p) (addrs (L s)) = []"
proof -
  have "o_price (ord b y) \<noteq> p" if y: "y \<in> set (addrs (L s))" for y
  proof -
    obtain w where w: "w \<in> set (L s)" "y \<in> set (snd w)" using y unfolding in_addrs_iff by blast
    then have "o_price (ord b y) = lprice b w"
      using order_price [OF book_okD(1) [OF assms(1,2)]] by blast
    with price_slot_None [OF assms(1,3), of w] w(1) all_levels_cases [OF assms(2), of L]
    show ?thesis by auto
  qed
  then show ?thesis by (simp add: filter_empty_conv)
qed

text \<open>A price slot in use leads to the level of the price, unless another price shares the slot.\<close>

definition slot_free :: "Side \<Rightarrow> Price \<Rightarrow> ('o, 'b) OrderBook_scheme \<Rightarrow> bool" where
  "slot_free s p b \<longleftrightarrow>
     (case GetOrdersAtPrice p b of None \<Rightarrow> True | Some a \<Rightarrow> l_price (lvl b a) = p \<and> l_side (lvl b a) = s)"

lemma slot_level:
  assumes ok: "book_ok b L" and s: "trade_side s" and slot: "slot_free s p b" "GetOrdersAtPrice p b = Some a"
  obtains us os vs where "L s = us @ (a, os) # vs" "lprice b (a, os) = p"
proof -
  from slot have l: "l_price (lvl b a) = p" "l_side (lvl b a) = s" by (simp_all add: slot_free_def)
  obtain w where w: "w \<in> set (all_levels L)" "fst w = a" using price_slot_Some [OF ok slot(2)] by blast
  have "w \<in> set (L s)"
  proof (rule ccontr)
    assume "w \<notin> set (L s)"
    then have "w \<in> set (L (other_side s))" using w(1) all_levels_cases [OF s, of L] by blast
    then have "l_side (lvl b (fst w)) = other_side s"
      using book_okD(1) [OF ok, of "other_side s"] by (auto simp: side_ok_def level_ok_def)
    with l w(2) show False by simp
  qed
  with w(2) have "(a, snd w) \<in> set (L s)" by auto
  then obtain us vs where "L s = us @ (a, snd w) # vs" by (meson split_list)
  with that l show thesis by (simp add: lprice_def)
qed

lemma link_order_ok:
  assumes ok: "book_ok b L" and s: "trade_side s" and x: "x \<notin> set (addrs (all_levels L))"
    and xo: "o_side (ord b x) = s" "o_price (ord b x) = p" and slot: "slot_free s p b"
    and room: "has_room (orders_at_price_pool b)"
  obtains b' ls' xs ys where "link_order x b = Inr b'" "addrs (L s) = xs @ ys" "addrs ls' = xs @ x # ys"
    "\<forall>y\<in>set xs. \<not> goes_after s (o_price (ord b y)) p" "\<forall>y\<in>set ys. goes_after s (o_price (ord b y)) p"
    "book_ok b' (L(s := ls'))" "orders_kept b b'"
proof (cases "GetOrdersAtPrice p b")
  case None
  then have none: "GetOrdersAtPrice (o_price (ord b x)) b = None" by (simp add: xo(2))
  obtain b' a us vs where b': "link_order x b = Inr b'" "L s = us @ vs"
    "\<forall>u\<in>set us. goes_after s p (lprice b u)" "\<forall>v\<in>set vs. goes_after s (lprice b v) p"
    "book_ok b' (L(s := us @ (a, [x]) # vs))" "orders_kept b b'"
    by (rule link_order_new [OF ok s x xo(1) none room, unfolded xo(2)])
  have price: "o_price (ord b y) = lprice b w" if "w \<in> set (us @ vs)" "y \<in> set (snd w)" for w y
    using order_price [OF book_okD(1) [OF ok s]] that unfolding b'(2) by blast
  show thesis
  proof (rule that [OF b'(1) _ _ _ _ b'(5,6)])
    show "\<forall>y\<in>set (addrs us). \<not> goes_after s (o_price (ord b y)) p"
    proof
      fix y assume "y \<in> set (addrs us)"
      then obtain w where w: "w \<in> set us" "y \<in> set (snd w)" unfolding in_addrs_iff by blast
      then show "\<not> goes_after s (o_price (ord b y)) p"
        using b'(3) price [of w y] goes_after_asym [of s p] by simp
    qed
    show "\<forall>y\<in>set (addrs vs). goes_after s (o_price (ord b y)) p"
    proof
      fix y assume "y \<in> set (addrs vs)"
      then obtain w where w: "w \<in> set vs" "y \<in> set (snd w)" unfolding in_addrs_iff by blast
      then show "goes_after s (o_price (ord b y)) p" using b'(4) price [of w y] by simp
    qed
  qed (simp_all add: b'(2))
next
  case (Some a)
  obtain us os vs where L: "L s = us @ (a, os) # vs" "lprice b (a, os) = p"
    using slot_level [OF ok s slot Some] by blast
  have so: "side_ok b s (us @ (a, os) # vs)" using book_okD(1) [OF ok s] L(1) by simp
  obtain b' where b': "link_order x b = Inr b'" "book_ok b' (L(s := us @ (a, os @ [x]) # vs))"
    "orders_kept b b'"
    by (rule link_order_existing [OF ok s x xo(1) _ L(1)]) (simp_all add: xo(2) L(2))
  have at: "o_price (ord b y) = p" if "y \<in> set os" for y
    using order_price [OF so, of "(a, os)"] that L(2) by simp
  show thesis
  proof (rule that [OF b'(1) _ _ _ _ b'(2,3)])
    show "addrs (L s) = (addrs us @ os) @ addrs vs" by (simp add: L)
    show "\<forall>y\<in>set (addrs us @ os). \<not> goes_after s (o_price (ord b y)) p"
      using side_prices(1) [OF so] at goes_after_asym unfolding L(2) by auto
    show "\<forall>y\<in>set (addrs vs). goes_after s (o_price (ord b y)) p"
      using side_prices(2) [OF so] unfolding L(2) by blast
  qed simp
qed


text \<open>Unlinking one of several orders of a level.\<close>

lemma unlink_order_some:
  assumes ok: "book_ok b L" and s: "trade_side s"
    and L: "L s = us @ (a, os @ x # os') # vs" and ne: "os @ os' \<noteq> []"
  obtains b' where "unlink_order x b = Inr b'" "book_ok b' (L(s := us @ (a, os @ os') # vs))"
    "orders_kept b b'" "live (orders_at_price_pool b') \<subseteq> live (orders_at_price_pool b)"
proof -
  have so: "side_ok b s (us @ (a, os @ x # os') # vs)" using book_okD(1) [OF ok s] L by simp
  then have lv: "level_ok b s (a, os @ x # os')" by (simp add: side_ok_def)
  then have r: "ring (\<lambda>x. o_next_order (ord b x)) (\<lambda>x. o_prev_order (ord b x)) (os @ x # os')"
    by (simp add: level_ok_def)
  obtain p0 f0 where ends: "o_prev_order (ord b x) = Some p0" "o_next_order (ord b x) = Some f0"
    using ring_prev [OF r] ring_next [OF r] by blast
  have p0: "p0 = last (x # os' @ os)" and f0: "f0 = hd (os' @ os @ [x])"
    using ring_prev [OF r] ring_next [OF r] ends by simp_all
  have mem: "p0 \<in> set (os @ os')" "f0 \<in> set (os @ os')"
    using ne p0 f0 last_in_set [of "os' @ os"] by (cases os; cases os'; auto)+
  have neq: "p0 \<noteq> x" "f0 \<noteq> x" using mem ring_distinct [OF r] by auto
  have pr: "o_price (ord b x) = l_price (lvl b a)" using lv by (simp add: level_ok_def lprice_def)
  have first: "l_first_order (lvl b a) = Some (hd (os @ [x]))" using lv by (cases os) (simp_all add: level_ok_def)
  have slot: "GetOrdersAtPrice (l_price (lvl b a)) b = Some a"
    using price_slot [OF ok, of "(a, os @ x # os')"] L all_levels_cases [OF s, of L]
    unfolding lprice_def by auto
  let ?O = "upd_obj x (\<lambda>q. q\<lparr>o_prev_order := None, o_next_order := None\<rparr>)
     (upd_obj f0 (\<lambda>q. q\<lparr>o_prev_order := Some p0\<rparr>) (upd_obj p0 (\<lambda>q. q\<lparr>o_next_order := Some f0\<rparr>) (order_pool b)))"
  let ?P = "if os = [] then upd_obj a (\<lambda>q. q\<lparr>l_first_order := Some f0\<rparr>) (orders_at_price_pool b)
     else orders_at_price_pool b"
  define b' where "b' = b\<lparr>order_pool := ?O, orders_at_price_pool := ?P\<rparr>"
  have b': "order_pool b' = ?O" "orders_at_price_pool b' = ?P" "more b' = more b"
    "price_orders_at_price b' = price_orders_at_price b" "best_by_price t b' = best_by_price t b" for t
    by (simp_all add: b'_def)
  have first_x: "l_first_order (lvl b a) = Some x \<longleftrightarrow> os = []"
    using first ring_distinct [OF r] by (cases os) auto
  have res: "unlink_order x b = Inr b'"
    using ends neq pr slot first_x by (simp add: unlink_order_def b'_def GetOrdersAtPrice_def)
  have fields: "l_price (lvl b' c) = l_price (lvl b c)" "l_side (lvl b' c) = l_side (lvl b c)"
    "l_next_entry (lvl b' c) = l_next_entry (lvl b c)" "l_prev_entry (lvl b' c) = l_prev_entry (lvl b c)"
    "c \<noteq> a \<Longrightarrow> lvl b' c = lvl b c" for c
    by (simp_all add: b')
  have lp: "lprice b' = lprice b" by (rule map_lprice_cong) (rule fields)
  have oo: "ord b' y = ord b y" if "y \<notin> set (os @ x # os')" for y
    using that mem by (auto simp: b')
  have of: "o_price (ord b' y) = o_price (ord b y)" "o_side (ord b' y) = o_side (ord b y)" for y
    by (simp_all add: b')
  have ring': "ring (\<lambda>x. o_next_order (ord b' x)) (\<lambda>x. o_prev_order (ord b' x)) (os @ os')"
    by (rule ring_unlink [OF r ne ends]) (use neq mem ring_distinct [OF r] in \<open>auto simp: b'\<close>)
  have hd: "l_first_order (lvl b' a) = Some (hd (os @ os'))"
    using first f0 ne by (cases os; cases os') (simp_all add: b')
  have lv': "level_ok b' s (a, os @ os')"
    using lv ring' hd ne by (simp add: level_ok_def lp of fields lprice_def)
  have "distinct (os @ os')" using ring_distinct [OF r] by auto
  then have book: "book_ok b' (L(s := us @ (a, os @ os') # vs))"
    by (rule book_ok_level [OF ok s L lv', where X = "{}"])
      (use fields oo book_okD(5) [OF ok s] in \<open>auto simp: b'\<close>)
  have "orders_kept b b'"
    unfolding orders_kept_def b' by (auto simp: strip_def)
  moreover have "live (orders_at_price_pool b') \<subseteq> live (orders_at_price_pool b)" by (simp add: b')
  ultimately show thesis by (rule that [OF res book])
qed

text \<open>Unlinking the only order of a level removes the level.\<close>

lemma unlink_order_only:
  assumes ok: "book_ok b L" and s: "trade_side s" and L: "L s = us @ (a, [x]) # vs"
  obtains b' where "unlink_order x b = Inr b'" "book_ok b' (L(s := us @ vs))" "orders_kept b b'"
    "live (orders_at_price_pool b') \<subseteq> live (orders_at_price_pool b)"
proof -
  let ?t = "other_side s"
  have so: "side_ok b s (us @ (a, [x]) # vs)" using book_okD(1) [OF ok s] L by simp
  then have lv: "level_ok b s (a, [x])" by (simp add: side_ok_def)
  have ina: "a \<in> live (orders_at_price_pool b)" using live_levels [OF ok s] L by simp
  have slot: "GetOrdersAtPrice (l_price (lvl b a)) b = Some a"
    using price_slot [OF ok, of "(a, [x])"] L all_levels_cases [OF s, of L] unfolding lprice_def by auto
  then have slot': "price_orders_at_price b (PriceToIndex (l_price (lvl b a))) = Some a"
    by (simp add: GetOrdersAtPrice_def)
  obtain b' where b': "RemoveOrdersAtPrice s (l_price (lvl b a)) b = Inr b'"
    "lring b' (map fst (us @ vs))"
    "best_by_price s b' = (if us @ vs = [] then None else Some (fst (hd (us @ vs))))"
    "relinked (insert a (fst ` set (us @ vs))) {a} s b b'"
    "price_orders_at_price b' = (price_orders_at_price b)(PriceToIndex (l_price (lvl b a)) := None)"
    by (rule RemoveOrdersAtPrice_ok [OF s so slot' book_okD(5) [OF ok s] ina])
  note rel = relinkedD [OF b'(4)]
  have x: "o_price (ord b x) = l_price (lvl b a)" "o_side (ord b x) = s" "o_prev_order (ord b x) = Some x"
    using lv by (simp_all add: level_ok_def lprice_def)
  have res: "unlink_order x b = Inr b'" using b'(1) x by (simp add: unlink_order_def)
  have lp: "lprice b' = lprice b" by (rule map_lprice_cong) (rule rel(8))
  have so': "side_ok b' s (us @ vs)"
  proof (rule side_ok_relinked [OF _ b'(4) b'(2) b'(3)])
    show "level_ok b s w" if "w \<in> set (us @ vs)" for w using so that by (auto simp: side_ok_def)
    show "sorted_wrt (\<lambda>p q. goes_after s q p) (map (lprice b) (us @ vs))"
      using so by (simp add: side_ok_def sorted_wrt_append)
  qed
  have d: "distinct (map fst (us @ (a, [x]) # vs))" "distinct (addrs (us @ (a, [x]) # vs))"
    "fst ` set (us @ (a, [x]) # vs) \<inter> fst ` set (L ?t) = {}"
    "set (addrs (us @ (a, [x]) # vs)) \<inter> set (addrs (L ?t)) = {}"
    using sides_disjoint [OF ok s] unfolding L by simp_all
  have an: "a \<notin> fst ` set us \<union> fst ` set vs \<union> fst ` set (L ?t)" using d(1,3) by auto
  have book: "book_ok b' (L(s := us @ vs))"
  proof (rule book_okI [OF ok s so'])
    show "best_by_price ?t b' = best_by_price ?t b" by (rule rel(3)) simp_all
    show "lvl b' c = lvl b c" if "c \<in> fst ` set (L ?t)" for c
      using that d(3) by (intro rel(10)) auto
    have "set (L s @ L ?t) = insert (a, [x]) (set ((us @ vs) @ L ?t))" by (auto simp: L)
    moreover have "fst w \<noteq> fst (a, [x])" if "w \<in> set ((us @ vs) @ L ?t)" for w using an that by force
    ultimately show "index_ok b' ((us @ vs) @ L ?t)"
      using b'(5) by (intro index_ok_remove [OF index_sides [OF ok s], of _ _ "(a, [x])"])
        (simp_all only: lp lprice_def fst_conv not_False_eq_True)
    show "pool_ok (orders_at_price_pool b')" using rel(5) book_okD(5) [OF ok s] by simp
    show "live (orders_at_price_pool b') = fst ` set (us @ vs) \<union> fst ` set (L ?t)"
      using live_levels [OF ok s] an by (auto simp: rel(4) L)
  qed (use d rel(1) in auto)
  have "orders_kept b b'" by (simp add: orders_kept_def rel)
  moreover have "live (orders_at_price_pool b') \<subseteq> live (orders_at_price_pool b)" using rel(4) by auto
  ultimately show thesis by (rule that [OF res book])
qed

lemma remove1_addrs:
  assumes "distinct (addrs (us @ (a, os @ x # os') # vs))"
  shows "remove1 x (addrs (us @ (a, os @ x # os') # vs)) = addrs us @ os @ os' @ addrs vs"
  using assms by (simp add: remove1_append)

lemma unlink_order_ok:
  assumes ok: "book_ok b L" and s: "trade_side s" and x: "x \<in> set (addrs (L s))"
  obtains b' ls' where "unlink_order x b = Inr b'" "addrs ls' = remove1 x (addrs (L s))"
    "book_ok b' (L(s := ls'))" "orders_kept b b'"
    "live (orders_at_price_pool b') \<subseteq> live (orders_at_price_pool b)"
proof -
  obtain a os os' us vs where L: "L s = us @ (a, os @ x # os') # vs"
    using x unfolding in_addrs_iff by (metis split_list prod.collapse)
  have d: "distinct (addrs (us @ (a, os @ x # os') # vs))" using sides_disjoint(4) [OF ok s] L by simp
  show thesis
  proof (cases "os @ os' = []")
    case True
    then have L1: "L s = us @ (a, [x]) # vs" using L by simp
    obtain b' where "unlink_order x b = Inr b'" "book_ok b' (L(s := us @ vs))" "orders_kept b b'"
      "live (orders_at_price_pool b') \<subseteq> live (orders_at_price_pool b)"
      by (rule unlink_order_only [OF ok s L1])
    moreover have "addrs (us @ vs) = remove1 x (addrs (L s))"
      using remove1_addrs [OF d] True L by simp
    ultimately show thesis using that by blast
  next
    case False
    obtain b' where "unlink_order x b = Inr b'" "book_ok b' (L(s := us @ (a, os @ os') # vs))"
      "orders_kept b b'" "live (orders_at_price_pool b') \<subseteq> live (orders_at_price_pool b)"
      by (rule unlink_order_some [OF ok s L False])
    moreover have "addrs (us @ (a, os @ os') # vs) = remove1 x (addrs (L s))"
      using remove1_addrs [OF d] L by simp
    ultimately show thesis using that by blast
  qed
qed

text \<open>Changing the quantity or any other field outside the rings keeps the representation.\<close>

lemma book_ok_upd_order:
  assumes ok: "book_ok b L" and f: "\<And>q. o_side (f q) = o_side q" "\<And>q. o_price (f q) = o_price q"
    "\<And>q. o_prev_order (f q) = o_prev_order q" "\<And>q. o_next_order (f q) = o_next_order q"
  shows "book_ok (b\<lparr>order_pool := upd_obj x f (order_pool b)\<rparr>) L"
proof -
  let ?b = "b\<lparr>order_pool := upd_obj x f (order_pool b)\<rparr>"
  have eq: "(\<lambda>y. o_next_order (ord ?b y)) = (\<lambda>y. o_next_order (ord b y))"
    "(\<lambda>y. o_prev_order (ord ?b y)) = (\<lambda>y. o_prev_order (ord b y))"
    "\<And>y. o_price (ord ?b y) = o_price (ord b y)" "\<And>y. o_side (ord ?b y) = o_side (ord b y)"
    by (auto simp: f)
  have "level_ok ?b s lv = level_ok b s lv" for s lv
    unfolding level_ok_def eq by (simp add: lprice_def)
  then have "side_ok ?b s ls = side_ok b s ls" for s ls by (simp add: side_ok_def)
  then show ?thesis using ok by (simp add: book_ok_def index_ok_def)
qed

text \<open>The best order of a side.\<close>

lemma best_level:
  assumes "book_ok b L" "trade_side s"
  shows "best_by_price s b = None \<longleftrightarrow> addrs (L s) = []"
    "best_by_price s b = Some a \<Longrightarrow> l_first_order (lvl b a) = Some (hd (addrs (L s)))"
proof -
  have so: "side_ok b s (L s)" by (rule book_okD(1) [OF assms])
  show "best_by_price s b = None \<longleftrightarrow> addrs (L s) = []"
    using so by (cases "L s") (auto simp: side_ok_def level_ok_def)
  assume "best_by_price s b = Some a"
  then obtain w ls where "L s = w # ls" "a = fst w" using so by (cases "L s") (auto simp: side_ok_def)
  with so show "l_first_order (lvl b a) = Some (hd (addrs (L s)))"
    by (simp add: side_ok_def level_ok_def)
qed

text \<open>The last order of a level, through the pointer before its first.\<close>

lemma level_last:
  assumes ok: "book_ok b L" and s: "trade_side s" and L: "L s = us @ (a, os) # vs"
  shows "l_first_order (lvl b a) = Some (hd os)" "o_prev_order (ord b (hd os)) = Some (last os)"
    "os = filter (\<lambda>y. o_price (ord b y) = lprice b (a, os)) (addrs (L s))" "os \<noteq> []"
proof -
  have so: "side_ok b s (us @ (a, os) # vs)" using book_okD(1) [OF ok s] L by simp
  then have lv: "level_ok b s (a, os)" by (simp add: side_ok_def)
  then show ne: "os \<noteq> []" and "l_first_order (lvl b a) = Some (hd os)" by (simp_all add: level_ok_def)
  from ne obtain f os' where os: "os = f # os'" by (cases os) auto
  show "o_prev_order (ord b (hd os)) = Some (last os)"
    using ring_prev_hd(1) [of "\<lambda>x. o_next_order (ord b x)" "\<lambda>x. o_prev_order (ord b x)" f os'] lv os
    by (simp add: level_ok_def)
  show "os = filter (\<lambda>y. o_price (ord b y) = lprice b (a, os)) (addrs (L s))"
    using level_orders_filter [OF so] unfolding L by simp
qed

text \<open>The empty book.\<close>

lemma book_ok_empty:
  assumes "bids_by_price b = None" "asks_by_price b = None" "\<And>i. price_orders_at_price b i = None"
    "pool_ok (orders_at_price_pool b)" "live (orders_at_price_pool b) = {}"
  shows "book_ok b (\<lambda>_. [])"
  using assms by (simp add: book_ok_def side_ok_def index_ok_def best_by_price_def)

section \<open>Frames\<close>

lemma book_ok_cong:
  assumes "book_ok b L"
    and "orders_at_price_pool b' = orders_at_price_pool b" "bids_by_price b' = bids_by_price b"
      "asks_by_price b' = asks_by_price b" "price_orders_at_price b' = price_orders_at_price b"
      "\<And>x. x \<in> set (addrs (all_levels L)) \<Longrightarrow> ord b' x = ord b x"
  shows "book_ok b' L"
proof -
  have "side_ok b' s (L s)" if "trade_side s" for s
  proof (rule side_ok_frame [OF book_okD(1) [OF assms(1) that]])
    show "best_by_price s b' = best_by_price s b" by (simp add: best_by_price_def assms)
    show "ord b' x = ord b x" if "x \<in> set (addrs (L s))" for x
      using that \<open>trade_side s\<close> assms(6) by auto
  qed (simp add: assms(2))
  then show ?thesis
    using assms(1) by (simp add: book_ok_def index_ok_def lprice_def assms(2,5))
qed

lemma strip_get [simp]:
  "o_order_id (strip q) = o_order_id q" "o_side (strip q) = o_side q" "o_price (strip q) = o_price q"
  "o_qty (strip q) = o_qty q" "o_priority (strip q) = o_priority q"
  "o_prev_order (strip q) = None" "o_next_order (strip q) = None"
  by (simp_all add: strip_def)

lemma strip_qty [simp]: "strip (q\<lparr>o_qty := n\<rparr>) = (strip q)\<lparr>o_qty := n\<rparr>"
  by (simp add: strip_def)

lemma addrs_update_side:
  "trade_side s \<Longrightarrow> set (addrs (all_levels (L(s := ls)))) = set (addrs ls) \<union> set (addrs (L (other_side s)))"
  by (auto simp: other_side_def)

lemma addrs_sides:
  "trade_side s \<Longrightarrow> set (addrs (all_levels L)) = set (addrs (L s)) \<union> set (addrs (L (other_side s)))"
  by (auto simp: other_side_def)

section \<open>Price-time priority on lists\<close>

text \<open>Where a new order goes among the orders of its side: behind all that are not worse.\<close>

definition spec_insert ::
  "Side \<Rightarrow> 'r TradingOrder_scheme \<Rightarrow> 'r TradingOrder_scheme list \<Rightarrow> 'r TradingOrder_scheme list" where
  "spec_insert s q qs =
     takeWhile (\<lambda>r. \<not> goes_after s (o_price r) (o_price q)) qs @ q #
     dropWhile (\<lambda>r. \<not> goes_after s (o_price r) (o_price q)) qs"

lemma spec_insert_mid:
  assumes "\<forall>u\<in>set us. \<not> goes_after s (o_price u) (o_price q)"
    and "\<forall>v\<in>set vs. goes_after s (o_price v) (o_price q)"
  shows "spec_insert s q (us @ vs) = us @ q # vs"
proof -
  let ?P = "\<lambda>r. \<not> goes_after s (o_price r) (o_price q)"
  have "takeWhile ?P (us @ vs) = us \<and> dropWhile ?P (us @ vs) = vs"
    using assms by (intro conjI takeWhile_dropWhile_mid) auto
  then show ?thesis by (simp add: spec_insert_def)
qed

text \<open>Linking an order between the better and the worse ones of its side inserts it into the list of that side.\<close>

definition side_orders :: "('r TradingOrder_scheme, 'b) OrderBook_scheme \<Rightarrow> (Side \<Rightarrow> levels) \<Rightarrow> Side \<Rightarrow> 'r TradingOrder_scheme list" where
  "side_orders b L s = map (\<lambda>x. strip (ord b x)) (addrs (L s))"

lemma side_orders_insert:
  assumes addrs: "addrs (L s) = xs @ ys" "addrs ls' = xs @ x # ys"
    and old: "\<And>t y. y \<in> set (addrs (L t)) \<Longrightarrow> strip (ord b' y) = strip (ord b y)" and new: "strip (ord b' x) = q"
    and place: "\<forall>y\<in>set xs. \<not> goes_after s (o_price (ord b y)) (o_price q)"
      "\<forall>y\<in>set ys. goes_after s (o_price (ord b y)) (o_price q)"
  shows "side_orders b' (L(s := ls')) = (side_orders b L)(s := spec_insert s q (side_orders b L s))"
proof (rule ext)
  fix t
  have olds: "map (\<lambda>y. strip (ord b' y)) zs = map (\<lambda>y. strip (ord b y)) zs" if "set zs \<subseteq> set (addrs (L t))" for zs t
    using that by (intro map_cong refl old [of _ t]) blast
  have "spec_insert s q (map (\<lambda>y. strip (ord b y)) xs @ map (\<lambda>y. strip (ord b y)) ys) =
      map (\<lambda>y. strip (ord b y)) xs @ q # map (\<lambda>y. strip (ord b y)) ys"
    by (rule spec_insert_mid) (use place in auto)
  then show "side_orders b' (L(s := ls')) t = ((side_orders b L)(s := spec_insert s q (side_orders b L s))) t"
    using olds [of "addrs (L t)" t] olds [of xs s] olds [of ys s] new
    by (simp add: side_orders_def addrs del: map_eq_conv)
qed

lemma addrs_sorted:
  assumes "\<forall>lv\<in>set ls. \<forall>y\<in>set (snd lv). g y = f lv" "sorted_wrt (\<lambda>p q. goes_after s q p) (map f ls)"
  shows "sorted_wrt (\<lambda>x y. \<not> goes_after s (g x) (g y)) (addrs ls)"
  using assms
proof (induction ls)
  case (Cons lv ls)
  have "sorted_wrt (\<lambda>x y. \<not> goes_after s (g x) (g y)) xs" if "\<forall>y\<in>set xs. g y = f lv" for xs
    using that by (induction xs) auto
  moreover have "\<not> goes_after s (g x) (g y)" if x: "x \<in> set (snd lv)" and y: "y \<in> set (addrs ls)" for x y
  proof -
    obtain w where w: "w \<in> set ls" "y \<in> set (snd w)" using y unfolding in_addrs_iff by blast
    with Cons.prems x have "goes_after s (f w) (f lv)" "g y = f w" "g x = f lv" by simp_all
    then show ?thesis by (simp add: goes_after_asym)
  qed
  ultimately show ?case using Cons by (simp add: sorted_wrt_append)
qed simp

definition spec_sorted :: "Side \<Rightarrow> 'r TradingOrder_scheme list \<Rightarrow> bool" where
  "spec_sorted s qs \<longleftrightarrow> sorted_wrt (\<lambda>q r. \<not> goes_after s (o_price q) (o_price r)) qs"

end
