(* ===== verification/Messages.thy ===== *)
theory Messages
  imports Types
begin

text \<open>
  The messages the components exchange: client requests and responses
  (\<open>src/src/include/order_gateway/client_request.hpp\<close>, \<open>client_response.hpp\<close>) and market
  updates (\<open>src/src/include/market_data/market_update.hpp\<close>), with the default member
  initialisers of the structs and their printers. The \<open>OM\<close> and \<open>MDP\<close> variants of the public
  protocols put a sequence number in front.
\<close>

section \<open>Client requests\<close>

datatype ClientRequestType =
    ClientRequestType_INVALID | ClientRequestType_NEW | ClientRequestType_CANCEL
  | ClientRequestType_OTHER "8 word"

fun ClientRequestTypeToString :: "ClientRequestType \<Rightarrow> string" where
  "ClientRequestTypeToString ClientRequestType_NEW = ''NEW''"
| "ClientRequestTypeToString ClientRequestType_CANCEL = ''CANCEL''"
| "ClientRequestTypeToString ClientRequestType_INVALID = ''INVALID''"
| "ClientRequestTypeToString (ClientRequestType_OTHER _) = ''UNKNOWN''"

record MEClientRequest =
  rq_type :: ClientRequestType
  rq_client_id :: ClientId
  rq_ticker_id :: TickerId
  rq_order_id :: OrderId
  rq_side :: Side
  rq_price :: Price
  rq_qty :: Qty

definition MEClientRequest_default :: MEClientRequest where
  "MEClientRequest_default =
     \<lparr>rq_type = ClientRequestType_INVALID, rq_client_id = CLIENT_ID_INVALID,
      rq_ticker_id = TICKER_ID_INVALID, rq_order_id = ORDER_ID_INVALID, rq_side = Side_INVALID,
      rq_price = PRICE_INVALID, rq_qty = QTY_INVALID\<rparr>"

definition MEClientRequest_ToString :: "MEClientRequest \<Rightarrow> string" where
  "MEClientRequest_ToString r =
     ''MEClientRequest'' @ '' ['' @
     ''type:'' @ ClientRequestTypeToString (rq_type r) @
     '' client:'' @ ClientIdToString (rq_client_id r) @
     '' ticker:'' @ TickerIdToString (rq_ticker_id r) @
     '' oid:'' @ OrderIdToString (rq_order_id r) @
     '' side:'' @ SideToString (rq_side r) @
     '' qty:'' @ QtyToString (rq_qty r) @
     '' price:'' @ PriceToString (rq_price r) @ '']''"

record OMClientRequest =
  omq_seq_num :: SeqNum
  omq_request :: MEClientRequest

definition OMClientRequest_ToString :: "OMClientRequest \<Rightarrow> string" where
  "OMClientRequest_ToString r =
     ''OMClientRequest'' @ '' ['' @ ''seq:'' @ dec_string (unat (omq_seq_num r)) @ '' '' @
     MEClientRequest_ToString (omq_request r) @ '']''"

section \<open>Client responses\<close>

datatype ClientResponseType =
    ClientResponseType_INVALID | ClientResponseType_ACCEPTED | ClientResponseType_CANCELED
  | ClientResponseType_FILLED | ClientResponseType_CANCEL_REJECTED
  | ClientResponseType_OTHER "8 word"

fun ClientResponseTypeToString :: "ClientResponseType \<Rightarrow> string" where
  "ClientResponseTypeToString ClientResponseType_ACCEPTED = ''ACCEPTED''"
| "ClientResponseTypeToString ClientResponseType_CANCELED = ''CANCELED''"
| "ClientResponseTypeToString ClientResponseType_FILLED = ''FILLED''"
| "ClientResponseTypeToString ClientResponseType_CANCEL_REJECTED = ''CANCEL_REJECTED''"
| "ClientResponseTypeToString ClientResponseType_INVALID = ''INVALID''"
| "ClientResponseTypeToString (ClientResponseType_OTHER _) = ''UNKNOWN''"

record MEClientResponse =
  rs_type :: ClientResponseType
  rs_client_id :: ClientId
  rs_ticker_id :: TickerId
  rs_client_order_id :: OrderId
  rs_market_order_id :: OrderId
  rs_side :: Side
  rs_price :: Price
  rs_exec_qty :: Qty
  rs_leaves_qty :: Qty

definition MEClientResponse_default :: MEClientResponse where
  "MEClientResponse_default =
     \<lparr>rs_type = ClientResponseType_INVALID, rs_client_id = CLIENT_ID_INVALID,
      rs_ticker_id = TICKER_ID_INVALID, rs_client_order_id = ORDER_ID_INVALID,
      rs_market_order_id = ORDER_ID_INVALID, rs_side = Side_INVALID, rs_price = PRICE_INVALID,
      rs_exec_qty = QTY_INVALID, rs_leaves_qty = QTY_INVALID\<rparr>"

definition MEClientResponse_ToString :: "MEClientResponse \<Rightarrow> string" where
  "MEClientResponse_ToString r =
     ''MEClientResponse'' @ '' ['' @
     ''type:'' @ ClientResponseTypeToString (rs_type r) @
     '' client:'' @ ClientIdToString (rs_client_id r) @
     '' ticker:'' @ TickerIdToString (rs_ticker_id r) @
     '' coid:'' @ OrderIdToString (rs_client_order_id r) @
     '' moid:'' @ OrderIdToString (rs_market_order_id r) @
     '' side:'' @ SideToString (rs_side r) @
     '' exec_qty:'' @ QtyToString (rs_exec_qty r) @
     '' leaves_qty:'' @ QtyToString (rs_leaves_qty r) @
     '' price:'' @ PriceToString (rs_price r) @ '']''"

record OMClientResponse =
  oms_seq_num :: SeqNum
  oms_response :: MEClientResponse

definition OMClientResponse_ToString :: "OMClientResponse \<Rightarrow> string" where
  "OMClientResponse_ToString r =
     ''OMClientResponse'' @ '' ['' @ ''seq:'' @ dec_string (unat (oms_seq_num r)) @ '' '' @
     MEClientResponse_ToString (oms_response r) @ '']''"

section \<open>Market updates\<close>

datatype MarketUpdateType =
    MarketUpdateType_INVALID | MarketUpdateType_CLEAR | MarketUpdateType_ADD
  | MarketUpdateType_MODIFY | MarketUpdateType_CANCEL | MarketUpdateType_TRADE
  | MarketUpdateType_SNAPSHOT_START | MarketUpdateType_SNAPSHOT_END
  | MarketUpdateType_OTHER "8 word"

fun MarketUpdateTypeToString :: "MarketUpdateType \<Rightarrow> string" where
  "MarketUpdateTypeToString MarketUpdateType_CLEAR = ''CLEAR''"
| "MarketUpdateTypeToString MarketUpdateType_ADD = ''ADD''"
| "MarketUpdateTypeToString MarketUpdateType_MODIFY = ''MODIFY''"
| "MarketUpdateTypeToString MarketUpdateType_CANCEL = ''CANCEL''"
| "MarketUpdateTypeToString MarketUpdateType_TRADE = ''TRADE''"
| "MarketUpdateTypeToString MarketUpdateType_SNAPSHOT_START = ''SNAPSHOT_START''"
| "MarketUpdateTypeToString MarketUpdateType_SNAPSHOT_END = ''SNAPSHOT_END''"
| "MarketUpdateTypeToString MarketUpdateType_INVALID = ''INVALID''"
| "MarketUpdateTypeToString (MarketUpdateType_OTHER _) = ''UNKNOWN''"

record MEMarketUpdate =
  mu_type :: MarketUpdateType
  mu_order_id :: OrderId
  mu_ticker_id :: TickerId
  mu_side :: Side
  mu_price :: Price
  mu_qty :: Qty
  mu_priority :: Priority

definition MEMarketUpdate_default :: MEMarketUpdate where
  "MEMarketUpdate_default =
     \<lparr>mu_type = MarketUpdateType_INVALID, mu_order_id = ORDER_ID_INVALID,
      mu_ticker_id = TICKER_ID_INVALID, mu_side = Side_INVALID, mu_price = PRICE_INVALID,
      mu_qty = QTY_INVALID, mu_priority = PRIORITY_INVALID\<rparr>"

definition MEMarketUpdate_ToString :: "MEMarketUpdate \<Rightarrow> string" where
  "MEMarketUpdate_ToString u =
     ''MEMarketUpdate'' @ '' ['' @
     '' type:'' @ MarketUpdateTypeToString (mu_type u) @
     '' ticker:'' @ TickerIdToString (mu_ticker_id u) @
     '' oid:'' @ OrderIdToString (mu_order_id u) @
     '' side:'' @ SideToString (mu_side u) @
     '' qty:'' @ QtyToString (mu_qty u) @
     '' price:'' @ PriceToString (mu_price u) @
     '' priority:'' @ PriorityToString (mu_priority u) @ '']''"

record MDPMarketUpdate =
  mdp_seq_num :: SeqNum
  mdp_update :: MEMarketUpdate

definition MDPMarketUpdate_ToString :: "MDPMarketUpdate \<Rightarrow> string" where
  "MDPMarketUpdate_ToString u =
     ''MDPMarketUpdate'' @ '' ['' @ '' seq:'' @ dec_string (unat (mdp_seq_num u)) @ '' '' @
     MEMarketUpdate_ToString (mdp_update u) @ '']''"

end
