(* ===== verification/Exchange_Order_Book.thy ===== *)
theory Exchange_Order_Book
  imports Order_Levels_Rep Messages
begin

text \<open>
  The limit order book of the matching engine
  (\<open>src/src/include/matching_engine/exchange_order_book.hpp\<close>, \<open>exchange_order.hpp\<close> and
  \<open>src/src/matching_engine/exchange_order_book.cpp\<close>), one per instrument. The rings, levels and
  price slots are those of \<open>Order_Levels\<close>; the exchange adds the owner of an order, the map from
  a client's order ids to orders, and the counter of market order ids.

  A call back into the matching engine (\<open>SendClientResponse\<close>, \<open>SendMarketUpdate\<close>) appends
  to \<open>sent\<close>, the messages of the running request in the order they are sent; the matching
  engine writes them to its queues (theory \<open>Matching_Engine\<close>). Logging and time
  measurements are left out.
\<close>

section \<open>State\<close>

text \<open>
  \<open>ExchangeOrder\<close>; \<open>market_order_id_\<close> is \<open>o_order_id\<close>, as \<open>order_id_\<close> of the trading order is.
\<close>

record ExchangeOrder = TradingOrder +
  o_ticker_id :: TickerId
  o_client_id :: ClientId
  o_client_order_id :: OrderId

definition ExchangeOrder_default :: ExchangeOrder where
  "ExchangeOrder_default =
     \<lparr>o_order_id = ORDER_ID_INVALID, o_side = Side_INVALID, o_price = PRICE_INVALID,
      o_qty = QTY_INVALID, o_priority = PRIORITY_INVALID, o_prev_order = None, o_next_order = None,
      o_ticker_id = TICKER_ID_INVALID, o_client_id = CLIENT_ID_INVALID,
      o_client_order_id = ORDER_ID_INVALID\<rparr>"

datatype engine_message = Response MEClientResponse | Update MEMarketUpdate

record ExchangeOrderBook = "ExchangeOrder OrderBook" +
  eb_ticker_id :: TickerId
  cid_oid_to_order :: "nat \<Rightarrow> nat \<Rightarrow> ptr"
  next_market_order_id :: OrderId
  sent :: "engine_message list"

text \<open>
  The constructor. The two arrays of pointers have no initialiser in the class, so their first
  contents are a parameter.
\<close>

definition ExchangeOrderBook_new ::
  "TickerId \<Rightarrow> (nat \<Rightarrow> nat \<Rightarrow> ptr) \<Rightarrow> (nat \<Rightarrow> ptr) \<Rightarrow> ExchangeOrderBook" where
  "ExchangeOrderBook_new ticker_id cid_oid slots =
     \<lparr>orders_at_price_pool = MemoryPool_new ME_MAX_PRICE_LEVELS OrdersAtPrice_default,
      bids_by_price = None, asks_by_price = None, price_orders_at_price = slots,
      order_pool = MemoryPool_new ME_MAX_ORDER_IDS ExchangeOrder_default,
      eb_ticker_id = ticker_id, cid_oid_to_order = cid_oid, next_market_order_id = 1, sent = []\<rparr>"

definition SendClientResponse :: "MEClientResponse \<Rightarrow> ExchangeOrderBook \<Rightarrow> ExchangeOrderBook" where
  "SendClientResponse r b = b\<lparr>sent := sent b @ [Response r]\<rparr>"

definition SendMarketUpdate :: "MEMarketUpdate \<Rightarrow> ExchangeOrderBook \<Rightarrow> ExchangeOrderBook" where
  "SendMarketUpdate u b = b\<lparr>sent := sent b @ [Update u]\<rparr>"

section \<open>Private operations\<close>

definition GenerateNewMarketOrderId :: "ExchangeOrderBook \<Rightarrow> OrderId \<times> ExchangeOrderBook" where
  "GenerateNewMarketOrderId b =
     (next_market_order_id b, b\<lparr>next_market_order_id := next_market_order_id b + 1\<rparr>)"

text \<open>\<open>cid_oid_to_order_.at(client_id).at(order_id)\<close>, read and written.\<close>

definition cid_oid_in_range :: "ClientId \<Rightarrow> OrderId \<Rightarrow> bool" where
  "cid_oid_in_range cid oid \<longleftrightarrow> unat cid < ME_MAX_NUM_CLIENTS \<and> unat oid < ME_MAX_ORDER_IDS"

definition cid_oid_at :: "ClientId \<Rightarrow> OrderId \<Rightarrow> ExchangeOrderBook \<Rightarrow> ptr result" where
  "cid_oid_at cid oid b =
     (if cid_oid_in_range cid oid then Inr (cid_oid_to_order b (unat cid) (unat oid))
      else Inl Out_of_range)"

definition set_cid_oid :: "ClientId \<Rightarrow> OrderId \<Rightarrow> ptr \<Rightarrow> ExchangeOrderBook \<Rightarrow> ExchangeOrderBook result" where
  "set_cid_oid cid oid p b =
     (if cid_oid_in_range cid oid
      then Inr (b\<lparr>cid_oid_to_order := (cid_oid_to_order b)
             (unat cid := (cid_oid_to_order b (unat cid))(unat oid := p))\<rparr>)
      else Inl Out_of_range)"

definition GetNextPriority :: "Price \<Rightarrow> ExchangeOrderBook \<Rightarrow> Priority result" where
  "GetNextPriority price b =
     (let lp = GetOrdersAtPrice price b
      in if lp = None then Inr 1
         else rbind (level b lp) (\<lambda>l.
              rbind (order b (l_first_order l)) (\<lambda>f.
              rbind (order b (o_prev_order f)) (\<lambda>q.
              Inr (o_priority q + 1)))))"

definition RemoveOrder :: "nat \<Rightarrow> ExchangeOrderBook \<Rightarrow> ExchangeOrderBook result" where
  "RemoveOrder x b =
     rbind (unlink_order x b) (\<lambda>b.
     rbind (order b (Some x)) (\<lambda>o1.
     rbind (set_cid_oid (o_client_id o1) (o_client_order_id o1) None b) (\<lambda>b.
     rbind (Deallocate x (order_pool b)) (\<lambda>P.
     Inr (b\<lparr>order_pool := P\<rparr>)))))"

definition AddOrder :: "nat \<Rightarrow> ExchangeOrderBook \<Rightarrow> ExchangeOrderBook result" where
  "AddOrder x b =
     rbind (link_order x b) (\<lambda>b.
     rbind (order b (Some x)) (\<lambda>o1.
     set_cid_oid (o_client_id o1) (o_client_order_id o1) (Some x) b))"

section \<open>Matching\<close>

text \<open>
  One match against the order at \<open>itr\<close>. Both sides get a FILLED response, the market a TRADE and
  then a CANCEL of the exhausted order or a MODIFY of the reduced one.
\<close>

definition Match ::
  "TickerId \<Rightarrow> ClientId \<Rightarrow> Side \<Rightarrow> OrderId \<Rightarrow> OrderId \<Rightarrow> nat \<Rightarrow> Qty \<Rightarrow> ExchangeOrderBook \<Rightarrow>
   (Qty \<times> ExchangeOrderBook) result" where
  "Match ticker_id client_id side client_order_id new_market_order_id itr leaves_qty b =
     rbind (order b (Some itr)) (\<lambda>o0.
     let order_qty = o_qty o0;
         fill_qty = min leaves_qty order_qty;
         leaves_qty = leaves_qty - fill_qty
     in rbind (set_order (Some itr) (\<lambda>q. q\<lparr>o_qty := o_qty q - fill_qty\<rparr>) b) (\<lambda>b.
        rbind (order b (Some itr)) (\<lambda>o1.
        let b = SendClientResponse
                  \<lparr>rs_type = ClientResponseType_FILLED, rs_client_id = client_id,
                   rs_ticker_id = ticker_id, rs_client_order_id = client_order_id,
                   rs_market_order_id = new_market_order_id, rs_side = side,
                   rs_price = o_price o1, rs_exec_qty = fill_qty, rs_leaves_qty = leaves_qty\<rparr> b;
            b = SendClientResponse
                  \<lparr>rs_type = ClientResponseType_FILLED, rs_client_id = o_client_id o1,
                   rs_ticker_id = ticker_id, rs_client_order_id = o_client_order_id o1,
                   rs_market_order_id = o_order_id o1, rs_side = o_side o1,
                   rs_price = o_price o1, rs_exec_qty = fill_qty, rs_leaves_qty = o_qty o1\<rparr> b;
            b = SendMarketUpdate
                  \<lparr>mu_type = MarketUpdateType_TRADE, mu_order_id = ORDER_ID_INVALID,
                   mu_ticker_id = ticker_id, mu_side = side, mu_price = o_price o1,
                   mu_qty = fill_qty, mu_priority = PRIORITY_INVALID\<rparr> b
        in if o_qty o1 = 0 then
             rbind (RemoveOrder itr
               (SendMarketUpdate
                  \<lparr>mu_type = MarketUpdateType_CANCEL, mu_order_id = o_order_id o1,
                   mu_ticker_id = ticker_id, mu_side = o_side o1, mu_price = o_price o1,
                   mu_qty = order_qty, mu_priority = PRIORITY_INVALID\<rparr> b)) (\<lambda>b.
             Inr (leaves_qty, b))
           else
             Inr (leaves_qty, SendMarketUpdate
                  \<lparr>mu_type = MarketUpdateType_MODIFY, mu_order_id = o_order_id o1,
                   mu_ticker_id = ticker_id, mu_side = o_side o1, mu_price = o_price o1,
                   mu_qty = o_qty o1, mu_priority = o_priority o1\<rparr> b))))"

text \<open>The price that stops the matching: the best opposite order does not cross the limit.\<close>

definition not_crossed :: "Side \<Rightarrow> Price \<Rightarrow> Price \<Rightarrow> bool" where
  "not_crossed side price best_price \<longleftrightarrow>
     (if side = Side_BUY then price < best_price else price > best_price)"

text \<open>
  The two loops of \<open>CheckForMatch\<close>, for a buy against the asks and for a sell against the bids.
  Each round uses up the incoming quantity or frees an order.
\<close>

lemma relink_order_pool:
  "link_after new target best b = Inr b' \<Longrightarrow> order_pool b' = order_pool b"
  "link_before new target best b = Inr b' \<Longrightarrow> order_pool b' = order_pool b"
  by (auto simp: link_after_def link_before_def set_level_def set_best_def result_simps split: if_splits)

lemma RemoveOrdersAtPrice_order_pool:
  "RemoveOrdersAtPrice s p b = Inr b' \<Longrightarrow> order_pool b' = order_pool b"
  by (auto simp: RemoveOrdersAtPrice_def set_level_def set_best_def result_simps split: if_splits)

lemma set_order_live: "set_order p f b = Inr b' \<Longrightarrow> live (order_pool b') = live (order_pool b)"
  by (cases p) (auto simp: set_order_def)

lemma set_level_order_pool: "set_level p f b = Inr b' \<Longrightarrow> order_pool b' = order_pool b"
  by (auto simp: set_level_def result_simps)

lemma unlink_order_live:
  "unlink_order x b = Inr b' \<Longrightarrow> live (order_pool b') = live (order_pool b)"
  by (auto simp: unlink_order_def result_simps dest!: set_order_live set_level_order_pool
      RemoveOrdersAtPrice_order_pool split: if_splits)

lemma RemoveOrder_live:
  assumes "RemoveOrder x b = Inr b'"
  shows "x \<in> live (order_pool b)" "live (order_pool b') = live (order_pool b) - {x}"
  using assms by (auto simp: RemoveOrder_def set_cid_oid_def result_simps
      dest!: unlink_order_live Deallocate_InrD split: if_splits)

text \<open>The messages of one match, as a function of the resting order.\<close>

definition match_messages ::
  "TickerId \<Rightarrow> ClientId \<Rightarrow> Side \<Rightarrow> OrderId \<Rightarrow> OrderId \<Rightarrow> Qty \<Rightarrow> ExchangeOrder \<Rightarrow> engine_message list" where
  "match_messages t c s co mo leaves q =
     (let fill = min leaves (o_qty q); rest = o_qty q - fill
      in [Response \<lparr>rs_type = ClientResponseType_FILLED, rs_client_id = c, rs_ticker_id = t,
            rs_client_order_id = co, rs_market_order_id = mo, rs_side = s, rs_price = o_price q,
            rs_exec_qty = fill, rs_leaves_qty = leaves - fill\<rparr>,
          Response \<lparr>rs_type = ClientResponseType_FILLED, rs_client_id = o_client_id q,
            rs_ticker_id = t, rs_client_order_id = o_client_order_id q,
            rs_market_order_id = o_order_id q, rs_side = o_side q, rs_price = o_price q,
            rs_exec_qty = fill, rs_leaves_qty = rest\<rparr>,
          Update \<lparr>mu_type = MarketUpdateType_TRADE, mu_order_id = ORDER_ID_INVALID,
            mu_ticker_id = t, mu_side = s, mu_price = o_price q, mu_qty = fill,
            mu_priority = PRIORITY_INVALID\<rparr>,
          if rest = 0
          then Update \<lparr>mu_type = MarketUpdateType_CANCEL, mu_order_id = o_order_id q,
            mu_ticker_id = t, mu_side = o_side q, mu_price = o_price q, mu_qty = o_qty q,
            mu_priority = PRIORITY_INVALID\<rparr>
          else Update \<lparr>mu_type = MarketUpdateType_MODIFY, mu_order_id = o_order_id q,
            mu_ticker_id = t, mu_side = o_side q, mu_price = o_price q, mu_qty = rest,
            mu_priority = o_priority q\<rparr>])"

definition filled :: "nat \<Rightarrow> Qty \<Rightarrow> engine_message list \<Rightarrow> ExchangeOrderBook \<Rightarrow> ExchangeOrderBook" where
  "filled x fill ms b =
     b\<lparr>order_pool := upd_obj x (\<lambda>q. q\<lparr>o_qty := o_qty q - fill\<rparr>) (order_pool b), sent := sent b @ ms\<rparr>"

lemma Match_eq:
  "Match t c s co mo itr leaves b =
     (let q = ord b itr; fill = min leaves (o_qty q);
          b1 = filled itr fill (match_messages t c s co mo leaves q) b
      in if o_qty q - fill = 0 then rbind (RemoveOrder itr b1) (\<lambda>b. Inr (leaves - fill, b))
         else Inr (leaves - fill, b1))"
  by (simp add: Match_def match_messages_def filled_def SendClientResponse_def SendMarketUpdate_def)

lemma fill_le: "unat (l - min l q) = unat l - unat (min l (q :: Qty))"
  by (simp add: unat_sub min_def)

lemma Match_progress:
  assumes "Match t c s co mo itr leaves b = Inr (leaves', b')" "leaves \<noteq> 0"
  shows "card (live (order_pool b')) + unat leaves' < card (live (order_pool b)) + unat leaves"
proof (cases "o_qty (ord b itr) \<le> leaves")
  case True
  then have "min leaves (o_qty (ord b itr)) = o_qty (ord b itr)" by (simp add: min_def)
  with assms(1) have rm: "RemoveOrder itr (filled itr (o_qty (ord b itr))
      (match_messages t c s co mo leaves (ord b itr)) b) = Inr b'"
    and l: "leaves' = leaves - min leaves (o_qty (ord b itr))"
    by (auto simp: Match_eq result_simps)
  have "live (order_pool b') = live (order_pool b) - {itr}" "itr \<in> live (order_pool b)"
    using RemoveOrder_live [OF rm] by (simp_all add: filled_def)
  then have "card (live (order_pool b')) < card (live (order_pool b))"
    by (metis card_Diff1_less finite_live)
  with fill_le [of leaves] l show ?thesis by (metis add_less_le_mono diff_le_self)
next
  case False
  then have "min leaves (o_qty (ord b itr)) = leaves" "o_qty (ord b itr) - leaves \<noteq> 0" by auto
  then have "b' = filled itr leaves (match_messages t c s co mo leaves (ord b itr)) b" "leaves' = 0"
    using assms(1) by (auto simp: Match_eq)
  then show ?thesis using assms(2) by (simp add: filled_def unat_gt_0)
qed

function match_loop ::
  "ClientId \<Rightarrow> OrderId \<Rightarrow> TickerId \<Rightarrow> Side \<Rightarrow> Price \<Rightarrow> OrderId \<Rightarrow> Qty \<Rightarrow> ExchangeOrderBook \<Rightarrow>
   (Qty \<times> ExchangeOrderBook) result" where
  "match_loop client_id client_order_id ticker_id side price new_market_order_id leaves_qty b =
     (let best = best_by_price (other_side side) b
      in if leaves_qty \<noteq> 0 \<and> best \<noteq> None then
           rbind (level b best) (\<lambda>l.
           case l_first_order l of
             None \<Rightarrow> Inl Null_deref
           | Some itr \<Rightarrow>
               if not_crossed side price (o_price (ord b itr)) then Inr (leaves_qty, b)
               else
                 (case Match ticker_id client_id side client_order_id new_market_order_id itr leaves_qty b of
                    Inl e \<Rightarrow> Inl e
                  | Inr r \<Rightarrow> match_loop client_id client_order_id ticker_id side price
                      new_market_order_id (fst r) (snd r)))
         else Inr (leaves_qty, b))"
  by pat_completeness auto
termination
  by (relation "measure (\<lambda>(_, _, _, _, _, _, leaves, b). card (live (order_pool b)) + unat leaves)")
    (auto intro: Match_progress)

declare match_loop.simps [simp del]

text \<open>
  \<open>new_market_order_id\<close> has type \<open>Qty\<close> here: the 64 bit id loses its upper half on the way.
\<close>

definition CheckForMatch ::
  "ClientId \<Rightarrow> OrderId \<Rightarrow> TickerId \<Rightarrow> Side \<Rightarrow> Price \<Rightarrow> Qty \<Rightarrow> Qty \<Rightarrow> ExchangeOrderBook \<Rightarrow>
   (Qty \<times> ExchangeOrderBook) result" where
  "CheckForMatch client_id client_order_id ticker_id side price qty new_market_order_id b =
     (if side = Side_BUY \<or> side = Side_SELL
      then match_loop client_id client_order_id ticker_id side price (ucast new_market_order_id) qty b
      else Inr (qty, b))"

section \<open>Requests\<close>

definition Add ::
  "ClientId \<Rightarrow> OrderId \<Rightarrow> TickerId \<Rightarrow> Side \<Rightarrow> Price \<Rightarrow> Qty \<Rightarrow> ExchangeOrderBook \<Rightarrow>
   ExchangeOrderBook result" where
  "Add client_id client_order_id ticker_id side price qty b =
     (let (new_market_order_id, b) = GenerateNewMarketOrderId b;
          b = SendClientResponse
                \<lparr>rs_type = ClientResponseType_ACCEPTED, rs_client_id = client_id,
                 rs_ticker_id = ticker_id, rs_client_order_id = client_order_id,
                 rs_market_order_id = new_market_order_id, rs_side = side, rs_price = price,
                 rs_exec_qty = 0, rs_leaves_qty = qty\<rparr> b
      in rbind (CheckForMatch client_id client_order_id ticker_id side price qty
                  (ucast new_market_order_id) b) (\<lambda>(leaves_qty, b).
         if leaves_qty \<noteq> 0 then
           rbind (GetNextPriority price b) (\<lambda>priority.
           rbind (Allocate
             \<lparr>o_order_id = new_market_order_id, o_side = side, o_price = price, o_qty = leaves_qty,
              o_priority = priority, o_prev_order = None, o_next_order = None,
              o_ticker_id = ticker_id, o_client_id = client_id,
              o_client_order_id = client_order_id\<rparr> (order_pool b)) (\<lambda>(x, P).
           rbind (AddOrder x (b\<lparr>order_pool := P\<rparr>)) (\<lambda>b.
           Inr (SendMarketUpdate
             \<lparr>mu_type = MarketUpdateType_ADD, mu_order_id = new_market_order_id,
              mu_ticker_id = ticker_id, mu_side = side, mu_price = price, mu_qty = leaves_qty,
              mu_priority = priority\<rparr> b))))
         else Inr b))"

definition Cancel ::
  "ClientId \<Rightarrow> OrderId \<Rightarrow> TickerId \<Rightarrow> ExchangeOrderBook \<Rightarrow> ExchangeOrderBook result" where
  "Cancel client_id order_id ticker_id b =
     rbind (if unat client_id < ME_MAX_NUM_CLIENTS then cid_oid_at client_id order_id b else Inr None) (\<lambda>p.
     case p of
       None \<Rightarrow>
         Inr (SendClientResponse
           \<lparr>rs_type = ClientResponseType_CANCEL_REJECTED, rs_client_id = client_id,
            rs_ticker_id = ticker_id, rs_client_order_id = order_id,
            rs_market_order_id = ORDER_ID_INVALID, rs_side = Side_INVALID,
            rs_price = PRICE_INVALID, rs_exec_qty = QTY_INVALID, rs_leaves_qty = QTY_INVALID\<rparr> b)
     | Some x \<Rightarrow>
         rbind (order b (Some x)) (\<lambda>o1.
         rbind (RemoveOrder x b) (\<lambda>b.
         Inr (SendClientResponse
           \<lparr>rs_type = ClientResponseType_CANCELED, rs_client_id = client_id,
            rs_ticker_id = ticker_id, rs_client_order_id = order_id,
            rs_market_order_id = o_order_id o1, rs_side = o_side o1, rs_price = o_price o1,
            rs_exec_qty = QTY_INVALID, rs_leaves_qty = o_qty o1\<rparr>
           (SendMarketUpdate
             \<lparr>mu_type = MarketUpdateType_CANCEL, mu_order_id = o_order_id o1,
              mu_ticker_id = ticker_id, mu_side = o_side o1, mu_price = o_price o1, mu_qty = 0,
              mu_priority = o_priority o1\<rparr> b)))))"

end
