(* ===== verification/Exchange_Spec.thy ===== *)
theory Exchange_Spec
  imports Exchange_Order_Book
begin

text \<open>
  What the exchange order book promises, without pools, rings and slots: a side is one list of
  orders in price-time priority. Matching consumes a prefix of the opposite list, adding inserts
  behind every order that is not worse, cancelling removes.
\<close>

record ExchangeSpec =
  sp_orders :: "Side \<Rightarrow> ExchangeOrder list"
  sp_index :: "ClientId \<times> OrderId \<Rightarrow> OrderId option"
  sp_next :: OrderId
  sp_sent :: "engine_message list"

abbreviation order_key :: "ExchangeOrder \<Rightarrow> ClientId \<times> OrderId" where
  "order_key q \<equiv> (o_client_id q, o_client_order_id q)"

definition forget :: "'k list \<Rightarrow> ('k \<Rightarrow> 'v option) \<Rightarrow> 'k \<Rightarrow> 'v option" where
  "forget ks m = (\<lambda>k. if k \<in> set ks then None else m k)"

fun spec_match ::
  "TickerId \<Rightarrow> ClientId \<Rightarrow> Side \<Rightarrow> OrderId \<Rightarrow> OrderId \<Rightarrow> Price \<Rightarrow> Qty \<Rightarrow> ExchangeOrder list \<Rightarrow>
   Qty \<times> ExchangeOrder list \<times> ExchangeOrder list \<times> engine_message list" where
  "spec_match t c s co mo p l [] = (l, [], [], [])"
| "spec_match t c s co mo p l (q # qs) =
     (if l = 0 \<or> not_crossed s p (o_price q) then (l, q # qs, [], [])
      else if o_qty q - min l (o_qty q) = 0 then
        (case spec_match t c s co mo p (l - min l (o_qty q)) qs of
           (l', qs', gone, ms) \<Rightarrow> (l', qs', q # gone, match_messages t c s co mo l q @ ms))
      else (l - min l (o_qty q), q\<lparr>o_qty := o_qty q - min l (o_qty q)\<rparr> # qs, [],
            match_messages t c s co mo l q))"

definition spec_priority :: "Price \<Rightarrow> ExchangeOrder list \<Rightarrow> Priority" where
  "spec_priority p qs =
     (let rs = filter (\<lambda>r. o_price r = p) qs in if rs = [] then 1 else o_priority (last rs) + 1)"

text \<open>The id the fills of an incoming order carry.\<close>

definition fill_id :: "OrderId \<Rightarrow> OrderId" where
  "fill_id mo = ucast (ucast mo :: Qty)"

definition accepted :: "ClientId \<Rightarrow> OrderId \<Rightarrow> TickerId \<Rightarrow> Side \<Rightarrow> Price \<Rightarrow> Qty \<Rightarrow> OrderId \<Rightarrow> MEClientResponse" where
  "accepted c co t s p qty mo =
     \<lparr>rs_type = ClientResponseType_ACCEPTED, rs_client_id = c, rs_ticker_id = t,
      rs_client_order_id = co, rs_market_order_id = mo, rs_side = s, rs_price = p,
      rs_exec_qty = 0, rs_leaves_qty = qty\<rparr>"

definition spec_order ::
  "ClientId \<Rightarrow> OrderId \<Rightarrow> TickerId \<Rightarrow> Side \<Rightarrow> Price \<Rightarrow> Qty \<Rightarrow> OrderId \<Rightarrow> Priority \<Rightarrow> ExchangeOrder" where
  "spec_order c co t s p qty mo pr =
     \<lparr>o_order_id = mo, o_side = s, o_price = p, o_qty = qty, o_priority = pr, o_prev_order = None,
      o_next_order = None, o_ticker_id = t, o_client_id = c, o_client_order_id = co\<rparr>"

definition add_update :: "ExchangeOrder \<Rightarrow> MEMarketUpdate" where
  "add_update q =
     \<lparr>mu_type = MarketUpdateType_ADD, mu_order_id = o_order_id q, mu_ticker_id = o_ticker_id q,
      mu_side = o_side q, mu_price = o_price q, mu_qty = o_qty q, mu_priority = o_priority q\<rparr>"

definition spec_add ::
  "ClientId \<Rightarrow> OrderId \<Rightarrow> TickerId \<Rightarrow> Side \<Rightarrow> Price \<Rightarrow> Qty \<Rightarrow> ExchangeSpec \<Rightarrow> ExchangeSpec" where
  "spec_add c co t s p qty S =
     (let mo = sp_next S;
          (l, opp, gone, ms) = spec_match t c s co (fill_id mo) p qty (sp_orders S (other_side s));
          S = S\<lparr>sp_orders := (sp_orders S)(other_side s := opp),
                sp_index := forget (map order_key gone) (sp_index S), sp_next := mo + 1,
                sp_sent := sp_sent S @ Response (accepted c co t s p qty mo) # ms\<rparr>;
          q = spec_order c co t s p l mo (spec_priority p (sp_orders S s))
      in if l = 0 then S
         else S\<lparr>sp_orders := (sp_orders S)(s := spec_insert s q (sp_orders S s)),
                sp_index := (sp_index S)((c, co) := Some mo),
                sp_sent := sp_sent S @ [Update (add_update q)]\<rparr>)"

definition spec_orders :: "ExchangeSpec \<Rightarrow> ExchangeOrder list" where
  "spec_orders S = sp_orders S Side_BUY @ sp_orders S Side_SELL"

definition spec_cancel :: "ClientId \<Rightarrow> OrderId \<Rightarrow> TickerId \<Rightarrow> ExchangeSpec \<Rightarrow> ExchangeSpec" where
  "spec_cancel c co t S =
     (case sp_index S (c, co) of
        None \<Rightarrow> S\<lparr>sp_sent := sp_sent S @
          [Response \<lparr>rs_type = ClientResponseType_CANCEL_REJECTED, rs_client_id = c,
             rs_ticker_id = t, rs_client_order_id = co, rs_market_order_id = ORDER_ID_INVALID,
             rs_side = Side_INVALID, rs_price = PRICE_INVALID, rs_exec_qty = QTY_INVALID,
             rs_leaves_qty = QTY_INVALID\<rparr>]\<rparr>
      | Some mo \<Rightarrow>
          let q = hd (filter (\<lambda>r. o_order_id r = mo) (spec_orders S))
          in S\<lparr>sp_orders := (sp_orders S)(o_side q := filter (\<lambda>r. o_order_id r \<noteq> mo) (sp_orders S (o_side q))),
               sp_index := forget [(c, co)] (sp_index S),
               sp_sent := sp_sent S @
                 [Update \<lparr>mu_type = MarketUpdateType_CANCEL, mu_order_id = mo, mu_ticker_id = t,
                    mu_side = o_side q, mu_price = o_price q, mu_qty = 0, mu_priority = o_priority q\<rparr>,
                  Response \<lparr>rs_type = ClientResponseType_CANCELED, rs_client_id = c,
                    rs_ticker_id = t, rs_client_order_id = co, rs_market_order_id = mo,
                    rs_side = o_side q, rs_price = o_price q, rs_exec_qty = QTY_INVALID,
                    rs_leaves_qty = o_qty q\<rparr>]\<rparr>)"

lemma forget_simps [simp]: "forget [] m = m" "forget ks (forget ks' m) = forget (ks @ ks') m"
  by (auto simp: forget_def fun_eq_iff)

end
