(* ===== verification/Exchange_Refinement.thy ===== *)
theory Exchange_Refinement
  imports Exchange_Spec
begin

text \<open>
  The order book of the exchange implements its specification. \<open>eob_ok b L\<close> is the invariant of a
  book \<open>b\<close> whose heap represents the address lists \<open>L\<close>, \<open>abs_book b L\<close> the specification state it
  stands for; every operation keeps the invariant and commutes with the abstraction.
\<close>

section \<open>The invariant\<close>

definition eob_ok :: "ExchangeOrderBook \<Rightarrow> (Side \<Rightarrow> levels) \<Rightarrow> bool" where
  "eob_ok b L \<longleftrightarrow>
     book_ok b L \<and> (\<forall>s. \<not> trade_side s \<longrightarrow> L s = []) \<and>
     pool_ok (order_pool b) \<and> live (order_pool b) = set (addrs (all_levels L)) \<and>
     (\<forall>x\<in>live (order_pool b). cid_oid_in_range (o_client_id (ord b x)) (o_client_order_id (ord b x)) \<and>
        o_order_id (ord b x) < next_market_order_id b) \<and>
     inj_on (\<lambda>x. o_order_id (ord b x)) (live (order_pool b)) \<and>
     (\<forall>c i x. cid_oid_in_range c i \<longrightarrow> cid_oid_to_order b (unat c) (unat i) = Some x \<longrightarrow>
        x \<in> live (order_pool b) \<and> o_client_id (ord b x) = c \<and> o_client_order_id (ord b x) = i)"

definition abs_orders :: "ExchangeOrderBook \<Rightarrow> (Side \<Rightarrow> levels) \<Rightarrow> Side \<Rightarrow> ExchangeOrder list" where
  "abs_orders b L s = map (\<lambda>x. strip (ord b x)) (addrs (L s))"

definition abs_index :: "ExchangeOrderBook \<Rightarrow> ClientId \<times> OrderId \<Rightarrow> OrderId option" where
  "abs_index b = (\<lambda>(c, i). if cid_oid_in_range c i
     then map_option (\<lambda>x. o_order_id (ord b x)) (cid_oid_to_order b (unat c) (unat i)) else None)"

definition abs_book :: "ExchangeOrderBook \<Rightarrow> (Side \<Rightarrow> levels) \<Rightarrow> ExchangeSpec" where
  "abs_book b L =
     \<lparr>sp_orders = abs_orders b L, sp_index = abs_index b, sp_next = next_market_order_id b,
      sp_sent = sent b\<rparr>"

text \<open>The memory pools have a fixed size.\<close>

definition pools_kept :: "ExchangeOrderBook \<Rightarrow> ExchangeOrderBook \<Rightarrow> bool" where
  "pools_kept b b' \<longleftrightarrow>
     store_size (order_pool b') = store_size (order_pool b) \<and>
     store_size (orders_at_price_pool b') = store_size (orders_at_price_pool b)"

section \<open>Frames\<close>

lemma strip_more:
  fixes q q' :: ExchangeOrder
  assumes "strip q = strip q'"
  shows "o_order_id q = o_order_id q'" "o_side q = o_side q'" "o_price q = o_price q'"
    "o_qty q = o_qty q'" "o_priority q = o_priority q'" "o_client_id q = o_client_id q'"
    "o_client_order_id q = o_client_order_id q'" "o_ticker_id q = o_ticker_id q'"
  using assms by (cases q; cases q'; simp add: strip_def)+

lemma strip_get_eo [simp]:
  fixes q :: ExchangeOrder
  shows "o_client_id (strip q) = o_client_id q" "o_client_order_id (strip q) = o_client_order_id q"
    "o_ticker_id (strip q) = o_ticker_id q"
  by (simp_all add: strip_def)

lemma eob_more:
  fixes b b' :: ExchangeOrderBook
  assumes "OrderBook.more b' = OrderBook.more b"
  shows "eb_ticker_id b' = eb_ticker_id b" "cid_oid_to_order b' = cid_oid_to_order b"
    "next_market_order_id b' = next_market_order_id b" "sent b' = sent b"
  using assms by (cases b; cases b'; simp)+

lemma eob_okD:
  assumes "eob_ok b L"
  shows "book_ok b L" "pool_ok (order_pool b)" "live (order_pool b) = set (addrs (all_levels L))"
    "inj_on (\<lambda>x. o_order_id (ord b x)) (live (order_pool b))"
    "x \<in> live (order_pool b) \<Longrightarrow> cid_oid_in_range (o_client_id (ord b x)) (o_client_order_id (ord b x))"
    "x \<in> live (order_pool b) \<Longrightarrow> o_order_id (ord b x) < next_market_order_id b"
    "\<not> trade_side s \<Longrightarrow> L s = []"
    "cid_oid_in_range c i \<Longrightarrow> cid_oid_to_order b (unat c) (unat i) = Some x \<Longrightarrow>
      x \<in> live (order_pool b) \<and> o_client_id (ord b x) = c \<and> o_client_order_id (ord b x) = i"
  using assms unfolding eob_ok_def by blast+

text \<open>The fields the invariant and the abstraction read, up to the pointers of the orders.\<close>

lemma abs_orders_side_orders: "abs_orders b L = side_orders b L"
  by (rule ext) (simp add: abs_orders_def side_orders_def)

lemma abs_orders_cong:
  assumes "\<And>x. x \<in> set (addrs (L s)) \<Longrightarrow> strip (ord b' x) = strip (ord b x)"
  shows "abs_orders b' L s = abs_orders b L s"
  using assms by (simp add: abs_orders_def)

section \<open>Removing an order\<close>

text \<open>The part of the invariant about ids and the map from client order ids.\<close>

definition keys_ok :: "ExchangeOrderBook \<Rightarrow> nat set \<Rightarrow> bool" where
  "keys_ok b X \<longleftrightarrow>
     (\<forall>x\<in>X. cid_oid_in_range (o_client_id (ord b x)) (o_client_order_id (ord b x)) \<and>
        o_order_id (ord b x) < next_market_order_id b) \<and>
     inj_on (\<lambda>x. o_order_id (ord b x)) X \<and>
     (\<forall>c i x. cid_oid_in_range c i \<longrightarrow> cid_oid_to_order b (unat c) (unat i) = Some x \<longrightarrow>
        x \<in> X \<and> o_client_id (ord b x) = c \<and> o_client_order_id (ord b x) = i)"

lemma eob_ok_keys:
  "eob_ok b L \<longleftrightarrow> book_ok b L \<and> (\<forall>s. \<not> trade_side s \<longrightarrow> L s = []) \<and> pool_ok (order_pool b) \<and>
     live (order_pool b) = set (addrs (all_levels L)) \<and> keys_ok b (live (order_pool b))"
  unfolding eob_ok_def keys_ok_def by blast

lemma keys_ok_remove:
  assumes ok: "keys_ok b X" and x: "x \<in> X" and st: "\<And>y. strip (ord b' y) = strip (ord b y)"
    and b': "cid_oid_to_order b' = (cid_oid_to_order b)(unat (o_client_id (ord b x)) :=
        (cid_oid_to_order b (unat (o_client_id (ord b x))))(unat (o_client_order_id (ord b x)) := None))"
      "next_market_order_id b' = next_market_order_id b"
  shows "keys_ok b' (X - {x})" "abs_index b' = forget [order_key (ord b x)] (abs_index b)"
proof -
  note sm = strip_more [OF st]
  define c i where "c = o_client_id (ord b x)" and "i = o_client_order_id (ord b x)"
  note b' = b' [folded c_def i_def]
  have old: "cid_oid_in_range (o_client_id (ord b y)) (o_client_order_id (ord b y))"
    "o_order_id (ord b y) < next_market_order_id b" if "y \<in> X" for y
    using ok that unfolding keys_ok_def by blast+
  have range: "cid_oid_in_range c i" using old(1) [OF x] by (simp add: c_def i_def)
  have inX: "y \<in> X \<and> o_client_id (ord b y) = d \<and> o_client_order_id (ord b y) = j"
    if "cid_oid_in_range d j" "cid_oid_to_order b (unat d) (unat j) = Some y" for d j y
    using ok that unfolding keys_ok_def by blast
  show "keys_ok b' (X - {x})"
    unfolding keys_ok_def
  proof (intro conjI allI impI ballI)
    fix y assume "y \<in> X - {x}"
    then show "cid_oid_in_range (o_client_id (ord b' y)) (o_client_order_id (ord b' y))"
      "o_order_id (ord b' y) < next_market_order_id b'"
      using old [of y] by (simp_all add: sm b'(2))
  next
    show "inj_on (\<lambda>y. o_order_id (ord b' y)) (X - {x})" using ok by (simp add: sm keys_ok_def inj_on_def)
  next
    fix d j y assume r: "cid_oid_in_range d j" "cid_oid_to_order b' (unat d) (unat j) = Some y"
    then have nd: "(d, j) \<noteq> (c, i)" "cid_oid_to_order b (unat d) (unat j) = Some y"
      using b'(1) by (auto split: if_splits)
    from inX [OF r(1) nd(2)] show "y \<in> X - {x}" "o_client_id (ord b' y) = d" "o_client_order_id (ord b' y) = j"
      using nd(1) by (auto simp: sm c_def i_def)
  qed
  show "abs_index b' = forget [order_key (ord b x)] (abs_index b)"
  proof (rule ext)
    fix k :: "ClientId \<times> OrderId"
    obtain d j where k: "k = (d, j)" by (cases k)
    show "abs_index b' k = forget [order_key (ord b x)] (abs_index b) k"
      using b'(1) range by (auto simp: k abs_index_def forget_def sm c_def i_def word_unat_eq_iff [symmetric])
  qed
qed

lemma RemoveOrder_ok:
  assumes ok: "eob_ok b L" and s: "trade_side s" and x: "x \<in> set (addrs (L s))"
  obtains b' ls' where "RemoveOrder x b = Inr b'" "eob_ok b' (L(s := ls'))"
    "addrs ls' = remove1 x (addrs (L s))" "\<And>y. strip (ord b' y) = strip (ord b y)"
    "live (order_pool b') = live (order_pool b) - {x}"
    "live (orders_at_price_pool b') \<subseteq> live (orders_at_price_pool b)"
    "abs_index b' = forget [order_key (ord b x)] (abs_index b)"
    "next_market_order_id b' = next_market_order_id b" "sent b' = sent b"
    "store_size (order_pool b') = store_size (order_pool b)"
    "store_size (orders_at_price_pool b') = store_size (orders_at_price_pool b)"
proof -
  note D = eob_okD [OF ok]
  have xl: "x \<in> live (order_pool b)" using D(3) addrs_sides [OF s, of L] x by simp
  obtain b1 ls' where b1: "unlink_order x b = Inr b1" "addrs ls' = remove1 x (addrs (L s))"
    "book_ok b1 (L(s := ls'))" "orders_kept b b1"
    "live (orders_at_price_pool b1) \<subseteq> live (orders_at_price_pool b)"
    by (rule unlink_order_ok [OF D(1) s x])
  have st: "strip (ord b1 y) = strip (ord b y)" for y using b1(4) by (simp add: orders_kept_def)
  have k: "live (order_pool b1) = live (order_pool b)" "pool_ok (order_pool b1)"
    "store_size (order_pool b1) = store_size (order_pool b)"
    "store_size (orders_at_price_pool b1) = store_size (orders_at_price_pool b)"
    using b1(4) D(2) by (simp_all add: orders_kept_def)
  note mr = eob_more [of b1 b] and sm = strip_more [OF st]
  have mr: "cid_oid_to_order b1 = cid_oid_to_order b" "next_market_order_id b1 = next_market_order_id b"
    "sent b1 = sent b"
    using mr b1(4) by (simp_all add: orders_kept_def)
  obtain P where P: "Deallocate x (order_pool b1) = Inr P" "live P = live (order_pool b1) - {x}" "pool_ok P"
    "store_size P = store_size (order_pool b1)" "\<And>y. obj P y = ord b1 y"
    using mem_pool.deallocE [of "order_pool b1" x] k xl by metis
  define c i where "c = o_client_id (ord b x)" and "i = o_client_order_id (ord b x)"
  have range: "cid_oid_in_range c i" using D(5) [OF xl] by (simp add: c_def i_def)
  define b' where "b' = b1\<lparr>order_pool := P, cid_oid_to_order := (cid_oid_to_order b)
     (unat c := (cid_oid_to_order b (unat c))(unat i := None))\<rparr>"
  have b': "order_pool b' = P" "orders_at_price_pool b' = orders_at_price_pool b1"
    "cid_oid_to_order b' = (cid_oid_to_order b)(unat c := (cid_oid_to_order b (unat c))(unat i := None))"
    "next_market_order_id b' = next_market_order_id b" "sent b' = sent b"
    by (simp_all add: b'_def mr)
  have res: "RemoveOrder x b = Inr b'"
    using b1(1) P(1) range sm(6,7) [of x] mr(1)
    by (simp add: RemoveOrder_def set_cid_oid_def b'_def c_def i_def)
  have oo: "ord b' y = ord b1 y" for y using P(5) b'(1) by simp
  have st': "strip (ord b' y) = strip (ord b y)" for y using st oo by simp
  have lv: "live (order_pool b') = live (order_pool b) - {x}" using P(2) k(1) b'(1) by simp
  have ro: "set (addrs ls') = set (addrs (L s)) - {x}"
    using b1(2) sides_disjoint(4) [OF D(1) s] by simp
  have keys0: "keys_ok b (live (order_pool b))" using ok unfolding eob_ok_keys by blast
  note keys = keys_ok_remove [OF keys0 xl st' b'(3) [unfolded c_def i_def] b'(4)]
  have ok': "eob_ok b' (L(s := ls'))"
    unfolding eob_ok_keys
  proof (intro conjI allI impI)
    show "book_ok b' (L(s := ls'))"
      by (rule book_ok_cong [OF b1(3)]) (simp_all add: oo, simp_all add: b'_def)
    show "(L(s := ls')) t = []" if "\<not> trade_side t" for t using that D(7) s by auto
    show "live (order_pool b') = set (addrs (all_levels (L(s := ls'))))"
      using lv D(3) sides_disjoint(2) [OF D(1) s] x ro
      unfolding addrs_update_side [OF s] addrs_sides [OF s] by auto
    show "keys_ok b' (live (order_pool b'))" unfolding lv by (rule keys(1))
  qed (simp add: P(3) b')
  have "live (orders_at_price_pool b') \<subseteq> live (orders_at_price_pool b)"
    using b1(5) by (simp add: b')
  moreover have "store_size (order_pool b') = store_size (order_pool b)" using P(4) k(3) by (simp add: b')
  ultimately show thesis
    using st' lv keys(2) b'(2,4,5) k(4) by (intro that [OF res ok' b1(2)]) simp_all
qed

section \<open>Matching\<close>

lemma filled_fields [simp]:
  "order_pool (filled x f ms b) = upd_obj x (\<lambda>q. q\<lparr>o_qty := o_qty q - f\<rparr>) (order_pool b)"
  "sent (filled x f ms b) = sent b @ ms" "next_market_order_id (filled x f ms b) = next_market_order_id b"
  "cid_oid_to_order (filled x f ms b) = cid_oid_to_order b"
  "orders_at_price_pool (filled x f ms b) = orders_at_price_pool b"
  by (simp_all add: filled_def)

lemma filled_ord [simp]:
  "o_client_id (ord (filled x f ms b) y) = o_client_id (ord b y)"
  "o_client_order_id (ord (filled x f ms b) y) = o_client_order_id (ord b y)"
  "o_order_id (ord (filled x f ms b) y) = o_order_id (ord b y)"
  "y \<noteq> x \<Longrightarrow> ord (filled x f ms b) y = ord b y"
  "o_qty (ord (filled x f ms b) x) = o_qty (ord b x) - f"
  "strip (ord (filled x f ms b) x) = (strip (ord b x))\<lparr>o_qty := o_qty (ord b x) - f\<rparr>"
  by simp_all

declare filled_fields(1) [simp del]

lemma filled_pool [simp]:
  "live (order_pool (filled x f ms b)) = live (order_pool b)"
  "pool_ok (order_pool (filled x f ms b)) = pool_ok (order_pool b)"
  "store_size (order_pool (filled x f ms b)) = store_size (order_pool b)"
  by (simp_all add: filled_fields(1))

lemma filled_ok:
  assumes "eob_ok b L"
  shows "eob_ok (filled x f ms b) L" "abs_index (filled x f ms b) = abs_index b"
proof -
  have "book_ok (b\<lparr>order_pool := upd_obj x (\<lambda>q. q\<lparr>o_qty := o_qty q - f\<rparr>) (order_pool b)\<rparr>) L"
    by (rule book_ok_upd_order [OF eob_okD(1) [OF assms]]) simp_all
  then have "book_ok (filled x f ms b) L"
    by (rule book_ok_cong) (simp_all add: filled_def)
  then show "eob_ok (filled x f ms b) L"
    using assms unfolding eob_ok_def filled_ord(1-3) filled_fields(3,4) filled_pool
    by (elim conjE) (intro conjI; assumption)
  show "abs_index (filled x f ms b) = abs_index b"
    by (auto simp: abs_index_def fun_eq_iff)
qed

lemma match_loop_stop:
  "l = 0 \<or> best_by_price (other_side s) b = None \<Longrightarrow> match_loop c co t s p mo l b = Inr (l, b)"
  by (subst match_loop.simps) auto

lemma match_messages_strip [simp]: "match_messages t c s co mo l (strip q) = match_messages t c s co mo l q"
  by (simp add: match_messages_def)

lemma eob_best:
  assumes ok: "eob_ok b L" and s: "trade_side s" and "addrs (L s) = x # xs"
  obtains a where "best_by_price s b = Some a" "l_first_order (lvl b a) = Some x"
  using best_level [OF eob_okD(1) [OF ok] s] assms(3) by (cases "best_by_price s b") auto

text \<open>Touching one order, on one side, leaves the other lists of the abstraction alone.\<close>

lemma abs_orders_side:
  assumes ok: "eob_ok b L" and s: "trade_side s" and x: "x \<in> set (addrs (L s))"
    and st: "\<And>y. y \<noteq> x \<Longrightarrow> strip (ord b' y) = strip (ord b y)"
  shows "abs_orders b' (L(s := ls)) = (abs_orders b L)(s := map (\<lambda>y. strip (ord b' y)) (addrs ls))"
proof (rule ext)
  fix t
  show "abs_orders b' (L(s := ls)) t = ((abs_orders b L)(s := map (\<lambda>y. strip (ord b' y)) (addrs ls))) t"
  proof (cases "t = s")
    case False
    have "x \<notin> set (addrs (L t))"
    proof (cases "trade_side t")
      case True
      with False s have "t = other_side s" by (auto simp: other_side_def)
      with sides_disjoint(2) [OF eob_okD(1) [OF ok] s] x show ?thesis by auto
    qed (simp add: eob_okD(7) [OF ok])
    then have "strip (ord b' y) = strip (ord b y)" if "y \<in> set (addrs (L t))" for y
      using st [of y] that by blast
    with False show ?thesis by (simp add: abs_orders_def)
  qed (simp add: abs_orders_def)
qed

lemma match_loop_head:
  assumes "eob_ok b L" "trade_side s" "addrs (L (other_side s)) = x # xs"
  shows "match_loop c co t s p mo l b =
    (if l = 0 \<or> not_crossed s p (o_price (ord b x)) then Inr (l, b)
     else rbind (Match t c s co mo x l b) (\<lambda>r. match_loop c co t s p mo (fst r) (snd r)))"
proof -
  obtain a where "best_by_price (other_side s) b = Some a" "l_first_order (lvl b a) = Some x"
    by (rule eob_best [OF assms(1) trade_side_other(1) assms(3)])
  then show ?thesis by (subst match_loop.simps) (auto split: sum.splits)
qed

text \<open>One round against an order that survives, and against one that does not.\<close>

lemma Match_keeps:
  fixes t :: TickerId and c :: ClientId and s' :: Side and co mo :: OrderId
  assumes ok: "eob_ok b L" and s: "trade_side s" and A: "addrs (L s) = x # xs"
    and f: "l \<noteq> 0" "o_qty (ord b x) - min l (o_qty (ord b x)) \<noteq> 0"
  defines "b1 \<equiv> filled x l (match_messages t c s' co mo l (ord b x)) b"
  shows "Match t c s' co mo x l b = Inr (0, b1)" "min l (o_qty (ord b x)) = l" "eob_ok b1 L"
    "abs_orders b1 L = (abs_orders b L)(s :=
       (strip (ord b x))\<lparr>o_qty := o_qty (ord b x) - l\<rparr> # map (\<lambda>y. strip (ord b y)) xs)"
proof -
  show m: "min l (o_qty (ord b x)) = l" using f(2) by (auto simp: min_def split: if_splits)
  then show "Match t c s' co mo x l b = Inr (0, b1)" using f(2) by (simp add: Match_eq b1_def)
  show "eob_ok b1 L" unfolding b1_def by (rule filled_ok(1) [OF ok])
  have "x \<notin> set xs" using sides_disjoint(4) [OF eob_okD(1) [OF ok] s] A by simp
  then have "map (\<lambda>y. strip (ord b1 y)) xs = map (\<lambda>y. strip (ord b y)) xs"
    unfolding b1_def by (intro map_cong refl arg_cong [where f = strip] filled_ord(4)) blast
  then show "abs_orders b1 L = (abs_orders b L)(s :=
       (strip (ord b x))\<lparr>o_qty := o_qty (ord b x) - l\<rparr> # map (\<lambda>y. strip (ord b y)) xs)"
    using abs_orders_side [OF ok s, of x b1 "L s"] by (simp add: A b1_def del: map_eq_conv)
qed

lemma Match_removes:
  assumes ok: "eob_ok b L" and s: "trade_side s" and A: "addrs (L s) = x # xs"
    and f: "o_qty (ord b x) - min l (o_qty (ord b x)) = 0"
  obtains b2 ls where
    "Match t c s' co mo x l b = Inr (l - min l (o_qty (ord b x)), b2)" "eob_ok b2 (L(s := ls))"
    "addrs ls = xs" "abs_orders b2 (L(s := ls)) = (abs_orders b L)(s := map (\<lambda>y. strip (ord b y)) xs)"
    "abs_index b2 = forget [order_key (ord b x)] (abs_index b)"
    "next_market_order_id b2 = next_market_order_id b"
    "sent b2 = sent b @ match_messages t c s' co mo l (ord b x)"
    "live (order_pool b2) \<subseteq> live (order_pool b)"
    "live (orders_at_price_pool b2) \<subseteq> live (orders_at_price_pool b)"
    "store_size (order_pool b2) = store_size (order_pool b)"
    "store_size (orders_at_price_pool b2) = store_size (orders_at_price_pool b)"
proof -
  let ?b1 = "filled x (min l (o_qty (ord b x))) (match_messages t c s' co mo l (ord b x)) b"
  obtain b2 ls where b2: "RemoveOrder x ?b1 = Inr b2" "eob_ok b2 (L(s := ls))"
    "addrs ls = remove1 x (addrs (L s))" "\<And>y. strip (ord b2 y) = strip (ord ?b1 y)"
    "live (order_pool b2) = live (order_pool ?b1) - {x}"
    "live (orders_at_price_pool b2) \<subseteq> live (orders_at_price_pool ?b1)"
    "abs_index b2 = forget [order_key (ord ?b1 x)] (abs_index ?b1)"
    "next_market_order_id b2 = next_market_order_id ?b1" "sent b2 = sent ?b1"
    "store_size (order_pool b2) = store_size (order_pool ?b1)"
    "store_size (orders_at_price_pool b2) = store_size (orders_at_price_pool ?b1)"
    by (rule RemoveOrder_ok [of ?b1 L s x]) (simp_all add: A s filled_ok(1) [OF ok])
  have st: "strip (ord b2 y) = strip (ord b y)" if "y \<noteq> x" for y using b2(4) [of y] that by simp
  have "x \<notin> set xs" using sides_disjoint(4) [OF eob_okD(1) [OF ok] s] A by simp
  then have "map (\<lambda>y. strip (ord b2 y)) xs = map (\<lambda>y. strip (ord b y)) xs"
    by (intro map_cong refl st) blast
  with abs_orders_side [OF ok s, of x b2 ls] st b2(3)
  have ao: "abs_orders b2 (L(s := ls)) = (abs_orders b L)(s := map (\<lambda>y. strip (ord b y)) xs)"
    by (simp add: A)
  have m: "Match t c s' co mo x l b = Inr (l - min l (o_qty (ord b x)), b2)"
    using b2(1) f by (simp add: Match_eq)
  show thesis
    by (rule that [OF m b2(2) _ ao]) (use b2(3,5-11) filled_ok(2) [OF ok] in \<open>auto simp: A\<close>)
qed

text \<open>What matching an order of side \<open>s\<close> has done: \<open>qs\<close> is left of the other side, \<open>gone\<close> has been filled.\<close>

definition matched ::
  "ExchangeOrderBook \<Rightarrow> (Side \<Rightarrow> levels) \<Rightarrow> Side \<Rightarrow> ExchangeOrder list \<Rightarrow> ExchangeOrder list \<Rightarrow> engine_message list \<Rightarrow>
   ExchangeOrderBook \<Rightarrow> (Side \<Rightarrow> levels) \<Rightarrow> bool" where
  "matched b L s qs gone ms b' L' \<longleftrightarrow>
     eob_ok b' L' \<and> L' s = L s \<and> abs_orders b' L' = (abs_orders b L)(other_side s := qs) \<and>
     abs_index b' = forget (map order_key gone) (abs_index b) \<and>
     next_market_order_id b' = next_market_order_id b \<and> sent b' = sent b @ ms \<and>
     live (order_pool b') \<subseteq> live (order_pool b) \<and>
     live (orders_at_price_pool b') \<subseteq> live (orders_at_price_pool b) \<and>
     store_size (order_pool b') = store_size (order_pool b) \<and>
     store_size (orders_at_price_pool b') = store_size (orders_at_price_pool b)"

lemma matched_none:
  assumes "eob_ok b L"
  shows "matched b L s (abs_orders b L (other_side s)) [] [] b L"
  using assms by (auto simp: matched_def fun_upd_idem)

lemma matched_trans:
  assumes "matched b L s qs [q] ms b1 L1" "matched b1 L1 s qs' gone ms' b' L'"
  shows "matched b L s qs' (strip q # gone) (ms @ ms') b' L'"
  using assms by (auto simp: matched_def forget_def)

lemma matched_keeps:
  fixes t :: TickerId and c :: ClientId and s :: Side and co mo :: OrderId
  assumes ok: "eob_ok b L" and A: "addrs (L (other_side s)) = x # xs"
    and f: "l \<noteq> 0" "o_qty (ord b x) - min l (o_qty (ord b x)) \<noteq> 0"
  obtains b1 where "Match t c s co mo x l b = Inr (0, b1)"
    "matched b L s ((strip (ord b x))\<lparr>o_qty := o_qty (ord b x) - min l (o_qty (ord b x))\<rparr> # map (\<lambda>y. strip (ord b y)) xs)
       [] (match_messages t c s co mo l (ord b x)) b1 L"
proof -
  note K = Match_keeps(2) [OF ok trade_side_other(1) A f] Match_keeps(1,3,4) [OF ok trade_side_other(1) A f, of t c s co mo]
  show thesis by (rule that [OF K(2)]) (use K(1,3,4) filled_ok(2) [OF ok] in \<open>auto simp: matched_def\<close>)
qed

lemma matched_removes:
  fixes t :: TickerId and c :: ClientId and s :: Side and co mo :: OrderId
  assumes ok: "eob_ok b L" and s: "trade_side s" and A: "addrs (L (other_side s)) = x # xs"
    and f: "o_qty (ord b x) - min l (o_qty (ord b x)) = 0"
  obtains b2 ls where "Match t c s co mo x l b = Inr (l - min l (o_qty (ord b x)), b2)" "addrs ls = xs"
    "matched b L s (map (\<lambda>y. strip (ord b y)) xs) [ord b x] (match_messages t c s co mo l (ord b x))
       b2 (L(other_side s := ls))"
proof -
  from ok trade_side_other(1) A f show thesis
    by (rule Match_removes [of b L "other_side s" x xs l t c s co mo]) (rule that, auto simp: matched_def)
qed

lemma match_loop_matched:
  assumes "eob_ok b L" "trade_side s"
    and "spec_match t c s co mo p l (abs_orders b L (other_side s)) = (l', qs', gone, ms)"
  shows "\<exists>b' L'. match_loop c co t s p mo l b = Inr (l', b') \<and> matched b L s qs' gone ms b' L'"
  using assms
proof (induction "addrs (L (other_side s))" arbitrary: b L l qs' gone ms)
  case Nil
  then have "abs_orders b L (other_side s) = []" by (simp add: abs_orders_def)
  moreover have "best_by_price (other_side s) b = None"
    using best_level(1) [OF eob_okD(1) [OF Nil(2)], of "other_side s"] Nil(1) by simp
  ultimately show ?case
    using Nil(4) match_loop_stop [of l s b] matched_none [OF Nil(2), of s]
    by (intro exI [of _ b] exI [of _ L]) auto
next
  case (Cons x xs)
  let ?o = "other_side s" and ?q = "ord b x"
  have A: "addrs (L ?o) = x # xs" using Cons(2) by simp
  have qs: "abs_orders b L ?o = strip ?q # map (\<lambda>y. strip (ord b y)) xs"
    by (simp add: abs_orders_def A)
  note unfold = match_loop_head [OF Cons(3,4) A, of c co t p mo l]
  consider "l = 0 \<or> not_crossed s p (o_price ?q)"
    | "l \<noteq> 0" "\<not> not_crossed s p (o_price ?q)" "o_qty ?q - min l (o_qty ?q) \<noteq> 0"
    | "l \<noteq> 0" "\<not> not_crossed s p (o_price ?q)" "o_qty ?q - min l (o_qty ?q) = 0"
    by blast
  then show ?case
  proof cases
    case 1
    with unfold Cons(5) qs matched_none [OF Cons(3), of s] show ?thesis
      by (intro exI [of _ b] exI [of _ L]) auto
  next
    case 2
    obtain b1 where b1: "Match t c s co mo x l b = Inr (0, b1)"
      "matched b L s ((strip ?q)\<lparr>o_qty := o_qty ?q - min l (o_qty ?q)\<rparr> # map (\<lambda>y. strip (ord b y)) xs)
         [] (match_messages t c s co mo l ?q) b1 L"
      by (rule matched_keeps [OF Cons(3) A 2(1,3)])
    have "min l (o_qty ?q) = l" by (rule Match_keeps(2) [OF Cons(3) trade_side_other(1) A 2(1,3)])
    with Cons(5) 2 unfold b1 match_loop_stop [of 0] show ?thesis
      by (intro exI [of _ b1] exI [of _ L]) (simp add: qs)
  next
    case 3
    obtain b2 ls where b2: "Match t c s co mo x l b = Inr (l - min l (o_qty ?q), b2)" "addrs ls = xs"
      "matched b L s (map (\<lambda>y. strip (ord b y)) xs) [?q] (match_messages t c s co mo l ?q) b2 (L(?o := ls))"
      by (rule matched_removes [OF Cons(3,4) A 3(3)])
    obtain l2 qs2 gone2 ms2 where sp:
      "spec_match t c s co mo p (l - min l (o_qty ?q)) (map (\<lambda>y. strip (ord b y)) xs) = (l2, qs2, gone2, ms2)"
      by (metis prod_cases4)
    then have eqs: "l' = l2" "qs' = qs2" "gone = strip ?q # gone2" "ms = match_messages t c s co mo l ?q @ ms2"
      using Cons(5) 3 by (simp_all add: qs)
    have "xs = addrs ((L(?o := ls)) ?o)" "eob_ok b2 (L(?o := ls))" using b2(2,3) by (simp_all add: matched_def)
    moreover have "spec_match t c s co mo p (l - min l (o_qty ?q)) (abs_orders b2 (L(?o := ls)) ?o) =
      (l', qs2, gone2, ms2)"
      using sp eqs(1) b2(3) by (simp add: matched_def)
    ultimately obtain b' L' where IH: "match_loop c co t s p mo (l - min l (o_qty ?q)) b2 = Inr (l', b')"
      "matched b2 (L(?o := ls)) s qs2 gone2 ms2 b' L'"
      using Cons(1) [of "L(?o := ls)" b2] Cons(4) by blast
    have "match_loop c co t s p mo l b = Inr (l', b')" using 3 b2(1) IH(1) unfold by simp
    with matched_trans [OF b2(3) IH(2)] eqs show ?thesis by auto
  qed
qed

lemmas match_loop_ok = match_loop_matched [unfolded matched_def]

section \<open>Adding an order\<close>

lemma abs_orders_set: "set (abs_orders b L s) = (\<lambda>x. strip (ord b x)) ` set (addrs (L s))"
  by (simp add: abs_orders_def)

lemma live_sides:
  "eob_ok b L \<Longrightarrow> trade_side s \<Longrightarrow> live (order_pool b) = set (addrs (L s)) \<union> set (addrs (L (other_side s)))"
  using eob_okD(3) addrs_sides by metis

lemma addrs_live: "eob_ok b L \<Longrightarrow> y \<in> set (addrs (L t)) \<Longrightarrow> y \<in> live (order_pool b)"
  using eob_okD(7) [of b L t] live_sides [of b L t] by (cases "trade_side t") auto

lemma keys_ok_insert:
  fixes q :: ExchangeOrder
  assumes ok: "keys_ok b X" and x: "x \<notin> X"
    and st: "\<And>y. y \<in> X \<Longrightarrow> strip (ord b' y) = strip (ord b y)" "strip (ord b' x) = q"
    and range: "cid_oid_in_range (o_client_id q) (o_client_order_id q)"
    and id: "o_order_id q < next_market_order_id b" "\<And>y. y \<in> X \<Longrightarrow> o_order_id (ord b y) \<noteq> o_order_id q"
    and b': "cid_oid_to_order b' = (cid_oid_to_order b)(unat (o_client_id q) :=
        (cid_oid_to_order b (unat (o_client_id q)))(unat (o_client_order_id q) := Some x))"
      "next_market_order_id b' = next_market_order_id b"
  shows "keys_ok b' (insert x X)" "abs_index b' = (abs_index b)(order_key q := Some (o_order_id q))"
proof -
  note old = strip_more [OF st(1)]
  have new: "o_client_id (ord b' x) = o_client_id q" "o_client_order_id (ord b' x) = o_client_order_id q"
    "o_order_id (ord b' x) = o_order_id q"
    unfolding st(2) [symmetric] by simp_all
  have map: "cid_oid_to_order b' (unat c) (unat i) = (if (c, i) = order_key q then Some x
      else cid_oid_to_order b (unat c) (unat i))" for c :: ClientId and i :: OrderId
    unfolding b'(1) by (simp add: word_unat_eq_iff [symmetric])
  have inX: "y \<in> X \<and> o_client_id (ord b y) = c \<and> o_client_order_id (ord b y) = i"
    if "cid_oid_in_range c i" "cid_oid_to_order b (unat c) (unat i) = Some y" for c i y
    using ok that unfolding keys_ok_def by blast
  show "keys_ok b' (insert x X)"
    unfolding keys_ok_def
  proof (intro conjI allI impI ballI)
    fix y assume y: "y \<in> insert x X"
    have X: "cid_oid_in_range (o_client_id (ord b y)) (o_client_order_id (ord b y)) \<and>
        o_order_id (ord b y) < next_market_order_id b" if "y \<in> X"
      using ok that unfolding keys_ok_def by blast
    show "cid_oid_in_range (o_client_id (ord b' y)) (o_client_order_id (ord b' y))"
      "o_order_id (ord b' y) < next_market_order_id b'"
      using y X range id(1) old(1,6,7) [of y] new unfolding b'(2) by (cases "y = x"; simp)+
  next
    have "inj_on (\<lambda>y. o_order_id (ord b' y)) X" using ok old(1) by (simp add: keys_ok_def inj_on_def)
    moreover have "o_order_id (ord b' x) \<notin> (\<lambda>y. o_order_id (ord b' y)) ` X"
    proof
      assume "o_order_id (ord b' x) \<in> (\<lambda>y. o_order_id (ord b' y)) ` X"
      then obtain y where "y \<in> X" "o_order_id (ord b' x) = o_order_id (ord b' y)" by blast
      with id(2) [of y] old(1) [of y] new(3) show False by simp
    qed
    ultimately show "inj_on (\<lambda>y. o_order_id (ord b' y)) (insert x X)"
      using x by (simp add: inj_on_insert)
  next
    fix c i y assume r: "cid_oid_in_range c i" "cid_oid_to_order b' (unat c) (unat i) = Some y"
    have "y \<in> insert x X \<and> o_client_id (ord b' y) = c \<and> o_client_order_id (ord b' y) = i"
    proof (cases "(c, i) = order_key q")
      case True
      with r(2) new show ?thesis by (simp add: map)
    next
      case False
      with r(2) have "cid_oid_to_order b (unat c) (unat i) = Some y" unfolding map by (simp only: if_False)
      from inX [OF r(1) this] old(6,7) [of y] show ?thesis by simp
    qed
    then show "y \<in> insert x X" "o_client_id (ord b' y) = c" "o_client_order_id (ord b' y) = i"
      by blast+
  qed
  show "abs_index b' = (abs_index b)(order_key q := Some (o_order_id q))"
  proof (rule ext)
    fix k :: "ClientId \<times> OrderId"
    obtain c i where k: "k = (c, i)" by (cases k)
    show "abs_index b' k = ((abs_index b)(order_key q := Some (o_order_id q))) k"
      using range inX [of c i] old(1) new(3)
      by (cases "cid_oid_to_order b (unat c) (unat i)") (auto simp: k abs_index_def map)
  qed
qed

lemma AddOrder_ok:
  fixes q :: ExchangeOrder
  assumes ok: "eob_ok b L" and s: "trade_side s" and q: "o_side q = s" "strip q = q"
    and slot: "slot_free s (o_price q) b"
    and room: "has_room (orders_at_price_pool b)" "has_room (order_pool b)"
    and range: "cid_oid_in_range (o_client_id q) (o_client_order_id q)"
    and id: "o_order_id q < next_market_order_id b" "\<And>y. y \<in> live (order_pool b) \<Longrightarrow> o_order_id (ord b y) \<noteq> o_order_id q"
  obtains x P b' ls' where "Allocate q (order_pool b) = Inr (x, P)"
    "AddOrder x (b\<lparr>order_pool := P\<rparr>) = Inr b'" "eob_ok b' (L(s := ls'))"
    "abs_orders b' (L(s := ls')) = (abs_orders b L)(s := spec_insert s q (abs_orders b L s))"
    "abs_index b' = (abs_index b)(order_key q := Some (o_order_id q))"
    "next_market_order_id b' = next_market_order_id b" "sent b' = sent b" "pools_kept b b'"
proof -
  note D = eob_okD [OF ok]
  obtain x P where P: "Allocate q (order_pool b) = Inr (x, P)" "x \<notin> live (order_pool b)"
    "live P = insert x (live (order_pool b))" "pool_ok P" "store_size P = store_size (order_pool b)"
    "obj P x = q" "\<And>y. y \<noteq> x \<Longrightarrow> obj P y = ord b y"
    using mem_pool.allocE [OF D(2), of q] room(2) unfolding has_room_def by metis
  let ?b1 = "b\<lparr>order_pool := P\<rparr>"
  have xn: "x \<notin> set (addrs (all_levels L))" using P(2) D(3) by simp
  have book1: "book_ok ?b1 L"
  proof (rule book_ok_cong [OF D(1)])
    show "ord ?b1 y = ord b y" if "y \<in> set (addrs (all_levels L))" for y
      using P(7) [of y] xn that by auto
  qed simp_all
  have slot1: "slot_free s (o_price q) ?b1" using slot by (simp add: slot_free_def GetOrdersAtPrice_def split: option.splits)
  obtain b2 ls' xs ys where b2: "link_order x ?b1 = Inr b2" "addrs (L s) = xs @ ys" "addrs ls' = xs @ x # ys"
    "\<forall>y\<in>set xs. \<not> goes_after s (o_price (ord ?b1 y)) (o_price q)"
    "\<forall>y\<in>set ys. goes_after s (o_price (ord ?b1 y)) (o_price q)"
    "book_ok b2 (L(s := ls'))" "orders_kept ?b1 b2"
    by (rule link_order_ok [OF book1 s xn _ _ slot1]) (use P(6) q(1) room(1) in simp_all)
  have st: "strip (ord b2 y) = strip (obj P y)" for y using b2(7) by (simp add: orders_kept_def)
  note sm = strip_more [OF st]
  have k: "live (order_pool b2) = insert x (live (order_pool b))" "pool_ok (order_pool b2)"
    using b2(7) P(3,4) by (simp_all add: orders_kept_def)
  have mr: "cid_oid_to_order b2 = cid_oid_to_order b" "next_market_order_id b2 = next_market_order_id b"
    "sent b2 = sent b"
    using eob_more [of b2 b] b2(7) by (simp_all add: orders_kept_def)
  define c i where "c = o_client_id q" and "i = o_client_order_id q"
  define b' where "b' = b2\<lparr>cid_oid_to_order := (cid_oid_to_order b)
     (unat c := (cid_oid_to_order b (unat c))(unat i := Some x))\<rparr>"
  have b': "order_pool b' = order_pool b2"
    "cid_oid_to_order b' = (cid_oid_to_order b)(unat c := (cid_oid_to_order b (unat c))(unat i := Some x))"
    "next_market_order_id b' = next_market_order_id b" "sent b' = sent b"
    by (simp_all add: b'_def mr)
  have res: "AddOrder x ?b1 = Inr b'"
    using b2(1) range sm(6,7) [of x] P(6) mr(1)
    by (simp add: AddOrder_def set_cid_oid_def b'_def c_def i_def)
  have old: "strip (ord b' y) = strip (ord b y)" if "y \<in> live (order_pool b)" for y
    using st [of y] P(7) [of y] P(2) that b'(1) by metis
  have new: "strip (ord b' x) = q" using st [of x] P(6) b'(1) q(2) by simp
  have keys0: "keys_ok b (live (order_pool b))" using ok unfolding eob_ok_keys by blast
  note keys = keys_ok_insert [OF keys0 P(2) old new range id b'(2) [unfolded c_def i_def] b'(3)]
  have ok': "eob_ok b' (L(s := ls'))"
    unfolding eob_ok_keys
  proof (intro conjI allI impI ballI)
    show "book_ok b' (L(s := ls'))" by (rule book_ok_cong [OF b2(6)]) (simp_all add: b'_def)
    show "(L(s := ls')) t = []" if "\<not> trade_side t" for t using that D(7) s by auto
    show "live (order_pool b') = set (addrs (all_levels (L(s := ls'))))"
      using k(1) D(3) b2(2,3) unfolding addrs_update_side [OF s] addrs_sides [OF s] b'(1) by auto
    show "keys_ok b' (live (order_pool b'))" using keys(1) k(1) b'(1) by simp
  qed (simp add: b' k(2))
  have pr: "o_price (ord ?b1 y) = o_price (ord b y)" if "y \<in> set (xs @ ys)" for y
  proof -
    have "y \<in> live (order_pool b)" using addrs_live [OF ok, of y s] that b2(2) by simp
    with P(2) have "y \<noteq> x" by blast
    with P(7) show ?thesis by simp
  qed
  have ao: "abs_orders b' (L(s := ls')) = (abs_orders b L)(s := spec_insert s q (abs_orders b L s))"
    unfolding abs_orders_side_orders
    by (rule side_orders_insert [where L = L, OF b2(2,3) old [OF addrs_live [OF ok]] new]) (use b2(4,5) pr in auto)
  have kept: "pools_kept b b'" using b2(7) P(5) by (simp add: pools_kept_def orders_kept_def b'_def)
  show thesis by (rule that [OF P(1) res ok' ao keys(2) b'(3,4) kept])
qed

lemma spec_match_left:
  assumes "spec_match t c s co mo p l qs = (l', qs', gone, ms)" "l' \<noteq> 0"
  shows "qs' = [] \<or> not_crossed s p (o_price (hd qs'))"
  using assms
proof (induction t c s co mo p l qs arbitrary: l' qs' gone ms rule: spec_match.induct)
  case (2 t c s co mo p l q qs)
  then show ?case
    by (auto simp: min_def split: if_splits prod.splits)
qed simp

lemma spec_match_subset:
  assumes "spec_match t c s co mo p l qs = (l', qs', gone, ms)"
  shows "o_price ` set qs' \<subseteq> o_price ` set qs \<and> o_order_id ` set qs' \<subseteq> o_order_id ` set qs"
  using assms
proof (induction t c s co mo p l qs arbitrary: l' qs' gone ms rule: spec_match.induct)
  case (2 t c s co mo p l q qs)
  obtain l2 qs2 gone2 ms2 where r:
    "spec_match t c s co mo p (l - min l (o_qty q)) qs = (l2, qs2, gone2, ms2)" by (metis prod_cases4)
  have IH: "o_price ` set qs2 \<subseteq> o_price ` set qs" "o_order_id ` set qs2 \<subseteq> o_order_id ` set qs"
    if "\<not> (l = 0 \<or> not_crossed s p (o_price q))" "o_qty q - min l (o_qty q) = 0"
    using "2.IH" that r by blast+
  have qs': "qs' = (if l = 0 \<or> not_crossed s p (o_price q) then q # qs
     else if o_qty q - min l (o_qty q) = 0 then qs2 else q\<lparr>o_qty := o_qty q - min l (o_qty q)\<rparr> # qs)"
    using "2.prems" r by (auto split: if_splits)
  show ?case
    using IH unfolding qs' by auto
qed simp

text \<open>The lists of the abstraction are in price order.\<close>

lemma abs_orders_sorted:
  assumes "book_ok b L" "trade_side s"
  shows "spec_sorted s (abs_orders b L s)"
proof -
  have so: "side_ok b s (L s)" by (rule book_okD(1) [OF assms])
  have "sorted_wrt (\<lambda>x y. \<not> goes_after s (o_price (ord b x)) (o_price (ord b y))) (addrs (L s))"
    by (rule addrs_sorted [where f = "lprice b"]) (use so order_price [OF so] in \<open>auto simp: side_ok_def\<close>)
  then show ?thesis by (simp add: spec_sorted_def abs_orders_def sorted_wrt_map)
qed

section \<open>The slot of the new order\<close>

definition slots_clear :: "Price \<Rightarrow> ExchangeOrder list \<Rightarrow> bool" where
  "slots_clear p qs \<longleftrightarrow> (\<forall>q\<in>set qs. PriceToIndex (o_price q) = PriceToIndex p \<longrightarrow> o_price q = p)"

lemma not_crossed_after:
  assumes "trade_side s" "not_crossed s p pr" "\<not> goes_after (other_side s) pr pr'"
  shows "pr' \<noteq> p"
  using assms by (auto simp: not_crossed_def goes_after_def other_side_def split: if_splits)

text \<open>
  A price slot leads to the level of the new order's price when no other price on the book shares
  it and what is left of the opposite side does not cross.
\<close>

lemma slot_free_after:
  assumes ok: "book_ok b L" and s: "trade_side s"
    and clear: "slots_clear p (abs_orders b L s)" "slots_clear p (abs_orders b L (other_side s))"
    and uncrossed: "abs_orders b L (other_side s) = [] \<or>
      not_crossed s p (o_price (hd (abs_orders b L (other_side s))))"
  shows "slot_free s p b"
proof (cases "GetOrdersAtPrice p b")
  case (Some a)
  let ?o = "other_side s"
  obtain w where w: "w \<in> set (all_levels L)" "fst w = a" "PriceToIndex (lprice b w) = PriceToIndex p"
    using price_slot_Some [OF ok Some] by blast
  obtain t where t: "trade_side t" "w \<in> set (L t)" "t = s \<or> t = ?o"
    using w(1) all_levels_cases [OF s, of L] s trade_side_other(1) by blast
  have so: "side_ok b t (L t)" by (rule book_okD(1) [OF ok t(1)])
  then have lv: "level_ok b t w" using t(2) by (simp add: side_ok_def)
  then obtain y where y: "y \<in> set (snd w)" using level_ok_def by (metis list.set_sel(1))
  have py: "o_price (ord b y) = lprice b w" using order_price [OF so t(2) y] by simp
  have yin: "strip (ord b y) \<in> set (abs_orders b L t)"
    using y addrs_upper [OF t(2)] unfolding abs_orders_set by blast
  have "lprice b w = p"
    using t(3) yin clear w(3) py unfolding slots_clear_def by (metis strip_get(3))
  moreover have "t = s"
  proof (rule ccontr)
    assume "t \<noteq> s"
    with t(3) have to: "t = ?o" by blast
    let ?h = "hd (abs_orders b L ?o)"
    have nc: "not_crossed s p (o_price ?h)" using uncrossed yin to by auto
    have "\<not> goes_after ?o (o_price ?h) (o_price (strip (ord b y)))"
      using abs_orders_sorted [OF ok, of ?o] yin unfolding to spec_sorted_def
      by (cases "abs_orders b L ?o") auto
    from not_crossed_after [OF s nc this] show False using py \<open>lprice b w = p\<close> by simp
  qed
  ultimately show ?thesis
    using Some lv w(2) by (simp add: slot_free_def level_ok_def lprice_def)
qed (simp add: slot_free_def)

lemma GetNextPriority_ok:
  assumes ok: "book_ok b L" and s: "trade_side s" and slot: "slot_free s p b"
  shows "GetNextPriority p b = Inr (spec_priority p (abs_orders b L s))"
proof -
  have f: "filter (\<lambda>r. o_price r = p) (abs_orders b L s) =
      map (\<lambda>y. strip (ord b y)) (filter (\<lambda>y. o_price (ord b y) = p) (addrs (L s)))"
    by (simp add: abs_orders_def filter_map o_def)
  show ?thesis
  proof (cases "GetOrdersAtPrice p b")
    case None
    with f no_level_no_orders [OF ok s None] show ?thesis
      by (simp add: GetNextPriority_def spec_priority_def)
  next
    case (Some a)
    obtain us os vs where L: "L s = us @ (a, os) # vs" "lprice b (a, os) = p"
      by (rule slot_level [OF ok s slot Some])
    note l = level_last [OF ok s L(1)]
    have "GetNextPriority p b = Inr (o_priority (ord b (last os)) + 1)"
      using Some l(1,2) by (simp add: GetNextPriority_def)
    then show ?thesis using f l(3,4) L(2) by (simp add: spec_priority_def last_map)
  qed
qed

section \<open>Requests\<close>

lemma word_less_Suc: "n \<noteq> - 1 \<Longrightarrow> n < n + (1 :: 64 word)"
proof -
  assume "n \<noteq> - 1"
  then have "1 + n \<noteq> 0" by (metis add.commute eq_neg_iff_add_eq_0)
  from unatSuc [OF this] show ?thesis by (simp add: word_less_nat_alt add.commute)
qed

lemma less_next: "x < n \<Longrightarrow> n \<noteq> - 1 \<Longrightarrow> x < n + (1 :: 64 word)"
  using word_less_Suc order.strict_trans by blast

lemma has_room_mono:
  "has_room P \<Longrightarrow> live P' \<subseteq> live P \<Longrightarrow> store_size P' = store_size P \<Longrightarrow> has_room P'"
  using card_mono [OF finite_live, of "live P'" P] by (simp add: has_room_def)

lemma slots_clear_mono: "slots_clear p qs \<Longrightarrow> o_price ` set qs' \<subseteq> o_price ` set qs \<Longrightarrow> slots_clear p qs'"
  unfolding slots_clear_def by (metis (no_types, lifting) imageE imageI subsetD)

lemma eob_ok_sent [simp]:
  "eob_ok (b\<lparr>sent := m\<rparr>) L = eob_ok b L"
  "abs_book (b\<lparr>sent := m\<rparr>) L = (abs_book b L)\<lparr>sp_sent := m\<rparr>"
proof -
  have "book_ok (b\<lparr>sent := m\<rparr>) L = book_ok b L"
    by (rule iffI; erule book_ok_cong; simp)
  then show "eob_ok (b\<lparr>sent := m\<rparr>) L = eob_ok b L" by (simp add: eob_ok_def)
  show "abs_book (b\<lparr>sent := m\<rparr>) L = (abs_book b L)\<lparr>sp_sent := m\<rparr>"
    by (simp add: abs_book_def abs_orders_def abs_index_def fun_eq_iff)
qed

lemma eob_ok_next:
  assumes "eob_ok b L" "next_market_order_id b \<noteq> - 1"
  shows "eob_ok (b\<lparr>next_market_order_id := next_market_order_id b + 1\<rparr>) L"
    "abs_book (b\<lparr>next_market_order_id := next_market_order_id b + 1\<rparr>) L =
      (abs_book b L)\<lparr>sp_next := next_market_order_id b + 1\<rparr>"
proof -
  let ?b = "b\<lparr>next_market_order_id := next_market_order_id b + 1\<rparr>"
  have "book_ok ?b L" by (rule book_ok_cong [OF eob_okD(1) [OF assms(1)]]) simp_all
  moreover have "keys_ok ?b (live (order_pool b))"
    using assms less_next unfolding eob_ok_keys keys_ok_def by auto
  ultimately show "eob_ok ?b L" using assms(1) by (simp add: eob_ok_keys)
  show "abs_book ?b L = (abs_book b L)\<lparr>sp_next := next_market_order_id b + 1\<rparr>"
    by (simp add: abs_book_def abs_orders_def abs_index_def fun_eq_iff)
qed

lemma abs_book_fields:
  assumes "abs_book b L = S"
  shows "abs_orders b L = sp_orders S" "abs_index b = sp_index S" "next_market_order_id b = sp_next S"
    "sent b = sp_sent S"
  using assms by (auto simp: abs_book_def)

lemma abs_book_sel [simp]:
  "sp_orders (abs_book b L) = abs_orders b L" "sp_index (abs_book b L) = abs_index b"
  "sp_next (abs_book b L) = next_market_order_id b" "sp_sent (abs_book b L) = sent b"
  by (simp_all add: abs_book_def)

text \<open>Every live order of the book is in one of the lists.\<close>

lemma live_abs:
  assumes "eob_ok b L" "trade_side s" "y \<in> live (order_pool b)"
  shows "strip (ord b y) \<in> set (abs_orders b L s) \<union> set (abs_orders b L (other_side s))"
  using assms live_sides [OF assms(1,2)] by (auto simp: abs_orders_set)

lemma abs_live:
  assumes "eob_ok b L" "r \<in> set (abs_orders b L t)"
  obtains y where "y \<in> live (order_pool b)" "r = strip (ord b y)"
  using assms addrs_live [OF assms(1)] by (auto simp: abs_orders_set)

text \<open>Matching brings in no id: the id taken for the new order stays unused.\<close>

lemma ids_kept:
  assumes ok: "eob_ok b L" and ok1: "eob_ok b1 L1" and s: "trade_side s"
    and same: "abs_orders b1 L1 s = abs_orders b L s"
    and sub: "o_order_id ` set (abs_orders b1 L1 (other_side s)) \<subseteq> o_order_id ` set (abs_orders b L (other_side s))"
    and y: "y \<in> live (order_pool b1)"
  shows "o_order_id (ord b1 y) \<noteq> next_market_order_id b"
proof -
  let ?ids = "\<lambda>t. o_order_id ` set (abs_orders b L t)"
  have "o_order_id (strip (ord b1 y)) \<in> ?ids s \<union> ?ids (other_side s)"
    using live_abs [OF ok1 s y] sub unfolding same by blast
  then obtain r where r: "o_order_id (ord b1 y) = o_order_id r"
    "r \<in> set (abs_orders b L s) \<union> set (abs_orders b L (other_side s))" by auto
  obtain y' where "y' \<in> live (order_pool b)" "r = strip (ord b y')"
    using r(2) abs_live [OF ok, of r] by blast
  with eob_okD(6) [OF ok, of y'] r(1) show ?thesis by auto
qed

text \<open>What is left of an order after matching finds its place.\<close>

lemma rest_added:
  fixes t :: TickerId and l :: Qty
  assumes ok: "eob_ok b L" and s: "trade_side s" and range: "cid_oid_in_range c co"
    and clear: "slots_clear p (abs_orders b L s)" "slots_clear p (abs_orders b L (other_side s))"
    and uncrossed: "abs_orders b L (other_side s) = [] \<or>
      not_crossed s p (o_price (hd (abs_orders b L (other_side s))))"
    and room: "has_room (orders_at_price_pool b)" "has_room (order_pool b)"
    and id: "mo < next_market_order_id b" "\<And>y. y \<in> live (order_pool b) \<Longrightarrow> o_order_id (ord b y) \<noteq> mo"
  defines "q \<equiv> spec_order c co t s p l mo (spec_priority p (abs_orders b L s))"
  obtains x P b' L' where "GetNextPriority p b = Inr (o_priority q)" "Allocate q (order_pool b) = Inr (x, P)"
    "AddOrder x (b\<lparr>order_pool := P\<rparr>) = Inr b'" "eob_ok b' L'"
    "abs_book b' L' = (abs_book b L)\<lparr>sp_orders := (abs_orders b L)(s := spec_insert s q (abs_orders b L s)),
       sp_index := (abs_index b)((c, co) := Some mo)\<rparr>" "pools_kept b b'"
proof -
  have slot: "slot_free s p b" by (rule slot_free_after [OF eob_okD(1) [OF ok] s clear uncrossed])
  have q: "o_side q = s" "strip q = q" "o_price q = p" "o_client_id q = c" "o_client_order_id q = co"
    "o_order_id q = mo" "o_priority q = spec_priority p (abs_orders b L s)"
    by (simp_all add: q_def spec_order_def strip_def)
  obtain x P b' ls' where *: "Allocate q (order_pool b) = Inr (x, P)"
    "AddOrder x (b\<lparr>order_pool := P\<rparr>) = Inr b'" "eob_ok b' (L(s := ls'))"
    "abs_orders b' (L(s := ls')) = (abs_orders b L)(s := spec_insert s q (abs_orders b L s))"
    "abs_index b' = (abs_index b)(order_key q := Some (o_order_id q))"
    "next_market_order_id b' = next_market_order_id b" "sent b' = sent b" "pools_kept b b'"
    by (rule AddOrder_ok [OF ok s q(1,2) _ room]) (use slot range id q in simp_all)
  moreover have "GetNextPriority p b = Inr (o_priority q)"
    using GetNextPriority_ok [OF eob_okD(1) [OF ok] s slot] q(7) by simp
  ultimately show thesis using q by (intro that [OF _ *(1,2,3) _ *(8)]) (simp_all add: abs_book_def)
qed

lemma Add_ok:
  assumes ok: "eob_ok b L" and s: "trade_side s" and range: "cid_oid_in_range c co"
    and clear: "slots_clear p (abs_orders b L s)" "slots_clear p (abs_orders b L (other_side s))"
    and room: "has_room (orders_at_price_pool b)" "has_room (order_pool b)"
    and nxt: "next_market_order_id b \<noteq> - 1"
  shows "\<exists>b' L'. Add c co t s p q b = Inr b' \<and> eob_ok b' L' \<and>
    abs_book b' L' = spec_add c co t s p q (abs_book b L) \<and> pools_kept b b'"
proof -
  let ?mo = "next_market_order_id b"
  let ?acc = "Response (accepted c co t s p q ?mo)"
  define b0 where "b0 = b\<lparr>next_market_order_id := ?mo + 1, sent := sent b @ [?acc]\<rparr>"
  have ok0: "eob_ok b0 L" and abs0: "abs_book b0 L = (abs_book b L)\<lparr>sp_next := ?mo + 1, sp_sent := sent b @ [?acc]\<rparr>"
    using eob_ok_next [OF ok nxt] unfolding b0_def by simp_all
  note f0 = abs_book_fields [OF abs0, simplified abs_book_def, simplified]
  obtain l' opp gone ms where sp:
    "spec_match t c s co (fill_id ?mo) p q (abs_orders b L (other_side s)) = (l', opp, gone, ms)"
    by (metis prod_cases4)
  obtain b1 L1 where b1: "match_loop c co t s p (fill_id ?mo) q b0 = Inr (l', b1)" "eob_ok b1 L1"
    "abs_orders b1 L1 = (abs_orders b0 L)(other_side s := opp)"
    "abs_index b1 = forget (map order_key gone) (abs_index b0)"
    "next_market_order_id b1 = next_market_order_id b0" "sent b1 = sent b0 @ ms"
    "live (order_pool b1) \<subseteq> live (order_pool b0)"
    "live (orders_at_price_pool b1) \<subseteq> live (orders_at_price_pool b0)"
    "store_size (order_pool b1) = store_size (order_pool b0)"
    "store_size (orders_at_price_pool b1) = store_size (orders_at_price_pool b0)"
    using match_loop_ok [OF ok0 s, of t c co "fill_id ?mo" p q l' opp gone ms] sp f0(1) by auto
  have check: "CheckForMatch c co t s p q (ucast ?mo) b0 = Inr (l', b1)"
    using b1(1) s by (simp add: CheckForMatch_def fill_id_def)
  have other: "abs_orders b1 L1 s = abs_orders b L s" "abs_orders b1 L1 (other_side s) = opp"
    using b1(3) f0(1) by simp_all
  have abs1: "abs_book b1 L1 = (abs_book b L)\<lparr>sp_orders := (abs_orders b L)(other_side s := opp),
      sp_index := forget (map order_key gone) (abs_index b), sp_next := ?mo + 1,
      sp_sent := sent b @ ?acc # ms\<rparr>"
    using b1(3-6) f0 by (simp add: abs_book_def)
  show ?thesis
  proof (cases "l' = 0")
    case True
    then have "Add c co t s p q b = Inr b1"
      using check by (simp add: Add_def GenerateNewMarketOrderId_def SendClientResponse_def b0_def accepted_def)
    with True b1(2,9,10) abs1 sp show ?thesis
      by (intro exI [of _ b1] exI [of _ L1]) (simp add: spec_add_def abs_book_def pools_kept_def b0_def)
  next
    case False
    let ?q = "spec_order c co t s p l' ?mo (spec_priority p (abs_orders b1 L1 s))"
    have sub: "o_price ` set opp \<subseteq> o_price ` set (abs_orders b L (other_side s))"
      "o_order_id ` set opp \<subseteq> o_order_id ` set (abs_orders b L (other_side s))"
      using spec_match_subset [OF sp] by simp_all
    have id: "o_order_id (ord b1 y) \<noteq> ?mo" if y: "y \<in> live (order_pool b1)" for y
      by (rule ids_kept [OF ok b1(2) s other(1) _ y]) (simp add: other sub(2))
    obtain x P b2 L2 where r: "GetNextPriority p b1 = Inr (o_priority ?q)"
      "Allocate ?q (order_pool b1) = Inr (x, P)" "AddOrder x (b1\<lparr>order_pool := P\<rparr>) = Inr b2" "eob_ok b2 L2"
      "abs_book b2 L2 = (abs_book b1 L1)\<lparr>sp_orders := (abs_orders b1 L1)
         (s := spec_insert s ?q (abs_orders b1 L1 s)), sp_index := (abs_index b1)((c, co) := Some ?mo)\<rparr>"
      "pools_kept b1 b2"
    proof (rule rest_added [OF b1(2) s range])
      show "slots_clear p (abs_orders b1 L1 s)" unfolding other by (rule clear(1))
      show "slots_clear p (abs_orders b1 L1 (other_side s))"
        unfolding other by (rule slots_clear_mono [OF clear(2) sub(1)])
      show "abs_orders b1 L1 (other_side s) = [] \<or> not_crossed s p (o_price (hd (abs_orders b1 L1 (other_side s))))"
        unfolding other by (rule spec_match_left [OF sp False])
      show "has_room (orders_at_price_pool b1)"
        by (rule has_room_mono [OF room(1)]) (use b1(7-10) in \<open>simp_all add: b0_def\<close>)
      show "has_room (order_pool b1)"
        by (rule has_room_mono [OF room(2)]) (use b1(7-10) in \<open>simp_all add: b0_def\<close>)
      show "?mo < next_market_order_id b1"
        using b1(5) word_less_Suc [OF nxt] by (simp add: b0_def)
    qed (use id in blast)+
    let ?b = "b2\<lparr>sent := sent b2 @ [Update (add_update ?q)]\<rparr>"
    have "Add c co t s p q b = Inr ?b"
      using check False r(1-3)
      by (simp add: Add_def GenerateNewMarketOrderId_def SendClientResponse_def SendMarketUpdate_def b0_def
          accepted_def add_update_def spec_order_def)
    moreover have "eob_ok ?b L2" using r(4) by simp
    moreover have "abs_book ?b L2 = spec_add c co t s p q (abs_book b L)"
      unfolding eob_ok_sent(2) r(5) abs1 using sp False other
      by (simp add: spec_add_def b1(3,4) f0 abs_book_fields(4) [OF r(5)] b1(6))
    moreover have "pools_kept b ?b" using r(6) b1(9,10) by (simp add: pools_kept_def b0_def)
    ultimately show ?thesis by blast
  qed
qed

lemma filter_inj:
  assumes "inj_on f (set xs)" "distinct xs" "x \<in> set xs"
  shows "filter (\<lambda>y. f y = f x) xs = [x]"
proof -
  obtain us vs where xs: "xs = us @ x # vs" "x \<notin> set us" "x \<notin> set vs"
    by (rule split_list_distinct [OF assms(3,2)])
  have "f y \<noteq> f x" if "y \<in> set us \<union> set vs" for y
    using assms(1) xs that by (auto simp: inj_on_def)
  with xs show ?thesis by (simp add: filter_empty_conv)
qed

lemma filter_inj_remove1:
  assumes "inj_on f X" "set xs \<subseteq> X" "x \<in> X" "distinct xs"
  shows "filter (\<lambda>y. f y \<noteq> f x) xs = remove1 x xs"
proof -
  have "filter (\<lambda>y. f y \<noteq> f x) xs = filter (\<lambda>y. x \<noteq> y) xs"
    using assms(1-3) by (intro filter_cong refl) (auto simp: inj_on_def)
  then show ?thesis using assms(4) by (simp add: distinct_remove1_removeAll removeAll_filter_not_eq)
qed

lemma spec_orders_abs: "spec_orders (abs_book b L) = map (\<lambda>x. strip (ord b x)) (addrs (all_levels L))"
  by (simp add: spec_orders_def abs_orders_def)

lemma Cancel_found:
  assumes ok: "eob_ok b L" and range: "cid_oid_in_range c co"
    and x: "cid_oid_to_order b (unat c) (unat co) = Some x"
  shows "\<exists>b' L'. Cancel c co t b = Inr b' \<and> eob_ok b' L' \<and>
    abs_book b' L' = spec_cancel c co t (abs_book b L) \<and> pools_kept b b'"
proof -
  note D = eob_okD [OF ok]
  have xl: "x \<in> live (order_pool b)" "o_client_id (ord b x) = c" "o_client_order_id (ord b x) = co"
    using D(8) [OF range x] by simp_all
  obtain s where s: "trade_side s" "x \<in> set (addrs (L s))"
    using live_sides [OF ok, of Side_BUY] xl(1) by (auto simp: other_side_def)
  have side: "o_side (ord b x) = s"
    using s(2) order_price [OF book_okD(1) [OF D(1) s(1)]] unfolding in_addrs_iff by blast
  have d: "distinct (addrs (all_levels L))" by (rule book_okD(3) [OF D(1) s(1)])
  let ?mo = "o_order_id (ord b x)"
  obtain b' ls' where b': "RemoveOrder x b = Inr b'" "eob_ok b' (L(s := ls'))"
    "addrs ls' = remove1 x (addrs (L s))" "\<And>y. strip (ord b' y) = strip (ord b y)"
    "live (order_pool b') = live (order_pool b) - {x}"
    "live (orders_at_price_pool b') \<subseteq> live (orders_at_price_pool b)"
    "abs_index b' = forget [order_key (ord b x)] (abs_index b)"
    "next_market_order_id b' = next_market_order_id b" "sent b' = sent b"
    "store_size (order_pool b') = store_size (order_pool b)"
    "store_size (orders_at_price_pool b') = store_size (orders_at_price_pool b)"
    by (rule RemoveOrder_ok [OF ok s]) auto
  have sub: "set (addrs (L s)) \<subseteq> live (order_pool b)" using addrs_live [OF ok] by blast
  have flt: "filter (\<lambda>r. o_order_id r = ?mo) (spec_orders (abs_book b L)) = [strip (ord b x)]"
    using filter_inj [of "\<lambda>y. o_order_id (ord b y)" "addrs (all_levels L)" x] D(3,4) d xl(1)
    by (simp add: spec_orders_abs filter_map o_def del: filter_append map_append addrs_simps)
  have rm: "filter (\<lambda>r. o_order_id r \<noteq> ?mo) (abs_orders b L s) = map (\<lambda>y. strip (ord b y)) (addrs ls')"
    using filter_inj_remove1 [OF D(4) sub xl(1) sides_disjoint(4) [OF D(1) s(1)]]
    by (simp add: abs_orders_def filter_map o_def b'(3))
  have ao: "abs_orders b' (L(s := ls')) = (abs_orders b L)(s := map (\<lambda>y. strip (ord b y)) (addrs ls'))"
    using abs_orders_side [OF ok s, of b' ls'] b'(4) by simp
  have ai: "abs_index b (c, co) = Some ?mo" using range x by (simp add: abs_index_def)
  have order: "unat c < ME_MAX_NUM_CLIENTS" using range by (simp add: cid_oid_in_range_def)
  let ?ms = "[Update \<lparr>mu_type = MarketUpdateType_CANCEL, mu_order_id = ?mo, mu_ticker_id = t,
      mu_side = s, mu_price = o_price (ord b x), mu_qty = 0, mu_priority = o_priority (ord b x)\<rparr>,
    Response \<lparr>rs_type = ClientResponseType_CANCELED, rs_client_id = c, rs_ticker_id = t,
      rs_client_order_id = co, rs_market_order_id = ?mo, rs_side = s, rs_price = o_price (ord b x),
      rs_exec_qty = QTY_INVALID, rs_leaves_qty = o_qty (ord b x)\<rparr>]"
  let ?b = "b'\<lparr>sent := sent b @ ?ms\<rparr>"
  have "Cancel c co t b = Inr ?b"
    using order range x b'(1,9) side
    by (simp add: Cancel_def cid_oid_at_def SendClientResponse_def SendMarketUpdate_def)
  moreover have "eob_ok ?b (L(s := ls'))" using b'(2) by simp
  moreover have "abs_book ?b (L(s := ls')) = spec_cancel c co t (abs_book b L)"
    unfolding eob_ok_sent(2) using ai flt rm ao b'(7,8) side xl(2,3)
    by (simp add: spec_cancel_def abs_book_def)
  moreover have "pools_kept b ?b" using b'(10,11) by (simp add: pools_kept_def)
  ultimately show ?thesis by blast
qed

lemma Cancel_not_found:
  assumes ok: "eob_ok b L" and range: "unat c < ME_MAX_NUM_CLIENTS \<Longrightarrow> unat co < ME_MAX_ORDER_IDS"
    and none: "abs_index b (c, co) = None"
  shows "\<exists>b' L'. Cancel c co t b = Inr b' \<and> eob_ok b' L' \<and>
    abs_book b' L' = spec_cancel c co t (abs_book b L) \<and> pools_kept b b'"
proof -
  let ?m = "Response \<lparr>rs_type = ClientResponseType_CANCEL_REJECTED, rs_client_id = c,
    rs_ticker_id = t, rs_client_order_id = co, rs_market_order_id = ORDER_ID_INVALID,
    rs_side = Side_INVALID, rs_price = PRICE_INVALID, rs_exec_qty = QTY_INVALID,
    rs_leaves_qty = QTY_INVALID\<rparr>"
  have "Cancel c co t b = Inr (b\<lparr>sent := sent b @ [?m]\<rparr>)"
    using range none
    by (auto simp: Cancel_def cid_oid_at_def abs_index_def cid_oid_in_range_def SendClientResponse_def
        split: if_splits)
  moreover have "abs_book (b\<lparr>sent := sent b @ [?m]\<rparr>) L = spec_cancel c co t (abs_book b L)"
    unfolding eob_ok_sent(2) using none by (simp add: spec_cancel_def)
  moreover have "pools_kept b (b\<lparr>sent := sent b @ [?m]\<rparr>)" by (simp add: pools_kept_def)
  ultimately show ?thesis using ok eob_ok_sent(1) by blast
qed

lemma Cancel_ok:
  assumes ok: "eob_ok b L" and range: "unat c < ME_MAX_NUM_CLIENTS \<Longrightarrow> unat co < ME_MAX_ORDER_IDS"
  shows "\<exists>b' L'. Cancel c co t b = Inr b' \<and> eob_ok b' L' \<and>
    abs_book b' L' = spec_cancel c co t (abs_book b L) \<and> pools_kept b b'"
proof (cases "abs_index b (c, co)")
  case None
  then show ?thesis using Cancel_not_found [OF ok range] by blast
next
  case (Some mo)
  then obtain x where "cid_oid_in_range c co" "cid_oid_to_order b (unat c) (unat co) = Some x"
    by (auto simp: abs_index_def split: if_splits)
  then show ?thesis using Cancel_found [OF ok] by blast
qed

text \<open>A new book, when its arrays start out as null pointers.\<close>

lemma ExchangeOrderBook_new_ok:
  "eob_ok (ExchangeOrderBook_new t (\<lambda>_ _. None) (\<lambda>_. None)) (\<lambda>_. [])"
  "abs_book (ExchangeOrderBook_new t (\<lambda>_ _. None) (\<lambda>_. None)) (\<lambda>_. []) =
     \<lparr>sp_orders = (\<lambda>_. []), sp_index = (\<lambda>_. None), sp_next = 1, sp_sent = []\<rparr>"
proof -
  let ?b = "ExchangeOrderBook_new t (\<lambda>_ _. None) (\<lambda>_. None)"
  have "book_ok ?b (\<lambda>_. [])"
    by (rule book_ok_empty) (simp_all add: ExchangeOrderBook_new_def ME_MAX_PRICE_LEVELS_def)
  then show "eob_ok ?b (\<lambda>_. [])"
    by (simp add: eob_ok_keys keys_ok_def) (simp add: ExchangeOrderBook_new_def ME_MAX_ORDER_IDS_def)
  show "abs_book ?b (\<lambda>_. []) =
     \<lparr>sp_orders = (\<lambda>_. []), sp_index = (\<lambda>_. None), sp_next = 1, sp_sent = []\<rparr>"
    by (simp add: abs_book_def abs_orders_def abs_index_def fun_eq_iff ExchangeOrderBook_new_def)
qed

end
