(* ===== verification/Exchange_Properties.thy ===== *)
theory Exchange_Properties
  imports Exchange_Refinement
begin

text \<open>
  The market rules the order book of the exchange keeps: price-time priority on both sides, a book
  that never stays crossed, no trade beyond the limit of the incoming order, no quantity made or
  lost; and its error paths.
\<close>

section \<open>Price-time priority\<close>

text \<open>\<open>q\<close> executes before \<open>r\<close>: its price is better, or it is older at the same price.\<close>

definition executes_before :: "Side \<Rightarrow> ExchangeOrder \<Rightarrow> ExchangeOrder \<Rightarrow> bool" where
  "executes_before s q r \<longleftrightarrow>
     goes_after s (o_price r) (o_price q) \<or> (o_price r = o_price q \<and> o_priority q < o_priority r)"

definition side_wf :: "Side \<Rightarrow> OrderId \<Rightarrow> ExchangeOrder list \<Rightarrow> bool" where
  "side_wf s n qs \<longleftrightarrow>
     (\<forall>q\<in>set qs. o_side q = s \<and> o_qty q \<noteq> 0 \<and> o_priority q \<le> o_order_id q \<and> o_order_id q < n) \<and>
     sorted_wrt (executes_before s) qs"

definition market_ok :: "ExchangeSpec \<Rightarrow> bool" where
  "market_ok S \<longleftrightarrow>
     1 \<le> sp_next S \<and>
     (\<forall>s\<in>{Side_BUY, Side_SELL}. side_wf s (sp_next S) (sp_orders S s)) \<and>
     (\<forall>q\<in>set (sp_orders S Side_BUY). \<forall>r\<in>set (sp_orders S Side_SELL). o_price q < o_price r)"

text \<open>What matching does to the opposite list: it drops a prefix and may reduce the next order.\<close>

lemma spec_match_shape:
  assumes "spec_match t c s co mo p l qs = (l', qs', gone, ms)"
  shows "\<exists>rest. qs = gone @ rest \<and>
    (qs' = rest \<or> (\<exists>q qs2 n. rest = q # qs2 \<and> qs' = q\<lparr>o_qty := n\<rparr> # qs2 \<and> n \<noteq> 0 \<and> l' = 0))"
  using assms
proof (induction t c s co mo p l qs arbitrary: l' qs' gone ms rule: spec_match.induct)
  case (2 t c s co mo p l q qs)
  obtain l2 qs2 gone2 ms2 where r:
    "spec_match t c s co mo p (l - min l (o_qty q)) qs = (l2, qs2, gone2, ms2)" by (metis prod_cases4)
  consider "l = 0 \<or> not_crossed s p (o_price q)"
    | "\<not> (l = 0 \<or> not_crossed s p (o_price q))" "o_qty q - min l (o_qty q) = 0"
    | "\<not> (l = 0 \<or> not_crossed s p (o_price q))" "o_qty q - min l (o_qty q) \<noteq> 0" by blast
  then show ?case
  proof cases
    case 1
    with 2(2) show ?thesis by auto
  next
    case 2
    from "2.IH" [OF this r] "2.prems" 2 r show ?thesis by auto
  next
    case 3
    then have "min l (o_qty q) = l" by (auto simp: min_def split: if_splits)
    with 3 "2.prems" show ?thesis by auto
  qed
qed simp

lemma side_wf_match:
  assumes "spec_match t c s co mo p l qs = (l', qs', gone, ms)" "side_wf s' n qs"
  shows "side_wf s' n qs'"
proof -
  have red: "sorted_wrt (executes_before s') (q\<lparr>o_qty := m\<rparr> # qs2)"
    if "sorted_wrt (executes_before s') (q # qs2)" for q qs2 m
    using that by (simp add: executes_before_def)
  show ?thesis
    using spec_match_shape [OF assms(1)] assms(2) red
    by (auto simp: side_wf_def sorted_wrt_append simp del: sorted_wrt.simps)
qed

lemma side_wf_mono: "side_wf s n qs \<Longrightarrow> n \<le> m \<Longrightarrow> side_wf s m qs"
  unfolding side_wf_def by (blast intro: order.strict_trans2)

lemma side_wf_filter: "side_wf s n qs \<Longrightarrow> side_wf s n (filter P qs)"
  by (auto simp: side_wf_def sorted_wrt_filter)

lemma last_priority:
  assumes "side_wf s n qs" "filter (\<lambda>r. o_price r = p) qs \<noteq> []" "r \<in> set qs" "o_price r = p"
  shows "o_priority r \<le> o_priority (last (filter (\<lambda>r. o_price r = p) qs))"
proof -
  let ?rs = "filter (\<lambda>r. o_price r = p) qs"
  have "sorted_wrt (executes_before s) ?rs" using assms(1) by (simp add: side_wf_def sorted_wrt_filter)
  then have "sorted_wrt (\<lambda>q r. o_priority q \<le> o_priority r) ?rs"
    by (rule sorted_wrt_mono_rel [rotated]) (auto simp: executes_before_def)
  then have "sorted_wrt (\<lambda>q r. o_priority q \<le> o_priority r) (butlast ?rs @ [last ?rs])"
    using assms(2) by simp
  moreover have "r \<in> set (butlast ?rs @ [last ?rs])" using assms(2-4) by simp
  ultimately show ?thesis by (auto simp: sorted_wrt_append simp del: append_butlast_last_id)
qed

text \<open>The priority given to a new order: behind all orders of its price, and not above its id.\<close>

lemma spec_priority_bounds:
  assumes wf: "side_wf s n qs" and n: "1 \<le> n" "n \<noteq> - 1"
  shows "spec_priority p qs \<le> n" "\<And>r. r \<in> set qs \<Longrightarrow> o_price r = p \<Longrightarrow> o_priority r < spec_priority p qs"
proof -
  let ?rs = "filter (\<lambda>r. o_price r = p) qs"
  have lst: "o_priority (last ?rs) < n" "o_priority (last ?rs) \<noteq> - 1" if ne: "?rs \<noteq> []"
  proof -
    have "last ?rs \<in> set ?rs" using ne by (rule last_in_set)
    with wf show lt: "o_priority (last ?rs) < n" by (auto simp: side_wf_def intro: order.strict_trans1)
    show "o_priority (last ?rs) \<noteq> - 1" using lt word_order.extremum_strict by fastforce
  qed
  show "spec_priority p qs \<le> n"
    using lst n by (auto simp: spec_priority_def inc_le)
  show "o_priority r < spec_priority p qs" if r: "r \<in> set qs" "o_price r = p" for r
  proof -
    have ne: "?rs \<noteq> []" using r by (auto simp: filter_empty_conv)
    have "o_priority r \<le> o_priority (last ?rs)" by (rule last_priority [OF wf ne r])
    also have "\<dots> < o_priority (last ?rs) + 1" by (rule word_less_Suc [OF lst(2) [OF ne]])
    finally show ?thesis using ne by (simp add: spec_priority_def)
  qed
qed

lemma sorted_insert_mid:
  assumes "sorted_wrt R (xs @ ys)" "\<forall>x\<in>set xs. R x q" "\<forall>y\<in>set ys. R q y"
  shows "sorted_wrt R (xs @ q # ys)"
  using assms by (auto simp: sorted_wrt_append)

lemma spec_insert_wf:
  assumes wf: "side_wf s n qs" and s: "trade_side s" and n: "1 \<le> n" "n \<noteq> - 1"
    and q: "q = spec_order c co t s p l n (spec_priority p qs)" "l \<noteq> 0"
  shows "side_wf s (n + 1) (spec_insert s q qs)"
proof -
  let ?P = "\<lambda>r. \<not> goes_after s (o_price r) (o_price q)"
  let ?us = "takeWhile ?P qs" and ?vs = "dropWhile ?P qs"
  have qf: "o_price q = p" "o_priority q = spec_priority p qs" "o_side q = s" "o_qty q \<noteq> 0" "o_order_id q = n"
    using q by (simp_all add: spec_order_def)
  have srt: "sorted_wrt (executes_before s) (?us @ ?vs)" using wf by (simp add: side_wf_def)
  have us: "executes_before s u q" if "u \<in> set ?us" for u
  proof -
    have u: "u \<in> set qs" "?P u" using that by (auto dest: set_takeWhileD)
    show ?thesis
    proof (cases "o_price u = p")
      case True
      with spec_priority_bounds(2) [OF wf n u(1)] qf show ?thesis by (simp add: executes_before_def)
    next
      case False
      with goes_after_linear [OF s, of p "o_price u"] u(2) qf show ?thesis
        by (auto simp: executes_before_def)
    qed
  qed
  have vs: "executes_before s q v" if v: "v \<in> set ?vs" for v
  proof -
    obtain h vs' where h: "?vs = h # vs'" using v by (cases ?vs) auto
    then have "goes_after s (o_price h) p" using hd_dropWhile [of ?P qs] qf(1) by simp
    moreover have "v = h \<or> executes_before s h v" using srt v h by (auto simp: sorted_wrt_append)
    ultimately have "goes_after s (o_price v) p"
      using goes_after_trans by (auto simp: executes_before_def)
    then show ?thesis by (simp add: executes_before_def qf(1))
  qed
  have "sorted_wrt (executes_before s) (spec_insert s q qs)"
    unfolding spec_insert_def using us vs by (intro sorted_insert_mid [OF srt]) blast+
  moreover have "set (spec_insert s q qs) = insert q (set qs)"
    unfolding spec_insert_def using takeWhile_dropWhile_id [of ?P qs] by (metis Un_insert_right list.set(2) set_append)
  moreover have "n < n + 1" by (rule word_less_Suc [OF n(2)])
  ultimately show ?thesis
    using wf qf spec_priority_bounds(1) [OF wf n] by (auto simp: side_wf_def intro: order.strict_trans)
qed

lemma set_spec_insert: "set (spec_insert s q qs) = insert q (set qs)"
  unfolding spec_insert_def using takeWhile_dropWhile_id by (metis Un_insert_right list.set(2) set_append)

definition uncrossed :: "ExchangeOrder list \<Rightarrow> ExchangeOrder list \<Rightarrow> bool" where
  "uncrossed bids asks \<longleftrightarrow> (\<forall>q\<in>set bids. \<forall>r\<in>set asks. o_price q < o_price r)"

lemma side_wf_prices: "side_wf s n qs \<Longrightarrow> q \<in> set qs \<Longrightarrow> \<not> goes_after s (o_price (hd qs)) (o_price q)"
  by (cases qs) (auto simp: side_wf_def executes_before_def dest: goes_after_asym)

text \<open>What stops the matching leaves a gap between the limit and the whole opposite side.\<close>

lemma stopped_gap:
  assumes "side_wf (other_side s) n qs" "trade_side s" "qs = [] \<or> not_crossed s p (o_price (hd qs))" "r \<in> set qs"
  shows "not_crossed s p (o_price r)"
  using side_wf_prices [OF assms(1,4)] assms(2-4)
  by (auto simp: not_crossed_def goes_after_def other_side_def split: if_splits)

lemma market_ok_sides:
  "market_ok S \<longleftrightarrow> 1 \<le> sp_next S \<and> side_wf Side_BUY (sp_next S) (sp_orders S Side_BUY) \<and>
     side_wf Side_SELL (sp_next S) (sp_orders S Side_SELL) \<and>
     uncrossed (sp_orders S Side_BUY) (sp_orders S Side_SELL)"
  by (auto simp: market_ok_def uncrossed_def)

lemma uncrossed_prices:
  assumes "uncrossed bids asks" "o_price ` set bids' \<subseteq> o_price ` set bids" "o_price ` set asks' \<subseteq> o_price ` set asks"
  shows "uncrossed bids' asks'"
  unfolding uncrossed_def
proof (intro ballI)
  fix q r assume "q \<in> set bids'" "r \<in> set asks'"
  then have "o_price q \<in> o_price ` set bids" "o_price r \<in> o_price ` set asks" using assms(2,3) by blast+
  with assms(1) show "o_price q < o_price r" by (auto simp: uncrossed_def)
qed

lemma market_ok_add:
  assumes ok: "market_ok S" and s: "trade_side s" and n: "sp_next S \<noteq> - 1"
  shows "market_ok (spec_add c co t s p qty S)"
proof -
  let ?n = "sp_next S" and ?o = "other_side s"
  obtain l opp gone ms where sp:
    "spec_match t c s co (fill_id ?n) p qty (sp_orders S ?o) = (l, opp, gone, ms)" by (metis prod_cases4)
  have n1: "1 \<le> ?n" and wf: "side_wf s ?n (sp_orders S s)" "side_wf ?o ?n (sp_orders S ?o)"
    and unc: "uncrossed (sp_orders S Side_BUY) (sp_orders S Side_SELL)"
    using ok s by (auto simp: market_ok_sides other_side_def)
  have nn: "?n \<le> ?n + 1" "1 \<le> ?n + 1" using word_less_Suc [OF n] n1 by auto
  have opp: "side_wf ?o ?n opp" by (rule side_wf_match [OF sp wf(2)])
  have sub: "o_price ` set opp \<subseteq> o_price ` set (sp_orders S ?o)" using spec_match_subset [OF sp] by blast
  show ?thesis
  proof (cases "l = 0")
    case True
    have "uncrossed (((sp_orders S)(?o := opp)) Side_BUY) (((sp_orders S)(?o := opp)) Side_SELL)"
      by (rule uncrossed_prices [OF unc]) (use sub s in \<open>auto simp: other_side_def\<close>)
    with True sp nn s wf(1) opp show ?thesis
      by (auto simp: spec_add_def market_ok_sides other_side_def intro: side_wf_mono)
  next
    case False
    let ?q = "spec_order c co t s p l ?n (spec_priority p (sp_orders S s))"
    have new: "side_wf s (?n + 1) (spec_insert s ?q (sp_orders S s))"
      by (rule spec_insert_wf [OF wf(1) s n1 n refl False])
    have gap: "not_crossed s p (o_price r)" if "r \<in> set opp" for r
      by (rule stopped_gap [OF opp s spec_match_left [OF sp False] that])
    have pq: "o_price ?q = p" by (simp add: spec_order_def)
    have old: "uncrossed (((sp_orders S)(?o := opp)) Side_BUY) (((sp_orders S)(?o := opp)) Side_SELL)"
      by (rule uncrossed_prices [OF unc]) (use sub s in \<open>auto simp: other_side_def\<close>)
    have "spec_add c co t s p qty S = S\<lparr>sp_orders := (sp_orders S)(?o := opp, s := spec_insert s ?q (sp_orders S s)),
       sp_index := (forget (map order_key gone) (sp_index S))((c, co) := Some ?n), sp_next := ?n + 1,
       sp_sent := sp_sent S @ Response (accepted c co t s p qty ?n) # ms @ [Update (add_update ?q)]\<rparr>"
      using sp False by (simp add: spec_add_def)
    moreover have "uncrossed (((sp_orders S)(?o := opp, s := spec_insert s ?q (sp_orders S s))) Side_BUY)
        (((sp_orders S)(?o := opp, s := spec_insert s ?q (sp_orders S s))) Side_SELL)"
      using old gap s pq unfolding uncrossed_def
      by (auto simp: other_side_def set_spec_insert not_crossed_def)
    ultimately show ?thesis
      using new nn s side_wf_mono [OF opp nn(1)] by (auto simp: market_ok_sides other_side_def)
  qed
qed

lemma market_ok_cancel:
  assumes ok: "market_ok S"
  shows "market_ok (spec_cancel c co t S)"
proof (cases "sp_index S (c, co)")
  case (Some mo)
  let ?f = "\<lambda>qs. filter (\<lambda>r. o_order_id r \<noteq> mo) qs"
  have sub: "o_price ` set (?f qs) \<subseteq> o_price ` set qs" for qs by auto
  let ?s = "o_side (hd (filter (\<lambda>r. o_order_id r = mo) (spec_orders S)))"
  let ?os = "(sp_orders S)(?s := ?f (sp_orders S ?s))"
  have "uncrossed (?os Side_BUY) (?os Side_SELL)"
    by (rule uncrossed_prices [of "sp_orders S Side_BUY" "sp_orders S Side_SELL"])
      (use ok in \<open>auto simp: market_ok_sides\<close>)
  with ok Some show ?thesis
    by (auto simp: spec_cancel_def market_ok_sides intro: side_wf_filter)
qed (use ok in \<open>simp add: spec_cancel_def market_ok_sides\<close>)


section \<open>Quantities, prices and reports of a match\<close>

fun traded :: "engine_message \<Rightarrow> nat" where
  "traded (Response r) = 0"
| "traded (Update u) = (if mu_type u = MarketUpdateType_TRADE then unat (mu_qty u) else 0)"

definition total_traded :: "engine_message list \<Rightarrow> nat" where
  "total_traded ms = sum_list (map traded ms)"

definition total_qty :: "ExchangeOrder list \<Rightarrow> nat" where
  "total_qty qs = sum_list (map (\<lambda>q. unat (o_qty q)) qs)"

lemma total_simps [simp]:
  "total_traded [] = 0" "total_traded (m # ms) = traded m + total_traded ms"
  "total_traded (ms @ ms') = total_traded ms + total_traded ms'"
  "total_qty [] = 0" "total_qty (q # qs) = unat (o_qty q) + total_qty qs"
  "total_qty (qs @ qs') = total_qty qs + total_qty qs'"
  by (simp_all add: total_traded_def total_qty_def)

lemma total_match_messages [simp]:
  "total_traded (match_messages t c s co mo l q) = unat (min l (o_qty q))"
  by (simp add: match_messages_def)

lemma fill_split:
  fixes l q :: Qty
  shows "unat (min l q) \<le> unat l" "unat (min l q) \<le> unat q" "unat (q - min l q) = unat q - unat (min l q)"
  by (simp_all add: min_def word_le_nat_alt unat_sub)

lemma spec_match_conserves:
  assumes "spec_match t c s co mo p l qs = (l', qs', gone, ms)"
  shows "unat l = unat l' + total_traded ms \<and> total_qty qs = total_qty qs' + total_traded ms"
  using assms
proof (induction t c s co mo p l qs arbitrary: l' qs' gone ms rule: spec_match.induct)
  case (2 t c s co mo p l q qs)
  obtain l2 qs2 gone2 ms2 where r:
    "spec_match t c s co mo p (l - min l (o_qty q)) qs = (l2, qs2, gone2, ms2)" by (metis prod_cases4)
  note f = fill_split [where l = l and q = "o_qty q"] fill_le [of l "o_qty q"]
  consider "l = 0 \<or> not_crossed s p (o_price q)"
    | "\<not> (l = 0 \<or> not_crossed s p (o_price q))" "o_qty q - min l (o_qty q) = 0"
    | "\<not> (l = 0 \<or> not_crossed s p (o_price q))" "o_qty q - min l (o_qty q) \<noteq> 0" by blast
  then show ?case
  proof cases
    case 1
    with 2(2) show ?thesis by auto
  next
    case 2
    have "unat (o_qty q - min l (o_qty q)) = 0" using 2(2) by simp
    then have "unat (min l (o_qty q)) = unat (o_qty q)" using f by simp
    with "2.IH" [OF 2 r] "2.prems" 2 r f show ?thesis by auto
  next
    case 3
    with "2.prems" f show ?thesis by auto
  qed
qed simp

text \<open>The prices of the trades of a match: those of resting orders, all within the limit.\<close>

definition trade_prices :: "engine_message list \<Rightarrow> Price list" where
  "trade_prices ms = [mu_price u. Update u \<leftarrow> ms, mu_type u = MarketUpdateType_TRADE]"

lemma trade_prices_simps [simp]:
  "trade_prices (ms @ ms') = trade_prices ms @ trade_prices ms'"
  "trade_prices (match_messages t c s co mo l q) = [o_price q]"
  "trade_prices [] = []"
  by (simp_all add: trade_prices_def match_messages_def)

lemma spec_match_prices:
  assumes "spec_match t c s co mo p l qs = (l', qs', gone, ms)"
  shows "\<exists>k. trade_prices ms = map o_price (take k qs) \<and> (\<forall>pr\<in>set (trade_prices ms). \<not> not_crossed s p pr)"
  using assms
proof (induction t c s co mo p l qs arbitrary: l' qs' gone ms rule: spec_match.induct)
  case (2 t c s co mo p l q qs)
  obtain l2 qs2 gone2 ms2 where r:
    "spec_match t c s co mo p (l - min l (o_qty q)) qs = (l2, qs2, gone2, ms2)" by (metis prod_cases4)
  consider "l = 0 \<or> not_crossed s p (o_price q)"
    | "\<not> (l = 0 \<or> not_crossed s p (o_price q))" "o_qty q - min l (o_qty q) = 0"
    | "\<not> (l = 0 \<or> not_crossed s p (o_price q))" "o_qty q - min l (o_qty q) \<noteq> 0" by blast
  then show ?case
  proof cases
    case 1
    with 2(2) show ?thesis by (intro exI [of _ 0]) auto
  next
    case 2
    obtain k where "trade_prices ms2 = map o_price (take k qs)" "\<forall>pr\<in>set (trade_prices ms2). \<not> not_crossed s p pr"
      using "2.IH" [OF 2 r] by blast
    with "2.prems" 2 r show ?thesis by (intro exI [of _ "Suc k"]) auto
  next
    case 3
    with "2.prems" show ?thesis by (intro exI [of _ 1]) auto
  qed
qed simp

section \<open>Reachable books\<close>

definition exchange_inv :: "ExchangeOrderBook \<Rightarrow> (Side \<Rightarrow> levels) \<Rightarrow> bool" where
  "exchange_inv b L \<longleftrightarrow> eob_ok b L \<and> market_ok (abs_book b L)"

text \<open>
  The requests the book can take: a real side, ids inside the arrays, a price whose slot no other
  price on the book shares, room in both pools, and an id counter that has not run out.
\<close>

definition can_add :: "ClientId \<Rightarrow> OrderId \<Rightarrow> Side \<Rightarrow> Price \<Rightarrow> ExchangeOrderBook \<Rightarrow> bool" where
  "can_add c co s p b \<longleftrightarrow>
     trade_side s \<and> cid_oid_in_range c co \<and>
     (\<forall>x\<in>live (order_pool b). PriceToIndex (o_price (ord b x)) = PriceToIndex p \<longrightarrow> o_price (ord b x) = p) \<and>
     has_room (orders_at_price_pool b) \<and> has_room (order_pool b) \<and> next_market_order_id b \<noteq> - 1"

definition can_cancel :: "ClientId \<Rightarrow> OrderId \<Rightarrow> bool" where
  "can_cancel c co \<longleftrightarrow> (unat c < ME_MAX_NUM_CLIENTS \<longrightarrow> unat co < ME_MAX_ORDER_IDS)"

definition empty_book :: "TickerId \<Rightarrow> ExchangeOrderBook" where
  "empty_book t = ExchangeOrderBook_new t (\<lambda>_ _. None) (\<lambda>_. None)"

inductive exchange_reachable :: "ExchangeOrderBook \<Rightarrow> bool" where
  reach_new: "exchange_reachable (empty_book t)"
| reach_add: "exchange_reachable b \<Longrightarrow> can_add c co s p b \<Longrightarrow> Add c co t s p qty b = Inr b' \<Longrightarrow>
    exchange_reachable b'"
| reach_cancel: "exchange_reachable b \<Longrightarrow> can_cancel c co \<Longrightarrow> Cancel c co t b = Inr b' \<Longrightarrow>
    exchange_reachable b'"

lemma can_add_clear:
  assumes "eob_ok b L" "can_add c co s p b"
  shows "slots_clear p (abs_orders b L t)"
  using assms addrs_live [OF assms(1), of _ t] by (auto simp: slots_clear_def can_add_def abs_orders_set)

lemma Add_inv:
  assumes inv: "exchange_inv b L" and can: "can_add c co s p b"
  obtains b' L' where "Add c co t s p qty b = Inr b'" "exchange_inv b' L'"
    "abs_book b' L' = spec_add c co t s p qty (abs_book b L)" "pools_kept b b'"
proof -
  have ok: "eob_ok b L" and mk: "market_ok (abs_book b L)" using inv by (simp_all add: exchange_inv_def)
  have c: "trade_side s" "cid_oid_in_range c co" "has_room (orders_at_price_pool b)"
    "has_room (order_pool b)" "next_market_order_id b \<noteq> - 1"
    using can by (simp_all add: can_add_def)
  obtain b' L' where *: "Add c co t s p qty b = Inr b'" "eob_ok b' L'"
    "abs_book b' L' = spec_add c co t s p qty (abs_book b L)" "pools_kept b b'"
    using Add_ok [OF ok c(1,2) can_add_clear [OF ok can] can_add_clear [OF ok can] c(3-5), of t qty] by blast
  moreover have "exchange_inv b' L'"
    using *(2,3) market_ok_add [OF mk c(1)] c(5) by (simp add: exchange_inv_def)
  ultimately show thesis using that by blast
qed

lemma Cancel_inv:
  assumes inv: "exchange_inv b L" and can: "can_cancel c co"
  obtains b' L' where "Cancel c co t b = Inr b'" "exchange_inv b' L'"
    "abs_book b' L' = spec_cancel c co t (abs_book b L)" "pools_kept b b'"
proof -
  have ok: "eob_ok b L" and mk: "market_ok (abs_book b L)" using inv by (simp_all add: exchange_inv_def)
  obtain b' L' where *: "Cancel c co t b = Inr b'" "eob_ok b' L'"
    "abs_book b' L' = spec_cancel c co t (abs_book b L)" "pools_kept b b'"
    using Cancel_ok [OF ok, of c co t] can by (auto simp: can_cancel_def)
  moreover have "exchange_inv b' L'"
    using *(2,3) market_ok_cancel [OF mk] by (simp add: exchange_inv_def)
  ultimately show thesis using that by blast
qed

lemma empty_book_inv: "exchange_inv (empty_book t) (\<lambda>_. [])"
  unfolding exchange_inv_def empty_book_def ExchangeOrderBook_new_ok(2)
  by (simp add: ExchangeOrderBook_new_ok(1) market_ok_def side_wf_def)

lemma reachable_inv:
  assumes "exchange_reachable b"
  obtains L where "exchange_inv b L"
proof -
  from assms have "\<exists>L. exchange_inv b L"
  proof induction
    case (reach_new t)
    show ?case using empty_book_inv by blast
  next
    case (reach_add b c co s p t qty b')
    then show ?case by (metis Add_inv Inr_inject)
  next
    case (reach_cancel b c co t b')
    then show ?case by (metis Cancel_inv Inr_inject)
  qed
  then show thesis using that by blast
qed

lemma empty_book_room:
  assumes "trade_side s" "cid_oid_in_range c co"
  shows "can_add c co s p (empty_book t)"
  using assms by (simp add: can_add_def empty_book_def ExchangeOrderBook_new_def has_room_def
      ME_MAX_PRICE_LEVELS_def ME_MAX_ORDER_IDS_def)

text \<open>The quantity resting on a side.\<close>

definition book_qty :: "Side \<Rightarrow> ExchangeOrderBook \<Rightarrow> nat" where
  "book_qty s b = (\<Sum>x\<in>{x \<in> live (order_pool b). o_side (ord b x) = s}. unat (o_qty (ord b x)))"

lemma side_addrs:
  assumes ok: "eob_ok b L" and s: "trade_side s"
  shows "{x \<in> live (order_pool b). o_side (ord b x) = s} = set (addrs (L s))"
proof -
  have side: "o_side (ord b x) = t" if x: "x \<in> set (addrs (L t))" and t: "trade_side t" for x t
    using x order_price [OF book_okD(1) [OF eob_okD(1) [OF ok] t]] unfolding in_addrs_iff by blast
  show ?thesis
    using live_sides [OF ok s] side [of _ s] side [of _ "other_side s"] s by auto
qed

lemma book_qty_abs:
  assumes "eob_ok b L" "trade_side s"
  shows "book_qty s b = total_qty (abs_orders b L s)"
  using sides_disjoint(4) [OF eob_okD(1) [OF assms(1)] assms(2)]
  by (simp add: book_qty_def side_addrs [OF assms] total_qty_def abs_orders_def sum_list_distinct_conv_sum_set o_def)

lemma total_spec_insert [simp]: "total_qty (spec_insert s q qs) = unat (o_qty q) + total_qty qs"
proof -
  let ?P = "\<lambda>r. \<not> goes_after s (o_price r) (o_price q)"
  have "total_qty qs = total_qty (takeWhile ?P qs) + total_qty (dropWhile ?P qs)"
    by (metis takeWhile_dropWhile_id total_simps(6))
  then show ?thesis by (simp add: spec_insert_def)
qed

section \<open>Properties\<close>

text \<open>
  C1: A new order request that satisfies \<open>can_add\<close> (a BUY or SELL side, client and order id inside
  the arrays, no other price of the book in its price slot, room in both pools, an id counter that
  has not run out) on a well-formed book ends normally, keeps the book well-formed and has exactly
  the effect of the specification: matching in price-time priority against the opposite list, the
  rest inserted behind every order that is not worse, the same messages in the same order. The code
  checks none of these conditions; without them the exchange may end (\<open>Add_out_of_range\<close>) or its
  book be crossed (\<open>invalid_side_crosses\<close>).
\<close>

theorem Add_refines:
  assumes "exchange_inv b L" "can_add c co s p b"
  shows "\<exists>b' L'. Add c co t s p qty b = Inr b' \<and> exchange_inv b' L' \<and>
    abs_book b' L' = spec_add c co t s p qty (abs_book b L)"
  using Add_inv [OF assms] by metis

text \<open>
  C2: A cancel request that satisfies \<open>can_cancel\<close> (a client id past the array, which the code rejects,
  or else an order id inside it) on a well-formed book ends normally, keeps the book well-formed and
  has exactly the effect of the specification: the order the client's id names leaves its list, or
  the request is rejected and the book stays as it is. An order id past the array ends the exchange
  (\<open>Cancel_out_of_range\<close>).
\<close>

theorem Cancel_refines:
  assumes "exchange_inv b L" "can_cancel c co"
  shows "\<exists>b' L'. Cancel c co t b = Inr b' \<and> exchange_inv b' L' \<and>
    abs_book b' L' = spec_cancel c co t (abs_book b L)"
  using Cancel_inv [OF assms] by metis

text \<open>
  C3: In every book that new orders satisfying \<open>can_add\<close> and cancels satisfying \<open>can_cancel\<close> lead to,
  the best bid is below the best ask: no price level of one side crosses the other between two
  requests. A new order whose side byte is neither BUY nor SELL, which the code does not check,
  can cross the book (\<open>invalid_side_crosses\<close>).
\<close>

theorem book_never_crossed:
  assumes "exchange_reachable b" "bids_by_price b = Some x" "asks_by_price b = Some y"
  shows "l_price (lvl b x) < l_price (lvl b y)"
proof -
  obtain L where inv: "exchange_inv b L" by (rule reachable_inv [OF assms(1)])
  have ok: "book_ok b L" using inv eob_okD(1) by (simp add: exchange_inv_def)
  have best: "\<exists>q\<in>set (abs_orders b L s). o_price q = l_price (lvl b z)"
    if s: "trade_side s" and z: "best_by_price s b = Some z" for s z
  proof -
    have so: "side_ok b s (L s)" by (rule book_okD(1) [OF ok s])
    then obtain w ls where w: "L s = w # ls" "z = fst w" using z by (cases "L s") (auto simp: side_ok_def)
    with so have "hd (snd w) \<in> set (snd w)" by (simp add: side_ok_def level_ok_def)
    with order_price [OF so, of w] w show ?thesis by (auto simp: abs_orders_set lprice_def)
  qed
  obtain q r where "q \<in> set (abs_orders b L Side_BUY)" "o_price q = l_price (lvl b x)"
    "r \<in> set (abs_orders b L Side_SELL)" "o_price r = l_price (lvl b y)"
    using best [of Side_BUY x] best [of Side_SELL y] assms(2,3) by (auto simp: best_by_price_def)
  with inv show ?thesis unfolding exchange_inv_def market_ok_sides uncrossed_def by force
qed

lemma empty_book_can_add: "can_add 3 7 Side_BUY (I64 100) (empty_book 0)"
  by (rule empty_book_room) (simp_all add: cid_oid_in_range_def ME_MAX_NUM_CLIENTS_def ME_MAX_ORDER_IDS_def)

text \<open>A bid of 5 at 100 on an empty book, and an ask of 9 at 105 behind it, evaluated.\<close>

lemmas exchange_eval = Add_def AddOrder_def link_order_def AddOrdersAtPrice_def GetOrdersAtPrice_def
  Allocate_def UpdateNextFreeIndex_def set_block_def GenerateNewMarketOrderId_def
  SendClientResponse_def SendMarketUpdate_def CheckForMatch_def GetNextPriority_def set_cid_oid_def
  cid_oid_in_range_def ME_MAX_NUM_CLIENTS_def ME_MAX_ORDER_IDS_def ME_MAX_PRICE_LEVELS_def
  empty_book_def ExchangeOrderBook_new_def MemoryPool_new_def obj_def upd_obj_def
  best_by_price_def set_best_def other_side_def PriceToIndex_def match_loop.simps scan_free.simps
  find_target.simps not_crossed_def

lemma live_first_block [simp]:
  "\<not> blk_is_free blk \<Longrightarrow> blk_is_free z \<Longrightarrow> 0 < n \<Longrightarrow>
   live \<lparr>store = (\<lambda>_. z)(0 := blk), store_size = n, next_free_index = k\<rparr> = {0}"
  by (auto simp: live_def split: if_splits)

lemma one_bid:
  obtains b where "Add 3 7 0 Side_BUY (I64 100) 5 (empty_book 0) = Inr b"
    "can_add 4 8 Side_SELL (I64 105) b" "can_add 4 8 Side_SELL (I64 99) b" "book_qty Side_BUY b = 5"
proof -
  have "\<exists>b. Add 3 7 0 Side_BUY (I64 100) 5 (empty_book 0) = Inr b \<and>
    can_add 4 8 Side_SELL (I64 105) b \<and> can_add 4 8 Side_SELL (I64 99) b \<and> book_qty Side_BUY b = 5"
    by (simp add: exchange_eval)
      (simp add: can_add_def has_room_def cid_oid_in_range_def ME_MAX_NUM_CLIENTS_def
        ME_MAX_ORDER_IDS_def ME_MAX_PRICE_LEVELS_def PriceToIndex_def obj_def book_qty_def cong: conj_cong)
  then show thesis using that by blast
qed

lemma bid_and_ask:
  obtains b b' where "Add 3 7 0 Side_BUY (I64 100) 5 (empty_book 0) = Inr b"
    "can_add 4 8 Side_SELL (I64 105) b" "Add 4 8 0 Side_SELL (I64 105) 9 b = Inr b'"
    "bids_by_price b' = Some 0" "asks_by_price b' = Some 1"
proof -
  obtain b where b: "Add 3 7 0 Side_BUY (I64 100) 5 (empty_book 0) = Inr b" "can_add 4 8 Side_SELL (I64 105) b"
    by (rule one_bid)
  have "\<exists>b'. rbind (Add 3 7 0 Side_BUY (I64 100) 5 (empty_book 0)) (Add 4 8 0 Side_SELL (I64 105) 9) = Inr b' \<and>
    bids_by_price b' = Some 0 \<and> asks_by_price b' = Some 1"
    by (simp add: exchange_eval)
  with b that show thesis by auto
qed

text \<open>Two bids at one price, the second behind the first in the ring.\<close>

lemma two_bids:
  obtains b b' where "Add 3 7 0 Side_BUY (I64 100) 5 (empty_book 0) = Inr b"
    "can_add 4 8 Side_BUY (I64 100) b" "Add 4 8 0 Side_BUY (I64 100) 9 b = Inr b'"
proof -
  have "\<exists>b. Add 3 7 0 Side_BUY (I64 100) 5 (empty_book 0) = Inr b \<and> can_add 4 8 Side_BUY (I64 100) b"
    by (simp add: exchange_eval)
      (simp add: can_add_def has_room_def cid_oid_in_range_def ME_MAX_NUM_CLIENTS_def
        ME_MAX_ORDER_IDS_def ME_MAX_PRICE_LEVELS_def PriceToIndex_def obj_def cong: conj_cong)
  then obtain b where b: "Add 3 7 0 Side_BUY (I64 100) 5 (empty_book 0) = Inr b"
    "can_add 4 8 Side_BUY (I64 100) b" by blast
  have "exchange_reachable b" using reach_add [OF reach_new empty_book_can_add b(1)] .
  then obtain L where "exchange_inv b L" by (rule reachable_inv)
  then obtain b' L' where "Add 4 8 0 Side_BUY (I64 100) 9 b = Inr b'" using Add_inv [OF _ b(2)] by metis
  with b show thesis using that by blast
qed

lemma abs_empty_book:
  "abs_book (empty_book t) (\<lambda>_. []) = \<lparr>sp_orders = (\<lambda>_. []), sp_index = (\<lambda>_. None), sp_next = 1, sp_sent = []\<rparr>"
  unfolding empty_book_def by (rule ExchangeOrderBook_new_ok(2))

lemmas spec_eval = spec_add_def spec_cancel_def spec_orders_def spec_insert_def spec_priority_def
  spec_order_def other_side_def not_crossed_def goes_after_def fill_id_def forget_def

text \<open>A sell of 9 at 99 against a resting bid of 5 at 100: the bid is used up and 4 rest on the other side.\<close>

theorem Add_refines_witness:
  "\<exists>b b' L'. Add 3 7 0 Side_BUY (I64 100) 5 (empty_book 0) = Inr b \<and>
    Add 4 8 0 Side_SELL (I64 99) 9 b = Inr b' \<and> exchange_inv b' L' \<and>
    abs_orders b' L' Side_BUY = [] \<and>
    abs_orders b' L' Side_SELL = [spec_order 4 8 0 Side_SELL (I64 99) 4 2 1]"
proof -
  obtain b where b: "Add 3 7 0 Side_BUY (I64 100) 5 (empty_book 0) = Inr b"
    "can_add 4 8 Side_SELL (I64 99) b" by (rule one_bid)
  obtain L where L: "exchange_inv b L"
    "abs_book b L = spec_add 3 7 0 Side_BUY (I64 100) 5 (abs_book (empty_book 0) (\<lambda>_. []))"
    using Add_inv [OF empty_book_inv empty_book_can_add, where t = 0 and qty = 5] b(1) by auto
  obtain b' L' where b': "Add 4 8 0 Side_SELL (I64 99) 9 b = Inr b'" "exchange_inv b' L'"
    "abs_book b' L' = spec_add 4 8 0 Side_SELL (I64 99) 9 (abs_book b L)"
    using Add_refines [OF L(1) b(2)] by blast
  note f = abs_book_fields [OF b'(3)]
  have "abs_orders b' L' Side_BUY = []" "abs_orders b' L' Side_SELL = [spec_order 4 8 0 Side_SELL (I64 99) 4 2 1]"
    unfolding f L(2) abs_empty_book by (simp_all add: spec_eval)
  with b(1) b'(1,2) show ?thesis by blast
qed

text \<open>The first of two resting orders is cancelled, the second stays.\<close>

theorem Cancel_refines_witness:
  "\<exists>b b1 b' L'. Add 3 7 0 Side_BUY (I64 100) 5 (empty_book 0) = Inr b \<and>
    Add 4 8 0 Side_BUY (I64 100) 9 b = Inr b1 \<and> Cancel 3 7 0 b1 = Inr b' \<and> exchange_inv b' L' \<and>
    abs_orders b' L' Side_BUY = [spec_order 4 8 0 Side_BUY (I64 100) 9 2 2]"
proof -
  obtain b b1 where b: "Add 3 7 0 Side_BUY (I64 100) 5 (empty_book 0) = Inr b"
    "can_add 4 8 Side_BUY (I64 100) b" "Add 4 8 0 Side_BUY (I64 100) 9 b = Inr b1" by (rule two_bids)
  obtain L where L: "exchange_inv b L"
    "abs_book b L = spec_add 3 7 0 Side_BUY (I64 100) 5 (abs_book (empty_book 0) (\<lambda>_. []))"
    using Add_inv [OF empty_book_inv empty_book_can_add, where t = 0 and qty = 5] b(1) by auto
  obtain L1 where L1: "exchange_inv b1 L1"
    "abs_book b1 L1 = spec_add 4 8 0 Side_BUY (I64 100) 9 (abs_book b L)"
    using Add_inv [OF L(1) b(2), where t = 0 and qty = 9] b(3) by auto
  have can: "can_cancel 3 7" by (simp add: can_cancel_def ME_MAX_ORDER_IDS_def)
  obtain b' L' where b': "Cancel 3 7 0 b1 = Inr b'" "exchange_inv b' L'"
    "abs_book b' L' = spec_cancel 3 7 0 (abs_book b1 L1)"
    using Cancel_refines [OF L1(1) can] by blast
  have "abs_orders b' L' Side_BUY = [spec_order 4 8 0 Side_BUY (I64 100) 9 2 2]"
    unfolding abs_book_fields [OF b'(3)] L1(2) L(2) abs_empty_book by (simp add: spec_eval)
  with b b'(1,2) show ?thesis by blast
qed

theorem book_never_crossed_witness:
  "\<exists>b x y. bids_by_price b = Some x \<and> asks_by_price b = Some y \<and> exchange_reachable b \<and>
    l_price (lvl b x) < l_price (lvl b y)"
proof -
  obtain b b' where b: "Add 3 7 0 Side_BUY (I64 100) 5 (empty_book 0) = Inr b"
    "can_add 4 8 Side_SELL (I64 105) b" "Add 4 8 0 Side_SELL (I64 105) 9 b = Inr b'"
    "bids_by_price b' = Some 0" "asks_by_price b' = Some 1"
    by (rule bid_and_ask)
  have "exchange_reachable b'"
    using reach_add [OF reach_add [OF reach_new empty_book_can_add b(1)] b(2,3)] .
  with book_never_crossed [OF this b(4,5)] b(4,5) show ?thesis by blast
qed

text \<open>
  The side of a request comes from the network unchecked. A byte that is neither BUY nor SELL is not
  matched and rests on the ask side: here at 50, below a bid at 100.
\<close>

lemma invalid_side_crosses:
  "\<exists>b. rbind (Add 3 7 0 Side_BUY (I64 100) 5 (empty_book 0)) (Add 4 8 0 Side_INVALID (I64 50) 9) = Inr b \<and>
    bids_by_price b = Some 0 \<and> asks_by_price b = Some 1 \<and> l_price (lvl b 1) < l_price (lvl b 0)"
  by (simp add: exchange_eval)

lemma Add_sides:
  assumes "exchange_reachable b" "can_add c co s p b"
  obtains b' L L' l opp gone ms where "exchange_inv b L" "exchange_inv b' L'" "Add c co t s p qty b = Inr b'"
    "spec_match t c s co (fill_id (next_market_order_id b)) p qty (abs_orders b L (other_side s)) = (l, opp, gone, ms)"
    "abs_orders b' L' (other_side s) = opp"
    "total_qty (abs_orders b' L' s) = total_qty (abs_orders b L s) + unat l"
    "\<exists>tl. sent b' = sent b @ Response (accepted c co t s p qty (next_market_order_id b)) # ms @ tl \<and>
      total_traded tl = 0 \<and> trade_prices tl = []"
proof -
  obtain L where inv: "exchange_inv b L" by (rule reachable_inv [OF assms(1)])
  obtain b' L' where b': "Add c co t s p qty b = Inr b'" "exchange_inv b' L'"
    "abs_book b' L' = spec_add c co t s p qty (abs_book b L)"
    by (rule Add_inv [OF inv assms(2)])
  obtain l opp gone ms where sp: "spec_match t c s co (fill_id (next_market_order_id b)) p qty
    (abs_orders b L (other_side s)) = (l, opp, gone, ms)" by (metis prod_cases4)
  note f = abs_book_fields [OF b'(3)]
  show thesis
  proof (rule that [OF inv b'(2,1) sp])
    show "abs_orders b' L' (other_side s) = opp"
      unfolding f using sp assms(2) by (simp add: spec_add_def can_add_def)
    show "total_qty (abs_orders b' L' s) = total_qty (abs_orders b L s) + unat l"
      unfolding f using sp assms(2) by (auto simp: spec_add_def can_add_def spec_order_def)
    show "\<exists>tl. sent b' = sent b @ Response (accepted c co t s p qty (next_market_order_id b)) # ms @ tl \<and>
      total_traded tl = 0 \<and> trade_prices tl = []"
      unfolding f using sp by (auto simp: spec_add_def add_update_def trade_prices_def)
  qed
qed

text \<open>
  C22: A new order neither makes nor loses quantity: what it trades leaves the opposite side, and
  what it does not trade rests on its own side. The traded quantity is the sum of the TRADE updates
  the request sends.
\<close>

theorem Add_conserves_quantity:
  assumes "exchange_reachable b" "can_add c co s p b"
  shows "\<exists>b' ms. Add c co t s p qty b = Inr b' \<and> sent b' = sent b @ ms \<and>
    book_qty s b' + total_traded ms = book_qty s b + unat qty \<and>
    book_qty (other_side s) b' + total_traded ms = book_qty (other_side s) b"
proof -
  obtain b' L L' l opp gone ms where *: "exchange_inv b L" "exchange_inv b' L'" "Add c co t s p qty b = Inr b'"
    "spec_match t c s co (fill_id (next_market_order_id b)) p qty (abs_orders b L (other_side s)) = (l, opp, gone, ms)"
    "abs_orders b' L' (other_side s) = opp"
    "total_qty (abs_orders b' L' s) = total_qty (abs_orders b L s) + unat l"
    "\<exists>tl. sent b' = sent b @ Response (accepted c co t s p qty (next_market_order_id b)) # ms @ tl \<and>
      total_traded tl = 0 \<and> trade_prices tl = []"
    by (rule Add_sides [OF assms])
  obtain tl where tl: "sent b' = sent b @ Response (accepted c co t s p qty (next_market_order_id b)) # ms @ tl"
    "total_traded tl = 0" using *(7) by blast
  have s: "trade_side s" using assms(2) by (simp add: can_add_def)
  have qty: "book_qty r b = total_qty (abs_orders b L r)" "book_qty r b' = total_qty (abs_orders b' L' r)"
    if "trade_side r" for r
    using *(1,2) that by (simp_all add: exchange_inv_def book_qty_abs)
  show ?thesis
    using spec_match_conserves [OF *(4)] *(3,5,6) tl qty [OF s] qty [of "other_side s"]
    by (intro exI [of _ b']
        exI [of _ "Response (accepted c co t s p qty (next_market_order_id b)) # ms @ tl"]) simp
qed

theorem Add_conserves_quantity_witness:
  "\<exists>b b' ms. Add 4 8 0 Side_SELL (I64 99) 9 b = Inr b' \<and> sent b' = sent b @ ms \<and>
    book_qty Side_SELL b' + total_traded ms = book_qty Side_SELL b + 9 \<and>
    book_qty Side_BUY b' + total_traded ms = 5"
proof -
  obtain b where b: "Add 3 7 0 Side_BUY (I64 100) 5 (empty_book 0) = Inr b"
    "can_add 4 8 Side_SELL (I64 99) b" "book_qty Side_BUY b = 5" by (rule one_bid)
  have "exchange_reachable b" using reach_add [OF reach_new empty_book_can_add b(1)] .
  from Add_conserves_quantity [OF this b(2), of 0 9] b(3) show ?thesis
    by (auto simp: other_side_def)
qed

text \<open>
  C21: An order trades with the best resting orders first and never beyond its limit: the trade
  prices of a request are the prices of the first orders of the opposite list, in their order, and
  each of them is at the limit or better.
\<close>

theorem Add_trades_best_first:
  assumes "exchange_reachable b" "can_add c co s p b"
  shows "\<exists>b' ms L k. Add c co t s p qty b = Inr b' \<and> sent b' = sent b @ ms \<and> exchange_inv b L \<and>
    trade_prices ms = map o_price (take k (abs_orders b L (other_side s))) \<and>
    (\<forall>pr\<in>set (trade_prices ms). if s = Side_BUY then pr \<le> p else p \<le> pr)"
proof -
  obtain b' L L' l opp gone ms where *: "exchange_inv b L" "exchange_inv b' L'" "Add c co t s p qty b = Inr b'"
    "spec_match t c s co (fill_id (next_market_order_id b)) p qty (abs_orders b L (other_side s)) = (l, opp, gone, ms)"
    "abs_orders b' L' (other_side s) = opp"
    "total_qty (abs_orders b' L' s) = total_qty (abs_orders b L s) + unat l"
    "\<exists>tl. sent b' = sent b @ Response (accepted c co t s p qty (next_market_order_id b)) # ms @ tl \<and>
      total_traded tl = 0 \<and> trade_prices tl = []"
    by (rule Add_sides [OF assms])
  obtain tl where tl: "sent b' = sent b @ Response (accepted c co t s p qty (next_market_order_id b)) # ms @ tl"
    "trade_prices tl = []" using *(7) by blast
  have tp: "trade_prices (Response (accepted c co t s p qty (next_market_order_id b)) # ms @ tl) = trade_prices ms"
    using tl(2) by (simp add: trade_prices_def)
  obtain k where "trade_prices ms = map o_price (take k (abs_orders b L (other_side s)))"
    "\<forall>pr\<in>set (trade_prices ms). \<not> not_crossed s p pr" using spec_match_prices [OF *(4)] by blast
  then show ?thesis
    using *(1,3) tl(1) tp by (intro exI conjI) (assumption | auto simp: not_crossed_def)+
qed

theorem Add_trades_best_first_witness:
  "\<exists>b b' ms L k. Add 4 8 0 Side_SELL (I64 99) 9 b = Inr b' \<and> sent b' = sent b @ ms \<and> exchange_inv b L \<and>
    trade_prices ms = map o_price (take k (abs_orders b L Side_BUY)) \<and>
    (\<forall>pr\<in>set (trade_prices ms). I64 99 \<le> pr)"
proof -
  obtain b where b: "Add 3 7 0 Side_BUY (I64 100) 5 (empty_book 0) = Inr b"
    "can_add 4 8 Side_SELL (I64 99) b" by (rule one_bid)
  have "exchange_reachable b" using reach_add [OF reach_new empty_book_can_add b(1)] .
  from Add_trades_best_first [OF this b(2), of 0 9] show ?thesis
    unfolding other_side_def by (simp only: Side.distinct if_False) blast
qed

section \<open>Requests the book cannot take\<close>

lemma unat_fill_id: "unat (fill_id mo) = unat mo mod 2 ^ 32"
  by (simp add: fill_id_def unsigned_ucast_eq unsigned_take_bit_eq take_bit_eq_mod unat_mod_distrib)

lemma fill_id_eq_iff: "fill_id mo = mo \<longleftrightarrow> unat mo < 2 ^ 32"
proof -
  have "fill_id mo = mo \<longleftrightarrow> unat mo mod 2 ^ 32 = unat mo" by (simp add: word_unat_eq_iff unat_fill_id)
  then show ?thesis by (metis mod_less mod_less_divisor zero_less_numeral zero_less_power)
qed

lemma exchange_inv_next:
  assumes inv: "exchange_inv b L" and n: "next_market_order_id b \<le> n"
  shows "exchange_inv (b\<lparr>next_market_order_id := n\<rparr>) L"
    "abs_orders (b\<lparr>next_market_order_id := n\<rparr>) L = abs_orders b L"
proof -
  let ?b = "b\<lparr>next_market_order_id := n\<rparr>"
  show ao: "abs_orders ?b L = abs_orders b L" by (simp add: abs_orders_def fun_eq_iff)
  have ok: "eob_ok b L" using inv by (simp add: exchange_inv_def)
  have "book_ok ?b L" by (rule book_ok_cong [OF eob_okD(1) [OF ok]]) simp_all
  moreover have "keys_ok ?b (live (order_pool b))"
    using ok n unfolding eob_ok_keys keys_ok_def by (auto intro: order.strict_trans2)
  ultimately have "eob_ok ?b L" using ok by (simp add: eob_ok_keys)
  moreover have "market_ok (abs_book ?b L)"
    using inv n ao by (auto simp: exchange_inv_def market_ok_sides intro: side_wf_mono order.trans)
  ultimately show "exchange_inv ?b L" by (simp add: exchange_inv_def)
qed

text \<open>The FILLED responses on side \<open>s\<close>: for an order on that side, those about the incoming order.\<close>

definition fills_on :: "Side \<Rightarrow> engine_message list \<Rightarrow> MEClientResponse list" where
  "fills_on s ms = [r. Response r \<leftarrow> ms, rs_type r = ClientResponseType_FILLED \<and> rs_side r = s]"

lemma fills_on_simps [simp]:
  "fills_on s [] = []" "fills_on s (Update u # ms) = fills_on s ms"
  "fills_on s (Response r # ms) =
     (if rs_type r = ClientResponseType_FILLED \<and> rs_side r = s then r # fills_on s ms else fills_on s ms)"
  "fills_on s (ms @ ms') = fills_on s ms @ fills_on s ms'"
  by (simp_all add: fills_on_def)

lemma fills_on_match:
  assumes "o_side q \<noteq> s"
  shows "fills_on s (match_messages t c s co mo l q) =
    [\<lparr>rs_type = ClientResponseType_FILLED, rs_client_id = c, rs_ticker_id = t, rs_client_order_id = co,
      rs_market_order_id = mo, rs_side = s, rs_price = o_price q, rs_exec_qty = min l (o_qty q),
      rs_leaves_qty = l - min l (o_qty q)\<rparr>]"
  using assms by (simp add: match_messages_def Let_def)

lemma fills_on_spec_match:
  assumes "spec_match t c s co mo p l qs = (l', qs', gone, ms)" "\<forall>q\<in>set qs. o_side q \<noteq> s"
  shows "\<forall>r\<in>set (fills_on s ms). rs_client_id r = c \<and> rs_client_order_id r = co \<and> rs_market_order_id r = mo"
  using assms
proof (induction t c s co mo p l qs arbitrary: l' qs' gone ms rule: spec_match.induct)
  case (2 t c s co mo p l q qs)
  obtain l2 qs2 gone2 ms2 where r:
    "spec_match t c s co mo p (l - min l (o_qty q)) qs = (l2, qs2, gone2, ms2)" by (metis prod_cases4)
  have q: "o_side q \<noteq> s" using "2.prems"(2) by simp
  consider "l = 0 \<or> not_crossed s p (o_price q)"
    | "\<not> (l = 0 \<or> not_crossed s p (o_price q))" "o_qty q - min l (o_qty q) = 0"
    | "\<not> (l = 0 \<or> not_crossed s p (o_price q))" "o_qty q - min l (o_qty q) \<noteq> 0" by blast
  then show ?case
  proof cases
    case 2
    from "2.IH" [OF this r] "2.prems" 2 r show ?thesis by (auto simp: fills_on_match [OF q])
  qed (use "2.prems" in \<open>auto simp: fills_on_match [OF q]\<close>)
qed simp

text \<open>
  C39: The market order id of an incoming order passes through a parameter of the 32 bit quantity
  type on its way to the matching code. On a well-formed book and for a request that satisfies
  \<open>can_add\<close> and crosses the best opposite order, the exchange first sends the ACCEPTED response with
  the new id; there is a FILLED response for the order, and each of them carries that id modulo
  2^32, which is another id as soon as the counter has reached 2^32.
\<close>

theorem fills_carry_truncated_id:
  assumes "exchange_inv b L" "can_add c co s p b"
    and "abs_orders b L (other_side s) = q # qs" "qty \<noteq> 0" "\<not> not_crossed s p (o_price q)"
  shows "\<exists>b' r ms. Add c co t s p qty b = Inr b' \<and> sent b' = sent b @ Response r # ms \<and>
    rs_type r = ClientResponseType_ACCEPTED \<and> rs_market_order_id r = next_market_order_id b \<and>
    fills_on s ms \<noteq> [] \<and>
    (\<forall>f\<in>set (fills_on s ms). rs_client_id f = c \<and> rs_client_order_id f = co \<and>
       unat (rs_market_order_id f) = unat (rs_market_order_id r) mod 2 ^ 32 \<and>
       (2 ^ 32 \<le> unat (rs_market_order_id r) \<longrightarrow> rs_market_order_id f \<noteq> rs_market_order_id r))"
proof -
  let ?mo = "next_market_order_id b"
  obtain b' L' where b': "Add c co t s p qty b = Inr b'" "abs_book b' L' = spec_add c co t s p qty (abs_book b L)"
    using Add_inv [OF assms(1,2)] by metis
  obtain l opp gone ms where sp: "spec_match t c s co (fill_id ?mo) p qty (q # qs) = (l, opp, gone, ms)"
    by (metis prod_cases4)
  have s: "trade_side s" using assms(2) by (simp add: can_add_def)
  have sides: "\<forall>r\<in>set (q # qs). o_side r \<noteq> s"
    using assms(1) s unfolding assms(3) [symmetric] exchange_inv_def market_ok_sides
    by (auto simp: side_wf_def other_side_def split: if_splits)
  have "\<exists>tl. ms = match_messages t c s co (fill_id ?mo) qty q @ tl"
    using sp assms(4,5) by (auto split: if_splits prod.splits)
  then have ne: "fills_on s ms \<noteq> []" using sides by (auto simp: fills_on_match)
  have "\<exists>tl. sent b' = sent b @ Response (accepted c co t s p qty ?mo) # ms @ tl \<and> fills_on s tl = []"
    unfolding abs_book_fields(4) [OF b'(2)] using sp assms(3) by (auto simp: spec_add_def)
  then obtain tl where tl: "sent b' = sent b @ Response (accepted c co t s p qty ?mo) # ms @ tl" "fills_on s tl = []"
    by blast
  have fills: "\<forall>f\<in>set (fills_on s (ms @ tl)). rs_client_id f = c \<and> rs_client_order_id f = co \<and> rs_market_order_id f = fill_id ?mo"
    using fills_on_spec_match [OF sp sides] tl(2) by simp
  have mod: "unat (fill_id ?mo) = unat ?mo mod 2 ^ 32" by (rule unat_fill_id)
  have "2 ^ 32 \<le> unat ?mo \<longrightarrow> fill_id ?mo \<noteq> ?mo" using fill_id_eq_iff [of ?mo] by simp
  with b'(1) tl(1) ne fills mod show ?thesis
    by (intro exI [of _ b'] exI [of _ "accepted c co t s p qty ?mo"] exI [of _ "ms @ tl"]) (auto simp: accepted_def)
qed

theorem fills_carry_truncated_id_witness:
  "\<exists>b b' r f ms. Add 4 8 0 Side_SELL (I64 99) 9 b = Inr b' \<and> sent b' = sent b @ Response r # ms \<and>
    rs_type r = ClientResponseType_ACCEPTED \<and> rs_market_order_id r = 0x100000003 \<and>
    f \<in> set (fills_on Side_SELL ms) \<and> unat (rs_market_order_id f) = 3"
proof -
  obtain b where b: "Add 3 7 0 Side_BUY (I64 100) 5 (empty_book 0) = Inr b" "can_add 4 8 Side_SELL (I64 99) b"
    by (rule one_bid)
  obtain L where L: "exchange_inv b L"
    "abs_book b L = spec_add 3 7 0 Side_BUY (I64 100) 5 (abs_book (empty_book 0) (\<lambda>_. []))"
    using Add_inv [OF empty_book_inv empty_book_can_add, where t = 0 and qty = 5] b(1) by auto
  note f = abs_book_fields [OF L(2)]
  let ?b = "b\<lparr>next_market_order_id := 0x100000003\<rparr>"
  have n: "next_market_order_id b \<le> 0x100000003" unfolding f abs_empty_book by (simp add: spec_eval)
  have o: "abs_orders ?b L (other_side Side_SELL) = [spec_order 3 7 0 Side_BUY (I64 100) 5 1 1]"
    unfolding exchange_inv_next(2) [OF L(1) n] f abs_empty_book by (simp add: spec_eval)
  have can: "can_add 4 8 Side_SELL (I64 99) ?b" using b(2) by (simp add: can_add_def)
  from fills_carry_truncated_id [OF exchange_inv_next(1) [OF L(1) n] can o, where qty = 9 and t = 0]
  obtain b' r ms where r: "Add 4 8 0 Side_SELL (I64 99) 9 ?b = Inr b'" "sent b' = sent ?b @ Response r # ms"
    "rs_type r = ClientResponseType_ACCEPTED" "rs_market_order_id r = 0x100000003" "fills_on Side_SELL ms \<noteq> []"
    "\<forall>f\<in>set (fills_on Side_SELL ms). unat (rs_market_order_id f) = unat (rs_market_order_id r) mod 2 ^ 32"
    by (auto simp: spec_order_def not_crossed_def)
  from r(5) obtain f where "f \<in> set (fills_on Side_SELL ms)" using list.set_sel(1) by blast
  with r show ?thesis by (intro exI [of _ ?b] exI [of _ b'] exI [of _ r] exI [of _ f] exI [of _ ms]) auto
qed

text \<open>
  A client order id past the end of the array that maps them ends the exchange: the
  out-of-range access throws inside a \<open>noexcept\<close> function. A cancel does it from any state.
\<close>

theorem Cancel_out_of_range:
  assumes "unat c < ME_MAX_NUM_CLIENTS" "ME_MAX_ORDER_IDS \<le> unat co"
  shows "Cancel c co t b = Inl Out_of_range"
  using assms by (simp add: Cancel_def cid_oid_at_def cid_oid_in_range_def)

theorem Cancel_out_of_range_witness: "Cancel 1 1048576 0 (empty_book 0) = Inl Out_of_range"
  by (rule Cancel_out_of_range) (simp_all add: ME_MAX_NUM_CLIENTS_def ME_MAX_ORDER_IDS_def)

text \<open>
  The same holds for a new order that has to rest: here the first order of an empty book. The
  client id is not checked either.
\<close>

theorem Add_out_of_range:
  assumes "\<not> cid_oid_in_range c co" "trade_side s" "qty \<noteq> 0"
  shows "Add c co t s p qty (empty_book t') = Inl Out_of_range"
  using assms unfolding cid_oid_in_range_def ME_MAX_NUM_CLIENTS_def ME_MAX_ORDER_IDS_def
  by (elim disjE) (simp_all add: exchange_eval)

theorem Add_out_of_range_witness: "Add 256 0 0 Side_BUY (I64 1) 1 (empty_book 0) = Inl Out_of_range"
  by (rule Add_out_of_range) (simp_all add: cid_oid_in_range_def ME_MAX_NUM_CLIENTS_def)

end
