(* ===== verification/Wire_Format.thy ===== *)
theory Wire_Format
  imports Messages
begin

text \<open>
  The bytes on the wire. The public protocols send the structs of
  \<open>src/src/include/order_gateway/client_request.hpp\<close>, \<open>client_response.hpp\<close> and
  \<open>src/src/include/market_data/market_update.hpp\<close> as they lie in memory: \<open>#pragma pack(push, 1)\<close>
  leaves no padding, numbers are little-endian (x86-64), an enumeration is one byte. A byte stream
  is cut into messages of the fixed size of the struct, which is what the locale \<open>framing\<close> is about.
  The code has no encoder or decoder: it copies a struct into the buffer and casts the buffer to a struct.
  \<open>put_...\<close> and \<open>get_...\<close> stand for these two and spell out the layout of the struct.
\<close>

type_synonym byte = "8 word"

section \<open>Numbers\<close>

fun le_bytes :: "nat \<Rightarrow> nat \<Rightarrow> byte list" where
  "le_bytes 0 v = []"
| "le_bytes (Suc n) v = of_nat (v mod 256) # le_bytes n (v div 256)"

fun le_val :: "byte list \<Rightarrow> nat" where
  "le_val [] = 0"
| "le_val (b # bs) = unat b + 256 * le_val bs"

lemma length_le_bytes [simp]: "length (le_bytes n v) = n"
  by (induction n v rule: le_bytes.induct) simp_all

lemma le_val_le_bytes: "le_val (le_bytes n v) = v mod 256 ^ n"
proof (induction n v rule: le_bytes.induct)
  case (2 n v)
  have "unat (of_nat (v mod 256) :: byte) = v mod 256"
    by (simp add: unat_of_nat)
  with 2 show ?case by (simp add: mod_mult2_eq)
qed simp

lemma le_bytes_le_val: "le_bytes (length bs) (le_val bs) = bs"
proof (induction bs)
  case (Cons b bs)
  have "unat b < 256" using unsigned_less [of b] by simp
  then have "(unat b + 256 * le_val bs) mod 256 = unat b" "(unat b + 256 * le_val bs) div 256 = le_val bs"
    by simp_all
  with Cons show ?case by simp
qed simp

lemma le_val_less: "le_val bs < 256 ^ length bs"
proof (induction bs)
  case (Cons b bs)
  have "unat b < 256" using unsigned_less [of b] by simp
  with Cons show ?case by simp
qed simp

text \<open>A 32 bit and a 64 bit number.\<close>

definition put32 :: "32 word \<Rightarrow> byte list" where
  "put32 w = le_bytes 4 (unat w)"

definition get32 :: "byte list \<Rightarrow> 32 word" where
  "get32 bs = of_nat (le_val bs)"

definition put64 :: "64 word \<Rightarrow> byte list" where
  "put64 w = le_bytes 8 (unat w)"

definition get64 :: "byte list \<Rightarrow> 64 word" where
  "get64 bs = of_nat (le_val bs)"

lemma put_length [simp]: "length (put32 w) = 4" "length (put64 v) = 8"
  by (simp_all add: put32_def put64_def)

lemma get_put [simp]: "get32 (put32 w) = w" "get64 (put64 v) = v"
proof -
  have "unat w < 2 ^ 32" "unat v < 2 ^ 64" using unsigned_less [of w] unsigned_less [of v] by simp_all
  then show "get32 (put32 w) = w" "get64 (put64 v) = v"
    by (simp_all add: get32_def put32_def get64_def put64_def le_val_le_bytes)
qed

lemma put_get:
  "length bs = 4 \<Longrightarrow> put32 (get32 bs) = bs" "length bs = 8 \<Longrightarrow> put64 (get64 bs) = bs"
  using le_val_less [of bs] le_bytes_le_val [of bs]
  by (simp_all add: put32_def get32_def put64_def get64_def unat_of_nat)

section \<open>Enumerations\<close>

fun byte_of_Side :: "Side \<Rightarrow> byte" where
  "byte_of_Side Side_INVALID = 0"
| "byte_of_Side Side_BUY = 1"
| "byte_of_Side Side_SELL = - 1"
| "byte_of_Side Side_MAX = 2"
| "byte_of_Side (Side_OTHER w) = w"

definition Side_of_byte :: "byte \<Rightarrow> Side" where
  "Side_of_byte w =
     (if w = 0 then Side_INVALID else if w = 1 then Side_BUY else if w = - 1 then Side_SELL
      else if w = 2 then Side_MAX else Side_OTHER w)"

fun byte_of_ClientRequestType :: "ClientRequestType \<Rightarrow> byte" where
  "byte_of_ClientRequestType ClientRequestType_INVALID = 0"
| "byte_of_ClientRequestType ClientRequestType_NEW = 1"
| "byte_of_ClientRequestType ClientRequestType_CANCEL = 2"
| "byte_of_ClientRequestType (ClientRequestType_OTHER w) = w"

definition ClientRequestType_of_byte :: "byte \<Rightarrow> ClientRequestType" where
  "ClientRequestType_of_byte w =
     (if w = 0 then ClientRequestType_INVALID else if w = 1 then ClientRequestType_NEW
      else if w = 2 then ClientRequestType_CANCEL else ClientRequestType_OTHER w)"

fun byte_of_ClientResponseType :: "ClientResponseType \<Rightarrow> byte" where
  "byte_of_ClientResponseType ClientResponseType_INVALID = 0"
| "byte_of_ClientResponseType ClientResponseType_ACCEPTED = 1"
| "byte_of_ClientResponseType ClientResponseType_CANCELED = 2"
| "byte_of_ClientResponseType ClientResponseType_FILLED = 3"
| "byte_of_ClientResponseType ClientResponseType_CANCEL_REJECTED = 4"
| "byte_of_ClientResponseType (ClientResponseType_OTHER w) = w"

definition ClientResponseType_of_byte :: "byte \<Rightarrow> ClientResponseType" where
  "ClientResponseType_of_byte w =
     (if w = 0 then ClientResponseType_INVALID else if w = 1 then ClientResponseType_ACCEPTED
      else if w = 2 then ClientResponseType_CANCELED else if w = 3 then ClientResponseType_FILLED
      else if w = 4 then ClientResponseType_CANCEL_REJECTED else ClientResponseType_OTHER w)"

fun byte_of_MarketUpdateType :: "MarketUpdateType \<Rightarrow> byte" where
  "byte_of_MarketUpdateType MarketUpdateType_INVALID = 0"
| "byte_of_MarketUpdateType MarketUpdateType_CLEAR = 1"
| "byte_of_MarketUpdateType MarketUpdateType_ADD = 2"
| "byte_of_MarketUpdateType MarketUpdateType_MODIFY = 3"
| "byte_of_MarketUpdateType MarketUpdateType_CANCEL = 4"
| "byte_of_MarketUpdateType MarketUpdateType_TRADE = 5"
| "byte_of_MarketUpdateType MarketUpdateType_SNAPSHOT_START = 6"
| "byte_of_MarketUpdateType MarketUpdateType_SNAPSHOT_END = 7"
| "byte_of_MarketUpdateType (MarketUpdateType_OTHER w) = w"

definition MarketUpdateType_of_byte :: "byte \<Rightarrow> MarketUpdateType" where
  "MarketUpdateType_of_byte w =
     (if w = 0 then MarketUpdateType_INVALID else if w = 1 then MarketUpdateType_CLEAR
      else if w = 2 then MarketUpdateType_ADD else if w = 3 then MarketUpdateType_MODIFY
      else if w = 4 then MarketUpdateType_CANCEL else if w = 5 then MarketUpdateType_TRADE
      else if w = 6 then MarketUpdateType_SNAPSHOT_START else if w = 7 then MarketUpdateType_SNAPSHOT_END
      else MarketUpdateType_OTHER w)"

text \<open>
  The values a variable of the enumeration can hold, each once: \<open>_OTHER\<close> carries no byte that has
  an enumerator.
\<close>

definition Side_ok :: "Side \<Rightarrow> bool" where
  "Side_ok s \<longleftrightarrow> Side_of_byte (byte_of_Side s) = s"

definition ClientRequestType_ok :: "ClientRequestType \<Rightarrow> bool" where
  "ClientRequestType_ok t \<longleftrightarrow> ClientRequestType_of_byte (byte_of_ClientRequestType t) = t"

definition ClientResponseType_ok :: "ClientResponseType \<Rightarrow> bool" where
  "ClientResponseType_ok t \<longleftrightarrow> ClientResponseType_of_byte (byte_of_ClientResponseType t) = t"

definition MarketUpdateType_ok :: "MarketUpdateType \<Rightarrow> bool" where
  "MarketUpdateType_ok t \<longleftrightarrow> MarketUpdateType_of_byte (byte_of_MarketUpdateType t) = t"

lemma enum_of_byte [simp]:
  "byte_of_Side (Side_of_byte w) = w"
  "byte_of_ClientRequestType (ClientRequestType_of_byte w) = w"
  "byte_of_ClientResponseType (ClientResponseType_of_byte w) = w"
  "byte_of_MarketUpdateType (MarketUpdateType_of_byte w) = w"
  by (simp_all add: Side_of_byte_def ClientRequestType_of_byte_def ClientResponseType_of_byte_def
      MarketUpdateType_of_byte_def)

lemma named_enumerators_ok [simp]:
  "Side_ok Side_INVALID" "Side_ok Side_BUY" "Side_ok Side_SELL" "Side_ok Side_MAX"
  "ClientRequestType_ok ClientRequestType_INVALID" "ClientRequestType_ok ClientRequestType_NEW"
  "ClientRequestType_ok ClientRequestType_CANCEL"
  "ClientResponseType_ok ClientResponseType_INVALID" "ClientResponseType_ok ClientResponseType_ACCEPTED"
  "ClientResponseType_ok ClientResponseType_CANCELED" "ClientResponseType_ok ClientResponseType_FILLED"
  "ClientResponseType_ok ClientResponseType_CANCEL_REJECTED"
  "MarketUpdateType_ok MarketUpdateType_INVALID" "MarketUpdateType_ok MarketUpdateType_CLEAR"
  "MarketUpdateType_ok MarketUpdateType_ADD" "MarketUpdateType_ok MarketUpdateType_MODIFY"
  "MarketUpdateType_ok MarketUpdateType_CANCEL" "MarketUpdateType_ok MarketUpdateType_TRADE"
  "MarketUpdateType_ok MarketUpdateType_SNAPSHOT_START" "MarketUpdateType_ok MarketUpdateType_SNAPSHOT_END"
  by (simp_all add: Side_ok_def Side_of_byte_def ClientRequestType_ok_def ClientRequestType_of_byte_def
      ClientResponseType_ok_def ClientResponseType_of_byte_def MarketUpdateType_ok_def MarketUpdateType_of_byte_def)

section \<open>The structs\<close>

definition part :: "nat \<Rightarrow> nat \<Rightarrow> byte list \<Rightarrow> byte list" where
  "part i n bs = take n (drop i bs)"

lemma length_part [simp]: "i + n \<le> length bs \<Longrightarrow> length (part i n bs) = n"
  by (simp add: part_def)

lemma part_append: "j = i + n \<Longrightarrow> part i n bs @ part j m bs = part i (n + m) bs"
  unfolding part_def by (simp only: take_add drop_drop add.commute [of i n])

lemma part_all: "part 0 (length bs) bs = bs"
  by (simp add: part_def)

lemma part_one: "i < length bs \<Longrightarrow> [bs ! i] = part i 1 bs"
  by (simp add: part_def take_Suc_conv_app_nth take_Suc hd_drop_conv_nth)

definition put_MEClientRequest :: "MEClientRequest \<Rightarrow> byte list" where
  "put_MEClientRequest r =
     [byte_of_ClientRequestType (rq_type r)] @ put32 (rq_client_id r) @ put32 (rq_ticker_id r) @
     put64 (rq_order_id r) @ [byte_of_Side (rq_side r)] @ put64 (bits64 (rq_price r)) @ put32 (rq_qty r)"

definition get_MEClientRequest :: "byte list \<Rightarrow> MEClientRequest" where
  "get_MEClientRequest bs =
     \<lparr>rq_type = ClientRequestType_of_byte (bs ! 0), rq_client_id = get32 (part 1 4 bs),
      rq_ticker_id = get32 (part 5 4 bs), rq_order_id = get64 (part 9 8 bs),
      rq_side = Side_of_byte (bs ! 17), rq_price = I64 (get64 (part 18 8 bs)),
      rq_qty = get32 (part 26 4 bs)\<rparr>"

definition put_OMClientRequest :: "OMClientRequest \<Rightarrow> byte list" where
  "put_OMClientRequest r = put64 (omq_seq_num r) @ put_MEClientRequest (omq_request r)"

definition get_OMClientRequest :: "byte list \<Rightarrow> OMClientRequest" where
  "get_OMClientRequest bs =
     \<lparr>omq_seq_num = get64 (part 0 8 bs), omq_request = get_MEClientRequest (drop 8 bs)\<rparr>"

definition put_MEClientResponse :: "MEClientResponse \<Rightarrow> byte list" where
  "put_MEClientResponse r =
     [byte_of_ClientResponseType (rs_type r)] @ put32 (rs_client_id r) @ put32 (rs_ticker_id r) @
     put64 (rs_client_order_id r) @ put64 (rs_market_order_id r) @ [byte_of_Side (rs_side r)] @
     put64 (bits64 (rs_price r)) @ put32 (rs_exec_qty r) @ put32 (rs_leaves_qty r)"

definition get_MEClientResponse :: "byte list \<Rightarrow> MEClientResponse" where
  "get_MEClientResponse bs =
     \<lparr>rs_type = ClientResponseType_of_byte (bs ! 0), rs_client_id = get32 (part 1 4 bs),
      rs_ticker_id = get32 (part 5 4 bs), rs_client_order_id = get64 (part 9 8 bs),
      rs_market_order_id = get64 (part 17 8 bs), rs_side = Side_of_byte (bs ! 25),
      rs_price = I64 (get64 (part 26 8 bs)), rs_exec_qty = get32 (part 34 4 bs),
      rs_leaves_qty = get32 (part 38 4 bs)\<rparr>"

definition put_OMClientResponse :: "OMClientResponse \<Rightarrow> byte list" where
  "put_OMClientResponse r = put64 (oms_seq_num r) @ put_MEClientResponse (oms_response r)"

definition get_OMClientResponse :: "byte list \<Rightarrow> OMClientResponse" where
  "get_OMClientResponse bs =
     \<lparr>oms_seq_num = get64 (part 0 8 bs), oms_response = get_MEClientResponse (drop 8 bs)\<rparr>"

definition put_MEMarketUpdate :: "MEMarketUpdate \<Rightarrow> byte list" where
  "put_MEMarketUpdate u =
     [byte_of_MarketUpdateType (mu_type u)] @ put64 (mu_order_id u) @ put32 (mu_ticker_id u) @
     [byte_of_Side (mu_side u)] @ put64 (bits64 (mu_price u)) @ put32 (mu_qty u) @ put64 (mu_priority u)"

definition get_MEMarketUpdate :: "byte list \<Rightarrow> MEMarketUpdate" where
  "get_MEMarketUpdate bs =
     \<lparr>mu_type = MarketUpdateType_of_byte (bs ! 0), mu_order_id = get64 (part 1 8 bs),
      mu_ticker_id = get32 (part 9 4 bs), mu_side = Side_of_byte (bs ! 13),
      mu_price = I64 (get64 (part 14 8 bs)), mu_qty = get32 (part 22 4 bs),
      mu_priority = get64 (part 26 8 bs)\<rparr>"

definition put_MDPMarketUpdate :: "MDPMarketUpdate \<Rightarrow> byte list" where
  "put_MDPMarketUpdate u = put64 (mdp_seq_num u) @ put_MEMarketUpdate (mdp_update u)"

definition get_MDPMarketUpdate :: "byte list \<Rightarrow> MDPMarketUpdate" where
  "get_MDPMarketUpdate bs =
     \<lparr>mdp_seq_num = get64 (part 0 8 bs), mdp_update = get_MEMarketUpdate (drop 8 bs)\<rparr>"

text \<open>\<open>sizeof\<close> of the public structs.\<close>

definition sizeof_OMClientRequest :: nat where
  "sizeof_OMClientRequest = 38"

definition sizeof_OMClientResponse :: nat where
  "sizeof_OMClientResponse = 50"

definition sizeof_MDPMarketUpdate :: nat where
  "sizeof_MDPMarketUpdate = 42"

definition request_ok :: "OMClientRequest \<Rightarrow> bool" where
  "request_ok r \<longleftrightarrow> ClientRequestType_ok (rq_type (omq_request r)) \<and> Side_ok (rq_side (omq_request r))"

definition response_ok :: "OMClientResponse \<Rightarrow> bool" where
  "response_ok r \<longleftrightarrow> ClientResponseType_ok (rs_type (oms_response r)) \<and> Side_ok (rs_side (oms_response r))"

definition update_ok :: "MDPMarketUpdate \<Rightarrow> bool" where
  "update_ok u \<longleftrightarrow> MarketUpdateType_ok (mu_type (mdp_update u)) \<and> Side_ok (mu_side (mdp_update u))"

lemmas get_defs = get_OMClientRequest_def get_MEClientRequest_def get_OMClientResponse_def
  get_MEClientResponse_def get_MDPMarketUpdate_def get_MEMarketUpdate_def

lemmas put_defs = put_OMClientRequest_def put_MEClientRequest_def put_OMClientResponse_def
  put_MEClientResponse_def put_MDPMarketUpdate_def put_MEMarketUpdate_def

lemma put_lengths [simp]:
  "length (put_OMClientRequest r) = sizeof_OMClientRequest"
  "length (put_OMClientResponse s) = sizeof_OMClientResponse"
  "length (put_MDPMarketUpdate u) = sizeof_MDPMarketUpdate"
  by (simp_all add: put_defs sizeof_OMClientRequest_def sizeof_OMClientResponse_def sizeof_MDPMarketUpdate_def)

lemma get_put_OMClientRequest: "request_ok r \<Longrightarrow> get_OMClientRequest (put_OMClientRequest r) = r"
  by (cases r, cases "omq_request r", cases "rq_price (omq_request r)")
    (simp add: get_defs put_defs part_def request_ok_def ClientRequestType_ok_def Side_ok_def nth_append)

lemma get_put_OMClientResponse: "response_ok r \<Longrightarrow> get_OMClientResponse (put_OMClientResponse r) = r"
  by (cases r, cases "oms_response r", cases "rs_price (oms_response r)")
    (simp add: get_defs put_defs part_def response_ok_def ClientResponseType_ok_def Side_ok_def nth_append)

lemma get_put_MDPMarketUpdate: "update_ok u \<Longrightarrow> get_MDPMarketUpdate (put_MDPMarketUpdate u) = u"
  by (cases u, cases "mdp_update u", cases "mu_price (mdp_update u)")
    (simp add: get_defs put_defs part_def update_ok_def MarketUpdateType_ok_def Side_ok_def nth_append)

lemma part_drop: "part i n (drop k bs) = part (k + i) n bs"
  by (simp add: part_def add.commute)

lemma put_get_OMClientRequest:
  assumes "length bs = sizeof_OMClientRequest"
  shows "put_OMClientRequest (get_OMClientRequest bs) = bs" "request_ok (get_OMClientRequest bs)"
proof -
  have l: "length bs = 38" using assms by (simp add: sizeof_OMClientRequest_def)
  have "put_OMClientRequest (get_OMClientRequest bs) = part 0 8 bs @ part 8 1 bs @ part 9 4 bs @
      part 13 4 bs @ part 17 8 bs @ part 25 1 bs @ part 26 8 bs @ part 34 4 bs"
    using l by (simp add: get_defs put_defs part_drop put_get part_one nth_drop del: One_nat_def)
  then show "put_OMClientRequest (get_OMClientRequest bs) = bs"
    using part_all [of bs] l by (simp add: part_append del: One_nat_def)
qed (simp add: request_ok_def get_defs ClientRequestType_ok_def Side_ok_def)

lemma put_get_OMClientResponse:
  assumes "length bs = sizeof_OMClientResponse"
  shows "put_OMClientResponse (get_OMClientResponse bs) = bs" "response_ok (get_OMClientResponse bs)"
proof -
  have l: "length bs = 50" using assms by (simp add: sizeof_OMClientResponse_def)
  have "put_OMClientResponse (get_OMClientResponse bs) = part 0 8 bs @ part 8 1 bs @ part 9 4 bs @
      part 13 4 bs @ part 17 8 bs @ part 25 8 bs @ part 33 1 bs @ part 34 8 bs @ part 42 4 bs @ part 46 4 bs"
    using l by (simp add: get_defs put_defs part_drop put_get part_one nth_drop del: One_nat_def)
  then show "put_OMClientResponse (get_OMClientResponse bs) = bs"
    using part_all [of bs] l by (simp add: part_append del: One_nat_def)
qed (simp add: response_ok_def get_defs ClientResponseType_ok_def Side_ok_def)

lemma put_get_MDPMarketUpdate:
  assumes "length bs = sizeof_MDPMarketUpdate"
  shows "put_MDPMarketUpdate (get_MDPMarketUpdate bs) = bs" "update_ok (get_MDPMarketUpdate bs)"
proof -
  have l: "length bs = 42" using assms by (simp add: sizeof_MDPMarketUpdate_def)
  have "put_MDPMarketUpdate (get_MDPMarketUpdate bs) = part 0 8 bs @ part 8 1 bs @ part 9 8 bs @
      part 17 4 bs @ part 21 1 bs @ part 22 8 bs @ part 30 4 bs @ part 34 8 bs"
    using l by (simp add: get_defs put_defs part_drop put_get part_one nth_drop del: One_nat_def)
  then show "put_MDPMarketUpdate (get_MDPMarketUpdate bs) = bs"
    using part_all [of bs] l by (simp add: part_append del: One_nat_def)
qed (simp add: update_ok_def get_defs MarketUpdateType_ok_def Side_ok_def)

section \<open>Cutting a stream into messages\<close>

text \<open>The complete messages at the front of a buffer, and the bytes behind them.\<close>

function frames :: "nat \<Rightarrow> byte list \<Rightarrow> byte list list" where
  "frames n bs = (if 0 < n \<and> n \<le> length bs then take n bs # frames n (drop n bs) else [])"
  by pat_completeness auto
termination by (relation "measure (\<lambda>(n, bs). length bs)") auto

function leftover :: "nat \<Rightarrow> byte list \<Rightarrow> byte list" where
  "leftover n bs = (if 0 < n \<and> n \<le> length bs then leftover n (drop n bs) else bs)"
  by pat_completeness auto
termination by (relation "measure (\<lambda>(n, bs). length bs)") auto

declare frames.simps [simp del] leftover.simps [simp del]

lemma frames_step:
  "0 < n \<Longrightarrow> n \<le> length bs \<Longrightarrow> frames n bs = take n bs # frames n (drop n bs)"
  "0 < n \<Longrightarrow> n \<le> length bs \<Longrightarrow> leftover n bs = leftover n (drop n bs)"
  by (subst frames.simps, simp) (subst leftover.simps, simp)

lemma frames_stop: "\<not> (0 < n \<and> n \<le> length bs) \<Longrightarrow> frames n bs = [] \<and> leftover n bs = bs"
  by (subst frames.simps, subst leftover.simps) simp

lemma frames_append:
  "frames n (bs @ cs) = frames n bs @ frames n (leftover n bs @ cs) \<and>
   leftover n (bs @ cs) = leftover n (leftover n bs @ cs)"
proof (induction n bs rule: frames.induct)
  case (1 n bs)
  show ?case
  proof (cases "0 < n \<and> n \<le> length bs")
    case True
    with 1 show ?thesis by (simp add: frames_step)
  qed (simp add: frames_stop)
qed

lemma frames_short: "length bs < n \<Longrightarrow> frames n bs = [] \<and> leftover n bs = bs"
  by (rule frames_stop) simp

lemma leftover_short: "0 < n \<Longrightarrow> length (leftover n bs) < n"
proof (induction n bs rule: leftover.induct)
  case (1 n bs)
  show ?case
  proof (cases "n \<le> length bs")
    case True
    with 1 show ?thesis by (simp only: frames_step(2))
  qed (use frames_stop [of n bs] in simp)
qed

lemma frames_leftover: "concat (frames n bs) @ leftover n bs = bs"
proof (induction n bs rule: frames.induct)
  case (1 n bs)
  show ?case
  proof (cases "0 < n \<and> n \<le> length bs")
    case True
    with 1 show ?thesis by (simp add: frames_step)
  qed (simp add: frames_stop)
qed

lemma frames_length: "b \<in> set (frames n bs) \<Longrightarrow> length b = n"
proof (induction n bs rule: frames.induct)
  case (1 n bs)
  then show ?case
    by (cases "0 < n \<and> n \<le> length bs") (auto simp: frames_step frames_stop)
qed

text \<open>
  A protocol of messages of one size. Its users need that what was encoded is decoded, from a
  stream that arrives in any segments.
\<close>

locale framing =
  fixes msize :: nat
    and enc :: "'m \<Rightarrow> byte list"
    and dec :: "byte list \<Rightarrow> 'm"
    and canonical :: "'m \<Rightarrow> bool"
  assumes size_pos: "0 < msize"
    and enc_length: "length (enc m) = msize"
    and dec_enc: "canonical m \<Longrightarrow> dec (enc m) = m"
    and enc_dec: "length bs = msize \<Longrightarrow> enc (dec bs) = bs \<and> canonical (dec bs)"
begin

lemma frames_enc: "frames msize (concat (map enc ms) @ rst) = map enc ms @ frames msize rst"
proof (induction ms)
  case (Cons m ms)
  have "frames msize (enc m @ concat (map enc ms) @ rst) = enc m # frames msize (concat (map enc ms) @ rst)"
    by (subst frames.simps) (simp add: enc_length size_pos)
  with Cons show ?case by simp
qed simp

lemma leftover_enc: "leftover msize (concat (map enc ms) @ rst) = leftover msize rst"
proof (induction ms)
  case (Cons m ms)
  have "leftover msize (enc m @ concat (map enc ms) @ rst) = leftover msize (concat (map enc ms) @ rst)"
    by (subst leftover.simps) (simp add: enc_length size_pos)
  with Cons show ?case by simp
qed simp

lemma decode_stream:
  assumes "\<forall>m\<in>set ms. canonical m" "length rst < msize"
  shows "map dec (frames msize (concat (map enc ms) @ rst)) = ms \<and> leftover msize (concat (map enc ms) @ rst) = rst"
  using assms frames_short [OF assms(2)] dec_enc by (simp add: frames_enc leftover_enc map_idI)

text \<open>Every stream is the encoding of the messages it decodes to, and an incomplete rest.\<close>

lemma encode_decoded: "concat (map enc (map dec (frames msize bs))) @ leftover msize bs = bs"
proof -
  have "map (enc \<circ> dec) (frames msize bs) = frames msize bs"
    using enc_dec frames_length by (intro map_idI) auto
  then show ?thesis using frames_leftover [of msize bs] by simp
qed

text \<open>
  Cutting the encoding of messages anywhere: the first part holds the first messages and some bytes
  of the next one, which continue the second part to the encoding of the others.
\<close>

lemma split_stream:
  assumes "bs @ cs = concat (map enc ms)"
  obtains us vs where "ms = us @ vs" "frames msize bs = map enc us" "leftover msize bs @ cs = concat (map enc vs)"
proof -
  have enc_ms: "frames msize (concat (map enc ms)) = map enc ms" "leftover msize (concat (map enc ms)) = []"
    using frames_enc [of ms "[]"] leftover_enc [of ms "[]"] frames_short [of "[]" msize] size_pos by simp_all
  let ?k = "length (frames msize bs)"
  have "map enc ms = frames msize bs @ frames msize (leftover msize bs @ cs)"
    using enc_ms(1) frames_append [of msize bs cs] by (simp add: assms [symmetric])
  then have k: "frames msize bs = map enc (take ?k ms)"
    "frames msize (leftover msize bs @ cs) = map enc (drop ?k ms)"
    by (simp_all add: take_map [symmetric] drop_map [symmetric])
  have "leftover msize (leftover msize bs @ cs) = []"
    using enc_ms(2) frames_append [of msize bs cs] by (simp add: assms [symmetric])
  then have "leftover msize bs @ cs = concat (map enc (drop ?k ms))"
    using frames_leftover [of msize "leftover msize bs @ cs"] k(2) by simp
  with k(1) that [of "take ?k ms" "drop ?k ms"] show ?thesis by simp
qed

lemma enc_inj: "canonical m \<Longrightarrow> canonical m' \<Longrightarrow> enc m = enc m' \<Longrightarrow> m = m'"
  using dec_enc by metis

end

interpretation om_request: framing sizeof_OMClientRequest put_OMClientRequest get_OMClientRequest request_ok
  by unfold_locales (simp_all add: get_put_OMClientRequest put_get_OMClientRequest, simp add: sizeof_OMClientRequest_def)

interpretation om_response: framing sizeof_OMClientResponse put_OMClientResponse get_OMClientResponse response_ok
  by unfold_locales (simp_all add: get_put_OMClientResponse put_get_OMClientResponse, simp add: sizeof_OMClientResponse_def)

interpretation mdp_update: framing sizeof_MDPMarketUpdate put_MDPMarketUpdate get_MDPMarketUpdate update_ok
  by unfold_locales (simp_all add: get_put_MDPMarketUpdate put_get_MDPMarketUpdate, simp add: sizeof_MDPMarketUpdate_def)

end
