(* ===== verification/Sockets.thy ===== *)
theory Sockets
  imports Wire_Format
begin

text \<open>
  The buffers of \<open>common::TCPSocket\<close> and \<open>common::McastSocket\<close>
  (\<open>src/src/include/network/tcp_socket.hpp\<close>, \<open>src/src/network/tcp_socket.cpp\<close>,
  \<open>mcast_socket.hpp\<close>, \<open>mcast_socket.cpp\<close>). A buffer is its valid prefix, so
  \<open>next_send_valid_index_\<close> and \<open>next_rcv_valid_index_\<close> are lengths. The operating system is
  input and output: what \<open>recvmsg\<close> returns comes in, what \<open>send\<close> is given goes out.

  \<open>recv_messages\<close> is the loop the three receive callbacks share: handle the complete messages in the
  buffer, keep the rest.
\<close>

section \<open>Buffers\<close>

definition TCP_BUFFER_SIZE :: nat where
  "TCP_BUFFER_SIZE = 64 * 1024 * 1024"

definition MCAST_BUFFER_SIZE :: nat where
  "MCAST_BUFFER_SIZE = 64 * 1024 * 1024"

record Socket =
  socket_fd :: int
  outbound_data :: "byte list"
  inbound_data :: "byte list"

definition Socket_new :: Socket where
  "Socket_new = \<lparr>socket_fd = - 1, outbound_data = [], inbound_data = []\<rparr>"

text \<open>\<open>memcpy\<close> into the vector: past its end is undefined, nothing checks the length.\<close>

definition TCPSocket_Send :: "byte list \<Rightarrow> Socket \<Rightarrow> Socket result" where
  "TCPSocket_Send bytes s =
     (if TCP_BUFFER_SIZE < length (outbound_data s) + length bytes then Inl Out_of_bounds
      else Inr (s\<lparr>outbound_data := outbound_data s @ bytes\<rparr>))"

definition McastSocket_Send :: "byte list \<Rightarrow> Socket \<Rightarrow> Socket result" where
  "McastSocket_Send bytes s =
     (if MCAST_BUFFER_SIZE < length (outbound_data s) + length bytes then Inl Out_of_bounds
      else
        (let s = s\<lparr>outbound_data := outbound_data s @ bytes\<rparr>
         in rbind (ASSERT (length (outbound_data s) < MCAST_BUFFER_SIZE)
              ''Mcast socket buffer filled up and sendAndRecv() not called.'') (\<lambda>_. Inr s)))"

text \<open>
  \<open>SendAndRecv\<close>: \<open>rx\<close> is what the system has received, with the kernel's time stamp, and \<open>cb\<close> the
  receive callback. The third component of the result is what is handed to \<open>send\<close>, which may take
  any part of it: its result is only logged, and the buffer is emptied.
\<close>

definition TCPSocket_SendAndRecv ::
  "(i64 \<Rightarrow> Socket \<Rightarrow> 'w \<Rightarrow> (Socket \<times> 'w) result) \<Rightarrow> (byte list \<times> i64) option \<Rightarrow> Socket \<Rightarrow> 'w \<Rightarrow>
   (Socket \<times> 'w \<times> byte list \<times> bool) result" where
  "TCPSocket_SendAndRecv cb rx s w =
     rbind
       (case rx of
          None \<Rightarrow> Inr (s, w)
        | Some (bytes, rx_time) \<Rightarrow>
            cb rx_time (s\<lparr>inbound_data := inbound_data s @ take (TCP_BUFFER_SIZE - length (inbound_data s)) bytes\<rparr>) w)
       (\<lambda>(s, w). Inr (s\<lparr>outbound_data := []\<rparr>, w, outbound_data s, rx \<noteq> None))"

definition McastSocket_SendAndRecv ::
  "(Socket \<Rightarrow> 'w \<Rightarrow> (Socket \<times> 'w) result) \<Rightarrow> byte list option \<Rightarrow> Socket \<Rightarrow> 'w \<Rightarrow>
   (Socket \<times> 'w \<times> byte list \<times> bool) result" where
  "McastSocket_SendAndRecv cb rx s w =
     rbind
       (case rx of
          None \<Rightarrow> Inr (s, w)
        | Some bytes \<Rightarrow>
            cb (s\<lparr>inbound_data := inbound_data s @ take (MCAST_BUFFER_SIZE - length (inbound_data s)) bytes\<rparr>) w)
       (\<lambda>(s, w). Inr (s\<lparr>outbound_data := []\<rparr>, w, outbound_data s, rx \<noteq> None))"

section \<open>The receive loop\<close>

text \<open>
  \<open>for (; i + sizeof(M) <= next_rcv_valid_index_; i += sizeof(M))\<close>, the handler \<open>h\<close> applied to the
  bytes of each message.
\<close>

function recv_loop ::
  "nat \<Rightarrow> (byte list \<Rightarrow> 'w \<Rightarrow> 'w result) \<Rightarrow> byte list \<Rightarrow> nat \<Rightarrow> 'w \<Rightarrow> ('w \<times> nat) result" where
  "recv_loop msize h buf i w =
     (if 0 < msize \<and> i + msize \<le> length buf then
        (case h (take msize (drop i buf)) w of
           Inl e \<Rightarrow> Inl e
         | Inr w' \<Rightarrow> recv_loop msize h buf (i + msize) w')
      else Inr (w, i))"
  by pat_completeness auto
termination by (relation "measure (\<lambda>(msize, h, buf, i, w). length buf - i)") auto

declare recv_loop.simps [simp del]

text \<open>The callback: nothing on a short buffer, else the loop, and the leftover bytes move to the front.\<close>

definition recv_messages ::
  "nat \<Rightarrow> (byte list \<Rightarrow> 'w \<Rightarrow> 'w result) \<Rightarrow> Socket \<Rightarrow> 'w \<Rightarrow> (Socket \<times> 'w) result" where
  "recv_messages msize h s w =
     (if msize \<le> length (inbound_data s) then
        rbind (recv_loop msize h (inbound_data s) 0 w) (\<lambda>(w, i).
        Inr (s\<lparr>inbound_data := drop i (inbound_data s)\<rparr>, w))
      else Inr (s, w))"

lemma recv_loop_frames:
  assumes "0 < msize"
  shows "rbind (recv_loop msize h buf i w) (\<lambda>(w, i). Inr (drop i buf, w)) =
    rbind (rfold h (frames msize (drop i buf)) w) (\<lambda>w. Inr (leftover msize (drop i buf), w))"
  using assms
proof (induction msize h buf i w rule: recv_loop.induct)
  case (1 msize h buf i w)
  show ?case
  proof (cases "i + msize \<le> length buf")
    case True
    then have step: "frames msize (drop i buf) = take msize (drop i buf) # frames msize (drop (i + msize) buf)"
      "leftover msize (drop i buf) = leftover msize (drop (i + msize) buf)"
      using 1(2) frames_step [of msize "drop i buf"] by (simp_all add: add.commute)
    show ?thesis
    proof (cases "h (take msize (drop i buf)) w")
      case (Inl e)
      with True 1(2) step show ?thesis by (subst recv_loop.simps) simp
    next
      case (Inr w')
      with True 1 step show ?thesis by (subst recv_loop.simps) simp
    qed
  next
    case False
    then have "frames msize (drop i buf) = [] \<and> leftover msize (drop i buf) = drop i buf"
      by (intro frames_stop) auto
    with False show ?thesis by (subst recv_loop.simps) simp
  qed
qed

lemma recv_messages_frames:
  assumes "0 < msize"
  shows "recv_messages msize h s w =
    rbind (rfold h (frames msize (inbound_data s)) w) (\<lambda>w. Inr (s\<lparr>inbound_data := leftover msize (inbound_data s)\<rparr>, w))"
proof (cases "msize \<le> length (inbound_data s)")
  case True
  have "recv_messages msize h s w = rbind (rbind (recv_loop msize h (inbound_data s) 0 w)
      (\<lambda>(w, i). Inr (drop i (inbound_data s), w))) (\<lambda>(bs, w). Inr (s\<lparr>inbound_data := bs\<rparr>, w))"
    using True by (cases "recv_loop msize h (inbound_data s) 0 w") (auto simp: recv_messages_def)
  then show ?thesis
    unfolding recv_loop_frames [OF assms] by (simp add: rbind_assoc)
next
  case False
  then have "frames msize (inbound_data s) = [] \<and> leftover msize (inbound_data s) = inbound_data s"
    by (intro frames_short) simp
  with False show ?thesis by (simp add: recv_messages_def)
qed

text \<open>Receiving: the new bytes are appended, then the callback runs.\<close>

definition receive ::
  "nat \<Rightarrow> (byte list \<Rightarrow> 'w \<Rightarrow> 'w result) \<Rightarrow> byte list \<Rightarrow> Socket \<times> 'w \<Rightarrow> (Socket \<times> 'w) result" where
  "receive msize h bytes sw =
     recv_messages msize h ((fst sw)\<lparr>inbound_data := inbound_data (fst sw) @ bytes\<rparr>) (snd sw)"

lemma receive_append:
  assumes "0 < msize"
  shows "rbind (receive msize h bs sw) (receive msize h cs) = receive msize h (bs @ cs) sw"
proof -
  let ?buf = "inbound_data (fst sw) @ bs"
  have fr: "frames msize (?buf @ cs) = frames msize ?buf @ frames msize (leftover msize ?buf @ cs)"
    "leftover msize (?buf @ cs) = leftover msize (leftover msize ?buf @ cs)"
    using frames_append [of msize ?buf cs] by simp_all
  show ?thesis
    unfolding receive_def recv_messages_frames [OF assms]
    using fr by (simp add: rfold_append rbind_assoc cong: rbind_cong)
qed

text \<open>
  A stream that arrives in segments, each with its own time. If the handler takes the messages of
  the stream one after the other, whatever the times, keeping \<open>I\<close> (with the number of messages
  taken), then the segments are processed without failure, every message is taken and nothing stays
  in the buffer.
\<close>

definition receive_all ::
  "nat \<Rightarrow> (i64 \<Rightarrow> byte list \<Rightarrow> 'w \<Rightarrow> 'w result) \<Rightarrow> (byte list \<times> i64) list \<Rightarrow> Socket \<times> 'w \<Rightarrow> (Socket \<times> 'w) result" where
  "receive_all msize h segs sw = rfold (\<lambda>(bytes, t). receive msize (h t) bytes) segs sw"

lemma rfold_steps:
  assumes "\<And>k w. k < length xs \<Longrightarrow> I k w \<Longrightarrow> \<exists>w'. h (xs ! k) w = Inr w' \<and> I (Suc k) w'" "I 0 w"
  shows "\<exists>w'. rfold h xs w = Inr w' \<and> I (length xs) w'"
  using assms
proof (induction xs arbitrary: w I)
  case (Cons x xs)
  from Cons.prems(1) [of 0 w] Cons.prems(2) obtain v where v: "h x w = Inr v" "I 1 v" by auto
  have "\<exists>w'. rfold h xs v = Inr w' \<and> I (Suc (length xs)) w'"
  proof (rule Cons.IH [of "\<lambda>k. I (Suc k)"])
    fix k w assume "k < length xs" "I (Suc k) w"
    with Cons.prems(1) [of "Suc k" w] show "\<exists>w'. h (xs ! k) w = Inr w' \<and> I (Suc (Suc k)) w'" by simp
  qed (use v(2) in simp)
  with v(1) show ?case by simp
qed simp

context framing
begin

lemma receive_segments:
  assumes step: "\<And>k w t. k < length ms \<Longrightarrow> I k w \<Longrightarrow> \<exists>w'. h t (enc (ms ! k)) w = Inr w' \<and> I (Suc k) w'"
    and "I 0 w" "inbound_data s @ concat (map fst segs) = concat (map enc ms)"
    and "segs = [] \<Longrightarrow> inbound_data s = []"
  shows "\<exists>w'. receive_all msize h segs (s, w) = Inr (s\<lparr>inbound_data := []\<rparr>, w') \<and> I (length ms) w'"
  using assms
proof (induction segs arbitrary: s w ms I)
  case Nil
  then have "ms = []" using enc_length size_pos by (cases ms) (auto dest!: arg_cong [of _ _ length])
  moreover have "s\<lparr>inbound_data := []\<rparr> = s" using Nil by simp
  ultimately show ?case using Nil by (auto simp: receive_all_def)
next
  case (Cons seg segs)
  obtain bs t where seg: "seg = (bs, t)" by (cases seg)
  let ?buf = "inbound_data s @ bs"
  obtain us vs where uv: "ms = us @ vs" "frames msize ?buf = map enc us"
    "leftover msize ?buf @ concat (map fst segs) = concat (map enc vs)"
    using split_stream [of ?buf "concat (map fst segs)" ms] Cons.prems(3) by (auto simp: seg)
  have "\<exists>w'. rfold (h t) (map enc us) w = Inr w' \<and> I (length (map enc us)) w'"
  proof (rule rfold_steps)
    fix k w assume "k < length (map enc us)" "I k w"
    with Cons.prems(1) [of k w t] show "\<exists>w'. h t (map enc us ! k) w = Inr w' \<and> I (Suc k) w'"
      by (simp add: uv(1) nth_append)
  qed (rule Cons.prems(2))
  then obtain v where v: "rfold (h t) (map enc us) w = Inr v" "I (length us) v" by auto
  let ?s = "s\<lparr>inbound_data := leftover msize ?buf\<rparr>"
  have rcv: "receive msize (h t) bs (s, w) = Inr (?s, v)"
    by (simp add: receive_def recv_messages_frames [OF size_pos] uv(2) v(1))
  have empty: "inbound_data ?s = []" if "segs = []"
  proof -
    have "leftover msize (concat (map enc ms)) = []"
      using leftover_enc [of ms "[]"] frames_short [of "[]" msize] size_pos by simp
    with that Cons.prems(3) show ?thesis by (simp add: seg)
  qed
  have "\<exists>w'. receive_all msize h segs (?s, v) = Inr (?s\<lparr>inbound_data := []\<rparr>, w') \<and> I (length us + length vs) w'"
  proof (rule Cons.IH [of vs "\<lambda>k. I (length us + k)"])
    fix k w t assume "k < length vs" "I (length us + k) w"
    with Cons.prems(1) [of "length us + k" w t] show "\<exists>w'. h t (enc (vs ! k)) w = Inr w' \<and> I (length us + Suc k) w'"
      by (simp add: uv(1))
  qed (use v(2) uv(3) empty in simp_all)
  then show ?case using rcv by (auto simp: receive_all_def seg uv(1))
qed

end

end
