(* ===== verification/Tcp_Server.thy ===== *)
theory Tcp_Server
  imports Sockets
begin

text \<open>
  \<open>common::TCPServer\<close> (\<open>src/src/include/network/tcp_server.hpp\<close>, \<open>src/src/network/tcp_server.cpp\<close>).
  Sockets are addresses of \<open>ts_sockets\<close>: 0 is \<open>listener_socket_\<close>, 1, 2, ... the ones the server allocates
  for its connections. What the system reports is
  input: the epoll events, the accepted connections, and the bytes each \<open>recvmsg\<close> returns. What the
  sockets hand to \<open>send\<close> is output.
\<close>

section \<open>State\<close>

record TCPServer =
  ts_sockets :: "nat \<Rightarrow> Socket"
  ts_count :: nat
  receive_sockets :: "nat list"
  send_sockets :: "nat list"

definition listener_socket :: nat where
  "listener_socket = 0"

definition TCPServer_new :: TCPServer where
  "TCPServer_new = \<lparr>ts_sockets = (\<lambda>_. Socket_new), ts_count = 1, receive_sockets = [], send_sockets = []\<rparr>"

text \<open>\<open>epoll_event\<close>: the socket it is for and the bits that are set.\<close>

record epoll_event =
  ev_socket :: nat
  ev_in :: bool
  ev_out :: bool
  ev_err_or_hup :: bool

text \<open>
  What \<open>accept\<close> and the calls on the new descriptor return: the descriptor, whether
  \<open>SetNonBlocking(fd) && DisableNagle(fd)\<close>, and whether \<open>epoll_ctl\<close> added it.
\<close>

record accepted_fd =
  ac_fd :: int
  ac_options_set :: bool
  ac_epoll_added :: bool

section \<open>Polling\<close>

definition push_unless_found :: "nat \<Rightarrow> nat list \<Rightarrow> nat list" where
  "push_unless_found sid sids = (if sid \<in> set sids then sids else sids @ [sid])"

definition handle_event :: "epoll_event \<Rightarrow> bool \<times> TCPServer \<Rightarrow> bool \<times> TCPServer" where
  "handle_event ev st =
     (case st of (have_new_connection, T) \<Rightarrow>
       if ev_in ev \<and> ev_socket ev = listener_socket then (True, T)
       else
         (have_new_connection,
          T\<lparr>receive_sockets :=
              (let rs = (if ev_in ev then push_unless_found (ev_socket ev) (receive_sockets T)
                         else receive_sockets T)
               in if ev_err_or_hup ev then push_unless_found (ev_socket ev) rs else rs),
            send_sockets :=
              (if ev_out ev then push_unless_found (ev_socket ev) (send_sockets T) else send_sockets T)\<rparr>))"

definition accept_connection :: "accepted_fd \<Rightarrow> TCPServer \<Rightarrow> TCPServer result" where
  "accept_connection a T =
     rbind (ASSERT (ac_options_set a) ''Failed to set non-blocking or no-delay on socket:'') (\<lambda>_.
     rbind (ASSERT (ac_epoll_added a) ''Unable to add socket. error:'') (\<lambda>_.
       (let sid = ts_count T;
            T = T\<lparr>ts_sockets := (ts_sockets T)(sid := Socket_new\<lparr>socket_fd := ac_fd a\<rparr>), ts_count := sid + 1\<rparr>
        in Inr (T\<lparr>receive_sockets := push_unless_found sid (receive_sockets T)\<rparr>))))"

text \<open>\<open>accepts\<close> are the connections before \<open>accept\<close> returns -1.\<close>

definition Poll :: "epoll_event list \<Rightarrow> accepted_fd list \<Rightarrow> TCPServer \<Rightarrow> TCPServer result" where
  "Poll events accepts T =
     (case fold handle_event events (False, T) of (have_new_connection, T) \<Rightarrow>
        if have_new_connection then rfold accept_connection accepts T else Inr T)"

section \<open>Sending and receiving\<close>

text \<open>
  One \<open>socket->SendAndRecv()\<close> of a pass: \<open>cb\<close> is the receive callback of the sockets, \<open>rx\<close> what the
  system has for each. The pass carries the server, the callback's state \<open>'w\<close>, what was sent so far
  and whether something was received.
\<close>

type_synonym 'w pass = "TCPServer \<times> 'w \<times> (nat \<times> byte list) list \<times> bool"

definition socket_turn ::
  "(nat \<Rightarrow> i64 \<Rightarrow> Socket \<Rightarrow> 'w \<Rightarrow> (Socket \<times> 'w) result) \<Rightarrow> (nat \<Rightarrow> (byte list \<times> i64) option) \<Rightarrow> nat \<Rightarrow>
   'w pass \<Rightarrow> 'w pass result" where
  "socket_turn cb rx sid st =
     (case st of (T, w, outs, recv) \<Rightarrow>
        rbind (TCPSocket_SendAndRecv (cb sid) (rx sid) (ts_sockets T sid) w) (\<lambda>(s, w, sent, received).
        Inr (T\<lparr>ts_sockets := (ts_sockets T)(sid := s)\<rparr>, w, outs @ [(sid, sent)], recv \<or> received)))"

definition TCPServer_SendAndRecv ::
  "(nat \<Rightarrow> i64 \<Rightarrow> Socket \<Rightarrow> 'w \<Rightarrow> (Socket \<times> 'w) result) \<Rightarrow> ('w \<Rightarrow> 'w) \<Rightarrow>
   (nat \<Rightarrow> (byte list \<times> i64) option) \<Rightarrow> (nat \<Rightarrow> (byte list \<times> i64) option) \<Rightarrow>
   TCPServer \<Rightarrow> 'w \<Rightarrow> (TCPServer \<times> 'w \<times> (nat \<times> byte list) list) result" where
  "TCPServer_SendAndRecv cb recv_finished rx rx' T w =
     rbind (rfold (socket_turn cb rx) (receive_sockets T) (T, w, [], False)) (\<lambda>(T, w, outs, recv).
     rbind (rfold (socket_turn cb rx') (send_sockets T) (T, if recv then recv_finished w else w, outs, False))
       (\<lambda>(T, w, outs, _). Inr (T, w, outs)))"

section \<open>The set of sockets\<close>

definition server_ok :: "TCPServer \<Rightarrow> bool" where
  "server_ok T \<longleftrightarrow> distinct (receive_sockets T) \<and> distinct (send_sockets T) \<and>
     (\<forall>sid\<in>set (receive_sockets T) \<union> set (send_sockets T). sid < ts_count T)"

lemma push_unless_found [simp]:
  "set (push_unless_found sid sids) = insert sid (set sids)"
  "distinct (push_unless_found sid sids) \<longleftrightarrow> distinct sids"
  by (auto simp: push_unless_found_def)

lemma server_ok_new [simp]: "server_ok TCPServer_new"
  by (simp add: server_ok_def TCPServer_new_def)

text \<open>The sockets that a list of events reports as ready to receive from (or broken), and as ready to send to.\<close>

definition new_connection :: "epoll_event \<Rightarrow> bool" where
  "new_connection ev \<longleftrightarrow> ev_in ev \<and> ev_socket ev = listener_socket"

definition reported_in :: "epoll_event list \<Rightarrow> nat set" where
  "reported_in events =
     set [ev_socket ev. ev \<leftarrow> events, \<not> new_connection ev \<and> (ev_in ev \<or> ev_err_or_hup ev)]"

definition reported_out :: "epoll_event list \<Rightarrow> nat set" where
  "reported_out events = set [ev_socket ev. ev \<leftarrow> events, \<not> new_connection ev \<and> ev_out ev]"

lemma handle_event_sets:
  assumes "handle_event ev (b, T) = (c, S)"
  shows "ts_sockets S = ts_sockets T" "ts_count S = ts_count T"
    "set (receive_sockets S) = set (receive_sockets T) \<union> reported_in [ev]"
    "set (send_sockets S) = set (send_sockets T) \<union> reported_out [ev]" "c \<longleftrightarrow> b \<or> new_connection ev"
  using assms by (auto simp: handle_event_def reported_in_def reported_out_def new_connection_def split: if_splits)

lemma reported_simps [simp]:
  "reported_in [] = {}" "reported_in (ev # ev' # events) = reported_in [ev] \<union> reported_in (ev' # events)"
  "reported_out [] = {}" "reported_out (ev # ev' # events) = reported_out [ev] \<union> reported_out (ev' # events)"
  by (auto simp: reported_in_def reported_out_def)

lemma handle_events_ok:
  assumes "server_ok T" "\<forall>ev\<in>set events. ev_socket ev < ts_count T"
    and "fold handle_event events (b, T) = (b', T')"
  shows "server_ok T' \<and> ts_sockets T' = ts_sockets T \<and> ts_count T' = ts_count T \<and>
    set (receive_sockets T') = set (receive_sockets T) \<union> reported_in events \<and>
    set (send_sockets T') = set (send_sockets T) \<union> reported_out events \<and>
    (b' \<longleftrightarrow> b \<or> (\<exists>ev\<in>set events. new_connection ev))"
  using assms
proof (induction events arbitrary: b T)
  case (Cons ev events)
  obtain c S where S: "handle_event ev (b, T) = (c, S)" by fastforce
  note h = handle_event_sets [OF S]
  have ok: "server_ok S"
    using S Cons.prems(1,2) by (auto simp: handle_event_def server_ok_def split: if_splits)
  have "fold handle_event events (c, S) = (b', T')" using Cons.prems(3) S by simp
  from Cons.IH [OF ok _ this] Cons.prems(2) h show ?case
    by (cases events) auto
qed simp

lemma accept_connection_ok:
  assumes "server_ok T" "accept_connection a T = Inr T'"
  shows "server_ok T' \<and> ts_count T' = Suc (ts_count T) \<and>
    receive_sockets T' = receive_sockets T @ [ts_count T] \<and> send_sockets T' = send_sockets T \<and>
    ts_sockets T' = (ts_sockets T)(ts_count T := Socket_new\<lparr>socket_fd := ac_fd a\<rparr>)"
proof -
  have "ts_count T \<notin> set (receive_sockets T)" using assms(1) by (auto simp: server_ok_def)
  then have "push_unless_found (ts_count T) (receive_sockets T) = receive_sockets T @ [ts_count T]"
    by (simp add: push_unless_found_def)
  then have T': "T' = T\<lparr>ts_sockets := (ts_sockets T)(ts_count T := Socket_new\<lparr>socket_fd := ac_fd a\<rparr>),
      ts_count := Suc (ts_count T), receive_sockets := receive_sockets T @ [ts_count T]\<rparr>"
    using assms(2) by (auto simp: accept_connection_def result_simps)
  have "server_ok T'" using assms(1) unfolding T' server_ok_def by (auto simp: less_Suc_eq)
  then show ?thesis by (simp add: T')
qed

lemma accept_all_ok:
  assumes "server_ok T" "rfold accept_connection accepts T = Inr T'"
  shows "server_ok T' \<and> ts_count T' = ts_count T + length accepts \<and>
    receive_sockets T' = receive_sockets T @ [ts_count T..<ts_count T + length accepts] \<and>
    send_sockets T' = send_sockets T \<and>
    (\<forall>sid < ts_count T. ts_sockets T' sid = ts_sockets T sid) \<and>
    (\<forall>i < length accepts. ts_sockets T' (ts_count T + i) = Socket_new\<lparr>socket_fd := ac_fd (accepts ! i)\<rparr>)"
  using assms
proof (induction accepts arbitrary: T)
  case (Cons a accepts)
  then obtain S where S: "accept_connection a T = Inr S" "rfold accept_connection accepts S = Inr T'"
    by (auto elim: rbind_eq_InrE)
  note a = accept_connection_ok [OF Cons.prems(1) S(1)]
  note IH = Cons.IH [OF _ S(2)]
  have "ts_sockets T' (ts_count T + i) = Socket_new\<lparr>socket_fd := ac_fd ((a # accepts) ! i)\<rparr>"
    if "i < length (a # accepts)" for i
    using IH a that by (cases i) auto
  moreover have "ts_sockets T' sid = ts_sockets T sid" if "sid < ts_count T" for sid
    using IH a that by auto
  ultimately show ?case using IH a by (auto simp: upt_conv_Cons simp del: upt_Suc)
qed simp

section \<open>Properties\<close>

text \<open>
  C36: What a poll does to the containers of sockets, exactly. The sockets to receive from afterwards are those
  of before, those with an event for data or for an error or hang-up, and one new socket for each
  connection accepted, with its descriptor; the sockets to send to are those of before and those ready for
  sending. No socket gets in twice, connections are accepted only if the listener reported one, and no
  socket of before is changed. So none is ever removed: the comments, by which the server prunes dead connections and
  \<open>Poll\<close> updates the containers for them, are not what the code does, a dead socket stays or is even added.
\<close>

theorem Poll_keeps_sockets:
  assumes "server_ok T" "\<forall>ev\<in>set events. ev_socket ev < ts_count T" "Poll events accepts T = Inr T'"
  shows "server_ok T' \<and>
    ts_count T' = ts_count T + (if \<exists>ev\<in>set events. new_connection ev then length accepts else 0) \<and>
    set (receive_sockets T') = set (receive_sockets T) \<union> reported_in events \<union> {ts_count T..<ts_count T'} \<and>
    set (send_sockets T') = set (send_sockets T) \<union> reported_out events \<and>
    (\<forall>sid < ts_count T. ts_sockets T' sid = ts_sockets T sid) \<and>
    (\<forall>i < ts_count T' - ts_count T.
      ts_sockets T' (ts_count T + i) = Socket_new\<lparr>socket_fd := ac_fd (accepts ! i)\<rparr>)"
proof -
  obtain b S where S: "fold handle_event events (False, T) = (b, S)" by fastforce
  note ev = handle_events_ok [OF assms(1,2) S]
  show ?thesis
  proof (cases b)
    case True
    with assms(3) S have "rfold accept_connection accepts S = Inr T'" by (simp add: Poll_def)
    with accept_all_ok [of S accepts T'] ev True show ?thesis by auto
  next
    case False
    with assms(3) S have "T' = S" by (simp add: Poll_def)
    with ev False show ?thesis by auto
  qed
qed

text \<open>
  A server with one connection, which it sends to: the connection hangs up in the round in which another comes in.
\<close>

definition one_connection :: TCPServer where
  "one_connection =
     \<lparr>ts_sockets = (\<lambda>_. Socket_new)(1 := Socket_new\<lparr>socket_fd := 6\<rparr>), ts_count = 2,
      receive_sockets = [], send_sockets = [1]\<rparr>"

theorem Poll_keeps_sockets_witness:
  "\<exists>T'. Poll [\<lparr>ev_socket = listener_socket, ev_in = True, ev_out = False, ev_err_or_hup = False\<rparr>,
        \<lparr>ev_socket = 1, ev_in = False, ev_out = False, ev_err_or_hup = True\<rparr>]
       [\<lparr>ac_fd = 7, ac_options_set = True, ac_epoll_added = True\<rparr>] one_connection = Inr T' \<and>
     server_ok T' \<and> set (receive_sockets T') = {1, 2} \<and> set (send_sockets T') = {1} \<and>
     ts_sockets T' 2 = Socket_new\<lparr>socket_fd := 7\<rparr>"
proof -
  let ?evs = "[\<lparr>ev_socket = listener_socket, ev_in = True, ev_out = False, ev_err_or_hup = False\<rparr>,
    \<lparr>ev_socket = 1, ev_in = False, ev_out = False, ev_err_or_hup = True\<rparr>]"
  let ?acs = "[\<lparr>ac_fd = 7, ac_options_set = True, ac_epoll_added = True\<rparr>]"
  have ok: "server_ok one_connection" "\<forall>ev\<in>set ?evs. ev_socket ev < ts_count one_connection"
    by (simp_all add: listener_socket_def one_connection_def server_ok_def)
  obtain T' where T': "Poll ?evs ?acs one_connection = Inr T'"
    by (simp add: Poll_def handle_event_def accept_connection_def listener_socket_def one_connection_def)
  have evs: "\<exists>ev\<in>set ?evs. new_connection ev" "reported_in ?evs = {1}" "reported_out ?evs = {}"
    by (auto simp: new_connection_def reported_in_def reported_out_def listener_socket_def)
  have r: "set (receive_sockets one_connection) = {}" "set (send_sockets one_connection) = {1}" "ts_count one_connection = 2"
    by (simp_all add: one_connection_def)
  obtain n: "ts_count T' = 3" "server_ok T'" and sets: "set (receive_sockets T') = {} \<union> {1} \<union> {2..<3}"
    "set (send_sockets T') = {1} \<union> {}" and fd: "\<forall>i < 3 - 2. ts_sockets T' (2 + i) = Socket_new\<lparr>socket_fd := ac_fd (?acs ! i)\<rparr>"
    using Poll_keeps_sockets [OF ok T'] unfolding evs(2,3) r if_P [OF evs(1)] by force
  have "{2..<3 :: nat} = {2}" by auto
  moreover have "ts_sockets T' (2 + 0) = Socket_new\<lparr>socket_fd := ac_fd (?acs ! 0)\<rparr>"
    using fd [rule_format, of 0] by simp
  ultimately show ?thesis using n sets T' by (intro exI [of _ T'] conjI) (simp_all add: insert_commute)
qed

end
