(* ===== verification/Lock_Free_Queue.thy ===== *)
theory Lock_Free_Queue
  imports Prelude
begin

text \<open>
  \<open>common::LockFreeQueue<T>\<close> (\<open>src/src/include/runtime/lock_free_queue.hpp\<close>): a ring buffer with
  a write index, a read index and an element count, filled by one thread and emptied by another
  without a lock. Writing and reading have two phases: a pointer to the slot first, the commit
  (\<open>UpdateWriteIndex\<close>, \<open>UpdateReadIndex\<close>) after.

  The first half is the queue used from one thread, as a locale \<open>spsc_queue\<close> the components that
  talk through queues rest on. The second half is the interleaving of one producer and one
  consumer, each atomic access a step. The write side does not look at the count, so all of this
  holds while the producer stays within the capacity; \<open>overrun_loses\<close> shows what happens else.
\<close>

section \<open>State and operations\<close>

record 'a LockFreeQueue =
  q_store :: "nat \<Rightarrow> 'a"
  q_size :: nat
  next_write_index :: nat
  next_read_index :: nat
  num_elements :: nat

definition LockFreeQueue_new :: "nat \<Rightarrow> 'a \<Rightarrow> 'a LockFreeQueue" where
  "LockFreeQueue_new num_elems dflt =
     \<lparr>q_store = (\<lambda>_. dflt), q_size = num_elems, next_write_index = 0, next_read_index = 0,
      num_elements = 0\<rparr>"

text \<open>\<open>*GetNextToWriteTo() = x\<close>.\<close>

definition WriteNext :: "'a \<Rightarrow> 'a LockFreeQueue \<Rightarrow> 'a LockFreeQueue" where
  "WriteNext x q = q\<lparr>q_store := (q_store q)(next_write_index q := x)\<rparr>"

definition UpdateWriteIndex :: "'a LockFreeQueue \<Rightarrow> 'a LockFreeQueue" where
  "UpdateWriteIndex q =
     q\<lparr>next_write_index := (next_write_index q + 1) mod q_size q, num_elements := num_elements q + 1\<rparr>"

definition Size :: "'a LockFreeQueue \<Rightarrow> nat" where
  "Size q = num_elements q"

definition GetNextToRead :: "'a LockFreeQueue \<Rightarrow> 'a option" where
  "GetNextToRead q = (if Size q \<noteq> 0 then Some (q_store q (next_read_index q)) else None)"

definition UpdateReadIndex :: "'a LockFreeQueue \<Rightarrow> 'a LockFreeQueue result" where
  "UpdateReadIndex q =
     (let q = q\<lparr>next_read_index := (next_read_index q + 1) mod q_size q\<rparr>
      in rbind (ASSERT (num_elements q \<noteq> 0) ''Read an invalid element in:'') (\<lambda>_.
         Inr (q\<lparr>num_elements := num_elements q - 1\<rparr>)))"

definition Enqueue :: "'a \<Rightarrow> 'a LockFreeQueue \<Rightarrow> 'a LockFreeQueue" where
  "Enqueue x q = UpdateWriteIndex (WriteNext x q)"

section \<open>The queue as a list\<close>

definition q_ok :: "'a LockFreeQueue \<Rightarrow> bool" where
  "q_ok q \<longleftrightarrow> next_read_index q < q_size q \<and> num_elements q \<le> q_size q \<and>
     next_write_index q = (next_read_index q + num_elements q) mod q_size q"

definition q_list :: "'a LockFreeQueue \<Rightarrow> 'a list" where
  "q_list q = map (\<lambda>i. q_store q ((next_read_index q + i) mod q_size q)) [0..<num_elements q]"

lemma length_q_list [simp]: "length (q_list q) = num_elements q"
  by (simp add: q_list_def)

lemma mod_window:
  assumes "i < n" "j < n" "(k + i) mod n = (k + j) mod (n :: nat)"
  shows "i = j"
proof -
  have aux: "i = j" if "i \<le> j" "j < n" "(k + i) mod n = (k + j) mod n" for i j
  proof -
    have "n dvd (k + j) - (k + i)" using that by (metis add_le_cancel_left mod_eq_dvd_iff_nat)
    then have "n dvd j - i" by simp
    with that show ?thesis by (auto dest!: dvd_imp_le)
  qed
  show ?thesis using assms aux [of i j] aux [of j i] by (cases "i \<le> j") auto
qed

lemma Enqueue_ok:
  assumes "q_ok q" "num_elements q < q_size q"
  shows "q_ok (Enqueue x q)" "q_list (Enqueue x q) = q_list q @ [x]" "q_size (Enqueue x q) = q_size q"
proof -
  let ?n = "q_size q" and ?r = "next_read_index q" and ?k = "num_elements q"
  show "q_ok (Enqueue x q)"
    using assms by (auto simp: q_ok_def Enqueue_def UpdateWriteIndex_def WriteNext_def mod_Suc_eq)
  have "(?r + i) mod ?n \<noteq> next_write_index q" if "i < ?k" for i
    using assms that mod_window [of i ?n ?k ?r] by (auto simp: q_ok_def)
  then have "map (\<lambda>i. ((q_store q)(next_write_index q := x)) ((?r + i) mod ?n)) [0..<?k] =
      map (\<lambda>i. q_store q ((?r + i) mod ?n)) [0..<?k]"
    by auto
  then show "q_list (Enqueue x q) = q_list q @ [x]"
    using assms(1) by (simp add: q_list_def Enqueue_def UpdateWriteIndex_def WriteNext_def q_ok_def)
  show "q_size (Enqueue x q) = ?n"
    by (simp add: Enqueue_def UpdateWriteIndex_def WriteNext_def)
qed

lemma Enqueue_counts [simp]:
  "num_elements (Enqueue x q) = Suc (num_elements q)" "q_size (Enqueue x q) = q_size q"
  by (simp_all add: Enqueue_def UpdateWriteIndex_def WriteNext_def)

lemma fold_Enqueue_counts [simp]:
  "num_elements (fold Enqueue xs q) = num_elements q + length xs" "q_size (fold Enqueue xs q) = q_size q"
  by (induction xs arbitrary: q) simp_all

lemma GetNextToRead_list:
  "q_ok q \<Longrightarrow> GetNextToRead q = (case q_list q of [] \<Rightarrow> None | x # xs \<Rightarrow> Some x)"
  by (cases "num_elements q") (auto simp: GetNextToRead_def Size_def q_list_def q_ok_def upt_conv_Cons simp del: upt_Suc)

lemma UpdateReadIndex_ok:
  assumes "q_ok q" "q_list q = x # xs"
  shows "\<exists>q'. UpdateReadIndex q = Inr q' \<and> q_ok q' \<and> q_list q' = xs \<and> q_size q' = q_size q"
proof -
  let ?n = "q_size q" and ?r = "next_read_index q"
  obtain k where k: "num_elements q = Suc k" using assms(2) by (cases "num_elements q") (auto simp: q_list_def)
  let ?q = "q\<lparr>next_read_index := (?r + 1) mod ?n, num_elements := k\<rparr>"
  have "UpdateReadIndex q = Inr ?q" by (simp add: UpdateReadIndex_def k)
  moreover have "q_ok ?q" using assms(1) k by (auto simp: q_ok_def mod_simps)
  moreover have "q_list q = q_store q (?r mod ?n) # q_list ?q"
    unfolding q_list_def k by (simp add: upt_conv_Cons map_Suc_upt [symmetric] mod_simps del: upt_Suc)
  ultimately show ?thesis using assms(2) by auto
qed

section \<open>The interface\<close>

text \<open>
  A bounded first-in first-out channel. Its clients use that a message written while there is room
  is the last to come out, and that what is read is what was written first.
\<close>

locale spsc_queue =
  fixes enq :: "'m \<Rightarrow> 'q \<Rightarrow> 'q"
    and front :: "'q \<Rightarrow> 'm option"
    and deq :: "'q \<Rightarrow> 'q result"
    and msgs :: "'q \<Rightarrow> 'm list"
    and capacity :: "'q \<Rightarrow> nat"
    and ok :: "'q \<Rightarrow> bool"
  assumes enq_law: "ok q \<Longrightarrow> length (msgs q) < capacity q \<Longrightarrow>
      ok (enq x q) \<and> msgs (enq x q) = msgs q @ [x] \<and> capacity (enq x q) = capacity q"
    and front_law: "ok q \<Longrightarrow> front q = (case msgs q of [] \<Rightarrow> None | x # xs \<Rightarrow> Some x)"
    and deq_law: "ok q \<Longrightarrow> msgs q = x # xs \<Longrightarrow>
      \<exists>q'. deq q = Inr q' \<and> ok q' \<and> msgs q' = xs \<and> capacity q' = capacity q"
begin

lemma enq_all:
  assumes "ok q" "length (msgs q) + length xs \<le> capacity q"
  shows "ok (fold enq xs q) \<and> msgs (fold enq xs q) = msgs q @ xs \<and> capacity (fold enq xs q) = capacity q"
  using assms
proof (induction xs arbitrary: q)
  case (Cons x xs)
  then show ?case using enq_law [of q x] by simp
qed simp

lemma front_None: "ok q \<Longrightarrow> front q = None \<longleftrightarrow> msgs q = []"
  using front_law by (auto split: list.splits)

lemma front_SomeE:
  assumes "ok q" "front q = Some x"
  obtains xs q' where "msgs q = x # xs" "deq q = Inr q'" "ok q'" "msgs q' = xs" "capacity q' = capacity q"
  using assms front_law [OF assms(1)] deq_law [OF assms(1)] by (auto split: list.splits)

text \<open>Reading until the queue is empty, as the consumers do.\<close>

fun drain :: "nat \<Rightarrow> 'q \<Rightarrow> ('m list \<times> 'q) result" where
  "drain 0 q = Inr ([], q)"
| "drain (Suc k) q =
     (case front q of
        None \<Rightarrow> Inr ([], q)
      | Some x \<Rightarrow> rbind (deq q) (\<lambda>q'. rbind (drain k q') (\<lambda>(xs, q''). Inr (x # xs, q''))))"

lemma drain_msgs:
  assumes "ok q" "length (msgs q) \<le> k"
  shows "\<exists>q'. drain k q = Inr (msgs q, q') \<and> ok q' \<and> msgs q' = [] \<and> capacity q' = capacity q"
  using assms
proof (induction k arbitrary: q)
  case (Suc k)
  show ?case
  proof (cases "msgs q")
    case Nil
    with Suc.prems show ?thesis by (simp add: front_law)
  next
    case (Cons x xs)
    obtain q' where q': "deq q = Inr q'" "ok q'" "msgs q' = xs" "capacity q' = capacity q"
      using deq_law [OF Suc.prems(1) Cons] by blast
    with Suc Cons obtain q'' where "drain k q' = Inr (xs, q'')" "ok q''" "msgs q'' = []" "capacity q'' = capacity q'"
      by (metis Suc_le_mono length_Cons)
    with q' Cons Suc.prems(1) show ?thesis by (simp add: front_law)
  qed
qed simp

lemma enq_all_drain:
  assumes "ok q" "msgs q = []" "length xs \<le> capacity q"
  shows "\<exists>q'. drain (length xs) (fold enq xs q) = Inr (xs, q') \<and> ok q' \<and> msgs q' = []"
  using enq_all [OF assms(1), of xs] assms drain_msgs [of "fold enq xs q" "length xs"] by auto

end

interpretation lfq: spsc_queue Enqueue GetNextToRead UpdateReadIndex q_list q_size q_ok
  by unfold_locales (simp_all add: Enqueue_ok GetNextToRead_list UpdateReadIndex_ok)

lemma q_new [simp]: "q_ok (LockFreeQueue_new n d) \<longleftrightarrow> 0 < n" "q_list (LockFreeQueue_new n d) = []"
  "q_size (LockFreeQueue_new n d) = n"
  by (auto simp: q_ok_def LockFreeQueue_new_def q_list_def)

section \<open>One producer, one consumer\<close>

text \<open>
  Each atomic access of the two threads is a step. The producer writes the slot, stores the new
  write index, increments the count; the consumer sees a count that is not zero, reads the slot,
  stores the new read index, checks and decrements the count. \<open>produced\<close> and \<open>consumed\<close> record the
  values written and read. The producer does not look at the count before it writes, so the steps
  include those that overrun the queue.
\<close>

datatype producer_at = P_idle | P_written | P_indexed
datatype consumer_at = C_idle | C_peeked | C_read | C_indexed

record 'a spsc_state =
  lfq_of :: "'a LockFreeQueue"
  at_producer :: producer_at
  at_consumer :: consumer_at
  produced :: "'a list"
  consumed :: "'a list"

inductive spsc_step :: "'a spsc_state \<Rightarrow> 'a spsc_state \<Rightarrow> bool" where
  write_slot:
    "at_producer S = P_idle \<Longrightarrow>
     spsc_step S (S\<lparr>lfq_of := WriteNext x (lfq_of S), at_producer := P_written, produced := produced S @ [x]\<rparr>)"
| store_write_index:
    "at_producer S = P_written \<Longrightarrow>
     spsc_step S (S\<lparr>lfq_of := (lfq_of S)\<lparr>next_write_index := (next_write_index (lfq_of S) + 1) mod q_size (lfq_of S)\<rparr>,
       at_producer := P_indexed\<rparr>)"
| increment_count:
    "at_producer S = P_indexed \<Longrightarrow>
     spsc_step S (S\<lparr>lfq_of := (lfq_of S)\<lparr>num_elements := num_elements (lfq_of S) + 1\<rparr>, at_producer := P_idle\<rparr>)"
| see_element:
    "at_consumer S = C_idle \<Longrightarrow> Size (lfq_of S) \<noteq> 0 \<Longrightarrow> spsc_step S (S\<lparr>at_consumer := C_peeked\<rparr>)"
| read_slot:
    "at_consumer S = C_peeked \<Longrightarrow>
     spsc_step S (S\<lparr>at_consumer := C_read,
       consumed := consumed S @ [q_store (lfq_of S) (next_read_index (lfq_of S))]\<rparr>)"
| store_read_index:
    "at_consumer S = C_read \<Longrightarrow>
     spsc_step S (S\<lparr>lfq_of := (lfq_of S)\<lparr>next_read_index := (next_read_index (lfq_of S) + 1) mod q_size (lfq_of S)\<rparr>,
       at_consumer := C_indexed\<rparr>)"
| decrement_count:
    "at_consumer S = C_indexed \<Longrightarrow> num_elements (lfq_of S) \<noteq> 0 \<Longrightarrow>
     spsc_step S (S\<lparr>lfq_of := (lfq_of S)\<lparr>num_elements := num_elements (lfq_of S) - 1\<rparr>, at_consumer := C_idle\<rparr>)"

definition spsc_init :: "nat \<Rightarrow> 'a \<Rightarrow> 'a spsc_state" where
  "spsc_init n d =
     \<lparr>lfq_of = LockFreeQueue_new n d, at_producer = P_idle, at_consumer = C_idle, produced = [], consumed = []\<rparr>"

definition in_flight :: "producer_at \<Rightarrow> nat" where
  "in_flight pa = (if pa = P_idle then 0 else 1)"

text \<open>
  The runs in which the producer stays within the capacity: the elements counted and the one being
  written have room. The code does not check this; its capacity of 256 * 1024 is meant to make it true.
\<close>

definition in_capacity :: "'a spsc_state \<Rightarrow> bool" where
  "in_capacity S \<longleftrightarrow> num_elements (lfq_of S) + in_flight (at_producer S) \<le> q_size (lfq_of S)"

definition capacity_step :: "'a spsc_state \<Rightarrow> 'a spsc_state \<Rightarrow> bool" where
  "capacity_step S S' \<longleftrightarrow> spsc_step S S' \<and> in_capacity S'"

text \<open>
  The invariant counts: of \<open>w\<close> slots written the count \<open>k\<close> shows all but the one in flight, and of
  \<open>r\<close> values read it still shows the one in flight.
\<close>

definition being_freed :: "consumer_at \<Rightarrow> nat" where
  "being_freed ca = (if ca = C_read \<or> ca = C_indexed then 1 else 0)"

definition counts_ok :: "producer_at \<Rightarrow> consumer_at \<Rightarrow> nat \<Rightarrow> nat \<Rightarrow> nat \<Rightarrow> nat \<Rightarrow> bool" where
  "counts_ok pa ca w r k n \<longleftrightarrow>
     0 < n \<and> k + r + in_flight pa = w + being_freed ca \<and> in_flight pa \<le> w \<and> being_freed ca \<le> r \<and>
     r + in_flight pa \<le> w \<and> (ca = C_peeked \<longrightarrow> r + in_flight pa < w) \<and> w + being_freed ca \<le> n + r"

lemma counts_ok_steps:
  "counts_ok P_idle ca w r k n \<Longrightarrow> k < n \<Longrightarrow> counts_ok P_written ca (Suc w) r k n"
  "counts_ok P_written ca w r k n \<Longrightarrow> counts_ok P_indexed ca w r k n"
  "counts_ok P_indexed ca w r k n \<Longrightarrow> counts_ok P_idle ca w r (Suc k) n"
  "counts_ok pa C_idle w r k n \<Longrightarrow> 0 < k \<Longrightarrow> counts_ok pa C_peeked w r k n"
  "counts_ok pa C_peeked w r k n \<Longrightarrow> counts_ok pa C_read w (Suc r) k n"
  "counts_ok pa C_read w r k n \<Longrightarrow> counts_ok pa C_indexed w r k n"
  "counts_ok pa C_indexed w r k n \<Longrightarrow> counts_ok pa C_idle w r (k - 1) n"
  by (auto simp: counts_ok_def in_flight_def being_freed_def split: if_splits)

lemma counts_ok_facts:
  "counts_ok pa C_indexed w r k n \<Longrightarrow> 0 < k"
  "counts_ok pa C_peeked w r k n \<Longrightarrow> r < w"
  "counts_ok pa C_read w r k n \<Longrightarrow> 0 < r"
  "counts_ok P_written ca w r k n \<Longrightarrow> 0 < w"
  "counts_ok P_idle ca w r k n \<Longrightarrow> k < n \<Longrightarrow> w + being_freed ca < n + r"
  "counts_ok pa ca w r k n \<Longrightarrow> r \<le> w"
  by (auto simp: counts_ok_def in_flight_def being_freed_def split: if_splits)

text \<open>The first slot the consumer has not given back.\<close>

definition unread_from :: "'a spsc_state \<Rightarrow> nat" where
  "unread_from S = length (consumed S) - (if at_consumer S = C_read then 1 else 0)"

definition spsc_inv :: "'a spsc_state \<Rightarrow> bool" where
  "spsc_inv S \<longleftrightarrow>
     counts_ok (at_producer S) (at_consumer S) (length (produced S)) (length (consumed S))
       (num_elements (lfq_of S)) (q_size (lfq_of S)) \<and>
     next_write_index (lfq_of S) =
       (length (produced S) - (if at_producer S = P_written then 1 else 0)) mod q_size (lfq_of S) \<and>
     next_read_index (lfq_of S) = unread_from S mod q_size (lfq_of S) \<and>
     (\<forall>i. unread_from S \<le> i \<longrightarrow> i < length (produced S) \<longrightarrow>
        q_store (lfq_of S) (i mod q_size (lfq_of S)) = produced S ! i) \<and>
     (\<forall>i < length (consumed S). consumed S ! i = produced S ! i)"

lemma spsc_inv_init: "0 < n \<Longrightarrow> spsc_inv (spsc_init n d)"
  by (simp add: spsc_inv_def spsc_init_def LockFreeQueue_new_def unread_from_def counts_ok_def
      in_flight_def being_freed_def)

lemma mod_window_ne:
  assumes "i < w" "w < n + i"
  shows "i mod n \<noteq> w mod (n :: nat)"
proof
  assume "i mod n = w mod n"
  then have "(i + 0) mod n = (i + (w - i)) mod n" using assms(1) by simp
  from mod_window [OF _ _ this] have "0 = w - i" using assms by arith
  with assms(1) show False by simp
qed

lemma mod_step:
  assumes "m = Suc k"
  shows "Suc (k mod n) mod n = m mod n"
  using assms by (simp add: mod_Suc_eq)

lemma spsc_inv_step:
  assumes "spsc_step S S'" "spsc_inv S" "in_capacity S'"
  shows "spsc_inv S'"
  using assms(1)
proof cases
  case (write_slot x)
  have room: "num_elements (lfq_of S) < q_size (lfq_of S)"
    using assms(3) by (simp add: write_slot(1) in_capacity_def in_flight_def WriteNext_def)
  let ?w = "length (produced S)" and ?r = "length (consumed S)" and ?n = "q_size (lfq_of S)"
  have c: "counts_ok P_idle (at_consumer S) ?w ?r (num_elements (lfq_of S)) ?n"
    using assms(2) write_slot(2) by (simp add: spsc_inv_def)
  note facts = counts_ok_facts(5,6) [OF c] counts_ok_facts(6) [OF c]
  have ne: "i mod ?n \<noteq> ?w mod ?n" if "unread_from S \<le> i" "i < ?w" for i
    using that facts(1) [OF room] mod_window_ne [of i ?w ?n]
    by (auto simp: unread_from_def being_freed_def split: if_splits)
  have nw: "next_write_index (lfq_of S) = ?w mod ?n" using assms(2) write_slot(2) by (simp add: spsc_inv_def)
  show ?thesis
    using counts_ok_steps(1) [OF c room] assms(2) ne facts(2) write_slot(2)
    by (auto simp: spsc_inv_def WriteNext_def write_slot(1) unread_from_def nth_append less_Suc_eq nw)
next
  case store_write_index
  then have "0 < length (produced S)" using assms(2) counts_ok_facts(4) unfolding spsc_inv_def by metis
  with store_write_index assms(2) show ?thesis
    by (auto simp: spsc_inv_def unread_from_def intro: counts_ok_steps mod_step)
next
  case increment_count
  then show ?thesis using assms(2) by (auto simp: spsc_inv_def unread_from_def intro: counts_ok_steps)
next
  case see_element
  then show ?thesis using assms(2) by (auto simp: spsc_inv_def unread_from_def Size_def intro: counts_ok_steps)
next
  case read_slot
  then have "length (consumed S) < length (produced S)"
    using assms(2) counts_ok_facts(2) by (auto simp: spsc_inv_def)
  with read_slot assms(2) show ?thesis
    by (auto simp: spsc_inv_def unread_from_def nth_append less_Suc_eq intro: counts_ok_steps)
next
  case store_read_index
  then have "0 < length (consumed S)" using assms(2) counts_ok_facts(3) unfolding spsc_inv_def by metis
  with store_read_index assms(2) show ?thesis
    by (auto simp: spsc_inv_def unread_from_def intro: counts_ok_steps mod_step)
next
  case decrement_count
  then show ?thesis
    using assms(2) counts_ok_steps(7) by (auto simp: spsc_inv_def unread_from_def)
qed

lemma spsc_reachable_inv:
  assumes "capacity_step\<^sup>*\<^sup>* (spsc_init n d) S" "0 < n"
  shows "spsc_inv S"
  using assms by (induction rule: rtranclp_induct) (auto simp: capacity_step_def intro: spsc_inv_init spsc_inv_step)

section \<open>Properties\<close>

text \<open>
  C18: Through every interleaving of one producer and one consumer in which the producer stays within the
  capacity (\<open>in_capacity\<close>), what the consumer has read is a prefix of what the producer has written:
  no value is lost, repeated, reordered or torn. The code does not enforce the condition, and without
  it a value is lost (\<open>spsc_overrun\<close>).
\<close>

theorem spsc_fifo:
  assumes "capacity_step\<^sup>*\<^sup>* (spsc_init n d) S" "0 < n"
  shows "consumed S = take (length (consumed S)) (produced S)"
proof -
  note inv = spsc_reachable_inv [OF assms]
  have "length (consumed S) \<le> length (produced S)"
    using inv counts_ok_facts(6) by (auto simp: spsc_inv_def)
  with inv show ?thesis by (intro nth_equalityI) (auto simp: spsc_inv_def)
qed

text \<open>
  C19: While the producer stays within the capacity (\<open>in_capacity\<close>), the two threads never touch the
  same slot, and the assertion of \<open>UpdateReadIndex\<close> never fires: when the consumer is about to read and
  the producer about to write, their slots differ, and the count is not zero when the consumer
  decrements it.
\<close>

theorem spsc_no_race:
  assumes "capacity_step\<^sup>*\<^sup>* (spsc_init n d) S" "0 < n"
  shows "(at_consumer S = C_peeked \<and> at_producer S = P_idle \<and> num_elements (lfq_of S) < q_size (lfq_of S) \<longrightarrow>
      next_read_index (lfq_of S) \<noteq> next_write_index (lfq_of S)) \<and>
    (at_consumer S = C_indexed \<longrightarrow> num_elements (lfq_of S) \<noteq> 0)"
proof -
  note inv = spsc_reachable_inv [OF assms]
  let ?w = "length (produced S)" and ?r = "length (consumed S)" and ?q = "lfq_of S"
  have "next_read_index ?q \<noteq> next_write_index ?q"
    if a: "at_consumer S = C_peeked" "at_producer S = P_idle" "num_elements ?q < q_size ?q"
  proof -
    have c: "counts_ok P_idle C_peeked ?w ?r (num_elements ?q) (q_size ?q)"
      using inv a by (simp add: spsc_inv_def)
    have "?r mod q_size ?q \<noteq> ?w mod q_size ?q"
      using counts_ok_facts(2) [OF c] counts_ok_facts(5) [OF c a(3)] by (intro mod_window_ne) simp_all
    with inv a show ?thesis by (simp add: spsc_inv_def unread_from_def)
  qed
  moreover have "num_elements ?q \<noteq> 0" if "at_consumer S = C_indexed"
    using inv that counts_ok_facts(1) by (auto simp: spsc_inv_def)
  ultimately show ?thesis by blast
qed

text \<open>
  The write side does not look at the count. A producer that runs a full turn ahead overwrites
  the oldest unread value: the next read returns the new value in its place.
\<close>

theorem overrun_loses:
  assumes "q_ok q" "num_elements q = q_size q"
  shows "GetNextToRead (Enqueue x q) = Some x"
  using assms by (simp add: q_ok_def GetNextToRead_def Size_def Enqueue_def UpdateWriteIndex_def WriteNext_def)

theorem overrun_loses_witness:
  "GetNextToRead (Enqueue (3::nat) (Enqueue 2 (Enqueue 1 (LockFreeQueue_new 2 0)))) = Some 3"
  by (rule overrun_loses) (simp_all add: q_ok_def Enqueue_def UpdateWriteIndex_def WriteNext_def LockFreeQueue_new_def)

text \<open>The same as a run of the two threads: of two values written to a queue of one, the first is lost.\<close>

lemma spsc_overrun:
  "\<exists>S. spsc_step\<^sup>*\<^sup>* (spsc_init 1 (0::nat)) S \<and> produced S = [7, 8] \<and> consumed S = [8]"
proof -
  let ?q = "LockFreeQueue_new 1 (0::nat)" and ?S = "spsc_init 1 (0::nat)"
  let ?S1 = "?S\<lparr>lfq_of := WriteNext 7 ?q, at_producer := P_written, produced := [7]\<rparr>"
  let ?S2 = "?S1\<lparr>at_producer := P_indexed\<rparr>"
  let ?S3 = "?S2\<lparr>lfq_of := Enqueue 7 ?q, at_producer := P_idle\<rparr>"
  let ?S4 = "?S3\<lparr>lfq_of := WriteNext 8 (Enqueue 7 ?q), at_producer := P_written, produced := [7, 8]\<rparr>"
  let ?S5 = "?S4\<lparr>at_consumer := C_peeked\<rparr>"
  let ?S6 = "?S5\<lparr>at_consumer := C_read, consumed := [8]\<rparr>"
  note defs = spsc_init_def LockFreeQueue_new_def WriteNext_def Enqueue_def UpdateWriteIndex_def Size_def
  have "spsc_step ?S ?S1" using write_slot [of ?S 7] by (simp add: defs)
  moreover have "spsc_step ?S1 ?S2" using store_write_index [of ?S1] by (simp add: defs)
  moreover have "spsc_step ?S2 ?S3" using increment_count [of ?S2] by (simp add: defs)
  moreover have "spsc_step ?S3 ?S4" using write_slot [of ?S3 8] by (simp add: defs)
  moreover have "spsc_step ?S4 ?S5" using see_element [of ?S4] by (simp add: defs)
  moreover have "spsc_step ?S5 ?S6" using read_slot [of ?S5] by (simp add: defs)
  ultimately have "spsc_step\<^sup>*\<^sup>* ?S ?S6"
    by (meson converse_rtranclp_into_rtranclp rtranclp.rtrancl_refl)
  then show ?thesis by (intro exI [of _ ?S6]) simp
qed

text \<open>A value written and read through the steps, for the two properties above.\<close>

lemma spsc_run:
  obtains S S' where "capacity_step\<^sup>*\<^sup>* (spsc_init 2 (0::nat)) S" "at_consumer S = C_peeked"
    "at_producer S = P_idle" "num_elements (lfq_of S) < q_size (lfq_of S)"
    "capacity_step\<^sup>*\<^sup>* (spsc_init 2 (0::nat)) S'" "consumed S' = [7]"
proof -
  let ?q = "LockFreeQueue_new 2 (0::nat)" and ?S = "spsc_init 2 (0::nat)"
  let ?S1 = "?S\<lparr>lfq_of := WriteNext 7 ?q, at_producer := P_written, produced := [7]\<rparr>"
  let ?S2 = "?S1\<lparr>lfq_of := (WriteNext 7 ?q)\<lparr>next_write_index := 1\<rparr>, at_producer := P_indexed\<rparr>"
  let ?S3 = "?S2\<lparr>lfq_of := Enqueue 7 ?q, at_producer := P_idle\<rparr>"
  let ?S4 = "?S3\<lparr>at_consumer := C_peeked\<rparr>"
  let ?S5 = "?S4\<lparr>at_consumer := C_read, consumed := [7]\<rparr>"
  note defs = capacity_step_def in_capacity_def in_flight_def spsc_init_def LockFreeQueue_new_def WriteNext_def Enqueue_def UpdateWriteIndex_def Size_def
  have "capacity_step ?S ?S1" using write_slot [of ?S 7] by (simp add: defs)
  moreover have "capacity_step ?S1 ?S2" using store_write_index [of ?S1] by (simp add: defs)
  moreover have "capacity_step ?S2 ?S3" using increment_count [of ?S2] by (simp add: defs)
  moreover have "capacity_step ?S3 ?S4" using see_element [of ?S3] by (simp add: defs)
  moreover have "capacity_step ?S4 ?S5" using read_slot [of ?S4] by (simp add: defs)
  ultimately have run: "capacity_step\<^sup>*\<^sup>* ?S ?S4" "capacity_step\<^sup>*\<^sup>* ?S ?S5"
    by (meson converse_rtranclp_into_rtranclp rtranclp.rtrancl_refl)+
  show thesis by (rule that [OF run(1) _ _ _ run(2)]) (simp_all add: defs)
qed

theorem spsc_fifo_witness:
  "\<exists>S. consumed S = [7] \<and> consumed S = take (length (consumed S)) (produced S) \<and> capacity_step\<^sup>*\<^sup>* (spsc_init 2 (0::nat)) S"
proof -
  obtain S where "capacity_step\<^sup>*\<^sup>* (spsc_init 2 (0::nat)) S" "consumed S = [7]" by (metis spsc_run)
  moreover from spsc_fifo [OF this(1)] have "consumed S = take (length (consumed S)) (produced S)" by simp
  ultimately show ?thesis by blast
qed

theorem spsc_no_race_witness:
  "\<exists>S. capacity_step\<^sup>*\<^sup>* (spsc_init 2 (0::nat)) S \<and> at_consumer S = C_peeked \<and> at_producer S = P_idle \<and>
    next_read_index (lfq_of S) \<noteq> next_write_index (lfq_of S)"
proof -
  obtain S where S: "capacity_step\<^sup>*\<^sup>* (spsc_init 2 (0::nat)) S" "at_consumer S = C_peeked"
    "at_producer S = P_idle" "num_elements (lfq_of S) < q_size (lfq_of S)" by (metis spsc_run)
  with spsc_no_race [OF S(1)] show ?thesis by auto
qed

end
