(* ===== verification/Fifo_Sequencer.thy ===== *)
theory Fifo_Sequencer
  imports Messages Lock_Free_Queue "HOL-Library.Multiset"
begin

text \<open>
  \<open>exchange::FIFOSequencer\<close> (\<open>src/src/include/order_gateway/fifo_sequencer.hpp\<close>): the order server
  collects the requests of one polling round with their receive times, sorts them and publishes
  them to the matching engine.

  \<open>std::sort\<close> is a parameter: the standard promises a sorted permutation and nothing on the order of
  elements that compare equal. The locale \<open>time_sort\<close> states that promise, \<open>sort_key\<close> is one function
  that keeps it, and \<open>sort_newest_first\<close> another, which shows what the promise leaves open.
\<close>

section \<open>State and operations\<close>

definition ME_MAX_PENDING_REQUESTS :: nat where
  "ME_MAX_PENDING_REQUESTS = 1024"

type_synonym Nanos = i64

record RecvTimeClientRequest =
  recv_time :: Nanos
  rt_request :: MEClientRequest

record FIFOSequencer =
  fs_incoming_requests :: "MEClientRequest LockFreeQueue"
  pending_client_requests :: "nat \<Rightarrow> RecvTimeClientRequest"
  pending_size :: nat

definition FIFOSequencer_new :: "MEClientRequest LockFreeQueue \<Rightarrow> FIFOSequencer" where
  "FIFOSequencer_new q =
     \<lparr>fs_incoming_requests = q,
      pending_client_requests = (\<lambda>_. \<lparr>recv_time = I64 0, rt_request = MEClientRequest_default\<rparr>),
      pending_size = 0\<rparr>"

definition AddClientRequest :: "Nanos \<Rightarrow> MEClientRequest \<Rightarrow> FIFOSequencer \<Rightarrow> FIFOSequencer result" where
  "AddClientRequest rx_time request F =
     (if ME_MAX_PENDING_REQUESTS \<le> pending_size F then FATAL ''Too many pending requests''
      else Inr (F\<lparr>pending_client_requests := (pending_client_requests F)
                    (pending_size F := \<lparr>recv_time = rx_time, rt_request = request\<rparr>),
                  pending_size := pending_size F + 1\<rparr>))"

definition pending :: "FIFOSequencer \<Rightarrow> RecvTimeClientRequest list" where
  "pending F = map (pending_client_requests F) [0..<pending_size F]"

text \<open>\<open>srt\<close> is \<open>std::sort\<close> on the filled part of the array.\<close>

definition SequenceAndPublish ::
  "(RecvTimeClientRequest list \<Rightarrow> RecvTimeClientRequest list) \<Rightarrow> FIFOSequencer \<Rightarrow> FIFOSequencer" where
  "SequenceAndPublish srt F =
     (if pending_size F = 0 then F
      else
        (let sorted = srt (pending F);
             F = F\<lparr>pending_client_requests := (\<lambda>i. if i < pending_size F then sorted ! i
                                                 else pending_client_requests F i)\<rparr>;
             F = fold (\<lambda>i F. F\<lparr>fs_incoming_requests :=
                   Enqueue (rt_request (pending_client_requests F i)) (fs_incoming_requests F)\<rparr>)
                   [0..<pending_size F] F
         in F\<lparr>pending_size := 0\<rparr>))"

section \<open>What std::sort promises\<close>

definition std_sort :: "(RecvTimeClientRequest list \<Rightarrow> RecvTimeClientRequest list) \<Rightarrow> bool" where
  "std_sort srt \<longleftrightarrow> (\<forall>xs. sorted (map recv_time (srt xs)) \<and> mset (srt xs) = mset xs)"

locale time_sort =
  fixes srt :: "RecvTimeClientRequest list \<Rightarrow> RecvTimeClientRequest list"
  assumes sorts: "sorted (map recv_time (srt xs))"
    and permutes: "mset (srt xs) = mset xs"
begin

lemma same_length: "length (srt xs) = length xs"
  using permutes by (metis size_mset)

text \<open>With distinct times there is only one sorted permutation.\<close>

lemma distinct_unique: "distinct (map recv_time xs) \<Longrightarrow> srt xs = sort_key recv_time xs"
  by (rule sort_key_inj_key_eq [symmetric]) (simp_all add: sorts permutes distinct_map)

text \<open>Requests that arrived in order are left in order.\<close>

lemma arrival_order: "distinct (map recv_time xs) \<Longrightarrow> sorted (map recv_time xs) \<Longrightarrow> srt xs = xs"
  by (simp add: distinct_unique sorted_sort_id sort_key_id_if_sorted)

end

definition sort_newest_first :: "RecvTimeClientRequest list \<Rightarrow> RecvTimeClientRequest list" where
  "sort_newest_first xs = sort_key recv_time (rev xs)"

interpretation stable: time_sort "sort_key recv_time"
  by unfold_locales simp_all

interpretation newest: time_sort sort_newest_first
  by unfold_locales (simp_all add: sort_newest_first_def)

lemma std_sort_iff: "std_sort srt \<longleftrightarrow> time_sort srt"
  by (auto simp: std_sort_def time_sort_def)

lemmas std_sorts = stable.time_sort_axioms newest.time_sort_axioms

section \<open>What the sequencer does\<close>

lemma pending_AddClientRequest:
  "AddClientRequest t r F = Inr F' \<Longrightarrow> pending F' = pending F @ [\<lparr>recv_time = t, rt_request = r\<rparr>] \<and>
     fs_incoming_requests F' = fs_incoming_requests F"
  by (auto simp: AddClientRequest_def FATAL_def pending_def split: if_splits)

lemma length_pending [simp]: "length (pending F) = pending_size F"
  by (simp add: pending_def)

lemma SequenceAndPublish_queue:
  assumes "length (srt (pending F)) = pending_size F"
  shows "fs_incoming_requests (SequenceAndPublish srt F) =
      fold Enqueue (map rt_request (srt (pending F))) (fs_incoming_requests F)"
    and "pending_size (SequenceAndPublish srt F) = 0" "pending (SequenceAndPublish srt F) = []"
proof -
  have step: "fs_incoming_requests (fold (\<lambda>i F. F\<lparr>fs_incoming_requests :=
        Enqueue (rt_request (pending_client_requests F i)) (fs_incoming_requests F)\<rparr>) is G) =
      fold Enqueue (map (\<lambda>i. rt_request (pending_client_requests G i)) is) (fs_incoming_requests G)" for "is" G
    by (induction "is" arbitrary: G) simp_all
  have "map (\<lambda>i. rt_request (if i < pending_size F then srt (pending F) ! i else pending_client_requests F i))
      [0..<pending_size F] = map rt_request (srt (pending F))"
    using assms by (intro nth_equalityI) simp_all
  then show "fs_incoming_requests (SequenceAndPublish srt F) =
      fold Enqueue (map rt_request (srt (pending F))) (fs_incoming_requests F)"
    using assms by (cases "pending_size F = 0") (simp_all add: SequenceAndPublish_def step cong: map_cong)
  show "pending_size (SequenceAndPublish srt F) = 0" by (simp add: SequenceAndPublish_def)
  then show "pending (SequenceAndPublish srt F) = []" by (simp add: pending_def)
qed

text \<open>The requests of one round, in the order of arrival.\<close>

definition add_requests :: "RecvTimeClientRequest list \<Rightarrow> FIFOSequencer \<Rightarrow> FIFOSequencer result" where
  "add_requests rs F = rfold (\<lambda>r. AddClientRequest (recv_time r) (rt_request r)) rs F"

lemma add_requests_pending:
  "add_requests rs F = Inr F' \<Longrightarrow> pending F' = pending F @ rs \<and> fs_incoming_requests F' = fs_incoming_requests F"
  unfolding add_requests_def
  by (induction rs arbitrary: F) (auto elim!: rbind_eq_InrE dest!: pending_AddClientRequest)

lemma add_requests_ok:
  "succeeds (add_requests rs F) \<longleftrightarrow> rs = [] \<or> pending_size F + length rs \<le> ME_MAX_PENDING_REQUESTS"
  unfolding add_requests_def
  by (induction rs arbitrary: F) (auto simp: AddClientRequest_def FATAL_def)

text \<open>
  C24: Whatever sorted permutation \<open>std::sort\<close> makes, requests received at different times are
  published to the matching engine in the order of their receive times, each exactly once, after
  those that were in the queue already, and nothing is left pending.
\<close>

theorem published_in_time_order:
  assumes "std_sort srt" "distinct (map recv_time rs)" "length rs \<le> ME_MAX_PENDING_REQUESTS"
    and "q_ok q" "length (q_list q) + length rs \<le> q_size q"
  shows "\<exists>F. add_requests rs (FIFOSequencer_new q) = Inr F \<and>
    q_list (fs_incoming_requests (SequenceAndPublish srt F)) =
      q_list q @ map rt_request (sort_key recv_time rs) \<and>
    pending (SequenceAndPublish srt F) = []"
proof -
  have srt: "time_sort srt" using assms(1) by (simp add: std_sort_iff)
  have "succeeds (add_requests rs (FIFOSequencer_new q))"
    using assms(3) by (simp add: add_requests_ok FIFOSequencer_new_def)
  then obtain F where F: "add_requests rs (FIFOSequencer_new q) = Inr F" by (auto simp: succeeds_iff)
  then have p: "pending F = rs" "fs_incoming_requests F = q"
    using add_requests_pending [OF F] by (simp_all add: FIFOSequencer_new_def pending_def)
  then have n: "pending_size F = length rs" by (metis length_pending)
  have "length (srt (pending F)) = pending_size F"
    by (simp add: time_sort.same_length [OF srt])
  note published = SequenceAndPublish_queue [of srt, OF this]
  have "q_list (fold Enqueue (map rt_request (sort_key recv_time rs)) q) =
      q_list q @ map rt_request (sort_key recv_time rs)"
    using lfq.enq_all [OF assms(4)] assms(5) by simp
  with F published show ?thesis
    by (simp add: p time_sort.distinct_unique [OF srt assms(2)])
qed

definition timed :: "int \<Rightarrow> nat \<Rightarrow> RecvTimeClientRequest" where
  "timed t oid = \<lparr>recv_time = I64 (word_of_int t), rt_request = MEClientRequest_default\<lparr>rq_order_id := of_nat oid\<rparr>\<rparr>"

theorem published_in_time_order_witness:
  "\<exists>F. add_requests [timed 30 1, timed 10 2, timed 20 3] (FIFOSequencer_new (LockFreeQueue_new 8 MEClientRequest_default)) = Inr F \<and>
    map rq_order_id (q_list (fs_incoming_requests (SequenceAndPublish sort_newest_first F))) = [2, 3, 1]"
proof -
  let ?rs = "[timed 30 1, timed 10 2, timed 20 3]" and ?q = "LockFreeQueue_new 8 MEClientRequest_default"
  have "std_sort sort_newest_first" using std_sorts by (simp add: std_sort_iff)
  moreover have "distinct (map recv_time ?rs)" by (simp add: timed_def)
  moreover have "length ?rs \<le> ME_MAX_PENDING_REQUESTS" by (simp add: ME_MAX_PENDING_REQUESTS_def)
  moreover have "q_ok ?q" by simp
  moreover have "length (q_list ?q) + length ?rs \<le> q_size ?q" by (simp add: q_new)
  ultimately obtain F where "add_requests ?rs (FIFOSequencer_new ?q) = Inr F"
    "q_list (fs_incoming_requests (SequenceAndPublish sort_newest_first F)) =
      q_list ?q @ map rt_request (sort_key recv_time ?rs)"
    using published_in_time_order by blast
  then show ?thesis by (simp add: timed_def less_eq_i64_def)
qed

text \<open>
  C40: Requests received in the same clock tick have no order of their own: a \<open>std::sort\<close> that keeps
  its promise may publish a client's CANCEL before the NEW it cancels, although the NEW was added
  first. \<open>std::sort\<close> is not stable, so first in first out holds for distinct receive times only.
\<close>

theorem ties_may_be_swapped:
  "\<exists>srt F. std_sort srt \<and>
    add_requests [\<lparr>recv_time = t, rt_request = r1\<rparr>, \<lparr>recv_time = t, rt_request = r2\<rparr>]
      (FIFOSequencer_new (LockFreeQueue_new 8 d)) = Inr F \<and>
    q_list (fs_incoming_requests (SequenceAndPublish srt F)) = [r2, r1]"
proof (intro exI conjI)
  let ?rs = "[\<lparr>recv_time = t, rt_request = r1\<rparr>, \<lparr>recv_time = t, rt_request = r2\<rparr>]"
  let ?F = "FIFOSequencer_new (LockFreeQueue_new 8 d)"
  show "std_sort sort_newest_first" using std_sorts by (simp add: std_sort_iff)
  have "succeeds (add_requests ?rs ?F)"
    by (simp add: add_requests_ok FIFOSequencer_new_def ME_MAX_PENDING_REQUESTS_def)
  then show F: "add_requests ?rs ?F = Inr (projr (add_requests ?rs ?F))" by (auto simp: succeeds_iff)
  let ?G = "projr (add_requests ?rs ?F)"
  have p: "pending ?G = ?rs" "fs_incoming_requests ?G = LockFreeQueue_new 8 d"
    using add_requests_pending [OF F] by (simp_all add: FIFOSequencer_new_def pending_def)
  have "pending_size ?G = 2" using p(1) length_pending [of ?G] by simp
  then have "length (sort_newest_first (pending ?G)) = pending_size ?G"
    by (simp add: p sort_newest_first_def)
  note published = SequenceAndPublish_queue(1) [of sort_newest_first, OF this]
  have "q_list (fold Enqueue [r2, r1] (LockFreeQueue_new 8 d)) = [r2, r1]"
    using lfq.enq_all [of "LockFreeQueue_new 8 d" "[r2, r1]"] by simp
  then show "q_list (fs_incoming_requests (SequenceAndPublish sort_newest_first ?G)) = [r2, r1]"
    by (simp add: published p sort_newest_first_def)
qed

text \<open>
  A polling round holds 1024 requests: with more than that the order server ends the process,
  with no more every request is accepted.
\<close>

theorem round_capacity:
  "succeeds (add_requests rs (FIFOSequencer_new q)) \<longleftrightarrow> length rs \<le> ME_MAX_PENDING_REQUESTS"
  by (auto simp: add_requests_ok FIFOSequencer_new_def)

end
