(* ===== verification/Order_Server.thy ===== *)
theory Order_Server
  imports Tcp_Server Fifo_Sequencer
begin

text \<open>
  \<open>exchange::OrderServer\<close> (\<open>src/src/include/order_gateway/order_server.hpp\<close>,
  \<open>src/src/order_gateway/order_server.cpp\<close>): binds each client id to the connection it first arrives
  on, checks the sequence number of every request, hands accepted requests to the sequencer, and
  writes the matching engine's responses to the clients' connections with numbers of their own.
\<close>

section \<open>State\<close>

record OrderServer =
  outgoing_responses :: "MEClientResponse LockFreeQueue"
  cid_next_outgoing_seq_num :: "nat \<Rightarrow> SeqNum"
  cid_next_exp_seq_num :: "nat \<Rightarrow> SeqNum"
  cid_tcp_socket :: "nat \<Rightarrow> nat option"
  fifo_sequencer :: FIFOSequencer

definition OrderServer_new :: "MEClientRequest LockFreeQueue \<Rightarrow> MEClientResponse LockFreeQueue \<Rightarrow> OrderServer" where
  "OrderServer_new client_requests client_responses =
     \<lparr>outgoing_responses = client_responses, cid_next_outgoing_seq_num = (\<lambda>_. 1),
      cid_next_exp_seq_num = (\<lambda>_. 1), cid_tcp_socket = (\<lambda>_. None),
      fifo_sequencer = FIFOSequencer_new client_requests\<rparr>"

section \<open>Requests\<close>

text \<open>The arrays are indexed with the client id of the message, without a check.\<close>

definition handle_request :: "nat \<Rightarrow> Nanos \<Rightarrow> OMClientRequest \<Rightarrow> OrderServer \<Rightarrow> OrderServer result" where
  "handle_request socket rx_time request S =
     (let c = unat (rq_client_id (omq_request request)) in
      if ME_MAX_NUM_CLIENTS \<le> c then Inl Out_of_bounds
      else
        (let S = (if cid_tcp_socket S c = None then S\<lparr>cid_tcp_socket := (cid_tcp_socket S)(c := Some socket)\<rparr>
                  else S)
         in
         if cid_tcp_socket S c \<noteq> Some socket then Inr S
         else if omq_seq_num request \<noteq> cid_next_exp_seq_num S c then Inr S
         else
           (let S = S\<lparr>cid_next_exp_seq_num :=
                        (cid_next_exp_seq_num S)(c := cid_next_exp_seq_num S c + 1)\<rparr>
            in rbind (AddClientRequest rx_time (omq_request request) (fifo_sequencer S)) (\<lambda>F.
               Inr (S\<lparr>fifo_sequencer := F\<rparr>)))))"

definition OrderServer_RecvCallback ::
  "nat \<Rightarrow> Nanos \<Rightarrow> Socket \<Rightarrow> OrderServer \<Rightarrow> (Socket \<times> OrderServer) result" where
  "OrderServer_RecvCallback socket rx_time =
     recv_messages sizeof_OMClientRequest (\<lambda>bs. handle_request socket rx_time (get_OMClientRequest bs))"

definition RecvFinishedCallback ::
  "(RecvTimeClientRequest list \<Rightarrow> RecvTimeClientRequest list) \<Rightarrow> OrderServer \<Rightarrow> OrderServer" where
  "RecvFinishedCallback srt S = S\<lparr>fifo_sequencer := SequenceAndPublish srt (fifo_sequencer S)\<rparr>"

section \<open>Responses\<close>

text \<open>
  One turn of the response loop, for the response at the front of the queue: the sequence number and
  the response are two writes to the client's connection.
\<close>

definition send_response ::
  "MEClientResponse \<Rightarrow> TCPServer \<Rightarrow> OrderServer \<Rightarrow> (TCPServer \<times> OrderServer) result" where
  "send_response client_response T S =
     (let c = unat (rs_client_id client_response) in
      if ME_MAX_NUM_CLIENTS \<le> c then Inl Out_of_bounds
      else
        (case cid_tcp_socket S c of
           None \<Rightarrow> Inl (Assert_failed (''Dont have a TCPSocket for ClientId:'' @ dec_string c))
         | Some sid \<Rightarrow>
             rbind (TCPSocket_Send (put64 (cid_next_outgoing_seq_num S c)) (ts_sockets T sid)) (\<lambda>s.
             rbind (TCPSocket_Send (put_MEClientResponse client_response) s) (\<lambda>s.
             rbind (UpdateReadIndex (outgoing_responses S)) (\<lambda>q.
             Inr (T\<lparr>ts_sockets := (ts_sockets T)(sid := s)\<rparr>,
                  S\<lparr>outgoing_responses := q,
                    cid_next_outgoing_seq_num :=
                      (cid_next_outgoing_seq_num S)(c := cid_next_outgoing_seq_num S c + 1)\<rparr>))))))"

lemma UpdateReadIndex_smaller:
  "UpdateReadIndex q = Inr q' \<Longrightarrow> num_elements q' < num_elements q"
  by (auto simp: UpdateReadIndex_def result_simps)

function send_responses :: "TCPServer \<Rightarrow> OrderServer \<Rightarrow> (TCPServer \<times> OrderServer) result" where
  "send_responses T S =
     (case GetNextToRead (outgoing_responses S) of
        None \<Rightarrow> Inr (T, S)
      | Some client_response \<Rightarrow>
          (case send_response client_response T S of
             Inl e \<Rightarrow> Inl e
           | Inr (T', S') \<Rightarrow> send_responses T' S'))"
  by pat_completeness auto
termination
  by (relation "measure (\<lambda>(T, S). num_elements (outgoing_responses S))")
    (auto simp: send_response_def result_simps UpdateReadIndex_smaller split: if_splits option.splits)

declare send_responses.simps [simp del]

section \<open>The main loop\<close>

text \<open>One turn of \<open>Run\<close>; the third component is what the sockets hand to the system.\<close>

definition OrderServer_Run_once ::
  "(RecvTimeClientRequest list \<Rightarrow> RecvTimeClientRequest list) \<Rightarrow> epoll_event list \<Rightarrow> accepted_fd list \<Rightarrow>
   (nat \<Rightarrow> (byte list \<times> Nanos) option) \<Rightarrow> (nat \<Rightarrow> (byte list \<times> Nanos) option) \<Rightarrow>
   TCPServer \<Rightarrow> OrderServer \<Rightarrow> (TCPServer \<times> OrderServer \<times> (nat \<times> byte list) list) result" where
  "OrderServer_Run_once srt events accepts rx rx' T S =
     rbind (Poll events accepts T) (\<lambda>T.
     rbind (TCPServer_SendAndRecv OrderServer_RecvCallback (RecvFinishedCallback srt) rx rx' T S) (\<lambda>(T, S, outs).
     rbind (send_responses T S) (\<lambda>(T, S). Inr (T, S, outs))))"

section \<open>What the order server accepts\<close>

text \<open>
  The specification: of the messages on the connection that spoke for a client first, those that
  carry the next number, counted from 1, are accepted, everything else is dropped.
\<close>

fun in_sequence :: "SeqNum \<Rightarrow> OMClientRequest list \<Rightarrow> OMClientRequest list" where
  "in_sequence n [] = []"
| "in_sequence n (r # rs) = (if omq_seq_num r = n then r # in_sequence (n + 1) rs else in_sequence n rs)"

type_synonym request_event = "nat \<times> Nanos \<times> OMClientRequest"

definition event_client :: "request_event \<Rightarrow> ClientId" where
  "event_client e = rq_client_id (omq_request (snd (snd e)))"

definition owner :: "ClientId \<Rightarrow> request_event list \<Rightarrow> nat option" where
  "owner c es = map_option fst (List.find (\<lambda>e. event_client e = c) es)"

definition handle_event_list :: "request_event list \<Rightarrow> OrderServer \<Rightarrow> OrderServer result" where
  "handle_event_list es S = rfold (\<lambda>(sid, t, r). handle_request sid t r) es S"

definition accepted_requests :: "ClientId \<Rightarrow> request_event list \<Rightarrow> OMClientRequest list" where
  "accepted_requests c es =
     in_sequence 1 (map (snd \<circ> snd) (filter (\<lambda>e. event_client e = c \<and> Some (fst e) = owner c es) es))"

lemma in_sequence_append:
  "in_sequence n (xs @ ys) = in_sequence n xs @ in_sequence (n + of_nat (length (in_sequence n xs))) ys"
  by (induction xs arbitrary: n) (simp_all add: algebra_simps)

lemma owner_append: "owner c (es @ [e]) =
    (if owner c es \<noteq> None then owner c es else if event_client e = c then Some (fst e) else None)"
  unfolding owner_def by (induction es) auto

lemma owner_None: "owner c es = None \<Longrightarrow> filter (\<lambda>e. event_client e = c \<and> P e) es = []"
  unfolding owner_def by (auto simp: find_None_iff filter_empty_conv)

lemma accepted_requests_append:
  "accepted_requests c (es @ [e]) = accepted_requests c es @
    (if event_client e = c \<and> Some (fst e) = owner c (es @ [e]) \<and>
        omq_seq_num (snd (snd e)) = 1 + of_nat (length (accepted_requests c es)) then [snd (snd e)] else [])"
proof (cases "owner c es")
  case None
  then show ?thesis by (simp add: accepted_requests_def owner_None)
next
  case (Some sid)
  then show ?thesis
    by (auto simp: accepted_requests_def owner_append in_sequence_append)
qed

text \<open>The state after a list of events.\<close>

definition server_state :: "OrderServer \<Rightarrow> request_event list \<Rightarrow> OrderServer \<Rightarrow> bool" where
  "server_state S0 es S \<longleftrightarrow>
     (\<forall>c. unat c < ME_MAX_NUM_CLIENTS \<longrightarrow>
        cid_tcp_socket S (unat c) = owner c es \<and>
        cid_next_exp_seq_num S (unat c) = 1 + of_nat (length (accepted_requests c es)) \<and>
        filter (\<lambda>r. rq_client_id r = c) (map rt_request (pending (fifo_sequencer S))) =
          map omq_request (accepted_requests c es)) \<and>
     outgoing_responses S = outgoing_responses S0 \<and>
     cid_next_outgoing_seq_num S = cid_next_outgoing_seq_num S0 \<and>
     fs_incoming_requests (fifo_sequencer S) = fs_incoming_requests (fifo_sequencer S0)"

lemma handle_request_cases:
  assumes "handle_request sid t r S = Inr S'"
  defines "c \<equiv> unat (rq_client_id (omq_request r))"
  shows "c < ME_MAX_NUM_CLIENTS"
    and "cid_tcp_socket S' = (if cid_tcp_socket S c = None then (cid_tcp_socket S)(c := Some sid) else cid_tcp_socket S)"
    and "outgoing_responses S' = outgoing_responses S"
    and "cid_next_outgoing_seq_num S' = cid_next_outgoing_seq_num S"
    and "fs_incoming_requests (fifo_sequencer S') = fs_incoming_requests (fifo_sequencer S)"
    and "if cid_tcp_socket S' c = Some sid \<and> omq_seq_num r = cid_next_exp_seq_num S c
      then cid_next_exp_seq_num S' = (cid_next_exp_seq_num S)(c := cid_next_exp_seq_num S c + 1) \<and>
        pending (fifo_sequencer S') = pending (fifo_sequencer S) @ [\<lparr>recv_time = t, rt_request = omq_request r\<rparr>]
      else cid_next_exp_seq_num S' = cid_next_exp_seq_num S \<and> fifo_sequencer S' = fifo_sequencer S"
  using assms
  by (auto simp: handle_request_def result_simps dest: pending_AddClientRequest split: if_splits)

lemma handle_request_state:
  assumes "server_state S0 es S" "handle_request sid t r S = Inr S'"
  shows "server_state S0 (es @ [(sid, t, r)]) S'"
proof -
  let ?c = "rq_client_id (omq_request r)" and ?e = "(sid, t, r)"
  note step = handle_request_cases [OF assms(2)]
  have S: "cid_tcp_socket S (unat c) = owner c es"
    "cid_next_exp_seq_num S (unat c) = 1 + of_nat (length (accepted_requests c es))"
    "filter (\<lambda>r. rq_client_id r = c) (map rt_request (pending (fifo_sequencer S))) =
      map omq_request (accepted_requests c es)" if "unat c < ME_MAX_NUM_CLIENTS" for c
    using assms(1) that by (simp_all add: server_state_def)
  have owner': "cid_tcp_socket S' (unat c) = owner c (es @ [?e])" if "unat c < ME_MAX_NUM_CLIENTS" for c
    using step(2) S(1) [OF that] S(1) [OF step(1)]
    by (auto simp: owner_append event_client_def word_unat_eq_iff)
  have acc: "accepted_requests c (es @ [?e]) = accepted_requests c es @
      (if c = ?c \<and> cid_tcp_socket S' (unat ?c) = Some sid \<and> omq_seq_num r = cid_next_exp_seq_num S (unat ?c)
       then [r] else [])" for c
    using owner' [OF step(1)] S(2) [OF step(1)]
    by (auto simp: accepted_requests_append event_client_def)
  show ?thesis
    unfolding server_state_def
  proof (intro conjI allI impI)
    fix c :: ClientId assume c: "unat c < ME_MAX_NUM_CLIENTS"
    show "cid_tcp_socket S' (unat c) = owner c (es @ [?e])" by (rule owner' [OF c])
    show "cid_next_exp_seq_num S' (unat c) = 1 + of_nat (length (accepted_requests c (es @ [?e])))"
      using step(6) S(2) [OF c] unfolding acc by (auto simp: word_unat_eq_iff [of c] split: if_splits)
    show "filter (\<lambda>r. rq_client_id r = c) (map rt_request (pending (fifo_sequencer S'))) =
        map omq_request (accepted_requests c (es @ [?e]))"
      using step(6) S(3) [OF c] unfolding acc by (auto split: if_splits)
  qed (use assms(1) step in \<open>simp_all add: server_state_def\<close>)
qed

lemma handle_event_list_state:
  "handle_event_list es S = Inr S' \<Longrightarrow> server_state S0 es0 S \<Longrightarrow> server_state S0 (es0 @ es) S'"
proof (induction es arbitrary: S es0)
  case (Cons e es)
  obtain sid t r where e: "e = (sid, t, r)" by (cases e)
  from Cons.prems(1) obtain V where V: "handle_request sid t r S = Inr V" "handle_event_list es V = Inr S'"
    by (auto simp: handle_event_list_def e elim: rbind_eq_InrE)
  from Cons.IH [OF V(2) handle_request_state [OF Cons.prems(2) V(1)]] show ?case by (simp add: e)
qed (simp add: handle_event_list_def)

lemma server_state_new: "server_state (OrderServer_new rq rs) [] (OrderServer_new rq rs)"
  by (simp add: server_state_def OrderServer_new_def owner_def accepted_requests_def FIFOSequencer_new_def pending_def)

section \<open>What the order server sends\<close>

fun number_responses :: "(nat \<Rightarrow> SeqNum) \<Rightarrow> MEClientResponse list \<Rightarrow> OMClientResponse list" where
  "number_responses seqs [] = []"
| "number_responses seqs (r # rs) =
     (let c = unat (rs_client_id r) in
      \<lparr>oms_seq_num = seqs c, oms_response = r\<rparr> # number_responses (seqs(c := seqs c + 1)) rs)"

definition connection_of :: "OrderServer \<Rightarrow> MEClientResponse \<Rightarrow> nat option" where
  "connection_of S r = cid_tcp_socket S (unat (rs_client_id r))"

definition sent_on :: "OrderServer \<Rightarrow> MEClientResponse list \<Rightarrow> nat \<Rightarrow> byte list" where
  "sent_on S rs sid = concat (map put_OMClientResponse
     (filter (\<lambda>m. connection_of S (oms_response m) = Some sid)
       (number_responses (cid_next_outgoing_seq_num S) rs)))"

lemma length_number_responses [simp]: "length (number_responses seqs rs) = length rs"
  by (induction rs arbitrary: seqs) (simp_all add: Let_def)

lemma send_response_ok:
  assumes "q_ok (outgoing_responses S)" "q_list (outgoing_responses S) = r # rs"
    and "unat (rs_client_id r) < ME_MAX_NUM_CLIENTS" "connection_of S r = Some sid"
    and "length (outbound_data (ts_sockets T sid)) + sizeof_OMClientResponse \<le> TCP_BUFFER_SIZE"
  defines "c \<equiv> unat (rs_client_id r)"
  obtains q where "q_ok q" "q_list q = rs" "send_response r T S =
      Inr (T\<lparr>ts_sockets := (ts_sockets T)(sid := (ts_sockets T sid)\<lparr>outbound_data :=
              outbound_data (ts_sockets T sid) @
              put_OMClientResponse \<lparr>oms_seq_num = cid_next_outgoing_seq_num S c, oms_response = r\<rparr>\<rparr>)\<rparr>,
           S\<lparr>outgoing_responses := q, cid_next_outgoing_seq_num :=
               (cid_next_outgoing_seq_num S)(c := cid_next_outgoing_seq_num S c + 1)\<rparr>)"
proof -
  obtain q where q: "UpdateReadIndex (outgoing_responses S) = Inr q" "q_ok q" "q_list q = rs"
    using UpdateReadIndex_ok [OF assms(1,2)] by auto
  have len: "length (put64 n @ put_MEClientResponse r) = sizeof_OMClientResponse" for n
    using om_response.enc_length [of "\<lparr>oms_seq_num = n, oms_response = r\<rparr>"]
    by (simp add: put_OMClientResponse_def)
  have "length (outbound_data (ts_sockets T sid)) + (8 + length (put_MEClientResponse r)) \<le> TCP_BUFFER_SIZE"
    using assms(5) len [of 0] by simp
  then show ?thesis
    using that [OF q(2,3)] assms(3,4) q(1)
    by (simp add: send_response_def connection_of_def TCPSocket_Send_def put_OMClientResponse_def
        c_def [symmetric] fun_upd_def)
qed

lemma send_responses_ok:
  assumes "q_ok (outgoing_responses S)" "q_list (outgoing_responses S) = rs"
    and "\<forall>r\<in>set rs. unat (rs_client_id r) < ME_MAX_NUM_CLIENTS \<and> connection_of S r \<noteq> None"
    and "\<forall>sid. length (outbound_data (ts_sockets T sid)) + length (sent_on S rs sid) \<le> TCP_BUFFER_SIZE"
  shows "\<exists>T' S'. send_responses T S = Inr (T', S') \<and> q_ok (outgoing_responses S') \<and>
    q_list (outgoing_responses S') = [] \<and> cid_tcp_socket S' = cid_tcp_socket S \<and>
    cid_next_exp_seq_num S' = cid_next_exp_seq_num S \<and> fifo_sequencer S' = fifo_sequencer S \<and>
    (\<forall>c. cid_next_outgoing_seq_num S' c = cid_next_outgoing_seq_num S c +
      of_nat (length (filter (\<lambda>r. unat (rs_client_id r) = c) rs))) \<and>
    (\<forall>sid. ts_sockets T' sid = (ts_sockets T sid)\<lparr>outbound_data :=
      outbound_data (ts_sockets T sid) @ sent_on S rs sid\<rparr>) \<and>
    receive_sockets T' = receive_sockets T \<and> send_sockets T' = send_sockets T \<and> ts_count T' = ts_count T"
  using assms
proof (induction rs arbitrary: T S)
  case Nil
  then have "GetNextToRead (outgoing_responses S) = None" by (simp add: GetNextToRead_list)
  with Nil show ?case by (simp add: send_responses.simps [of T S] sent_on_def)
next
  case (Cons r rs)
  let ?c = "unat (rs_client_id r)" and ?n = "cid_next_outgoing_seq_num S"
  let ?m = "\<lparr>oms_seq_num = ?n ?c, oms_response = r\<rparr>"
  obtain sid where sid: "connection_of S r = Some sid" using Cons.prems(3) by auto
  let ?s = "(ts_sockets T sid)\<lparr>outbound_data := outbound_data (ts_sockets T sid) @ put_OMClientResponse ?m\<rparr>"
  let ?T = "T\<lparr>ts_sockets := (ts_sockets T)(sid := ?s)\<rparr>"
  have sent: "sent_on S (r # rs) i = (if i = sid then put_OMClientResponse ?m else []) @
      sent_on (S\<lparr>outgoing_responses := q, cid_next_outgoing_seq_num := ?n(?c := ?n ?c + 1)\<rparr>) rs i" for i q
    using sid by (auto simp: sent_on_def Let_def connection_of_def)
  have room: "length (outbound_data (ts_sockets T sid)) + sizeof_OMClientResponse \<le> TCP_BUFFER_SIZE"
    using spec [OF Cons.prems(4), of sid] by (simp add: sent [of sid "outgoing_responses S"])
  obtain q where q: "q_ok q" "q_list q = rs" "send_response r T S =
      Inr (?T, S\<lparr>outgoing_responses := q, cid_next_outgoing_seq_num := ?n(?c := ?n ?c + 1)\<rparr>)"
    using send_response_ok [OF Cons.prems(1,2) _ sid room] Cons.prems(3) by auto
  let ?S = "S\<lparr>outgoing_responses := q, cid_next_outgoing_seq_num := ?n(?c := ?n ?c + 1)\<rparr>"
  have "GetNextToRead (outgoing_responses S) = Some r"
    using Cons.prems(1,2) by (simp add: GetNextToRead_list)
  then have run: "send_responses T S = send_responses ?T ?S"
    by (simp add: send_responses.simps [of T S] q(3))
  have prem: "\<forall>r\<in>set rs. unat (rs_client_id r) < ME_MAX_NUM_CLIENTS \<and> connection_of ?S r \<noteq> None"
    "\<forall>i. length (outbound_data (ts_sockets ?T i)) + length (sent_on ?S rs i) \<le> TCP_BUFFER_SIZE"
  proof -
    show "\<forall>i. length (outbound_data (ts_sockets ?T i)) + length (sent_on ?S rs i) \<le> TCP_BUFFER_SIZE"
    proof
      fix i show "length (outbound_data (ts_sockets ?T i)) + length (sent_on ?S rs i) \<le> TCP_BUFFER_SIZE"
        using spec [OF Cons.prems(4), of i] unfolding sent [of i q] by (cases "i = sid") (simp_all add: add.assoc)
    qed
  qed (use Cons.prems(3) in \<open>simp add: connection_of_def\<close>)
  obtain T' S' where res: "send_responses ?T ?S = Inr (T', S')" and
    q': "q_ok (outgoing_responses S')" "q_list (outgoing_responses S') = []" and
    same: "cid_tcp_socket S' = cid_tcp_socket ?S" "cid_next_exp_seq_num S' = cid_next_exp_seq_num ?S"
      "fifo_sequencer S' = fifo_sequencer ?S" "receive_sockets T' = receive_sockets ?T"
      "send_sockets T' = send_sockets ?T" "ts_count T' = ts_count ?T" and
    seqs: "\<forall>c. cid_next_outgoing_seq_num S' c = cid_next_outgoing_seq_num ?S c +
      of_nat (length (filter (\<lambda>r. unat (rs_client_id r) = c) rs))" and
    out: "\<forall>i. ts_sockets T' i = (ts_sockets ?T i)\<lparr>outbound_data :=
      outbound_data (ts_sockets ?T i) @ sent_on ?S rs i\<rparr>"
    using Cons.IH [of ?S ?T, OF _ _ prem] q(1,2) by auto
  show ?case
  proof (intro exI conjI allI)
    show "send_responses T S = Inr (T', S')" using run res by simp
    fix i show "ts_sockets T' i = (ts_sockets T i)\<lparr>outbound_data :=
        outbound_data (ts_sockets T i) @ sent_on S (r # rs) i\<rparr>"
      using out sent [of i q] by auto
  next
    fix c show "cid_next_outgoing_seq_num S' c = ?n c +
        of_nat (length (filter (\<lambda>r. unat (rs_client_id r) = c) (r # rs)))"
      using seqs by auto
  qed (use q' same in simp_all)
qed

section \<open>Properties\<close>

lemma in_sequence_numbers:
  "map omq_seq_num (in_sequence n rs) = map (\<lambda>i. n + of_nat i) [0..<length (in_sequence n rs)]"
proof (induction rs arbitrary: n)
  case (Cons r rs)
  then show ?case
    by (auto simp: upt_conv_Cons map_Suc_upt [symmetric] algebra_simps simp del: upt_Suc)
qed simp

text \<open>
  C20: After any messages on any connections, in any interleaving, the requests a client has pending
  are those of the connection that first spoke for it, that carry the numbers 1, 2, 3, ... in order:
  each number is accepted once, and what is out of order or comes from another connection is dropped.
\<close>

theorem requests_accepted_in_sequence:
  assumes "handle_event_list es (OrderServer_new rq rs) = Inr S" "unat c < ME_MAX_NUM_CLIENTS"
  shows "filter (\<lambda>r. rq_client_id r = c) (map rt_request (pending (fifo_sequencer S))) =
      map omq_request (accepted_requests c es) \<and>
    map omq_seq_num (accepted_requests c es) =
      map (\<lambda>i. 1 + of_nat i) [0..<length (accepted_requests c es)] \<and>
    cid_tcp_socket S (unat c) = owner c es"
  using handle_event_list_state [OF assms(1) server_state_new] assms(2)
  by (simp add: server_state_def accepted_requests_def in_sequence_numbers)

definition numbered_request :: "nat \<Rightarrow> nat \<Rightarrow> nat \<Rightarrow> OMClientRequest" where
  "numbered_request c n oid = \<lparr>omq_seq_num = of_nat n, omq_request =
     MEClientRequest_default\<lparr>rq_client_id := of_nat c, rq_order_id := of_nat oid\<rparr>\<rparr>"

theorem requests_accepted_in_sequence_witness:
  "\<exists>S. handle_event_list [(1, I64 0, numbered_request 5 1 10), (2, I64 0, numbered_request 5 2 11),
      (1, I64 0, numbered_request 5 1 12), (1, I64 0, numbered_request 5 2 13)]
      (OrderServer_new (LockFreeQueue_new 8 MEClientRequest_default) (LockFreeQueue_new 8 MEClientResponse_default)) = Inr S \<and>
    map rq_order_id (filter (\<lambda>r. rq_client_id r = 5) (map rt_request (pending (fifo_sequencer S)))) = [10, 13]"
proof -
  let ?es = "[(1, I64 0, numbered_request 5 1 10), (2, I64 0, numbered_request 5 2 11),
      (1, I64 0, numbered_request 5 1 12), (1, I64 0, numbered_request 5 2 13)]"
  let ?S = "OrderServer_new (LockFreeQueue_new 8 MEClientRequest_default) (LockFreeQueue_new 8 MEClientResponse_default)"
  have "succeeds (handle_event_list ?es ?S)"
    by (simp add: handle_event_list_def handle_request_def numbered_request_def OrderServer_new_def
        FIFOSequencer_new_def AddClientRequest_def ME_MAX_PENDING_REQUESTS_def ME_MAX_NUM_CLIENTS_def)
  then obtain S where S: "handle_event_list ?es ?S = Inr S" by (auto simp: succeeds_iff)
  have "unat (5 :: ClientId) < ME_MAX_NUM_CLIENTS" by (simp add: ME_MAX_NUM_CLIENTS_def)
  from requests_accepted_in_sequence [OF S this] S show ?thesis
    by (auto simp: accepted_requests_def owner_def event_client_def numbered_request_def)
qed

text \<open>
  A message whose client id is not below 256 makes the order server index its arrays out of
  bounds: nothing checks an id that comes from the network.
\<close>

theorem client_id_unchecked:
  "unat (rq_client_id (omq_request r)) \<ge> ME_MAX_NUM_CLIENTS \<longleftrightarrow>
    handle_request sid t r (OrderServer_new rq rs) = Inl Out_of_bounds"
  by (auto simp: handle_request_def OrderServer_new_def AddClientRequest_def FIFOSequencer_new_def
      ME_MAX_PENDING_REQUESTS_def)

end
