(* ===== verification/Gateway_Client.thy ===== *)
theory Gateway_Client
  imports Order_Server
begin

text \<open>
  \<open>trading::GatewayClient\<close> (\<open>src/src/include/order_gateway/gateway_client.hpp\<close>,
  \<open>src/src/order_gateway/gateway_client.cpp\<close>): the client's end of the connection to the order server.
  It numbers the requests of the trading engine and writes them to its socket, and it checks client
  id and number of the responses before it hands them on. The end of the theory puts both ends of
  a connection together, with a network that cuts the stream anywhere.
\<close>

section \<open>State and operations\<close>

record GatewayClient =
  CLIENT_ID :: ClientId
  gc_outgoing_requests :: "MEClientRequest LockFreeQueue"
  gc_incoming_responses :: "MEClientResponse LockFreeQueue"
  gc_next_outgoing_seq_num :: SeqNum
  gc_next_exp_seq_num :: SeqNum
  gc_tcp_socket :: Socket

definition GatewayClient_new ::
  "ClientId \<Rightarrow> MEClientRequest LockFreeQueue \<Rightarrow> MEClientResponse LockFreeQueue \<Rightarrow> GatewayClient" where
  "GatewayClient_new client_id client_requests client_responses =
     \<lparr>CLIENT_ID = client_id, gc_outgoing_requests = client_requests,
      gc_incoming_responses = client_responses, gc_next_outgoing_seq_num = 1,
      gc_next_exp_seq_num = 1, gc_tcp_socket = Socket_new\<rparr>"

definition handle_response :: "OMClientResponse \<Rightarrow> GatewayClient \<Rightarrow> GatewayClient result" where
  "handle_response response G =
     (if rs_client_id (oms_response response) \<noteq> CLIENT_ID G then Inr G
      else if oms_seq_num response \<noteq> gc_next_exp_seq_num G then Inr G
      else Inr (G\<lparr>gc_next_exp_seq_num := gc_next_exp_seq_num G + 1,
                  gc_incoming_responses := Enqueue (oms_response response) (gc_incoming_responses G)\<rparr>))"

definition GatewayClient_RecvCallback :: "Nanos \<Rightarrow> Socket \<Rightarrow> GatewayClient \<Rightarrow> (Socket \<times> GatewayClient) result" where
  "GatewayClient_RecvCallback rx_time =
     recv_messages sizeof_OMClientResponse (\<lambda>bs. handle_response (get_OMClientResponse bs))"

definition send_request :: "MEClientRequest \<Rightarrow> GatewayClient \<Rightarrow> GatewayClient result" where
  "send_request client_request G =
     rbind (TCPSocket_Send (put64 (gc_next_outgoing_seq_num G)) (gc_tcp_socket G)) (\<lambda>s.
     rbind (TCPSocket_Send (put_MEClientRequest client_request) s) (\<lambda>s.
     rbind (UpdateReadIndex (gc_outgoing_requests G)) (\<lambda>q.
     Inr (G\<lparr>gc_tcp_socket := s, gc_outgoing_requests := q,
            gc_next_outgoing_seq_num := gc_next_outgoing_seq_num G + 1\<rparr>))))"

function send_requests :: "GatewayClient \<Rightarrow> GatewayClient result" where
  "send_requests G =
     (case GetNextToRead (gc_outgoing_requests G) of
        None \<Rightarrow> Inr G
      | Some client_request \<Rightarrow>
          (case send_request client_request G of Inl e \<Rightarrow> Inl e | Inr G' \<Rightarrow> send_requests G'))"
  by pat_completeness auto
termination
  by (relation "measure (\<lambda>G. num_elements (gc_outgoing_requests G))")
    (auto simp: send_request_def result_simps UpdateReadIndex_smaller)

declare send_requests.simps [simp del]

text \<open>One turn of \<open>Run\<close>, with the bytes the socket hands to the system.\<close>

definition GatewayClient_Run_once ::
  "(byte list \<times> Nanos) option \<Rightarrow> GatewayClient \<Rightarrow> (GatewayClient \<times> byte list) result" where
  "GatewayClient_Run_once rx G =
     rbind (TCPSocket_SendAndRecv GatewayClient_RecvCallback rx (gc_tcp_socket G) G) (\<lambda>(s, G, sent, _).
     rbind (send_requests (G\<lparr>gc_tcp_socket := s\<rparr>)) (\<lambda>G. Inr (G, sent)))"

section \<open>Consecutive numbers\<close>

definition number_requests :: "SeqNum \<Rightarrow> MEClientRequest list \<Rightarrow> OMClientRequest list" where
  "number_requests n rs = map (\<lambda>i. \<lparr>omq_seq_num = n + of_nat i, omq_request = rs ! i\<rparr>) [0..<length rs]"

definition number_own :: "SeqNum \<Rightarrow> MEClientResponse list \<Rightarrow> OMClientResponse list" where
  "number_own n rs = map (\<lambda>i. \<lparr>oms_seq_num = n + of_nat i, oms_response = rs ! i\<rparr>) [0..<length rs]"

lemma number_requests_simps [simp]:
  "number_requests n [] = []"
  "number_requests n (r # rs) = \<lparr>omq_seq_num = n, omq_request = r\<rparr> # number_requests (n + 1) rs"
  by (simp_all add: number_requests_def upt_conv_Cons map_Suc_upt [symmetric] algebra_simps del: upt_Suc)

lemma number_own_simps [simp]:
  "number_own n [] = []"
  "number_own n (r # rs) = \<lparr>oms_seq_num = n, oms_response = r\<rparr> # number_own (n + 1) rs"
  by (simp_all add: number_own_def upt_conv_Cons map_Suc_upt [symmetric] algebra_simps del: upt_Suc)

lemma length_numbers [simp]: "length (number_requests n rs) = length rs" "length (number_own n ss) = length ss"
  by (simp_all add: number_requests_def number_own_def)

lemma set_number_own: "m \<in> set (number_own n rs) \<Longrightarrow> oms_response m \<in> set rs"
  by (induction rs arbitrary: n) auto

lemma own_of_numbered:
  "filter (\<lambda>m. unat (rs_client_id (oms_response m)) = c) (number_responses seqs rs) =
    number_own (seqs c) (filter (\<lambda>r. unat (rs_client_id r) = c) rs)"
  by (induction rs arbitrary: seqs) (auto simp: Let_def)

section \<open>Client to server\<close>

lemma send_requests_ok:
  assumes "q_ok (gc_outgoing_requests G)" "q_list (gc_outgoing_requests G) = rs"
    and "length (outbound_data (gc_tcp_socket G)) + sizeof_OMClientRequest * length rs \<le> TCP_BUFFER_SIZE"
  shows "\<exists>q. send_requests G = Inr (G\<lparr>gc_outgoing_requests := q,
      gc_next_outgoing_seq_num := gc_next_outgoing_seq_num G + of_nat (length rs),
      gc_tcp_socket := (gc_tcp_socket G)\<lparr>outbound_data := outbound_data (gc_tcp_socket G) @
        concat (map put_OMClientRequest (number_requests (gc_next_outgoing_seq_num G) rs))\<rparr>\<rparr>) \<and>
    q_ok q \<and> q_list q = []"
  using assms
proof (induction rs arbitrary: G)
  case Nil
  then have "GetNextToRead (gc_outgoing_requests G) = None" by (simp add: GetNextToRead_list)
  with Nil show ?case by (intro exI [of _ "gc_outgoing_requests G"]) (simp add: send_requests.simps [of G])
next
  case (Cons r rs)
  obtain q where q: "UpdateReadIndex (gc_outgoing_requests G) = Inr q" "q_ok q" "q_list q = rs"
    using UpdateReadIndex_ok [OF Cons.prems(1,2)] by auto
  let ?n = "gc_next_outgoing_seq_num G" and ?s = "gc_tcp_socket G"
  let ?m = "\<lparr>omq_seq_num = ?n, omq_request = r\<rparr>"
  have "length (put64 ?n @ put_MEClientRequest r) = sizeof_OMClientRequest"
    using om_request.enc_length [of ?m] by (simp add: put_OMClientRequest_def)
  then have len: "8 + length (put_MEClientRequest r) = sizeof_OMClientRequest" by simp
  let ?G = "G\<lparr>gc_tcp_socket := ?s\<lparr>outbound_data := outbound_data ?s @ put_OMClientRequest ?m\<rparr>,
    gc_outgoing_requests := q, gc_next_outgoing_seq_num := ?n + 1\<rparr>"
  have "send_request r G = Inr ?G"
    using Cons.prems(3) len q(1)
    by (simp add: send_request_def TCPSocket_Send_def put_OMClientRequest_def)
  moreover have "GetNextToRead (gc_outgoing_requests G) = Some r"
    using Cons.prems(1,2) by (simp add: GetNextToRead_list)
  ultimately have run: "send_requests G = send_requests ?G"
    by (simp add: send_requests.simps [of G])
  have "length (outbound_data (gc_tcp_socket ?G)) + sizeof_OMClientRequest * length rs \<le> TCP_BUFFER_SIZE"
    using Cons.prems(3) by simp
  from Cons.IH [of ?G, OF _ _ this] q obtain q' where
    "send_requests ?G = Inr (?G\<lparr>gc_outgoing_requests := q',
      gc_next_outgoing_seq_num := ?n + 1 + of_nat (length rs),
      gc_tcp_socket := (gc_tcp_socket ?G)\<lparr>outbound_data := outbound_data (gc_tcp_socket ?G) @
        concat (map put_OMClientRequest (number_requests (?n + 1) rs))\<rparr>\<rparr>)" "q_ok q'" "q_list q' = []"
    by auto
  then show ?case using run by (intro exI [of _ q']) (simp add: algebra_simps)
qed

text \<open>One message of a stream at the order server, and the whole stream.\<close>

definition stream_state :: "OrderServer \<Rightarrow> nat \<Rightarrow> nat \<Rightarrow> MEClientRequest list \<Rightarrow> OrderServer \<Rightarrow> bool" where
  "stream_state S0 sid c rs S \<longleftrightarrow>
     (cid_tcp_socket S c = Some sid \<or> rs = [] \<and> cid_tcp_socket S c = None) \<and>
     cid_next_exp_seq_num S c = cid_next_exp_seq_num S0 c + of_nat (length rs) \<and>
     map rt_request (pending (fifo_sequencer S)) = map rt_request (pending (fifo_sequencer S0)) @ rs"

lemma stream_step:
  assumes "stream_state S0 sid c rs S" "unat (rq_client_id r) = c" "c < ME_MAX_NUM_CLIENTS"
    and "pending_size (fifo_sequencer S0) + length rs < ME_MAX_PENDING_REQUESTS"
  shows "\<exists>S'. handle_request sid t \<lparr>omq_seq_num = cid_next_exp_seq_num S0 c + of_nat (length rs), omq_request = r\<rparr> S =
      Inr S' \<and> stream_state S0 sid c (rs @ [r]) S'"
proof -
  let ?m = "\<lparr>omq_seq_num = cid_next_exp_seq_num S0 c + of_nat (length rs), omq_request = r\<rparr>"
  have "length (pending (fifo_sequencer S)) = length (pending (fifo_sequencer S0)) + length rs"
    using assms(1) unfolding stream_state_def by (metis length_append length_map)
  then have n: "pending_size (fifo_sequencer S) < ME_MAX_PENDING_REQUESTS" using assms(4) by simp
  then have "succeeds (handle_request sid t ?m S)"
    using assms(2,3) by (simp add: handle_request_def AddClientRequest_def)
  then obtain S' where S': "handle_request sid t ?m S = Inr S'" by (auto simp: succeeds_iff)
  note step = handle_request_cases [OF S']
  have "cid_tcp_socket S' c = Some sid" using step(2) assms(1,2) by (auto simp: stream_state_def)
  with step(6) assms(1,2) show ?thesis using S' by (auto simp: stream_state_def algebra_simps)
qed

text \<open>The segments arrive on one connection, each followed by the receive callback.\<close>

definition connection_receives ::
  "nat \<Rightarrow> (byte list \<times> Nanos) list \<Rightarrow> Socket \<times> OrderServer \<Rightarrow> (Socket \<times> OrderServer) result" where
  "connection_receives sid segs =
     rfold (\<lambda>(bytes, t) (s, S). OrderServer_RecvCallback sid t
       (s\<lparr>inbound_data := inbound_data s @ bytes\<rparr>) S) segs"

lemma connection_receives_eq:
  "connection_receives sid segs sS =
    receive_all sizeof_OMClientRequest (\<lambda>t bs. handle_request sid t (get_OMClientRequest bs)) segs sS"
  by (simp add: connection_receives_def receive_all_def receive_def [abs_def] OrderServer_RecvCallback_def split_def)

lemma stream_accepted:
  assumes "\<forall>r\<in>set rs. unat (rq_client_id r) = c" "c < ME_MAX_NUM_CLIENTS"
    and "\<forall>m\<in>set (number_requests n rs). request_ok m" "n = cid_next_exp_seq_num S c"
    and "cid_tcp_socket S c = None \<or> cid_tcp_socket S c = Some sid"
    and "pending_size (fifo_sequencer S) + length rs \<le> ME_MAX_PENDING_REQUESTS"
    and "inbound_data s = []" "concat (map fst segs) = concat (map put_OMClientRequest (number_requests n rs))"
  shows "\<exists>S'. connection_receives sid segs (s, S) = Inr (s, S') \<and> stream_state S sid c rs S'"
proof -
  let ?ms = "number_requests n rs"
  have s: "s\<lparr>inbound_data := []\<rparr> = s" using assms(7) by simp
  have "\<exists>S'. receive_all sizeof_OMClientRequest (\<lambda>t bs. handle_request sid t (get_OMClientRequest bs)) segs (s, S) =
      Inr (s\<lparr>inbound_data := []\<rparr>, S') \<and> stream_state S sid c (take (length ?ms) rs) S'"
  proof (rule om_request.receive_segments)
    fix k V t assume k: "k < length ?ms" and V: "stream_state S sid c (take k rs) V"
    then have "?ms ! k = \<lparr>omq_seq_num = n + of_nat k, omq_request = rs ! k\<rparr>"
      by (simp add: number_requests_def)
    moreover have "request_ok (?ms ! k)" using assms(3) k by simp
    moreover have "unat (rq_client_id (rs ! k)) = c" using assms(1) k by simp
    ultimately show "\<exists>V'. handle_request sid t (get_OMClientRequest (put_OMClientRequest (?ms ! k))) V = Inr V' \<and>
        stream_state S sid c (take (Suc k) rs) V'"
      using stream_step [OF V _ assms(2), of "rs ! k" t] k assms(4,6)
      by (simp add: get_put_OMClientRequest take_Suc_conv_app_nth)
  qed (use assms in \<open>auto simp: stream_state_def\<close>)
  then show ?thesis unfolding connection_receives_eq s by simp
qed

text \<open>
  C17: The requests a client's trading engine queues reach the order server's sequencer: written by
  the gateway client, cut into any segments by the network and received on one connection, every
  one of them is accepted, in order, once.
\<close>

theorem requests_reach_sequencer:
  assumes "q_ok (gc_outgoing_requests G)" "q_list (gc_outgoing_requests G) = rs"
    and "outbound_data (gc_tcp_socket G) = []" "sizeof_OMClientRequest * length rs \<le> TCP_BUFFER_SIZE"
    and "\<forall>r\<in>set rs. rq_client_id r = CLIENT_ID G \<and> ClientRequestType_ok (rq_type r) \<and> Side_ok (rq_side r)"
    and "unat (CLIENT_ID G) < ME_MAX_NUM_CLIENTS"
    and "gc_next_outgoing_seq_num G = cid_next_exp_seq_num S (unat (CLIENT_ID G))"
    and "cid_tcp_socket S (unat (CLIENT_ID G)) = None \<or> cid_tcp_socket S (unat (CLIENT_ID G)) = Some sid"
    and "pending_size (fifo_sequencer S) + length rs \<le> ME_MAX_PENDING_REQUESTS" "inbound_data s = []"
  shows "\<exists>G'. send_requests G = Inr G' \<and> q_list (gc_outgoing_requests G') = [] \<and>
    (\<forall>segs. concat (map fst segs) = outbound_data (gc_tcp_socket G') \<longrightarrow>
      (\<exists>S'. connection_receives sid segs (s, S) = Inr (s, S') \<and>
        map rt_request (pending (fifo_sequencer S')) = map rt_request (pending (fifo_sequencer S)) @ rs \<and>
        cid_next_exp_seq_num S' (unat (CLIENT_ID G)) = gc_next_outgoing_seq_num G'))"
proof -
  let ?c = "unat (CLIENT_ID G)" and ?n = "gc_next_outgoing_seq_num G"
  obtain G' where G': "send_requests G = Inr G'" "q_list (gc_outgoing_requests G') = []"
    "outbound_data (gc_tcp_socket G') = concat (map put_OMClientRequest (number_requests ?n rs))"
    "gc_next_outgoing_seq_num G' = ?n + of_nat (length rs)"
    using send_requests_ok [OF assms(1,2)] assms(3,4) by auto
  have ok: "\<forall>m\<in>set (number_requests ?n rs). request_ok m"
    using assms(5) by (auto simp: number_requests_def request_ok_def)
  have "\<exists>S'. connection_receives sid segs (s, S) = Inr (s, S') \<and> stream_state S sid ?c rs S'"
    if "concat (map fst segs) = outbound_data (gc_tcp_socket G')" for segs
    by (rule stream_accepted [OF _ assms(6) ok assms(7,8,9,10)]) (use that assms(5) G'(3) in auto)
  then show ?thesis
    using G' assms(7) by (fastforce simp: stream_state_def)
qed

theorem requests_reach_sequencer_witness:
  "let r = MEClientRequest_default\<lparr>rq_client_id := 3\<rparr>;
       q = Enqueue r (Enqueue r (LockFreeQueue_new 8 r));
       G = GatewayClient_new 3 q (LockFreeQueue_new 8 MEClientResponse_default);
       S = OrderServer_new (LockFreeQueue_new 8 r) (LockFreeQueue_new 8 MEClientResponse_default)
   in \<exists>G'. send_requests G = Inr G' \<and> q_list (gc_outgoing_requests G') = [] \<and>
    (\<forall>segs. concat (map fst segs) = outbound_data (gc_tcp_socket G') \<longrightarrow>
      (\<exists>S'. connection_receives 1 segs (Socket_new, S) = Inr (Socket_new, S') \<and>
        map rt_request (pending (fifo_sequencer S')) = map rt_request (pending (fifo_sequencer S)) @ [r, r] \<and>
        cid_next_exp_seq_num S' (unat (CLIENT_ID G)) = gc_next_outgoing_seq_num G'))"
  unfolding Let_def
  by (rule requests_reach_sequencer)
    (simp_all add: GatewayClient_new_def OrderServer_new_def Socket_new_def FIFOSequencer_new_def
      Enqueue_ok LockFreeQueue_new_def [of 8] ME_MAX_NUM_CLIENTS_def ME_MAX_PENDING_REQUESTS_def
      sizeof_OMClientRequest_def TCP_BUFFER_SIZE_def MEClientRequest_default_def q_ok_def q_list_def
      Enqueue_def UpdateWriteIndex_def WriteNext_def)

section \<open>Server to client\<close>

lemma handle_response_step:
  assumes "rs_client_id r = CLIENT_ID G" "oms_seq_num m = gc_next_exp_seq_num G" "oms_response m = r"
  shows "handle_response m G = Inr (G\<lparr>gc_next_exp_seq_num := gc_next_exp_seq_num G + 1,
    gc_incoming_responses := Enqueue r (gc_incoming_responses G)\<rparr>)"
  using assms by (simp add: handle_response_def)

definition gateway_receives :: "(byte list \<times> Nanos) list \<Rightarrow> Socket \<times> GatewayClient \<Rightarrow> (Socket \<times> GatewayClient) result" where
  "gateway_receives segs =
     rfold (\<lambda>(bytes, t) (s, G). GatewayClient_RecvCallback t (s\<lparr>inbound_data := inbound_data s @ bytes\<rparr>) G) segs"

lemma gateway_receives_eq:
  "gateway_receives segs sG =
    receive_all sizeof_OMClientResponse (\<lambda>t bs. handle_response (get_OMClientResponse bs)) segs sG"
  by (simp add: gateway_receives_def receive_all_def receive_def [abs_def] GatewayClient_RecvCallback_def split_def)

lemma responses_accepted:
  assumes "\<forall>r\<in>set rs. rs_client_id r = CLIENT_ID G" "\<forall>m\<in>set (number_own n rs). response_ok m"
    and "n = gc_next_exp_seq_num G" "inbound_data s = []"
    and "concat (map fst segs) = concat (map put_OMClientResponse (number_own n rs))"
  shows "gateway_receives segs (s, G) = Inr (s, G\<lparr>gc_next_exp_seq_num := n + of_nat (length rs),
    gc_incoming_responses := fold Enqueue rs (gc_incoming_responses G)\<rparr>)"
proof -
  let ?ms = "number_own n rs"
  let ?G = "\<lambda>k. G\<lparr>gc_next_exp_seq_num := n + of_nat k,
    gc_incoming_responses := fold Enqueue (take k rs) (gc_incoming_responses G)\<rparr>"
  have s: "s\<lparr>inbound_data := []\<rparr> = s" using assms(4) by simp
  have "\<exists>G'. receive_all sizeof_OMClientResponse (\<lambda>t bs. handle_response (get_OMClientResponse bs)) segs (s, G) =
      Inr (s\<lparr>inbound_data := []\<rparr>, G') \<and> G' = ?G (length ?ms)"
  proof (rule om_response.receive_segments)
    fix k H t assume k: "k < length ?ms" and H: "H = ?G k"
    have m: "?ms ! k = \<lparr>oms_seq_num = n + of_nat k, oms_response = rs ! k\<rparr>"
      using k by (simp add: number_own_def)
    moreover have "response_ok (?ms ! k)" using assms(2) k by simp
    moreover have "rs_client_id (rs ! k) = CLIENT_ID H" using assms(1) k by (simp add: H)
    ultimately show "\<exists>G'. handle_response (get_OMClientResponse (put_OMClientResponse (?ms ! k))) H = Inr G' \<and>
        G' = ?G (Suc k)"
      using k by (simp add: get_put_OMClientResponse handle_response_def H take_Suc_conv_app_nth algebra_simps)
  qed (use assms in simp_all)
  then show ?thesis unfolding gateway_receives_eq s by simp
qed

text \<open>
  C16: The responses of the matching engine reach the clients they are for: the order server's loop
  empties its queue, and on a connection that speaks for one client, whatever segments the network
  makes of what was written to it, that client's gateway queues exactly its own responses, in the
  order in which the engine made them.
\<close>

theorem responses_reach_client:
  assumes "q_ok (outgoing_responses S)" "q_list (outgoing_responses S) = rs"
    and "\<forall>r\<in>set rs. unat (rs_client_id r) < ME_MAX_NUM_CLIENTS \<and> connection_of S r \<noteq> None \<and>
      ClientResponseType_ok (rs_type r) \<and> Side_ok (rs_side r)"
    and "\<forall>i. length (outbound_data (ts_sockets T i)) + length (sent_on S rs i) \<le> TCP_BUFFER_SIZE"
    and "outbound_data (ts_sockets T sid) = []"
    and "\<forall>c. cid_tcp_socket S c = Some sid \<longleftrightarrow> c = unat (CLIENT_ID G)"
    and "cid_next_outgoing_seq_num S (unat (CLIENT_ID G)) = gc_next_exp_seq_num G"
    and "q_ok (gc_incoming_responses G)"
      "length (q_list (gc_incoming_responses G)) + length rs \<le> q_size (gc_incoming_responses G)"
    and "inbound_data s = []"
  shows "\<exists>T' S'. send_responses T S = Inr (T', S') \<and> q_list (outgoing_responses S') = [] \<and>
    (\<forall>segs. concat (map fst segs) = outbound_data (ts_sockets T' sid) \<longrightarrow>
      (\<exists>G'. gateway_receives segs (s, G) = Inr (s, G') \<and>
        q_list (gc_incoming_responses G') = q_list (gc_incoming_responses G) @
          filter (\<lambda>r. rs_client_id r = CLIENT_ID G) rs \<and>
        gc_next_exp_seq_num G' = cid_next_outgoing_seq_num S' (unat (CLIENT_ID G))))"
proof -
  let ?c = "unat (CLIENT_ID G)" and ?n = "gc_next_exp_seq_num G"
  let ?own = "filter (\<lambda>r. rs_client_id r = CLIENT_ID G) rs"
  have "\<forall>r\<in>set rs. unat (rs_client_id r) < ME_MAX_NUM_CLIENTS \<and> connection_of S r \<noteq> None"
    using assms(3) by simp
  then obtain T' S' where run: "send_responses T S = Inr (T', S')" "q_list (outgoing_responses S') = []" and
    seqs: "cid_next_outgoing_seq_num S' ?c = cid_next_outgoing_seq_num S ?c +
      of_nat (length (filter (\<lambda>r. unat (rs_client_id r) = ?c) rs))" and
    out: "outbound_data (ts_sockets T' sid) = sent_on S rs sid"
    using send_responses_ok [OF assms(1,2) _ assms(4)] assms(5) by auto
  have own: "?own = filter (\<lambda>r. unat (rs_client_id r) = ?c) rs"
    by (simp add: word_unat_eq_iff)
  have sent: "sent_on S rs sid = concat (map put_OMClientResponse (number_own ?n ?own))"
    using assms(6,7) by (simp add: sent_on_def connection_of_def own_of_numbered own)
  have ok: "\<forall>m\<in>set (number_own ?n ?own). response_ok m"
  proof
    fix m assume "m \<in> set (number_own ?n ?own)"
    then have "oms_response m \<in> set ?own" by (rule set_number_own)
    with assms(3) show "response_ok m" by (auto simp: response_ok_def)
  qed
  have room: "length (q_list (gc_incoming_responses G)) + length ?own \<le> q_size (gc_incoming_responses G)"
    using assms(9) length_filter_le [of "\<lambda>r. rs_client_id r = CLIENT_ID G" rs] by linarith
  have "\<exists>G'. gateway_receives segs (s, G) = Inr (s, G') \<and>
      q_list (gc_incoming_responses G') = q_list (gc_incoming_responses G) @ ?own \<and>
      gc_next_exp_seq_num G' = cid_next_outgoing_seq_num S' ?c"
    if "concat (map fst segs) = outbound_data (ts_sockets T' sid)" for segs
  proof (intro exI conjI)
    show "gateway_receives segs (s, G) = Inr (s, G\<lparr>gc_next_exp_seq_num := ?n + of_nat (length ?own),
        gc_incoming_responses := fold Enqueue ?own (gc_incoming_responses G)\<rparr>)"
      by (rule responses_accepted [OF _ ok _ assms(10)]) (use that in \<open>simp_all add: out sent\<close>)
  qed (use lfq.enq_all [OF assms(8) room] seqs assms(7) own in simp_all)
  with run show ?thesis by auto
qed

theorem responses_reach_client_witness:
  "let r = MEClientResponse_default\<lparr>rs_client_id := 3\<rparr>;
       q = Enqueue r (Enqueue r (LockFreeQueue_new 8 r));
       S = (OrderServer_new (LockFreeQueue_new 8 MEClientRequest_default) q)\<lparr>cid_tcp_socket := [3 \<mapsto> 1]\<rparr>;
       G = GatewayClient_new 3 (LockFreeQueue_new 8 MEClientRequest_default) (LockFreeQueue_new 8 r)
   in \<exists>T' S'. send_responses TCPServer_new S = Inr (T', S') \<and> q_list (outgoing_responses S') = [] \<and>
    (\<forall>segs. concat (map fst segs) = outbound_data (ts_sockets T' 1) \<longrightarrow>
      (\<exists>G'. gateway_receives segs (Socket_new, G) = Inr (Socket_new, G') \<and>
        q_list (gc_incoming_responses G') = q_list (gc_incoming_responses G) @
          filter (\<lambda>r. rs_client_id r = CLIENT_ID G) [r, r] \<and>
        gc_next_exp_seq_num G' = cid_next_outgoing_seq_num S' (unat (CLIENT_ID G))))"
  unfolding Let_def
  by (rule responses_reach_client)
    (simp_all add: GatewayClient_new_def OrderServer_new_def Socket_new_def TCPServer_new_def connection_of_def
      sent_on_def q_list_def LockFreeQueue_new_def [of 8] ME_MAX_NUM_CLIENTS_def TCP_BUFFER_SIZE_def
      sizeof_OMClientResponse_def MEClientResponse_default_def q_ok_def Enqueue_def UpdateWriteIndex_def WriteNext_def)

end
