(* ===== verification/Market_Feed.thy ===== *)
theory Market_Feed
  imports Messages
begin

text \<open>
  What the market data feed promises, over maps: the live orders of each instrument, the effect of an
  update on them, and the contents of a snapshot. The publisher, the snapshot synthesizer and the
  consumer are proved against this.
\<close>

section \<open>Live orders\<close>

text \<open>By instrument and market order id.\<close>

type_synonym live_orders = "nat \<Rightarrow> nat \<Rightarrow> MEMarketUpdate option"

definition no_orders :: live_orders where
  "no_orders = (\<lambda>_ _. None)"

definition feed_apply :: "MEMarketUpdate \<Rightarrow> live_orders \<Rightarrow> live_orders" where
  "feed_apply u m =
     (let t = unat (mu_ticker_id u); i = unat (mu_order_id u) in
      case mu_type u of
        MarketUpdateType_ADD \<Rightarrow> m(t := (m t)(i := Some u))
      | MarketUpdateType_MODIFY \<Rightarrow>
          m(t := (m t)(i := map_option (\<lambda>v. v\<lparr>mu_qty := mu_qty u, mu_price := mu_price u\<rparr>) (m t i)))
      | MarketUpdateType_CANCEL \<Rightarrow> m(t := (m t)(i := None))
      | MarketUpdateType_CLEAR \<Rightarrow> m(t := (\<lambda>_. None))
      | _ \<Rightarrow> m)"

definition feed_state :: "MEMarketUpdate list \<Rightarrow> live_orders" where
  "feed_state us = fold feed_apply us no_orders"

definition live_ok :: "live_orders \<Rightarrow> bool" where
  "live_ok m \<longleftrightarrow> (\<forall>t i u. m t i = Some u \<longrightarrow>
     t < ME_MAX_TICKERS \<and> i < ME_MAX_ORDER_IDS \<and> mu_type u = MarketUpdateType_ADD \<and>
     unat (mu_ticker_id u) = t \<and> unat (mu_order_id u) = i)"

lemma live_okD:
  assumes "live_ok m" "m t i = Some u"
  shows "t < ME_MAX_TICKERS" "i < ME_MAX_ORDER_IDS" "mu_type u = MarketUpdateType_ADD"
    "unat (mu_ticker_id u) = t" "unat (mu_order_id u) = i"
  using assms unfolding live_ok_def by blast+

lemma live_ok_outside:
  assumes "live_ok m" "ME_MAX_TICKERS \<le> t \<or> ME_MAX_ORDER_IDS \<le> i"
  shows "m t i = None"
  using assms live_okD(1,2) [OF assms(1)] by (cases "m t i") fastforce+

lemma feed_state_snoc: "feed_state (us @ [u]) = feed_apply u (feed_state us)"
  by (simp add: feed_state_def)

lemma live_ok_no_orders [simp]: "live_ok no_orders"
  by (simp add: live_ok_def no_orders_def)

section \<open>Snapshots\<close>

definition clear_update :: "nat \<Rightarrow> MEMarketUpdate" where
  "clear_update t = MEMarketUpdate_default\<lparr>mu_type := MarketUpdateType_CLEAR, mu_ticker_id := of_nat t\<rparr>"

definition start_update :: "SeqNum \<Rightarrow> MEMarketUpdate" where
  "start_update n = MEMarketUpdate_default\<lparr>mu_type := MarketUpdateType_SNAPSHOT_START, mu_order_id := n\<rparr>"

definition end_update :: "SeqNum \<Rightarrow> MEMarketUpdate" where
  "end_update n = MEMarketUpdate_default\<lparr>mu_type := MarketUpdateType_SNAPSHOT_END, mu_order_id := n\<rparr>"

definition ticker_snapshot :: "live_orders \<Rightarrow> nat \<Rightarrow> MEMarketUpdate list" where
  "ticker_snapshot m t = clear_update t # List.map_filter (m t) [0..<ME_MAX_ORDER_IDS]"

definition snapshot_body :: "live_orders \<Rightarrow> MEMarketUpdate list" where
  "snapshot_body m = concat (map (ticker_snapshot m) [0..<ME_MAX_TICKERS])"

text \<open>The snapshot of the orders \<open>m\<close> after the first \<open>n\<close> updates.\<close>

definition snapshot_updates :: "live_orders \<Rightarrow> SeqNum \<Rightarrow> MEMarketUpdate list" where
  "snapshot_updates m n = start_update n # snapshot_body m @ [end_update n]"

definition number_updates :: "SeqNum \<Rightarrow> MEMarketUpdate list \<Rightarrow> MDPMarketUpdate list" where
  "number_updates n us = map (\<lambda>i. \<lparr>mdp_seq_num = n + of_nat i, mdp_update = us ! i\<rparr>) [0..<length us]"

lemma number_updates_simps [simp]:
  "number_updates n [] = []"
  "number_updates n (u # us) = \<lparr>mdp_seq_num = n, mdp_update = u\<rparr> # number_updates (n + 1) us"
  by (simp_all add: number_updates_def upt_conv_Cons map_Suc_upt [symmetric] algebra_simps del: upt_Suc)

lemma number_updates_append [simp]:
  "number_updates n (us @ vs) = number_updates n us @ number_updates (n + of_nat (length us)) vs"
  by (induction us arbitrary: n) (simp_all add: algebra_simps)

lemma length_number_updates [simp]: "length (number_updates n us) = length us"
  by (simp add: number_updates_def)

lemma map_filter_simps [simp]:
  "List.map_filter f [] = []"
  "List.map_filter f (x # xs) = (case f x of None \<Rightarrow> List.map_filter f xs | Some y \<Rightarrow> y # List.map_filter f xs)"
  by (simp_all add: List.map_filter_def split: option.split)

lemma set_map_filter: "set (List.map_filter f xs) = {y. \<exists>x\<in>set xs. f x = Some y}"
  by (induction xs) (auto split: option.split)

lemma ticker_value: "t < ME_MAX_TICKERS \<Longrightarrow> unat (of_nat t :: TickerId) = t"
  by (simp add: ME_MAX_TICKERS_def unsigned_of_nat take_bit_nat_eq_self)

section \<open>A snapshot rebuilds the orders\<close>

lemma apply_orders:
  assumes "live_ok m"
  shows "fold feed_apply (List.map_filter (m t) is) m0 =
    m0(t := (\<lambda>i. if i \<in> set is \<and> m t i \<noteq> None then m t i else m0 t i))"
proof (induction "is" arbitrary: m0)
  case (Cons i "is")
  show ?case
  proof (cases "m t i")
    case None
    with Cons show ?thesis by (auto simp: fun_eq_iff)
  next
    case (Some u)
    with assms have "mu_type u = MarketUpdateType_ADD" "unat (mu_ticker_id u) = t" "unat (mu_order_id u) = i"
      by (auto simp: live_ok_def)
    with Cons Some show ?thesis by (auto simp: fun_eq_iff feed_apply_def)
  qed
qed simp

lemma apply_ticker_snapshot:
  assumes "live_ok m" "t < ME_MAX_TICKERS"
  shows "fold feed_apply (ticker_snapshot m t) m0 = m0(t := m t)"
proof -
  have "feed_apply (clear_update t) m0 = m0(t := (\<lambda>_. None))"
    using assms(2) by (simp add: feed_apply_def clear_update_def ticker_value)
  moreover have "m t i = None" if "ME_MAX_ORDER_IDS \<le> i" for i
    using assms(1) that by (simp add: live_ok_outside)
  ultimately show ?thesis
    by (auto simp: ticker_snapshot_def apply_orders [OF assms(1)] fun_eq_iff not_less)
qed

lemma apply_ticker_snapshots:
  assumes "live_ok m" "\<forall>t\<in>set ts. t < ME_MAX_TICKERS"
  shows "fold feed_apply (concat (map (ticker_snapshot m) ts)) m0 = (\<lambda>t. if t \<in> set ts then m t else m0 t)"
  using assms(2)
  by (induction ts arbitrary: m0) (auto simp: apply_ticker_snapshot [OF assms(1)] fun_eq_iff)

lemma snapshot_rebuilds:
  assumes "live_ok m" "\<And>t. ME_MAX_TICKERS \<le> t \<Longrightarrow> m0 t = (\<lambda>_. None)"
  shows "fold feed_apply (snapshot_body m) m0 = m"
proof
  fix t
  have "m t = (\<lambda>_. None)" if "ME_MAX_TICKERS \<le> t"
  proof
    fix i show "m t i = None" using assms(1) that by (simp add: live_ok_outside)
  qed
  with assms(2) show "fold feed_apply (snapshot_body m) m0 t = m t"
    by (simp add: snapshot_body_def apply_ticker_snapshots [OF assms(1)])
qed

lemma feed_apply_ticker:
  assumes "unat (mu_ticker_id u) < ME_MAX_TICKERS" "ME_MAX_TICKERS \<le> t"
  shows "feed_apply u m t = m t"
  using assms by (auto simp: feed_apply_def Let_def split: MarketUpdateType.split)

section \<open>Valid feeds\<close>

text \<open>What the exchange promises of the next update, given the live orders.\<close>

definition update_fits :: "live_orders \<Rightarrow> MEMarketUpdate \<Rightarrow> bool" where
  "update_fits m u \<longleftrightarrow>
     (let t = unat (mu_ticker_id u); i = unat (mu_order_id u) in
      t < ME_MAX_TICKERS \<and>
      (case mu_type u of
         MarketUpdateType_ADD \<Rightarrow> i < ME_MAX_ORDER_IDS \<and> m t i = None
       | MarketUpdateType_MODIFY \<Rightarrow> (\<exists>v. m t i = Some v \<and> mu_side v = mu_side u)
       | MarketUpdateType_CANCEL \<Rightarrow> (\<exists>v. m t i = Some v \<and> mu_side v = mu_side u)
       | MarketUpdateType_CLEAR \<Rightarrow> False
       | _ \<Rightarrow> True))"

lemma feed_apply_live_ok:
  assumes "live_ok m" "update_fits m u"
  shows "live_ok (feed_apply u m)"
proof -
  have *: "mu_type u = MarketUpdateType_ADD \<Longrightarrow> unat (mu_order_id u) < ME_MAX_ORDER_IDS"
    "unat (mu_ticker_id u) < ME_MAX_TICKERS"
    using assms(2) by (simp_all add: update_fits_def Let_def)
  show ?thesis
    unfolding live_ok_def
  proof (intro allI impI)
    fix t i v assume "feed_apply u m t i = Some v"
    then show "t < ME_MAX_TICKERS \<and> i < ME_MAX_ORDER_IDS \<and> mu_type v = MarketUpdateType_ADD \<and>
        unat (mu_ticker_id v) = t \<and> unat (mu_order_id v) = i"
      using * live_okD [OF assms(1)]
      by (auto simp: feed_apply_def Let_def split: MarketUpdateType.splits if_splits)
  qed
qed

fun valid_feed :: "live_orders \<Rightarrow> MEMarketUpdate list \<Rightarrow> bool" where
  "valid_feed m [] \<longleftrightarrow> True"
| "valid_feed m (u # us) \<longleftrightarrow> update_fits m u \<and> valid_feed (feed_apply u m) us"

lemma valid_feed_append: "valid_feed m (us @ vs) \<longleftrightarrow> valid_feed m us \<and> valid_feed (fold feed_apply us m) vs"
  by (induction us arbitrary: m) simp_all

lemma valid_feed_live_ok: "live_ok m \<Longrightarrow> valid_feed m us \<Longrightarrow> live_ok (fold feed_apply us m)"
  by (induction us arbitrary: m) (simp_all add: feed_apply_live_ok)

lemma take_feed:
  assumes "n \<le> k"
  shows "feed_state (take k us) = fold feed_apply (take (k - n) (drop n us)) (feed_state (take n us))"
proof -
  have "take k us = take n us @ take (k - n) (drop n us)"
    using assms by (metis le_add_diff_inverse take_add)
  then show ?thesis by (simp add: feed_state_def)
qed

lemma valid_take: "valid_feed m us \<Longrightarrow> valid_feed m (take n us)"
  using valid_feed_append [of m "take n us" "drop n us"] by simp

lemma feed_state_ok: "valid_feed no_orders us \<Longrightarrow> live_ok (feed_state (take n us))"
  unfolding feed_state_def by (intro valid_feed_live_ok live_ok_no_orders valid_take)

text \<open>An update for the examples.\<close>

definition sample_add :: MEMarketUpdate where
  "sample_add = \<lparr>mu_type = MarketUpdateType_ADD, mu_order_id = 1, mu_ticker_id = 2, mu_side = Side_BUY,
     mu_price = I64 100, mu_qty = 10, mu_priority = 1\<rparr>"

lemma valid_sample: "valid_feed no_orders [sample_add]"
  by (simp add: update_fits_def sample_add_def no_orders_def ME_MAX_TICKERS_def ME_MAX_ORDER_IDS_def)

end
