(* ===== verification/Snapshot_Synthesizer.thy ===== *)
theory Snapshot_Synthesizer
  imports Market_Feed Sockets Memory_Pool Lock_Free_Queue
begin

text \<open>
  \<open>exchange::SnapshotSynthesizer\<close> (\<open>src/src/include/market_data/snapshot_synthesizer.hpp\<close>,
  \<open>src/src/market_data/snapshot_synthesizer.cpp\<close>): follows the incremental updates, keeps the live
  orders of all instruments in a pool, and every minute publishes them as a snapshot.

  \<open>snap_view\<close> reads the pointers of the state as a map of live orders, the type of \<open>Market_Feed\<close>;
  \<open>AddToSnapshot\<close> refines \<open>feed_apply\<close> and \<open>PublishSnapshot\<close> sends \<open>snapshot_updates\<close>.
\<close>

section \<open>State and operations\<close>

record SnapshotSynthesizer =
  snapshot_md_updates :: "MDPMarketUpdate LockFreeQueue"
  snapshot_socket :: Socket
  ticker_orders :: "nat \<Rightarrow> nat \<Rightarrow> ptr"
  last_inc_seq_num :: SeqNum
  last_snapshot_time :: i64
  snapshot_order_pool :: "MEMarketUpdate MemoryPool"

definition SnapshotSynthesizer_new :: "MDPMarketUpdate LockFreeQueue \<Rightarrow> SnapshotSynthesizer" where
  "SnapshotSynthesizer_new market_updates =
     \<lparr>snapshot_md_updates = market_updates, snapshot_socket = Socket_new,
      ticker_orders = (\<lambda>_ _. None), last_inc_seq_num = 0, last_snapshot_time = I64 0,
      snapshot_order_pool = MemoryPool_new ME_MAX_ORDER_IDS MEMarketUpdate_default\<rparr>"

text \<open>\<open>orders->at(order_id)\<close>.\<close>

definition orders_at :: "SnapshotSynthesizer \<Rightarrow> nat \<Rightarrow> nat \<Rightarrow> ptr result" where
  "orders_at S t i = (if ME_MAX_ORDER_IDS \<le> i then Inl Out_of_range else Inr (ticker_orders S t i))"

text \<open>The existing order that MODIFY and CANCEL are about.\<close>

definition expect_existing :: "ptr \<Rightarrow> MEMarketUpdate \<Rightarrow> SnapshotSynthesizer \<Rightarrow> MEMarketUpdate result" where
  "expect_existing p u S =
     rbind (ASSERT (p \<noteq> None) (''Received:'' @ MEMarketUpdate_ToString u @ '' but order does not exist.'')) (\<lambda>_.
     rbind (deref (snapshot_order_pool S) p) (\<lambda>v.
     rbind (ASSERT (mu_order_id v = mu_order_id u) ''Expecting existing order to match new one.'') (\<lambda>_.
     rbind (ASSERT (mu_side v = mu_side u) ''Expecting existing order to match new one.'') (\<lambda>_.
     Inr v))))"

text \<open>The switch over the type of the update.\<close>

definition update_ticker_orders :: "MEMarketUpdate \<Rightarrow> SnapshotSynthesizer \<Rightarrow> SnapshotSynthesizer result" where
  "update_ticker_orders u S =
     (let t = unat (mu_ticker_id u); i = unat (mu_order_id u) in
      case mu_type u of
        MarketUpdateType_ADD \<Rightarrow>
          rbind (orders_at S t i) (\<lambda>p.
          rbind (ASSERT (p = None) (''Received:'' @ MEMarketUpdate_ToString u @ '' but order already exists:'')) (\<lambda>_.
          rbind (Allocate u (snapshot_order_pool S)) (\<lambda>(a, P).
          Inr (S\<lparr>snapshot_order_pool := P,
                 ticker_orders := (ticker_orders S)(t := (ticker_orders S t)(i := Some a))\<rparr>))))
      | MarketUpdateType_MODIFY \<Rightarrow>
          rbind (orders_at S t i) (\<lambda>p.
          rbind (expect_existing p u S) (\<lambda>_.
          rbind (assign p (\<lambda>v. v\<lparr>mu_qty := mu_qty u, mu_price := mu_price u\<rparr>) (snapshot_order_pool S)) (\<lambda>P.
          Inr (S\<lparr>snapshot_order_pool := P\<rparr>))))
      | MarketUpdateType_CANCEL \<Rightarrow>
          rbind (orders_at S t i) (\<lambda>p.
          rbind (expect_existing p u S) (\<lambda>_.
          rbind (case p of None \<Rightarrow> Inl Null_deref | Some a \<Rightarrow> Deallocate a (snapshot_order_pool S)) (\<lambda>P.
          Inr (S\<lparr>snapshot_order_pool := P,
                 ticker_orders := (ticker_orders S)(t := (ticker_orders S t)(i := None))\<rparr>))))
      | _ \<Rightarrow> Inr S)"

definition AddToSnapshot :: "MDPMarketUpdate \<Rightarrow> SnapshotSynthesizer \<Rightarrow> SnapshotSynthesizer result" where
  "AddToSnapshot market_update S =
     (if ME_MAX_TICKERS \<le> unat (mu_ticker_id (mdp_update market_update)) then Inl Out_of_range
      else
        rbind (update_ticker_orders (mdp_update market_update) S) (\<lambda>S.
        rbind (ASSERT (mdp_seq_num market_update = last_inc_seq_num S + 1)
                 ''Expected incremental seq_nums to increase.'') (\<lambda>_.
        Inr (S\<lparr>last_inc_seq_num := mdp_seq_num market_update\<rparr>))))"

text \<open>
  Sending: the running number \<open>snapshot_size\<close>, the socket, and the datagrams handed to the system so
  far. Nothing is received on this socket, which has no callback.
\<close>

type_synonym publication = "SeqNum \<times> Socket \<times> byte list list"

definition snapshot_send :: "MEMarketUpdate \<Rightarrow> publication \<Rightarrow> publication result" where
  "snapshot_send u st =
     (case st of (n, s, outs) \<Rightarrow>
        rbind (McastSocket_Send (put_MDPMarketUpdate \<lparr>mdp_seq_num = n, mdp_update = u\<rparr>) s) (\<lambda>s.
        Inr (n + 1, s, outs)))"

definition snapshot_flush :: "publication \<Rightarrow> publication result" where
  "snapshot_flush st =
     (case st of (n, s, outs) \<Rightarrow>
        rbind (McastSocket_SendAndRecv (\<lambda>s w. Inl Null_deref) None s ()) (\<lambda>(s, _, sent, _).
        Inr (n, s, if sent = [] then outs else outs @ [sent])))"

definition publish_order :: "SnapshotSynthesizer \<Rightarrow> nat \<Rightarrow> nat \<Rightarrow> publication \<Rightarrow> publication result" where
  "publish_order S t i st =
     (case ticker_orders S t i of
        None \<Rightarrow> Inr st
      | Some a \<Rightarrow> rbind (snapshot_send (obj (snapshot_order_pool S) a) st) snapshot_flush)"

definition publish_ticker :: "SnapshotSynthesizer \<Rightarrow> nat \<Rightarrow> publication \<Rightarrow> publication result" where
  "publish_ticker S t st =
     rbind (snapshot_send (MEMarketUpdate_default\<lparr>mu_type := MarketUpdateType_CLEAR, mu_ticker_id := of_nat t\<rparr>) st)
       (rfold (publish_order S t) [0..<ME_MAX_ORDER_IDS])"

definition PublishSnapshot :: "SnapshotSynthesizer \<Rightarrow> (SnapshotSynthesizer \<times> byte list list) result" where
  "PublishSnapshot S =
     rbind (snapshot_send (MEMarketUpdate_default\<lparr>mu_type := MarketUpdateType_SNAPSHOT_START,
              mu_order_id := last_inc_seq_num S\<rparr>) (0, snapshot_socket S, [])) (\<lambda>st.
     rbind (rfold (publish_ticker S) [0..<ME_MAX_TICKERS] st) (\<lambda>st.
     rbind (snapshot_send (MEMarketUpdate_default\<lparr>mu_type := MarketUpdateType_SNAPSHOT_END,
              mu_order_id := last_inc_seq_num S\<rparr>) st) (\<lambda>st.
     rbind (snapshot_flush st) (\<lambda>(_, s, outs). Inr (S\<lparr>snapshot_socket := s\<rparr>, outs)))))"

text \<open>One turn of \<open>Run\<close>: the updates in the queue, then a snapshot when the last one is a minute old.\<close>

lemma update_ticker_orders_queue:
  "update_ticker_orders u S = Inr S' \<Longrightarrow> snapshot_md_updates S' = snapshot_md_updates S"
  by (auto simp: update_ticker_orders_def result_simps Let_def split: if_splits MarketUpdateType.splits)

lemma update_ticker_orders_time:
  assumes "update_ticker_orders u S = Inr S'"
  shows "last_snapshot_time S' = last_snapshot_time S"
proof (cases "mu_type u")
  case MarketUpdateType_ADD
  with assms show ?thesis by (auto simp: update_ticker_orders_def elim!: rbind_eq_InrE)
next
  case MarketUpdateType_MODIFY
  with assms show ?thesis by (auto simp: update_ticker_orders_def elim!: rbind_eq_InrE)
next
  case MarketUpdateType_CANCEL
  with assms show ?thesis by (auto simp: update_ticker_orders_def elim!: rbind_eq_InrE)
qed (use assms in \<open>simp_all add: update_ticker_orders_def\<close>)

lemma update_ticker_orders_socket:
  assumes "update_ticker_orders u S = Inr S'"
  shows "snapshot_socket S' = snapshot_socket S"
proof (cases "mu_type u")
  case MarketUpdateType_ADD
  with assms show ?thesis by (auto simp: update_ticker_orders_def elim!: rbind_eq_InrE)
next
  case MarketUpdateType_MODIFY
  with assms show ?thesis by (auto simp: update_ticker_orders_def elim!: rbind_eq_InrE)
next
  case MarketUpdateType_CANCEL
  with assms show ?thesis by (auto simp: update_ticker_orders_def elim!: rbind_eq_InrE)
qed (use assms in \<open>simp_all add: update_ticker_orders_def\<close>)

lemma AddToSnapshot_queue [simp]:
  "AddToSnapshot u S = Inr S' \<Longrightarrow> snapshot_md_updates S' = snapshot_md_updates S"
  by (auto simp: AddToSnapshot_def result_simps dest!: update_ticker_orders_queue split: if_splits)

lemma AddToSnapshot_same:
  assumes "AddToSnapshot u S = Inr S'"
  shows "last_snapshot_time S' = last_snapshot_time S" "snapshot_socket S' = snapshot_socket S"
proof -
  have "\<exists>V. update_ticker_orders (mdp_update u) S = Inr V \<and> V\<lparr>last_inc_seq_num := mdp_seq_num u\<rparr> = S'"
    using assms by (auto simp: AddToSnapshot_def elim!: rbind_eq_InrE split: if_splits)
  then show "last_snapshot_time S' = last_snapshot_time S" "snapshot_socket S' = snapshot_socket S"
    using update_ticker_orders_time update_ticker_orders_socket by fastforce+
qed

function drain_updates :: "SnapshotSynthesizer \<Rightarrow> SnapshotSynthesizer result" where
  "drain_updates S =
     (case GetNextToRead (snapshot_md_updates S) of
        None \<Rightarrow> Inr S
      | Some u \<Rightarrow>
          (case AddToSnapshot u S of
             Inl e \<Rightarrow> Inl e
           | Inr S' \<Rightarrow>
               (case UpdateReadIndex (snapshot_md_updates S') of
                  Inl e \<Rightarrow> Inl e
                | Inr q \<Rightarrow> drain_updates (S'\<lparr>snapshot_md_updates := q\<rparr>))))"
  by pat_completeness auto
termination
  by (relation "measure (\<lambda>S. num_elements (snapshot_md_updates S))")
    (auto simp: UpdateReadIndex_def result_simps)

declare drain_updates.simps [simp del]

lemma drain_updates_same:
  "drain_updates S = Inr S' \<Longrightarrow>
    last_snapshot_time S' = last_snapshot_time S \<and> snapshot_socket S' = snapshot_socket S"
proof (induction S rule: drain_updates.induct)
  case (1 S)
  show ?case
  proof (cases "GetNextToRead (snapshot_md_updates S)")
    case None
    with 1(2) show ?thesis by (simp add: drain_updates.simps [of S])
  next
    case (Some u)
    with 1(2) obtain V q where V: "AddToSnapshot u S = Inr V" "UpdateReadIndex (snapshot_md_updates V) = Inr q"
      "drain_updates (V\<lparr>snapshot_md_updates := q\<rparr>) = Inr S'"
      by (subst (asm) drain_updates.simps [of S]) (auto split: sum.splits)
    from 1(1) [OF Some V] AddToSnapshot_same [OF V(1)] show ?thesis by simp
  qed
qed

definition SNAPSHOT_INTERVAL :: int where
  "SNAPSHOT_INTERVAL = 60 * 1000 * 1000 * 1000"

text \<open>\<open>now\<close> and \<open>now'\<close> are what the two calls of \<open>GetCurrentNanos\<close> return.\<close>

definition SnapshotSynthesizer_Run_once ::
  "i64 \<Rightarrow> i64 \<Rightarrow> SnapshotSynthesizer \<Rightarrow> (SnapshotSynthesizer \<times> byte list list) result" where
  "SnapshotSynthesizer_Run_once now now' S =
     rbind (drain_updates S) (\<lambda>S.
     if sint (bits64 now) - sint (bits64 (last_snapshot_time S)) > SNAPSHOT_INTERVAL
     then PublishSnapshot (S\<lparr>last_snapshot_time := now'\<rparr>)
     else Inr (S, []))"

section \<open>The live orders\<close>

definition snap_view :: "SnapshotSynthesizer \<Rightarrow> live_orders" where
  "snap_view S = (\<lambda>t i. map_option (obj (snapshot_order_pool S)) (ticker_orders S t i))"

definition snap_ok :: "SnapshotSynthesizer \<Rightarrow> bool" where
  "snap_ok S \<longleftrightarrow> pool_ok (snapshot_order_pool S) \<and> live_ok (snap_view S) \<and>
     (\<forall>t i a. ticker_orders S t i = Some a \<longrightarrow> a \<in> live (snapshot_order_pool S)) \<and>
     (\<forall>t i t' i' a. ticker_orders S t i = Some a \<and> ticker_orders S t' i' = Some a \<longrightarrow> t = t' \<and> i = i')"

lemma snap_ok_new: "snap_ok (SnapshotSynthesizer_new q)"
  by (simp add: snap_ok_def SnapshotSynthesizer_new_def snap_view_def live_ok_def ME_MAX_ORDER_IDS_def)

lemma AddToSnapshot_add:
  assumes "snap_ok S" "mu_type u = MarketUpdateType_ADD" "update_fits (snap_view S) u"
    and "has_room (snapshot_order_pool S)" "n = last_inc_seq_num S + 1"
  shows "\<exists>S'. AddToSnapshot \<lparr>mdp_seq_num = n, mdp_update = u\<rparr> S = Inr S' \<and> snap_ok S' \<and>
    snap_view S' = feed_apply u (snap_view S) \<and> last_inc_seq_num S' = n"
proof -
  let ?t = "unat (mu_ticker_id u)" and ?i = "unat (mu_order_id u)" and ?P = "snapshot_order_pool S"
  have fits: "?t < ME_MAX_TICKERS" "?i < ME_MAX_ORDER_IDS" "ticker_orders S ?t ?i = None"
    using assms(2,3) by (simp_all add: update_fits_def snap_view_def)
  have P: "pool_ok ?P" "card (live ?P) + 1 < store_size ?P"
    using assms(1,4) by (simp_all add: snap_ok_def has_room_def)
  obtain a P' where P': "Allocate u ?P = Inr (a, P')" "a \<notin> live ?P" "live P' = insert a (live ?P)"
    "pool_ok P'" "obj P' a = u" "\<And>b. b \<noteq> a \<Longrightarrow> obj P' b = obj ?P b"
    using mem_pool.allocE [OF P, where x = u] by metis
  let ?S = "S\<lparr>snapshot_order_pool := P', ticker_orders := (ticker_orders S)(?t := (ticker_orders S ?t)(?i := Some a)),
    last_inc_seq_num := n\<rparr>"
  have run: "AddToSnapshot \<lparr>mdp_seq_num = n, mdp_update = u\<rparr> S = Inr ?S"
    using fits P'(1) assms(2,5) by (simp add: AddToSnapshot_def update_ticker_orders_def orders_at_def)
  have ptrs: "b \<noteq> a" if "ticker_orders S t i = Some b" for t i b
    using assms(1) that P'(2) by (auto simp: snap_ok_def)
  have view: "snap_view ?S = feed_apply u (snap_view S)"
    using P'(5,6) ptrs assms(2)
    by (auto simp: snap_view_def feed_apply_def fun_eq_iff option.map_comp intro!: map_option_cong)
  moreover have "snap_ok ?S"
    unfolding snap_ok_def
  proof (intro conjI)
    show "live_ok (snap_view ?S)"
      unfolding view using assms(1,3) by (simp add: feed_apply_live_ok snap_ok_def)
    show "pool_ok (snapshot_order_pool ?S)" using P'(4) by simp
    show "\<forall>t i a. ticker_orders ?S t i = Some a \<longrightarrow> a \<in> live (snapshot_order_pool ?S)"
      using assms(1) P'(3) by (auto simp: snap_ok_def)
    show "\<forall>t i t' i' b. ticker_orders ?S t i = Some b \<and> ticker_orders ?S t' i' = Some b \<longrightarrow> t = t' \<and> i = i'"
      using assms(1) ptrs by (fastforce simp: snap_ok_def split: if_splits)
  qed
  ultimately show ?thesis using run by auto
qed

lemma existing_order:
  assumes "snap_ok S" "mu_type u = MarketUpdateType_MODIFY \<or> mu_type u = MarketUpdateType_CANCEL"
    and "update_fits (snap_view S) u"
  obtains a where "ticker_orders S (unat (mu_ticker_id u)) (unat (mu_order_id u)) = Some a"
    "a \<in> live (snapshot_order_pool S)" "unat (mu_ticker_id u) < ME_MAX_TICKERS"
    "unat (mu_order_id u) < ME_MAX_ORDER_IDS"
    "mu_order_id (obj (snapshot_order_pool S) a) = mu_order_id u"
    "expect_existing (Some a) u S = Inr (obj (snapshot_order_pool S) a)"
proof -
  let ?t = "unat (mu_ticker_id u)" and ?i = "unat (mu_order_id u)" and ?P = "snapshot_order_pool S"
  obtain v where v: "snap_view S ?t ?i = Some v" "mu_side v = mu_side u"
    using assms(2,3) by (auto simp: update_fits_def Let_def)
  then obtain a where a: "ticker_orders S ?t ?i = Some a" "v = obj ?P a" by (auto simp: snap_view_def)
  have lo: "live_ok (snap_view S)" and lv: "a \<in> live ?P" using assms(1) a(1) by (auto simp: snap_ok_def)
  note d = live_okD [OF lo v(1)]
  have "mu_order_id (obj ?P a) = mu_order_id u" using d(5) a(2) by (simp add: word_unat_eq_iff)
  with a v lv d(1,2) show thesis
    by (intro that [of a]) (simp_all add: expect_existing_def)
qed

lemma AddToSnapshot_modify:
  assumes "snap_ok S" "mu_type u = MarketUpdateType_MODIFY" "update_fits (snap_view S) u"
    and "n = last_inc_seq_num S + 1"
  shows "\<exists>S'. AddToSnapshot \<lparr>mdp_seq_num = n, mdp_update = u\<rparr> S = Inr S' \<and> snap_ok S' \<and>
    snap_view S' = feed_apply u (snap_view S) \<and> last_inc_seq_num S' = n \<and>
    live (snapshot_order_pool S') = live (snapshot_order_pool S)"
proof -
  let ?t = "unat (mu_ticker_id u)" and ?i = "unat (mu_order_id u)" and ?P = "snapshot_order_pool S"
  let ?f = "\<lambda>v. v\<lparr>mu_qty := mu_qty u, mu_price := mu_price u\<rparr>"
  from assms(2) have "mu_type u = MarketUpdateType_MODIFY \<or> mu_type u = MarketUpdateType_CANCEL" by simp
  then obtain a where a: "ticker_orders S ?t ?i = Some a" "a \<in> live ?P" "?t < ME_MAX_TICKERS"
    "?i < ME_MAX_ORDER_IDS" "expect_existing (Some a) u S = Inr (obj ?P a)"
    using existing_order [OF assms(1) _ assms(3)] by metis
  let ?S = "S\<lparr>snapshot_order_pool := upd_obj a ?f ?P, last_inc_seq_num := n\<rparr>"
  have run: "AddToSnapshot \<lparr>mdp_seq_num = n, mdp_update = u\<rparr> S = Inr ?S"
    using a assms(2,4) by (simp add: AddToSnapshot_def update_ticker_orders_def orders_at_def)
  have only: "t = ?t \<and> i = ?i" if "ticker_orders S t i = Some a" for t i
    using assms(1) a(1) that unfolding snap_ok_def by blast
  have view: "snap_view ?S = feed_apply u (snap_view S)"
  proof (intro ext)
    fix t i
    show "snap_view ?S t i = feed_apply u (snap_view S) t i"
    proof (cases "t = ?t \<and> i = ?i")
      case True
      then show ?thesis using a(1) assms(2) by (simp add: snap_view_def feed_apply_def)
    next
      case False
      with only have "ticker_orders S t i \<noteq> Some a" by blast
      then have "snap_view ?S t i = snap_view S t i"
        by (cases "ticker_orders S t i") (simp_all add: snap_view_def)
      with False show ?thesis using assms(2) by (auto simp: feed_apply_def)
    qed
  qed
  moreover have "snap_ok ?S"
    using assms(1,3) view by (auto simp: snap_ok_def feed_apply_live_ok)
  ultimately show ?thesis using run by auto
qed

lemma AddToSnapshot_cancel:
  assumes "snap_ok S" "mu_type u = MarketUpdateType_CANCEL" "update_fits (snap_view S) u"
    and "n = last_inc_seq_num S + 1"
  shows "\<exists>S'. AddToSnapshot \<lparr>mdp_seq_num = n, mdp_update = u\<rparr> S = Inr S' \<and> snap_ok S' \<and>
    snap_view S' = feed_apply u (snap_view S) \<and> last_inc_seq_num S' = n"
proof -
  let ?t = "unat (mu_ticker_id u)" and ?i = "unat (mu_order_id u)" and ?P = "snapshot_order_pool S"
  from assms(2) have "mu_type u = MarketUpdateType_MODIFY \<or> mu_type u = MarketUpdateType_CANCEL" by simp
  then obtain a where a: "ticker_orders S ?t ?i = Some a" "a \<in> live ?P" "?t < ME_MAX_TICKERS"
    "?i < ME_MAX_ORDER_IDS" "expect_existing (Some a) u S = Inr (obj ?P a)"
    using existing_order [OF assms(1) _ assms(3)] by metis
  have "pool_ok ?P" using assms(1) by (simp add: snap_ok_def)
  then obtain P' where P': "Deallocate a ?P = Inr P'" "live P' = live ?P - {a}" "pool_ok P'" "\<And>b. obj P' b = obj ?P b"
    using a(2) mem_pool.deallocE by metis
  let ?S = "S\<lparr>snapshot_order_pool := P', ticker_orders := (ticker_orders S)(?t := (ticker_orders S ?t)(?i := None)),
    last_inc_seq_num := n\<rparr>"
  have run: "AddToSnapshot \<lparr>mdp_seq_num = n, mdp_update = u\<rparr> S = Inr ?S"
    using a P'(1) assms(2,4) by (simp add: AddToSnapshot_def update_ticker_orders_def orders_at_def)
  have only: "t = ?t \<and> i = ?i" if "ticker_orders S t i = Some a" for t i
    using assms(1) a(1) that unfolding snap_ok_def by blast
  have "obj P' = obj ?P" using P'(4) by (rule ext)
  then have view: "snap_view ?S = feed_apply u (snap_view S)"
    using assms(2) by (simp add: snap_view_def feed_apply_def) (simp add: fun_eq_iff)
  moreover have "snap_ok ?S"
    unfolding snap_ok_def
  proof (intro conjI)
    show "live_ok (snap_view ?S)"
      unfolding view using assms(1,3) by (simp add: feed_apply_live_ok snap_ok_def)
    show "pool_ok (snapshot_order_pool ?S)" using P'(3) by simp
    show "\<forall>t i b. ticker_orders ?S t i = Some b \<longrightarrow> b \<in> live (snapshot_order_pool ?S)"
      using assms(1) P'(2) only by (auto simp: snap_ok_def)
    show "\<forall>t i t' i' b. ticker_orders ?S t i = Some b \<and> ticker_orders ?S t' i' = Some b \<longrightarrow> t = t' \<and> i = i'"
    proof (intro allI impI)
      fix t i t' i' b assume "ticker_orders ?S t i = Some b \<and> ticker_orders ?S t' i' = Some b"
      then have "ticker_orders S t i = Some b \<and> ticker_orders S t' i' = Some b" by (auto split: if_splits)
      with assms(1) show "t = t' \<and> i = i'" unfolding snap_ok_def by blast
    qed
  qed
  ultimately show ?thesis using run by auto
qed

lemma AddToSnapshot_other:
  assumes "snap_ok S" "mu_type u \<noteq> MarketUpdateType_ADD" "mu_type u \<noteq> MarketUpdateType_MODIFY"
    and "mu_type u \<noteq> MarketUpdateType_CANCEL" "update_fits (snap_view S) u" "n = last_inc_seq_num S + 1"
  shows "AddToSnapshot \<lparr>mdp_seq_num = n, mdp_update = u\<rparr> S = Inr (S\<lparr>last_inc_seq_num := n\<rparr>) \<and>
    snap_ok (S\<lparr>last_inc_seq_num := n\<rparr>) \<and> snap_view (S\<lparr>last_inc_seq_num := n\<rparr>) = feed_apply u (snap_view S)"
proof -
  have v: "snap_view (S\<lparr>last_inc_seq_num := n\<rparr>) = snap_view S" by (simp add: snap_view_def)
  have "feed_apply u (snap_view S) = snap_view S"
    using assms(2-5) by (cases "mu_type u") (simp_all add: feed_apply_def update_fits_def)
  moreover have "AddToSnapshot \<lparr>mdp_seq_num = n, mdp_update = u\<rparr> S = Inr (S\<lparr>last_inc_seq_num := n\<rparr>)"
    using assms(2-6) by (cases "mu_type u") (simp_all add: AddToSnapshot_def update_ticker_orders_def update_fits_def)
  ultimately show ?thesis using assms(1) v by (simp add: snap_ok_def)
qed

lemma AddToSnapshot_ok:
  assumes "snap_ok S" "update_fits (snap_view S) u" "n = last_inc_seq_num S + 1"
    and "has_room (snapshot_order_pool S)"
  shows "\<exists>S'. AddToSnapshot \<lparr>mdp_seq_num = n, mdp_update = u\<rparr> S = Inr S' \<and> snap_ok S' \<and>
    snap_view S' = feed_apply u (snap_view S) \<and> last_inc_seq_num S' = n"
proof -
  consider "mu_type u = MarketUpdateType_ADD" | "mu_type u = MarketUpdateType_MODIFY"
    | "mu_type u = MarketUpdateType_CANCEL"
    | "mu_type u \<noteq> MarketUpdateType_ADD" "mu_type u \<noteq> MarketUpdateType_MODIFY" "mu_type u \<noteq> MarketUpdateType_CANCEL"
    by blast
  then show ?thesis
  proof cases
    case 1
    show ?thesis by (rule AddToSnapshot_add [OF assms(1) 1 assms(2,4,3)])
  next
    case 2
    show ?thesis using AddToSnapshot_modify [OF assms(1) 2 assms(2,3)] by blast
  next
    case 3
    show ?thesis by (rule AddToSnapshot_cancel [OF assms(1) 3 assms(2,3)])
  next
    case 4
    show ?thesis using AddToSnapshot_other [OF assms(1) 4 assms(2,3)] by auto
  qed
qed

text \<open>
  C12: The snapshot synthesizer follows the feed: an update that fits the live orders and carries the
  next number is taken without a failed assertion, and the orders it keeps in its pool are those of
  the feed after the update.
\<close>

theorem AddToSnapshot_refines:
  assumes "snap_ok S" "update_fits (snap_view S) u" "n = last_inc_seq_num S + 1"
    and "has_room (snapshot_order_pool S)"
  shows "\<exists>S'. AddToSnapshot \<lparr>mdp_seq_num = n, mdp_update = u\<rparr> S = Inr S' \<and> snap_ok S' \<and>
    snap_view S' = feed_apply u (snap_view S) \<and> last_inc_seq_num S' = n"
  by (rule AddToSnapshot_ok [OF assms])

theorem AddToSnapshot_refines_witness:
  "\<exists>S'. AddToSnapshot \<lparr>mdp_seq_num = 1, mdp_update = sample_add\<rparr>
      (SnapshotSynthesizer_new (LockFreeQueue_new 8 \<lparr>mdp_seq_num = 0, mdp_update = MEMarketUpdate_default\<rparr>)) = Inr S' \<and>
    snap_view S' 2 1 = Some sample_add"
proof -
  let ?S = "SnapshotSynthesizer_new (LockFreeQueue_new 8 \<lparr>mdp_seq_num = 0, mdp_update = MEMarketUpdate_default\<rparr>)"
  have "update_fits (snap_view ?S) sample_add"
    by (simp add: update_fits_def sample_add_def snap_view_def SnapshotSynthesizer_new_def
        ME_MAX_TICKERS_def ME_MAX_ORDER_IDS_def)
  moreover have "has_room (snapshot_order_pool ?S)"
    by (simp add: SnapshotSynthesizer_new_def has_room_def ME_MAX_ORDER_IDS_def)
  moreover have "(1 :: SeqNum) = last_inc_seq_num ?S + 1" by (simp add: SnapshotSynthesizer_new_def)
  ultimately obtain S' where "AddToSnapshot \<lparr>mdp_seq_num = 1, mdp_update = sample_add\<rparr> ?S = Inr S'"
    "snap_view S' = feed_apply sample_add (snap_view ?S)"
    using AddToSnapshot_refines [OF snap_ok_new] by blast
  then show ?thesis by (simp add: feed_apply_def sample_add_def)
qed

section \<open>What is published\<close>

text \<open>
  The messages \<open>us\<close> have been sent, as whole messages per datagram, and at most \<open>c\<close> of them are still
  in the socket's buffer. A snapshot never has more than ten messages there.
\<close>

definition published :: "Socket \<Rightarrow> MEMarketUpdate list \<Rightarrow> nat \<Rightarrow> publication \<Rightarrow> bool" where
  "published s0 us c st \<longleftrightarrow>
     (case st of (n, s, outs) \<Rightarrow>
        n = of_nat (length us) \<and> concat outs @ outbound_data s = concat (map put_MDPMarketUpdate (number_updates 0 us)) \<and>
        (\<exists>k\<le>c. length (outbound_data s) = k * sizeof_MDPMarketUpdate) \<and>
        (\<forall>out\<in>set outs. sizeof_MDPMarketUpdate dvd length out) \<and> s\<lparr>outbound_data := []\<rparr> = s0\<lparr>outbound_data := []\<rparr>)"

lemma published_send:
  assumes "published s0 us c st" "c < 10"
  shows "\<exists>st'. snapshot_send u st = Inr st' \<and> published s0 (us @ [u]) (c + 1) st'"
proof -
  obtain n s outs where st: "st = (n, s, outs)" by (cases st)
  obtain k where k: "k \<le> c" "length (outbound_data s) = k * sizeof_MDPMarketUpdate"
    using assms(1) by (auto simp: published_def st)
  have "(k + 1) * sizeof_MDPMarketUpdate \<le> 10 * sizeof_MDPMarketUpdate" using k(1) assms(2) by (intro mult_right_mono) simp_all
  then have fits: "length (outbound_data s) + sizeof_MDPMarketUpdate < MCAST_BUFFER_SIZE"
    by (simp add: k(2) sizeof_MDPMarketUpdate_def MCAST_BUFFER_SIZE_def)
  let ?m = "\<lparr>mdp_seq_num = n, mdp_update = u\<rparr>"
  have "snapshot_send u st = Inr (n + 1, s\<lparr>outbound_data := outbound_data s @ put_MDPMarketUpdate ?m\<rparr>, outs)"
    using fits by (simp add: snapshot_send_def st McastSocket_Send_def)
  moreover have "\<exists>k'\<le>c + 1. k * sizeof_MDPMarketUpdate + sizeof_MDPMarketUpdate = k' * sizeof_MDPMarketUpdate"
    using k(1) by (intro exI [of _ "k + 1"]) (simp add: algebra_simps)
  moreover have "s\<lparr>outbound_data := []\<rparr> = s0\<lparr>outbound_data := []\<rparr>" using assms(1) by (simp add: published_def st)
  ultimately show ?thesis using assms(1) k(2) by (simp add: published_def st)
qed

lemma published_flush:
  assumes "published s0 us c st"
  shows "\<exists>st'. snapshot_flush st = Inr st' \<and> published s0 us 0 st' \<and> outbound_data (fst (snd st')) = []"
proof -
  obtain n s outs where st: "st = (n, s, outs)" by (cases st)
  have "snapshot_flush st = Inr (n, s\<lparr>outbound_data := []\<rparr>, if outbound_data s = [] then outs else outs @ [outbound_data s])"
    by (simp add: snapshot_flush_def st McastSocket_SendAndRecv_def)
  moreover have "sizeof_MDPMarketUpdate dvd length (outbound_data s)" using assms by (auto simp: published_def st)
  ultimately show ?thesis using assms by (auto simp: published_def st)
qed

lemma published_mono: "published s0 us c st \<Longrightarrow> c \<le> d \<Longrightarrow> published s0 us d st"
  by (cases st) (auto simp: published_def intro: order_trans)

lemma publish_order_ok:
  assumes "published s0 us c st" "c < 10"
  shows "\<exists>st'. publish_order S t i st = Inr st' \<and>
    published s0 (us @ List.map_filter (snap_view S t) [i]) c st'"
proof (cases "ticker_orders S t i")
  case None
  with assms(1) show ?thesis by (simp add: publish_order_def snap_view_def)
next
  case (Some a)
  let ?u = "obj (snapshot_order_pool S) a"
  obtain st1 where st1: "snapshot_send ?u st = Inr st1" "published s0 (us @ [?u]) (c + 1) st1"
    using published_send [OF assms] by blast
  obtain st2 where "snapshot_flush st1 = Inr st2" "published s0 (us @ [?u]) 0 st2"
    using published_flush [OF st1(2)] by blast
  with st1(1) Some show ?thesis
    by (auto simp: publish_order_def snap_view_def intro: published_mono)
qed

lemma publish_orders_ok:
  assumes "published s0 us c st" "c < 10"
  shows "\<exists>st'. rfold (publish_order S t) is st = Inr st' \<and>
    published s0 (us @ List.map_filter (snap_view S t) is) c st'"
  using assms(1)
proof (induction "is" arbitrary: us st)
  case (Cons i "is")
  obtain st1 where st1: "publish_order S t i st = Inr st1"
    "published s0 (us @ List.map_filter (snap_view S t) [i]) c st1"
    using publish_order_ok [OF Cons.prems assms(2)] by blast
  from Cons.IH [OF st1(2)] st1(1) show ?case by (auto split: option.splits)
qed simp

lemma publish_tickers_ok:
  assumes "published s0 us c st" "c + length ts < 10"
  shows "\<exists>st'. rfold (publish_ticker S) ts st = Inr st' \<and>
    published s0 (us @ concat (map (ticker_snapshot (snap_view S)) ts)) (c + length ts) st'"
  using assms
proof (induction ts arbitrary: us st c)
  case (Cons t ts)
  have c: "c < 10" "c + 1 < 10" using Cons.prems(2) by simp_all
  obtain st1 where st1: "snapshot_send (clear_update t) st = Inr st1" "published s0 (us @ [clear_update t]) (c + 1) st1"
    using published_send [OF Cons.prems(1) c(1)] by blast
  obtain st2 where st2: "rfold (publish_order S t) [0..<ME_MAX_ORDER_IDS] st1 = Inr st2"
    "published s0 (us @ ticker_snapshot (snap_view S) t) (c + 1) st2"
    using publish_orders_ok [OF st1(2) c(2)] by (fastforce simp: ticker_snapshot_def)
  have "publish_ticker S t st = Inr st2"
    using st1(1) st2(1) by (simp add: publish_ticker_def clear_update_def)
  with Cons.IH [OF st2(2)] Cons.prems(2) show ?case by simp
qed simp

lemma PublishSnapshot_ok:
  assumes "outbound_data (snapshot_socket S) = []"
  shows "\<exists>outs. PublishSnapshot S = Inr (S, outs) \<and>
    concat outs = concat (map put_MDPMarketUpdate
      (number_updates 0 (snapshot_updates (snap_view S) (last_inc_seq_num S)))) \<and>
    (\<forall>out\<in>set outs. sizeof_MDPMarketUpdate dvd length out)"
proof -
  let ?n = "last_inc_seq_num S" and ?s = "snapshot_socket S"
  have s: "?s\<lparr>outbound_data := []\<rparr> = ?s" using assms by simp
  have "published ?s [] 0 (0, ?s, [])" using assms by (simp add: published_def)
  then obtain st1 where st1: "snapshot_send (start_update ?n) (0, ?s, []) = Inr st1"
    "published ?s [start_update ?n] 1 st1"
    using published_send [where u = "start_update ?n"] by fastforce
  have "1 + length [0..<ME_MAX_TICKERS] < 10" by (simp add: ME_MAX_TICKERS_def)
  then obtain st2 where st2: "rfold (publish_ticker S) [0..<ME_MAX_TICKERS] st1 = Inr st2"
    "published ?s (start_update ?n # snapshot_body (snap_view S)) 9 st2"
    using publish_tickers_ok [OF st1(2), of "[0..<ME_MAX_TICKERS]" S]
    by (auto simp: snapshot_body_def ME_MAX_TICKERS_def)
  then obtain st3 where st3: "snapshot_send (end_update ?n) st2 = Inr st3"
    "published ?s (snapshot_updates (snap_view S) ?n) 10 st3"
    using published_send [OF st2(2), where u = "end_update ?n"] by (fastforce simp: snapshot_updates_def)
  then obtain st4 where st4: "snapshot_flush st3 = Inr st4" "published ?s (snapshot_updates (snap_view S) ?n) 0 st4"
    "outbound_data (fst (snd st4)) = []"
    using published_flush [OF st3(2)] by blast
  obtain m s' outs where st4': "st4 = (m, s', outs)" by (cases st4)
  have "s'\<lparr>outbound_data := []\<rparr> = s'" using st4(3) by (simp add: st4')
  then have "s' = ?s" using st4(2) s by (simp add: published_def st4')
  then have "S\<lparr>snapshot_socket := s'\<rparr> = S" by simp
  with st1(1) st2(1) st3(1) st4 st4' show ?thesis
    by (auto simp: PublishSnapshot_def start_update_def end_update_def published_def)
qed

section \<open>Following the feed\<close>

lemma Allocate_room: "Allocate x P = Inr (a, P') \<Longrightarrow> card (live P') \<le> card (live P) + 1 \<and> store_size P' = store_size P"
proof -
  assume "Allocate x P = Inr (a, P')"
  then have "live P' \<subseteq> insert a (live P)" and "store_size P' = store_size P"
    by (auto simp: Allocate_def UpdateNextFreeIndex_def result_simps live_def set_block_def split: if_splits)
  then have "card (live P') \<le> card (insert a (live P))" by (intro card_mono) simp_all
  also have "\<dots> \<le> card (live P) + 1" by (simp add: card_insert_if)
  finally show ?thesis using \<open>store_size P' = store_size P\<close> by simp
qed

lemma Deallocate_room: "Deallocate a P = Inr P' \<Longrightarrow> card (live P') \<le> card (live P) + 1 \<and> store_size P' = store_size P"
  by (auto dest!: Deallocate_InrD)

lemma update_ticker_orders_room:
  assumes "update_ticker_orders u S = Inr S'"
  shows "card (live (snapshot_order_pool S')) \<le> card (live (snapshot_order_pool S)) + 1 \<and>
    store_size (snapshot_order_pool S') = store_size (snapshot_order_pool S)"
proof (cases "mu_type u")
  case MarketUpdateType_ADD
  with assms have "\<exists>a P'. Allocate u (snapshot_order_pool S) = Inr (a, P') \<and> snapshot_order_pool S' = P'"
    by (auto simp: update_ticker_orders_def elim!: rbind_eq_InrE)
  then show ?thesis by (auto dest: Allocate_room)
next
  case MarketUpdateType_CANCEL
  with assms have "\<exists>a P'. Deallocate a (snapshot_order_pool S) = Inr P' \<and> snapshot_order_pool S' = P'"
    by (auto simp: update_ticker_orders_def elim!: rbind_eq_InrE split: option.splits)
  then show ?thesis by (auto dest: Deallocate_room)
next
  case MarketUpdateType_MODIFY
  let ?f = "\<lambda>v. v\<lparr>mu_qty := mu_qty u, mu_price := mu_price u\<rparr>"
  from assms MarketUpdateType_MODIFY
  have "\<exists>p. assign p ?f (snapshot_order_pool S) = Inr (snapshot_order_pool S')"
    by (auto simp: update_ticker_orders_def elim!: rbind_eq_InrE)
  then obtain a where "snapshot_order_pool S' = upd_obj a ?f (snapshot_order_pool S)"
    by (auto simp: assign_def dest: sym split: option.splits)
  then show ?thesis by simp
qed (use assms in \<open>simp_all add: update_ticker_orders_def\<close>)

lemma AddToSnapshot_room:
  assumes "AddToSnapshot u S = Inr S'"
  shows "card (live (snapshot_order_pool S')) \<le> card (live (snapshot_order_pool S)) + 1 \<and>
    store_size (snapshot_order_pool S') = store_size (snapshot_order_pool S)"
  using assms update_ticker_orders_room
  by (fastforce simp: AddToSnapshot_def elim!: rbind_eq_InrE split: if_splits)

lemma drain_updates_ok:
  assumes "snap_ok S" "q_ok (snapshot_md_updates S)"
    and "q_list (snapshot_md_updates S) = number_updates (last_inc_seq_num S + 1) us"
    and "valid_feed (snap_view S) us"
    and "card (live (snapshot_order_pool S)) + length us < store_size (snapshot_order_pool S)"
  shows "\<exists>S'. drain_updates S = Inr S' \<and> snap_ok S' \<and> snap_view S' = fold feed_apply us (snap_view S) \<and>
    last_inc_seq_num S' = last_inc_seq_num S + of_nat (length us) \<and>
    q_ok (snapshot_md_updates S') \<and> q_list (snapshot_md_updates S') = [] \<and>
    card (live (snapshot_order_pool S')) \<le> card (live (snapshot_order_pool S)) + length us \<and>
    store_size (snapshot_order_pool S') = store_size (snapshot_order_pool S)"
  using assms
proof (induction us arbitrary: S)
  case Nil
  then have "GetNextToRead (snapshot_md_updates S) = None" by (simp add: GetNextToRead_list)
  with Nil show ?case by (simp add: drain_updates.simps [of S])
next
  case (Cons u us)
  let ?n = "last_inc_seq_num S + 1"
  let ?u = "\<lparr>mdp_seq_num = ?n, mdp_update = u\<rparr>"
  have room: "has_room (snapshot_order_pool S)" using Cons.prems(5) by (simp add: has_room_def)
  have fits: "update_fits (snap_view S) u" using Cons.prems(4) by simp
  obtain V where V: "AddToSnapshot ?u S = Inr V" "snap_ok V"
    "snap_view V = feed_apply u (snap_view S)" "last_inc_seq_num V = ?n"
    using AddToSnapshot_ok [OF Cons.prems(1) fits refl room] by blast
  have front: "q_list (snapshot_md_updates S) = ?u # number_updates (?n + 1) us" using Cons.prems(3) by simp
  have q: "GetNextToRead (snapshot_md_updates S) = Some ?u"
    using Cons.prems(2) front by (simp add: GetNextToRead_list)
  obtain q' where q': "UpdateReadIndex (snapshot_md_updates S) = Inr q'" "q_ok q'"
    "q_list q' = number_updates (?n + 1) us"
    using UpdateReadIndex_ok [OF Cons.prems(2) front] by blast
  let ?V = "V\<lparr>snapshot_md_updates := q'\<rparr>"
  have view: "snap_view ?V = snap_view V" by (simp add: snap_view_def)
  have "snap_ok ?V" using V(2) view by (simp add: snap_ok_def)
  moreover have "valid_feed (snap_view ?V) us" using Cons.prems(4) view V(3) by simp
  moreover have "card (live (snapshot_order_pool ?V)) + length us < store_size (snapshot_order_pool ?V)"
    using AddToSnapshot_room [OF V(1)] Cons.prems(5) by simp
  ultimately obtain S' where "drain_updates ?V = Inr S'" "snap_ok S'"
    "snap_view S' = fold feed_apply us (snap_view ?V)"
    "last_inc_seq_num S' = last_inc_seq_num ?V + of_nat (length us)"
    "q_ok (snapshot_md_updates S')" "q_list (snapshot_md_updates S') = []"
    "card (live (snapshot_order_pool S')) \<le> card (live (snapshot_order_pool ?V)) + length us"
    "store_size (snapshot_order_pool S') = store_size (snapshot_order_pool ?V)"
    using Cons.IH [of ?V] q'(2,3) V(4) by auto
  with q q'(1) V view AddToSnapshot_room [OF V(1)] show ?case
    by (intro exI [of _ S']) (simp add: drain_updates.simps [of S] algebra_simps)
qed

text \<open>
  C13: The snapshots are those of the feed. Any turn of the loop of a well-formed synthesizer, whose queue
  holds the next updates \<open>us\<close> of a valid feed, numbered on from the last one it has seen, and whose
  pool has room for them, ends with an empty queue, the live orders after \<open>us\<close> and the number of
  the last of them, again well-formed, and each update has taken at most one block of the pool. If the last snapshot is more than the interval old, the turn
  publishes exactly SNAPSHOT\_START with that number, for each instrument CLEAR and its live orders
  by order id, and SNAPSHOT\_END with the same number, numbered from 0, in datagrams that hold whole
  messages; if not, it sends nothing. A new synthesizer is well-formed and has no live orders
  (\<open>snap_ok_new\<close>).
\<close>

theorem Run_publishes_feed:
  assumes "snap_ok S" "outbound_data (snapshot_socket S) = []" "q_ok (snapshot_md_updates S)"
    and "q_list (snapshot_md_updates S) = number_updates (last_inc_seq_num S + 1) us"
    and "valid_feed (snap_view S) us"
    and "card (live (snapshot_order_pool S)) + length us < store_size (snapshot_order_pool S)"
  shows "\<exists>S' outs. SnapshotSynthesizer_Run_once now now' S = Inr (S', outs) \<and>
    snap_ok S' \<and> snap_view S' = fold feed_apply us (snap_view S) \<and>
    last_inc_seq_num S' = last_inc_seq_num S + of_nat (length us) \<and>
    outbound_data (snapshot_socket S') = [] \<and> q_ok (snapshot_md_updates S') \<and> q_list (snapshot_md_updates S') = [] \<and>
    card (live (snapshot_order_pool S')) \<le> card (live (snapshot_order_pool S)) + length us \<and>
    store_size (snapshot_order_pool S') = store_size (snapshot_order_pool S) \<and>
    (if sint (bits64 now) - sint (bits64 (last_snapshot_time S)) > SNAPSHOT_INTERVAL
     then last_snapshot_time S' = now' \<and>
       concat outs = concat (map put_MDPMarketUpdate
         (number_updates 0 (snapshot_updates (snap_view S') (last_inc_seq_num S')))) \<and>
       (\<forall>out\<in>set outs. sizeof_MDPMarketUpdate dvd length out)
     else last_snapshot_time S' = last_snapshot_time S \<and> outs = [])"
proof -
  obtain S1 where S1: "drain_updates S = Inr S1" "snap_ok S1" "snap_view S1 = fold feed_apply us (snap_view S)"
    "last_inc_seq_num S1 = last_inc_seq_num S + of_nat (length us)"
    "q_ok (snapshot_md_updates S1)" "q_list (snapshot_md_updates S1) = []"
    "card (live (snapshot_order_pool S1)) \<le> card (live (snapshot_order_pool S)) + length us"
    "store_size (snapshot_order_pool S1) = store_size (snapshot_order_pool S)"
    using drain_updates_ok [OF assms(1,3-6)] by blast
  note same = drain_updates_same [OF S1(1)]
  show ?thesis
  proof (cases "sint (bits64 now) - sint (bits64 (last_snapshot_time S)) > SNAPSHOT_INTERVAL")
    case False
    then show ?thesis using S1 same assms(2) by (simp add: SnapshotSynthesizer_Run_once_def)
  next
    case True
    let ?S2 = "S1\<lparr>last_snapshot_time := now'\<rparr>"
    have view: "snap_view ?S2 = snap_view S1" by (simp add: snap_view_def)
    then have "snap_ok ?S2" using S1(2) by (simp add: snap_ok_def)
    moreover obtain outs where "PublishSnapshot ?S2 = Inr (?S2, outs)" "concat outs = concat (map put_MDPMarketUpdate
        (number_updates 0 (snapshot_updates (snap_view ?S2) (last_inc_seq_num ?S2))))"
      "\<forall>out\<in>set outs. sizeof_MDPMarketUpdate dvd length out"
      using PublishSnapshot_ok [of ?S2] same assms(2) by auto
    ultimately show ?thesis using S1 same assms(2) True view
      by (intro exI [of _ ?S2] exI [of _ outs]) (simp add: SnapshotSynthesizer_Run_once_def)
  qed
qed

text \<open>A turn at second 1, which takes an update and sends nothing, and one at second 61, which sends the snapshot.\<close>

theorem Run_publishes_feed_witness:
  "\<exists>S outs S'. SnapshotSynthesizer_Run_once (I64 1000000000) (I64 1000000000) (SnapshotSynthesizer_new
      (Enqueue \<lparr>mdp_seq_num = 1, mdp_update = sample_add\<rparr> (LockFreeQueue_new 8 \<lparr>mdp_seq_num = 0, mdp_update = sample_add\<rparr>))) = Inr (S, []) \<and>
    SnapshotSynthesizer_Run_once (I64 61000000000) (I64 61000000000) S = Inr (S', outs) \<and> snap_view S' = feed_state [sample_add] \<and>
    concat outs = concat (map put_MDPMarketUpdate (number_updates 0 (snapshot_updates (feed_state [sample_add]) 1)))"
proof -
  let ?m = "\<lparr>mdp_seq_num = 1, mdp_update = sample_add\<rparr>" and ?d = "\<lparr>mdp_seq_num = 0, mdp_update = sample_add\<rparr>"
  let ?q = "Enqueue ?m (LockFreeQueue_new 8 ?d)"
  let ?S0 = "SnapshotSynthesizer_new ?q"
  have new: "snap_view ?S0 = no_orders" "last_inc_seq_num ?S0 = 0" "snapshot_md_updates ?S0 = ?q"
    "live (snapshot_order_pool ?S0) = {}" "store_size (snapshot_order_pool ?S0) = ME_MAX_ORDER_IDS"
    "last_snapshot_time ?S0 = I64 0" "outbound_data (snapshot_socket ?S0) = []"
    by (simp_all add: SnapshotSynthesizer_new_def snap_view_def no_orders_def Socket_new_def)
  have q: "q_ok ?q" "q_list ?q = number_updates 1 [sample_add]"
    using lfq.enq_all [of "LockFreeQueue_new 8 ?d" "[?m]"] by simp_all
  obtain S where S: "SnapshotSynthesizer_Run_once (I64 1000000000) (I64 1000000000) ?S0 = Inr (S, [])" "snap_ok S"
    "snap_view S = feed_state [sample_add]" "last_inc_seq_num S = 1" "outbound_data (snapshot_socket S) = []"
    "q_ok (snapshot_md_updates S)" "q_list (snapshot_md_updates S) = []" "last_snapshot_time S = I64 0"
    "card (live (snapshot_order_pool S)) \<le> 1" "store_size (snapshot_order_pool S) = ME_MAX_ORDER_IDS"
    using Run_publishes_feed [OF snap_ok_new [of ?q], of "[sample_add]" "I64 1000000000" "I64 1000000000"] q valid_sample
    by (auto simp: new SNAPSHOT_INTERVAL_def ME_MAX_ORDER_IDS_def feed_state_def)
  have room: "card (live (snapshot_order_pool S)) + length [] < store_size (snapshot_order_pool S)"
    using S(9,10) by (simp add: ME_MAX_ORDER_IDS_def)
  obtain S' outs where "SnapshotSynthesizer_Run_once (I64 61000000000) (I64 61000000000) S = Inr (S', outs)"
    "snap_view S' = feed_state [sample_add]" "concat outs = concat (map put_MDPMarketUpdate
       (number_updates 0 (snapshot_updates (feed_state [sample_add]) 1)))"
    using Run_publishes_feed [OF S(2,5,6) _ _ room, of "I64 61000000000" "I64 61000000000"] S(3,4,7,8)
    by (auto simp: SNAPSHOT_INTERVAL_def)
  with S(1) show ?thesis by blast
qed

end
