(* ===== verification/Market_Data_Publisher.thy ===== *)
theory Market_Data_Publisher
  imports Snapshot_Synthesizer
begin

text \<open>
  \<open>exchange::MarketDataPublisher\<close> (\<open>src/src/include/market_data/market_data_publisher.hpp\<close>,
  \<open>src/src/market_data/market_data_publisher.cpp\<close>): numbers the updates of the matching engine, sends
  them on the incremental multicast stream and passes them on to the snapshot synthesizer.
\<close>

section \<open>State and operations\<close>

record MarketDataPublisher =
  next_inc_seq_num :: SeqNum
  outgoing_md_updates :: "MEMarketUpdate LockFreeQueue"
  pub_snapshot_md_updates :: "MDPMarketUpdate LockFreeQueue"
  incremental_socket :: Socket

definition MarketDataPublisher_new :: "MEMarketUpdate LockFreeQueue \<Rightarrow> MarketDataPublisher" where
  "MarketDataPublisher_new market_updates =
     \<lparr>next_inc_seq_num = 1, outgoing_md_updates = market_updates,
      pub_snapshot_md_updates =
        LockFreeQueue_new ME_MAX_MARKET_UPDATES \<lparr>mdp_seq_num = 0, mdp_update = MEMarketUpdate_default\<rparr>,
      incremental_socket = Socket_new\<rparr>"

text \<open>
  The body of the loop has two halves. The first sends the update at the front and gives its slot
  back to the producer, the second copies the update for the synthesizer, from the pointer
  \<open>market_update\<close> that still refers to that slot.
\<close>

definition publish_update :: "MEMarketUpdate \<Rightarrow> MarketDataPublisher \<Rightarrow> MarketDataPublisher result" where
  "publish_update market_update D =
     rbind (McastSocket_Send (put64 (next_inc_seq_num D)) (incremental_socket D)) (\<lambda>s.
     rbind (McastSocket_Send (put_MEMarketUpdate market_update) s) (\<lambda>s.
     rbind (UpdateReadIndex (outgoing_md_updates D)) (\<lambda>q.
     Inr (D\<lparr>incremental_socket := s, outgoing_md_updates := q\<rparr>))))"

definition copy_update :: "nat \<Rightarrow> MarketDataPublisher \<Rightarrow> MarketDataPublisher" where
  "copy_update slot D =
     D\<lparr>pub_snapshot_md_updates :=
         Enqueue \<lparr>mdp_seq_num = next_inc_seq_num D, mdp_update = q_store (outgoing_md_updates D) slot\<rparr>
           (pub_snapshot_md_updates D),
       next_inc_seq_num := next_inc_seq_num D + 1\<rparr>"

function publish_updates :: "MarketDataPublisher \<Rightarrow> MarketDataPublisher result" where
  "publish_updates D =
     (case GetNextToRead (outgoing_md_updates D) of
        None \<Rightarrow> Inr D
      | Some market_update \<Rightarrow>
          (case publish_update market_update D of
             Inl e \<Rightarrow> Inl e
           | Inr D' \<Rightarrow> publish_updates (copy_update (next_read_index (outgoing_md_updates D)) D')))"
  by pat_completeness auto
termination
  by (relation "measure (\<lambda>D. num_elements (outgoing_md_updates D))")
    (auto simp: publish_update_def copy_update_def UpdateReadIndex_def result_simps)

declare publish_updates.simps [simp del]

text \<open>One turn of \<open>Run\<close>, with what is handed to the system.\<close>

definition MarketDataPublisher_Run_once :: "MarketDataPublisher \<Rightarrow> (MarketDataPublisher \<times> byte list) result" where
  "MarketDataPublisher_Run_once D =
     rbind (publish_updates D) (\<lambda>D.
     rbind (McastSocket_SendAndRecv (\<lambda>s w. Inl Null_deref) None (incremental_socket D) ()) (\<lambda>(s, _, sent, _).
     Inr (D\<lparr>incremental_socket := s\<rparr>, sent)))"

section \<open>The stream\<close>

lemma num_elements_new [simp]: "num_elements (LockFreeQueue_new n d) = 0"
  by (simp add: LockFreeQueue_new_def)

lemma publish_update_ok:
  assumes "q_ok (outgoing_md_updates D)" "q_list (outgoing_md_updates D) = u # us"
    and "length (outbound_data (incremental_socket D)) + sizeof_MDPMarketUpdate < MCAST_BUFFER_SIZE"
  shows "\<exists>q. publish_update u D = Inr (D\<lparr>incremental_socket := (incremental_socket D)\<lparr>outbound_data :=
        outbound_data (incremental_socket D) @ put_MDPMarketUpdate \<lparr>mdp_seq_num = next_inc_seq_num D, mdp_update = u\<rparr>\<rparr>,
      outgoing_md_updates := q\<rparr>) \<and> q_ok q \<and> q_list q = us \<and> q_store q (next_read_index (outgoing_md_updates D)) = u"
proof -
  let ?q = "outgoing_md_updates D"
  obtain q where q: "UpdateReadIndex ?q = Inr q" "q_ok q" "q_list q = us"
    using UpdateReadIndex_ok [OF assms(1,2)] by blast
  have "GetNextToRead ?q = Some u" using assms(1,2) by (simp add: GetNextToRead_list)
  then have "q_store ?q (next_read_index ?q) = u" by (simp add: GetNextToRead_def split: if_splits)
  then have slot: "q_store q (next_read_index ?q) = u"
    using q(1) by (auto simp: UpdateReadIndex_def result_simps)
  have "8 + length (put_MEMarketUpdate u) = sizeof_MDPMarketUpdate"
    using put_lengths(3) [of "\<lparr>mdp_seq_num = 0, mdp_update = u\<rparr>"] by (simp add: put_MDPMarketUpdate_def)
  then show ?thesis
    using assms(3) q slot
    by (intro exI [of _ q]) (simp add: publish_update_def McastSocket_Send_def put_MDPMarketUpdate_def)
qed

lemma publish_updates_ok:
  assumes "q_ok (outgoing_md_updates D)" "q_list (outgoing_md_updates D) = us"
    and "length (outbound_data (incremental_socket D)) + sizeof_MDPMarketUpdate * length us < MCAST_BUFFER_SIZE"
    and "q_ok (pub_snapshot_md_updates D)"
      "num_elements (pub_snapshot_md_updates D) + length us \<le> q_size (pub_snapshot_md_updates D)"
  shows "\<exists>D'. publish_updates D = Inr D' \<and> q_list (outgoing_md_updates D') = [] \<and>
    outbound_data (incremental_socket D') = outbound_data (incremental_socket D) @
      concat (map put_MDPMarketUpdate (number_updates (next_inc_seq_num D) us)) \<and>
    q_ok (pub_snapshot_md_updates D') \<and> q_list (pub_snapshot_md_updates D') =
      q_list (pub_snapshot_md_updates D) @ number_updates (next_inc_seq_num D) us \<and>
    next_inc_seq_num D' = next_inc_seq_num D + of_nat (length us)"
  using assms
proof (induction us arbitrary: D)
  case Nil
  then have "GetNextToRead (outgoing_md_updates D) = None" by (simp add: GetNextToRead_list)
  with Nil show ?case by (simp add: publish_updates.simps [of D])
next
  case (Cons u us)
  let ?n = "next_inc_seq_num D" and ?slot = "next_read_index (outgoing_md_updates D)"
  let ?m = "\<lparr>mdp_seq_num = ?n, mdp_update = u\<rparr>" and ?p = "pub_snapshot_md_updates D"
  obtain q where q: "publish_update u D = Inr (D\<lparr>incremental_socket := (incremental_socket D)\<lparr>outbound_data :=
        outbound_data (incremental_socket D) @ put_MDPMarketUpdate ?m\<rparr>, outgoing_md_updates := q\<rparr>)"
    "q_ok q" "q_list q = us" "q_store q ?slot = u"
    using publish_update_ok [OF Cons.prems(1,2)] Cons.prems(3) by auto
  let ?D = "D\<lparr>incremental_socket := (incremental_socket D)\<lparr>outbound_data :=
        outbound_data (incremental_socket D) @ put_MDPMarketUpdate ?m\<rparr>, outgoing_md_updates := q,
      pub_snapshot_md_updates := Enqueue ?m ?p, next_inc_seq_num := ?n + 1\<rparr>"
  have "GetNextToRead (outgoing_md_updates D) = Some u"
    using Cons.prems(1,2) by (simp add: GetNextToRead_list)
  then have run: "publish_updates D = publish_updates ?D"
    by (simp add: publish_updates.simps [of D] q(1,4) copy_update_def)
  have p: "q_ok (Enqueue ?m ?p)" "q_list (Enqueue ?m ?p) = q_list ?p @ [?m]" "q_size (Enqueue ?m ?p) = q_size ?p"
    using Enqueue_ok [OF Cons.prems(4), of ?m] Cons.prems(5) by simp_all
  then have n: "num_elements (Enqueue ?m ?p) = num_elements ?p + 1" by (metis length_append_singleton length_q_list Suc_eq_plus1)
  have "\<exists>D'. publish_updates ?D = Inr D' \<and> q_list (outgoing_md_updates D') = [] \<and>
    outbound_data (incremental_socket D') = outbound_data (incremental_socket ?D) @
      concat (map put_MDPMarketUpdate (number_updates (next_inc_seq_num ?D) us)) \<and>
    q_ok (pub_snapshot_md_updates D') \<and> q_list (pub_snapshot_md_updates D') =
      q_list (pub_snapshot_md_updates ?D) @ number_updates (next_inc_seq_num ?D) us \<and>
    next_inc_seq_num D' = next_inc_seq_num ?D + of_nat (length us)"
    by (rule Cons.IH) (use q(2,3) p n Cons.prems(3,5) in simp_all)
  then show ?case using run p(2) by (auto simp: algebra_simps)
qed

text \<open>
  C35: The publisher loses and repeats nothing: a turn of its loop empties the matching engine's
  queue, hands exactly those updates, numbered in order, to the multicast socket, and gives the
  snapshot synthesizer the same numbered updates.
\<close>

theorem publisher_numbers_updates:
  assumes "q_ok (outgoing_md_updates D)" "q_list (outgoing_md_updates D) = us"
    and "outbound_data (incremental_socket D) = []" "sizeof_MDPMarketUpdate * length us < MCAST_BUFFER_SIZE"
    and "q_ok (pub_snapshot_md_updates D)"
      "num_elements (pub_snapshot_md_updates D) + length us \<le> q_size (pub_snapshot_md_updates D)"
  shows "\<exists>D'. MarketDataPublisher_Run_once D = Inr (D', concat (map put_MDPMarketUpdate (number_updates (next_inc_seq_num D) us))) \<and>
    q_list (outgoing_md_updates D') = [] \<and>
    q_list (pub_snapshot_md_updates D') = q_list (pub_snapshot_md_updates D) @ number_updates (next_inc_seq_num D) us \<and>
    next_inc_seq_num D' = next_inc_seq_num D + of_nat (length us)"
proof -
  have len: "length (outbound_data (incremental_socket D)) + sizeof_MDPMarketUpdate * length us < MCAST_BUFFER_SIZE"
    using assms(3,4) by simp
  obtain D' where "publish_updates D = Inr D'" "q_list (outgoing_md_updates D') = []"
    "outbound_data (incremental_socket D') = concat (map put_MDPMarketUpdate (number_updates (next_inc_seq_num D) us))"
    "q_list (pub_snapshot_md_updates D') = q_list (pub_snapshot_md_updates D) @ number_updates (next_inc_seq_num D) us"
    "next_inc_seq_num D' = next_inc_seq_num D + of_nat (length us)"
    using publish_updates_ok [OF assms(1,2) len assms(5,6)] assms(3) by auto
  then show ?thesis
    by (simp add: MarketDataPublisher_Run_once_def McastSocket_SendAndRecv_def)
qed

theorem publisher_numbers_updates_witness:
  "\<exists>D'. MarketDataPublisher_Run_once (MarketDataPublisher_new (Enqueue sample_add (LockFreeQueue_new 8 sample_add))) =
      Inr (D', concat (map put_MDPMarketUpdate (number_updates 1 [sample_add])))"
proof -
  let ?q = "Enqueue sample_add (LockFreeQueue_new 8 sample_add)" and ?D = "MarketDataPublisher_new (Enqueue sample_add (LockFreeQueue_new 8 sample_add))"
  have "q_ok ?q" "q_list ?q = [sample_add]"
    using lfq.enq_all [of "LockFreeQueue_new 8 sample_add" "[sample_add]"] by simp_all
  moreover have flds: "outgoing_md_updates ?D = ?q" "incremental_socket ?D = Socket_new" "next_inc_seq_num ?D = 1"
    "pub_snapshot_md_updates ?D = LockFreeQueue_new 262144 \<lparr>mdp_seq_num = 0, mdp_update = MEMarketUpdate_default\<rparr>"
    by (simp_all add: MarketDataPublisher_new_def ME_MAX_MARKET_UPDATES_def)
  ultimately have "\<exists>D'. MarketDataPublisher_Run_once ?D = Inr (D', concat (map put_MDPMarketUpdate (number_updates (next_inc_seq_num ?D) [sample_add]))) \<and>
    q_list (outgoing_md_updates D') = [] \<and>
    q_list (pub_snapshot_md_updates D') = q_list (pub_snapshot_md_updates ?D) @ number_updates (next_inc_seq_num ?D) [sample_add] \<and>
    next_inc_seq_num D' = next_inc_seq_num ?D + of_nat (length [sample_add])"
    by (intro publisher_numbers_updates)
      (simp_all add: flds Socket_new_def sizeof_MDPMarketUpdate_def MCAST_BUFFER_SIZE_def)
  then show ?thesis by (auto simp: flds)
qed

text \<open>
  The publisher reads the update for the synthesizer after it has given the slot back. On a full
  queue the engine's next update, written between the two halves of the loop body, overwrites it:
  the synthesizer receives the new update under the number of the old one.
\<close>

theorem publisher_reads_released_slot:
  assumes "publish_update u D = Inr D'" "q_ok (outgoing_md_updates D)"
    and "num_elements (outgoing_md_updates D) = q_size (outgoing_md_updates D)"
    and "q_ok (pub_snapshot_md_updates D)"
      "num_elements (pub_snapshot_md_updates D) < q_size (pub_snapshot_md_updates D)"
  shows "q_list (pub_snapshot_md_updates (copy_update (next_read_index (outgoing_md_updates D))
      (D'\<lparr>outgoing_md_updates := Enqueue x (outgoing_md_updates D')\<rparr>))) =
    q_list (pub_snapshot_md_updates D) @ [\<lparr>mdp_seq_num = next_inc_seq_num D, mdp_update = x\<rparr>]"
proof -
  have same: "pub_snapshot_md_updates D' = pub_snapshot_md_updates D" "next_inc_seq_num D' = next_inc_seq_num D"
    using assms(1) by (auto simp: publish_update_def result_simps)
  obtain q where q: "UpdateReadIndex (outgoing_md_updates D) = Inr q" "outgoing_md_updates D' = q"
    using assms(1) by (auto simp: publish_update_def result_simps)
  have "next_write_index q = next_read_index (outgoing_md_updates D)"
    using q(1) assms(2,3) by (auto simp: UpdateReadIndex_def result_simps q_ok_def)
  then have "q_store (Enqueue x q) (next_read_index (outgoing_md_updates D)) = x"
    by (simp add: Enqueue_def WriteNext_def UpdateWriteIndex_def)
  then show ?thesis
    using Enqueue_ok(2) [OF assms(4,5)] same q(2) by (simp add: copy_update_def)
qed

theorem publisher_reads_released_slot_witness:
  "\<exists>D'. publish_update sample_add (MarketDataPublisher_new (Enqueue sample_add (LockFreeQueue_new (Suc 0) sample_add))) = Inr D' \<and>
    q_list (pub_snapshot_md_updates (copy_update 0
      (D'\<lparr>outgoing_md_updates := Enqueue MEMarketUpdate_default (outgoing_md_updates D')\<rparr>))) =
    [\<lparr>mdp_seq_num = 1, mdp_update = MEMarketUpdate_default\<rparr>]"
proof -
  let ?q = "Enqueue sample_add (LockFreeQueue_new (Suc 0) sample_add)" and ?D = "MarketDataPublisher_new (Enqueue sample_add (LockFreeQueue_new (Suc 0) sample_add))"
  have q: "q_ok ?q" "q_list ?q = [sample_add]"
    using lfq.enq_all [of "LockFreeQueue_new (Suc 0) sample_add" "[sample_add]"] by simp_all
  have flds: "outgoing_md_updates ?D = ?q" "incremental_socket ?D = Socket_new" "next_inc_seq_num ?D = 1"
    "pub_snapshot_md_updates ?D = LockFreeQueue_new 262144 \<lparr>mdp_seq_num = 0, mdp_update = MEMarketUpdate_default\<rparr>"
    by (simp_all add: MarketDataPublisher_new_def ME_MAX_MARKET_UPDATES_def)
  obtain D' where D': "publish_update sample_add ?D = Inr D'"
    using publish_update_ok [of ?D sample_add "[]"] q
    by (auto simp: flds Socket_new_def sizeof_MDPMarketUpdate_def MCAST_BUFFER_SIZE_def)
  have "num_elements ?q = q_size ?q" "next_read_index ?q = 0"
    by (simp_all add: Enqueue_def WriteNext_def UpdateWriteIndex_def LockFreeQueue_new_def)
  moreover have "num_elements (pub_snapshot_md_updates ?D) < q_size (pub_snapshot_md_updates ?D)"
    by (simp add: flds)
  ultimately show ?thesis
    using publisher_reads_released_slot [OF D', where x = MEMarketUpdate_default] q D' by (simp add: flds)
qed

end
