(* ===== verification/Ordered_Map.thy ===== *)
theory Ordered_Map
  imports Prelude
begin

text \<open>
  \<open>std::map\<close>: an association list in the order of its keys, without duplicates. The components that
  iterate over a map use the interface \<open>ordered_map\<close>: what an insertion changes, and that the
  iteration meets the keys in increasing order.
\<close>

section \<open>The list\<close>

fun map_put :: "'k::linorder \<Rightarrow> 'v \<Rightarrow> ('k \<times> 'v) list \<Rightarrow> ('k \<times> 'v) list" where
  "map_put k v [] = [(k, v)]"
| "map_put k v ((k', v') # xs) =
     (if k < k' then (k, v) # (k', v') # xs
      else if k = k' then (k, v) # xs
      else (k', v') # map_put k v xs)"

definition map_ok :: "('k::linorder \<times> 'v) list \<Rightarrow> bool" where
  "map_ok xs \<longleftrightarrow> sorted_wrt (<) (map fst xs)"

definition map_contains :: "'k \<Rightarrow> ('k \<times> 'v) list \<Rightarrow> bool" where
  "map_contains k xs \<longleftrightarrow> k \<in> fst ` set xs"

lemma map_put_keys: "fst ` set (map_put k v xs) = insert k (fst ` set xs)"
  by (induction k v xs rule: map_put.induct) auto

lemma map_put_ok: "map_ok xs \<Longrightarrow> map_ok (map_put k v xs)"
proof (induction k v xs rule: map_put.induct)
  case (2 k v k' v' xs)
  then have "map_ok xs" "\<forall>l\<in>fst ` set xs. k' < l" by (auto simp: map_ok_def)
  with 2 show ?case using map_put_keys [of k v xs] by (fastforce simp: map_ok_def)
qed (simp add: map_ok_def)

lemma map_put_lookup: "map_ok xs \<Longrightarrow> map_of (map_put k v xs) = (map_of xs)(k \<mapsto> v)"
proof (induction k v xs rule: map_put.induct)
  case (2 k v k' v' xs)
  then have "map_ok xs" "\<forall>l\<in>fst ` set xs. k' < l" by (auto simp: map_ok_def)
  then have "k \<notin> fst ` set xs" if "k < k'" using that by force
  with 2 \<open>map_ok xs\<close> show ?case by (auto simp: fun_eq_iff)
qed simp

lemma map_ok_distinct: "map_ok xs \<Longrightarrow> distinct (map fst xs)"
  by (simp add: map_ok_def strict_sorted_iff)

lemma set_map_put: "map_ok xs \<Longrightarrow> set (map_put k v xs) = insert (k, v) {kv \<in> set xs. fst kv \<noteq> k}"
proof (induction k v xs rule: map_put.induct)
  case (2 k v k' v' xs)
  then have "map_ok xs" "\<forall>l\<in>fst ` set xs. k' < l" by (auto simp: map_ok_def)
  with 2 show ?case by (fastforce split: if_splits)
qed simp

lemma map_put_last: "\<forall>k'\<in>fst ` set xs. k' < k \<Longrightarrow> map_put k v xs = xs @ [(k, v)]"
  by (induction xs) auto

section \<open>The interface\<close>

locale ordered_map =
  fixes put :: "'k::linorder \<Rightarrow> 'v \<Rightarrow> 'm \<Rightarrow> 'm"
    and entries :: "'m \<Rightarrow> ('k \<times> 'v) list"
    and ok :: "'m \<Rightarrow> bool"
  assumes put_law: "ok m \<Longrightarrow> ok (put k v m) \<and> map_of (entries (put k v m)) = (map_of (entries m))(k \<mapsto> v)"
    and order_law: "ok m \<Longrightarrow> sorted_wrt (<) (map fst (entries m))"
begin

text \<open>The keys are visited once each.\<close>

lemma entries_distinct: "ok m \<Longrightarrow> distinct (map fst (entries m))"
  using order_law by (simp add: strict_sorted_iff)

lemma entry_iff: "ok m \<Longrightarrow> (k, v) \<in> set (entries m) \<longleftrightarrow> map_of (entries m) k = Some v"
  using entries_distinct by (metis map_of_is_SomeI map_of_SomeD)

lemma put_entry:
  "ok m \<Longrightarrow> (l, w) \<in> set (entries (put k v m)) \<longleftrightarrow> (if l = k then w = v else (l, w) \<in> set (entries m))"
  using put_law [of m k v] by (auto simp: entry_iff)

text \<open>What every entry satisfies it still satisfies after an insertion.\<close>

lemma put_all:
  assumes "ok m" "P k v" "\<forall>(l, w)\<in>set (entries m). P l w"
  shows "\<forall>(l, w)\<in>set (entries (put k v m)). P l w"
  using assms put_entry [OF assms(1), of _ _ k v] by (auto split: if_splits)

end

interpretation std_map: ordered_map map_put "\<lambda>xs. xs" map_ok
  by unfold_locales (simp_all add: map_put_ok map_put_lookup, simp add: map_ok_def)

lemma map_ok_Nil [simp]: "map_ok []"
  by (simp add: map_ok_def)

text \<open>Appending a greatest key.\<close>

lemma map_put_snoc:
  assumes "\<forall>l\<in>fst ` set xs. l < k"
  shows "map_put k v xs = xs @ [(k, v)]"
  using assms by (induction k v xs rule: map_put.induct) auto

end
