(* ===== verification/Market_Data_Consumer.thy ===== *)
theory Market_Data_Consumer
  imports Market_Feed Sockets Lock_Free_Queue Ordered_Map
begin

text \<open>
  \<open>trading::MarketDataConsumer\<close> (\<open>src/src/include/market_data/market_data_consumer.hpp\<close>,
  \<open>src/src/market_data/market_data_consumer.cpp\<close>): forwards the incremental updates while they arrive
  without gaps; after a gap it subscribes to the snapshot stream, queues both streams and resumes
  when a complete snapshot and the updates behind it are there.
\<close>

section \<open>State and operations\<close>

record MarketDataConsumer =
  next_exp_inc_seq_num :: SeqNum
  incoming_md_updates :: "MEMarketUpdate LockFreeQueue"
  incremental_mcast_socket :: Socket
  snapshot_mcast_socket :: Socket
  in_recovery :: bool
  snapshot_queued_msgs :: "(SeqNum \<times> MEMarketUpdate) list"
  incremental_queued_msgs :: "(SeqNum \<times> MEMarketUpdate) list"

text \<open>What the system returns for a subscription: the descriptor of \<open>Init\<close> and the result of \<open>Join\<close>.\<close>

record subscription =
  sub_fd :: int
  sub_joined :: bool

definition MarketDataConsumer_new ::
  "subscription \<Rightarrow> MEMarketUpdate LockFreeQueue \<Rightarrow> MarketDataConsumer result" where
  "MarketDataConsumer_new env market_updates =
     rbind (ASSERT (0 \<le> sub_fd env) ''Unable to create incremental mcast socket. error:'') (\<lambda>_.
     rbind (ASSERT (sub_joined env) ''Join failed on:'') (\<lambda>_.
     Inr \<lparr>next_exp_inc_seq_num = 1, incoming_md_updates = market_updates,
          incremental_mcast_socket = Socket_new\<lparr>socket_fd := sub_fd env\<rparr>,
          snapshot_mcast_socket = Socket_new, in_recovery = False,
          snapshot_queued_msgs = [], incremental_queued_msgs = []\<rparr>))"

definition StartSnapshotSync :: "subscription \<Rightarrow> MarketDataConsumer \<Rightarrow> MarketDataConsumer result" where
  "StartSnapshotSync env M =
     rbind (ASSERT (0 \<le> sub_fd env) ''Unable to create snapshot mcast socket. error:'') (\<lambda>_.
     rbind (ASSERT (sub_joined env) ''Join failed on:'') (\<lambda>_.
     Inr (M\<lparr>snapshot_queued_msgs := [], incremental_queued_msgs := [],
            snapshot_mcast_socket := (snapshot_mcast_socket M)\<lparr>socket_fd := sub_fd env\<rparr>\<rparr>)))"

definition is_marker :: "MEMarketUpdate \<Rightarrow> bool" where
  "is_marker u \<longleftrightarrow> mu_type u = MarketUpdateType_SNAPSHOT_START \<or> mu_type u = MarketUpdateType_SNAPSHOT_END"

text \<open>The loop over the queued snapshot: its events, or \<open>None\<close> when it meets a gap.\<close>

fun scan_snapshot :: "SeqNum \<Rightarrow> (SeqNum \<times> MEMarketUpdate) list \<Rightarrow> MEMarketUpdate list option" where
  "scan_snapshot next_snapshot_seq [] = Some []"
| "scan_snapshot next_snapshot_seq ((k, u) # xs) =
     (if k \<noteq> next_snapshot_seq then None
      else map_option (\<lambda>es. if is_marker u then es else u # es) (scan_snapshot (next_snapshot_seq + 1) xs))"

text \<open>
  The loop over the queued incremental updates: the next expected number where it stops, the events,
  and whether it met no gap.
\<close>

fun scan_incrementals :: "SeqNum \<Rightarrow> (SeqNum \<times> MEMarketUpdate) list \<Rightarrow> SeqNum \<times> MEMarketUpdate list \<times> bool" where
  "scan_incrementals next_exp [] = (next_exp, [], True)"
| "scan_incrementals next_exp ((k, u) # xs) =
     (if k < next_exp then scan_incrementals next_exp xs
      else if k \<noteq> next_exp then (next_exp, [], False)
      else (case scan_incrementals (next_exp + 1) xs of (n, es, no_gap) \<Rightarrow>
              (n, if is_marker u then es else u # es, no_gap)))"

definition CheckSnapshotSync :: "MarketDataConsumer \<Rightarrow> MarketDataConsumer" where
  "CheckSnapshotSync M =
     (case snapshot_queued_msgs M of
        [] \<Rightarrow> M
      | first_snapshot_msg # _ \<Rightarrow>
          if mu_type (snd first_snapshot_msg) \<noteq> MarketUpdateType_SNAPSHOT_START
          then M\<lparr>snapshot_queued_msgs := []\<rparr>
          else
            (case scan_snapshot 0 (snapshot_queued_msgs M) of
               None \<Rightarrow> M\<lparr>snapshot_queued_msgs := []\<rparr>
             | Some snapshot_events \<Rightarrow>
                 (let last_snapshot_msg = snd (last (snapshot_queued_msgs M)) in
                  if mu_type last_snapshot_msg \<noteq> MarketUpdateType_SNAPSHOT_END then M
                  else
                    (case scan_incrementals (mu_order_id last_snapshot_msg + 1) (incremental_queued_msgs M) of
                       (next_exp, events, have_complete_incremental) \<Rightarrow>
                         (let M = M\<lparr>next_exp_inc_seq_num := next_exp\<rparr> in
                          if \<not> have_complete_incremental then M\<lparr>snapshot_queued_msgs := []\<rparr>
                          else
                            M\<lparr>incoming_md_updates :=
                                fold Enqueue (snapshot_events @ events) (incoming_md_updates M),
                              snapshot_queued_msgs := [], incremental_queued_msgs := [],
                              in_recovery := False,
                              snapshot_mcast_socket := (snapshot_mcast_socket M)\<lparr>socket_fd := - 1\<rparr>\<rparr>)))))"

definition QueueMessage :: "bool \<Rightarrow> MDPMarketUpdate \<Rightarrow> MarketDataConsumer \<Rightarrow> MarketDataConsumer" where
  "QueueMessage is_snapshot request M =
     CheckSnapshotSync
       (if is_snapshot then
          (let M = (if map_contains (mdp_seq_num request) (snapshot_queued_msgs M)
                    then M\<lparr>snapshot_queued_msgs := []\<rparr> else M)
           in M\<lparr>snapshot_queued_msgs :=
                  map_put (mdp_seq_num request) (mdp_update request) (snapshot_queued_msgs M)\<rparr>)
        else M\<lparr>incremental_queued_msgs :=
                 map_put (mdp_seq_num request) (mdp_update request) (incremental_queued_msgs M)\<rparr>)"

definition handle_update ::
  "subscription \<Rightarrow> bool \<Rightarrow> MDPMarketUpdate \<Rightarrow> MarketDataConsumer \<Rightarrow> MarketDataConsumer result" where
  "handle_update env is_snapshot request M =
     (let already_in_recovery = in_recovery M;
          M = M\<lparr>in_recovery := already_in_recovery \<or> mdp_seq_num request \<noteq> next_exp_inc_seq_num M\<rparr>
      in if in_recovery M then
           rbind (if \<not> already_in_recovery then StartSnapshotSync env M else Inr M) (\<lambda>M.
           Inr (QueueMessage is_snapshot request M))
         else if \<not> is_snapshot then
           Inr (M\<lparr>next_exp_inc_seq_num := next_exp_inc_seq_num M + 1,
                  incoming_md_updates := Enqueue (mdp_update request) (incoming_md_updates M)\<rparr>)
         else Inr M)"

text \<open>
  The callback is given a pointer to one of the two sockets of the object, whose descriptor the
  messages may change.
\<close>

datatype which_socket = Incremental_socket | Snapshot_socket

fun the_socket :: "which_socket \<Rightarrow> MarketDataConsumer \<Rightarrow> Socket" where
  "the_socket Incremental_socket M = incremental_mcast_socket M"
| "the_socket Snapshot_socket M = snapshot_mcast_socket M"

fun set_socket :: "which_socket \<Rightarrow> Socket \<Rightarrow> MarketDataConsumer \<Rightarrow> MarketDataConsumer" where
  "set_socket Incremental_socket s M = M\<lparr>incremental_mcast_socket := s\<rparr>"
| "set_socket Snapshot_socket s M = M\<lparr>snapshot_mcast_socket := s\<rparr>"

definition MarketDataConsumer_RecvCallback ::
  "subscription \<Rightarrow> which_socket \<Rightarrow> MarketDataConsumer \<Rightarrow> MarketDataConsumer result" where
  "MarketDataConsumer_RecvCallback env w M =
     (let is_snapshot = (socket_fd (the_socket w M) = socket_fd (snapshot_mcast_socket M));
          buf = inbound_data (the_socket w M)
      in if is_snapshot \<and> \<not> in_recovery M then Inr (set_socket w ((the_socket w M)\<lparr>inbound_data := []\<rparr>) M)
         else if sizeof_MDPMarketUpdate \<le> length buf then
           rbind (recv_loop sizeof_MDPMarketUpdate
                    (\<lambda>bs. handle_update env is_snapshot (get_MDPMarketUpdate bs)) buf 0 M) (\<lambda>(M, i).
           Inr (set_socket w ((the_socket w M)\<lparr>inbound_data := drop i buf\<rparr>) M))
         else Inr M)"

text \<open>One \<open>SendAndRecv\<close> of a socket, and one turn of \<open>Run\<close>.\<close>

definition consumer_SendAndRecv ::
  "subscription \<Rightarrow> which_socket \<Rightarrow> byte list option \<Rightarrow> MarketDataConsumer \<Rightarrow> MarketDataConsumer result" where
  "consumer_SendAndRecv env w rx M =
     rbind (McastSocket_SendAndRecv
              (\<lambda>s M. rbind (MarketDataConsumer_RecvCallback env w (set_socket w s M)) (\<lambda>M. Inr (the_socket w M, M)))
              rx (the_socket w M) M) (\<lambda>(s, M, _, _).
     Inr (set_socket w s M))"

definition MarketDataConsumer_Run_once ::
  "subscription \<Rightarrow> byte list option \<Rightarrow> byte list option \<Rightarrow> MarketDataConsumer \<Rightarrow> MarketDataConsumer result" where
  "MarketDataConsumer_Run_once env inc_rx snap_rx M =
     rbind (consumer_SendAndRecv env Incremental_socket inc_rx M) (consumer_SendAndRecv env Snapshot_socket snap_rx)"

section \<open>What the scans find\<close>

lemma scan_snapshot_Some:
  assumes "scan_snapshot n xs = Some es"
  shows "es = filter (\<lambda>u. \<not> is_marker u) (map snd xs) \<and> map fst xs = map (\<lambda>i. n + of_nat i) [0..<length xs]"
  using assms
proof (induction n xs arbitrary: es rule: scan_snapshot.induct)
  case (2 n k u xs)
  have kn: "k = n" using 2(2) by (simp split: if_splits)
  then obtain fs where fs: "scan_snapshot (n + 1) xs = Some fs" using 2(2) by (cases "scan_snapshot (n + 1) xs") simp_all
  then have es: "es = (if is_marker u then fs else u # fs)" using 2(2) kn by simp
  have "map (\<lambda>i. n + of_nat i) [0..<length ((k, u) # xs)] = n # map (\<lambda>i. n + 1 + of_nat i) [0..<length xs]"
    by (simp add: upt_conv_Cons map_Suc_upt [symmetric] add.assoc del: upt_Suc)
  with 2(1) [OF _ fs] kn es show ?case by simp
qed simp

lemma feed_apply_marker: "is_marker u \<Longrightarrow> feed_apply u m = m"
  unfolding is_marker_def feed_apply_def Let_def by (elim disjE) (simp_all only: MarketUpdateType.case)

lemma fold_feed_filter: "fold feed_apply (filter (\<lambda>u. \<not> is_marker u) us) m = fold feed_apply us m"
  by (induction us arbitrary: m) (auto simp: feed_apply_marker)

text \<open>Queued messages that the exchange has sent: number \<open>k\<close> is the \<open>k\<close>-th update, from 1.\<close>

definition genuine :: "MEMarketUpdate list \<Rightarrow> (SeqNum \<times> MEMarketUpdate) list \<Rightarrow> bool" where
  "genuine us xs \<longleftrightarrow> (\<forall>(k, u)\<in>set xs. 0 < unat k \<and> unat k \<le> length us \<and> u = us ! (unat k - 1))"

lemma unat_succ: "unat (n :: SeqNum) + 1 < 2 ^ 64 \<Longrightarrow> unat (n + 1) = unat n + 1"
  by (simp add: unat_word_ariths)

lemma unat_of_nat64: "k < 2 ^ 64 \<Longrightarrow> unat (of_nat k :: SeqNum) = k"
  by (simp add: unsigned_of_nat take_bit_nat_eq_self)

text \<open>Without a gap the scan finds the updates from \<open>n\<close> up to the number it stops at.\<close>

lemma scan_incrementals_genuine:
  assumes "genuine us xs" "scan_incrementals n xs = (n', es, True)"
    and "0 < unat n" "unat n \<le> length us + 1" "length us + 2 < 2 ^ 64"
  shows "unat n \<le> unat n' \<and> unat n' \<le> length us + 1 \<and>
    es = filter (\<lambda>u. \<not> is_marker u) (take (unat n' - unat n) (drop (unat n - 1) us))"
  using assms
proof (induction n xs arbitrary: es rule: scan_incrementals.induct)
  case (2 n k u xs)
  have xs: "genuine us xs" and ku: "0 < unat k" "unat k \<le> length us" "u = us ! (unat k - 1)"
    using 2(3) by (auto simp: genuine_def)
  show ?case
  proof (cases "k < n")
    case True
    with 2(1) [OF True xs _ 2(5-7)] 2(4) show ?thesis by simp
  next
    case False
    show ?thesis
    proof (cases "k = n")
      case True
      obtain m fs b where fs: "scan_incrementals (n + 1) xs = (m, fs, b)" by (cases "scan_incrementals (n + 1) xs")
      with 2(4) False True have res: "m = n'" "b" "es = (if is_marker u then fs else u # fs)" by auto
      have n1: "unat (n + 1) = unat n + 1" using 2(6,7) by (intro unat_succ) simp
      have IH: "unat (n + 1) \<le> unat n' \<and> unat n' \<le> length us + 1 \<and>
          fs = filter (\<lambda>u. \<not> is_marker u) (take (unat n' - unat (n + 1)) (drop (unat (n + 1) - 1) us))"
        using 2(2) [OF False _ xs _ _ _ 2(7)] True fs res(1,2) n1 ku(2) by simp
      have "drop (unat n - 1) us = u # drop (unat n) us"
        using ku True Cons_nth_drop_Suc [of "unat n - 1" us] by simp
      moreover have "unat n' - unat n = Suc (unat n' - unat (n + 1))" using conjunct1 [OF IH] unfolding n1 by arith
      ultimately show ?thesis using IH res(3) n1 by auto
    next
      case False
      with \<open>\<not> k < n\<close> 2(4) show ?thesis by simp
    qed
  qed
qed simp

section \<open>Recovery\<close>

definition the_snapshot :: "MEMarketUpdate list \<Rightarrow> nat \<Rightarrow> MEMarketUpdate list" where
  "the_snapshot us n = snapshot_updates (feed_state (take n us)) (of_nat n)"

text \<open>Messages of the snapshot after \<open>n\<close> updates, each under its number.\<close>

definition of_snapshot :: "MEMarketUpdate list \<Rightarrow> nat \<Rightarrow> (SeqNum \<times> MEMarketUpdate) list \<Rightarrow> bool" where
  "of_snapshot us n xs \<longleftrightarrow> map_ok xs \<and>
     (\<forall>(k, u)\<in>set xs. unat k < length (the_snapshot us n) \<and> u = the_snapshot us n ! unat k)"

lemma snapshot_body_types:
  assumes "live_ok m" "u \<in> set (snapshot_body m)"
  shows "mu_type u = MarketUpdateType_CLEAR \<or> mu_type u = MarketUpdateType_ADD"
  using assms(2) live_okD(3) [OF assms(1)]
  by (auto simp: snapshot_body_def ticker_snapshot_def set_map_filter clear_update_def)

lemma length_map_filter: "length (List.map_filter f xs) \<le> length xs"
  by (induction xs) (auto split: option.split)

lemma length_snapshot_body: "length (snapshot_body m) \<le> ME_MAX_TICKERS * (ME_MAX_ORDER_IDS + 1)"
proof -
  have "length (concat (map (ticker_snapshot m) ts)) \<le> length ts * (ME_MAX_ORDER_IDS + 1)" for ts
  proof (induction ts)
    case (Cons t ts)
    then show ?case using length_map_filter [of "m t" "[0..<ME_MAX_ORDER_IDS]"] by (simp add: ticker_snapshot_def)
  qed simp
  from this [of "[0..<ME_MAX_TICKERS]"] show ?thesis by (simp add: snapshot_body_def)
qed

lemma the_snapshot_length: "2 \<le> length (the_snapshot us n)" "length (the_snapshot us n) < 2 ^ 64"
  using length_snapshot_body [of "feed_state (take n us)"]
  by (simp_all add: the_snapshot_def snapshot_updates_def ME_MAX_TICKERS_def ME_MAX_ORDER_IDS_def)

lemma the_snapshot_end:
  assumes "valid_feed no_orders us" "i < length (the_snapshot us n)"
    and "mu_type (the_snapshot us n ! i) = MarketUpdateType_SNAPSHOT_END"
  shows "i + 1 = length (the_snapshot us n)"
proof (rule ccontr)
  let ?m = "feed_state (take n us)"
  assume "i + 1 \<noteq> length (the_snapshot us n)"
  with assms(2) have "i < length (start_update (of_nat n) # snapshot_body ?m)"
    by (simp add: the_snapshot_def snapshot_updates_def)
  then have "the_snapshot us n ! i \<in> set (start_update (of_nat n) # snapshot_body ?m)"
    unfolding the_snapshot_def snapshot_updates_def by (metis append_Cons nth_append nth_mem)
  with assms(3) show False
    by (auto simp: start_update_def dest: snapshot_body_types [OF feed_state_ok [OF assms(1)]])
qed

lemma the_snapshot_markers:
  assumes "valid_feed no_orders us"
  shows "filter (\<lambda>u. \<not> is_marker u) (the_snapshot us n) = snapshot_body (feed_state (take n us))"
proof -
  have "filter (\<lambda>u. \<not> is_marker u) (snapshot_body (feed_state (take n us))) = snapshot_body (feed_state (take n us))"
    by (intro filter_True) (auto simp: is_marker_def dest: snapshot_body_types [OF feed_state_ok [OF assms]])
  then show ?thesis
    by (simp add: the_snapshot_def snapshot_updates_def is_marker_def start_update_def end_update_def)
qed

text \<open>A queued snapshot without gaps that ends with SNAPSHOT\_END is the whole snapshot.\<close>

lemma complete_snapshot:
  assumes "valid_feed no_orders us" "of_snapshot us n xs" "scan_snapshot 0 xs = Some es" "xs \<noteq> []"
    and "mu_type (snd (last xs)) = MarketUpdateType_SNAPSHOT_END"
  shows "es = snapshot_body (feed_state (take n us)) \<and> mu_order_id (snd (last xs)) = of_nat n"
proof -
  let ?S = "the_snapshot us n"
  have es: "es = filter (\<lambda>u. \<not> is_marker u) (map snd xs)" and keys: "map fst xs = map of_nat [0..<length xs]"
    using scan_snapshot_Some [OF assms(3)] by simp_all
  have entry: "unat (fst (xs ! i)) < length ?S" "snd (xs ! i) = ?S ! unat (fst (xs ! i))" if "i < length xs" for i
    using assms(2) nth_mem [OF that] by (auto simp: of_snapshot_def split_def)
  have key: "fst (xs ! i) = of_nat i" if "i < length xs" for i
    using arg_cong [OF keys, of "\<lambda>ks. ks ! i"] that by simp
  have le: "i < length xs \<Longrightarrow> unat (of_nat i :: SeqNum) = i" for i
  proof (induction i)
    case (Suc i)
    then have IH: "unat (of_nat i :: SeqNum) = i" "i < length ?S" using entry(1) [of i] key [of i] by simp_all
    with the_snapshot_length(2) [of us n] have "unat (of_nat i + 1 :: SeqNum) = i + 1" by (subst unat_succ) simp_all
    then show ?case by (simp add: add.commute)
  qed simp
  let ?i = "length xs - 1"
  have i: "?i < length xs" "last xs = xs ! ?i" using assms(4) by (simp_all add: last_conv_nth)
  have last: "?i < length ?S" "snd (last xs) = ?S ! ?i"
    using entry [OF i(1)] key [OF i(1)] le [OF i(1)] i(2) by simp_all
  then have len: "length xs = length ?S"
    using the_snapshot_end [OF assms(1) last(1)] assms(4,5) by (cases xs) simp_all
  have "map snd xs = ?S"
    using len entry(2) key le by (intro nth_equalityI) simp_all
  then have "es = snapshot_body (feed_state (take n us))" by (simp add: es the_snapshot_markers [OF assms(1)])
  moreover have "snd (last xs) = end_update (of_nat n)"
    using last(2) len the_snapshot_length(1) [of us n]
    by (simp add: the_snapshot_def snapshot_updates_def nth_append)
  ultimately show ?thesis by (simp add: end_update_def)
qed

text \<open>The events of a completed recovery rebuild the orders after the updates the consumer has caught up with.\<close>

definition rebuilds :: "MEMarketUpdate list \<Rightarrow> MEMarketUpdate list \<Rightarrow> nat \<Rightarrow> bool" where
  "rebuilds us es k \<longleftrightarrow>
     (\<forall>m0. (\<forall>t\<ge>ME_MAX_TICKERS. m0 t = (\<lambda>_. None)) \<longrightarrow> fold feed_apply es m0 = feed_state (take k us))"

lemma recovery_events:
  assumes "valid_feed no_orders us" "of_snapshot us n xs" "genuine us ys" "n \<le> length us" "length us + 2 < 2 ^ 64"
    and "scan_snapshot 0 xs = Some es" "xs \<noteq> []" "mu_type (snd (last xs)) = MarketUpdateType_SNAPSHOT_END"
    and "scan_incrementals (mu_order_id (snd (last xs)) + 1) ys = (next_exp, fs, True)"
  shows "\<exists>k. n \<le> k \<and> k \<le> length us \<and> unat next_exp = k + 1 \<and> rebuilds us (es @ fs) k"
proof -
  note snap = complete_snapshot [OF assms(1,2,6-8)]
  have n: "unat (of_nat n :: SeqNum) = n" using assms(4,5) by (simp add: unsigned_of_nat take_bit_nat_eq_self)
  then have n1: "unat (of_nat n + 1 :: SeqNum) = n + 1" using assms(4,5) by (subst unat_succ) simp_all
  have ends: "scan_incrementals (of_nat n + 1) ys = (next_exp, fs, True)" using assms(9) snap by simp
  have inc: "n + 1 \<le> unat next_exp \<and> unat next_exp \<le> length us + 1 \<and>
      fs = filter (\<lambda>u. \<not> is_marker u) (take (unat next_exp - (n + 1)) (drop n us))"
    using scan_incrementals_genuine [OF assms(3) ends _ _ assms(5)] n1 assms(4) by simp
  let ?k = "unat next_exp - 1"
  have k: "n \<le> ?k" "?k \<le> length us" "unat next_exp = ?k + 1" using conjunct1 [OF inc] conjunct1 [OF conjunct2 [OF inc]] by arith+
  have "fold feed_apply (es @ fs) m0 = feed_state (take ?k us)"
    if m0: "\<forall>t\<ge>ME_MAX_TICKERS. m0 t = (\<lambda>_. None)" for m0
  proof -
    have "fold feed_apply es m0 = feed_state (take n us)"
      using snapshot_rebuilds [OF feed_state_ok [OF assms(1)]] m0 snap by simp
    moreover have "unat next_exp - (n + 1) = ?k - n" by simp
    ultimately show ?thesis using take_feed [OF k(1)] inc by (simp add: fold_feed_filter)
  qed
  with k show ?thesis unfolding rebuilds_def by blast
qed

lemma recovery_lengths:
  "scan_snapshot n xs = Some es \<Longrightarrow> length es \<le> length xs"
  "scan_incrementals m ys = (m', fs, b) \<Longrightarrow> length fs \<le> length ys"
proof -
  show "scan_snapshot n xs = Some es \<Longrightarrow> length es \<le> length xs"
    using scan_snapshot_Some [of n xs es] length_filter_le [of "\<lambda>u. \<not> is_marker u" "map snd xs"] by simp
  show "scan_incrementals m ys = (m', fs, b) \<Longrightarrow> length fs \<le> length ys"
  proof (induction m ys arbitrary: fs rule: scan_incrementals.induct)
    case (2 n k u xs)
    then show ?case
      by (cases "scan_incrementals (n + 1) xs") (fastforce split: if_splits)
  qed simp
qed

text \<open>
  What a check does while the consumer is recovering: it waits, drops the queued snapshot, or
  completes the recovery.
\<close>

definition waits :: "MarketDataConsumer \<Rightarrow> MarketDataConsumer \<Rightarrow> bool" where
  "waits M M' \<longleftrightarrow> in_recovery M' = in_recovery M \<and> incoming_md_updates M' = incoming_md_updates M \<and>
     incremental_queued_msgs M' = incremental_queued_msgs M \<and>
     (snapshot_queued_msgs M' = [] \<or>
      snapshot_queued_msgs M' = snapshot_queued_msgs M \<and> snapshot_queued_msgs M \<noteq> [] \<and>
      mu_type (snd (hd (snapshot_queued_msgs M))) = MarketUpdateType_SNAPSHOT_START)"

definition completes :: "MEMarketUpdate list \<Rightarrow> nat \<Rightarrow> MarketDataConsumer \<Rightarrow> MarketDataConsumer \<Rightarrow> bool" where
  "completes us n M M' \<longleftrightarrow> \<not> in_recovery M' \<and> snapshot_queued_msgs M' = [] \<and> incremental_queued_msgs M' = [] \<and>
     (\<exists>es k. incoming_md_updates M' = fold Enqueue es (incoming_md_updates M) \<and>
        length es \<le> length (snapshot_queued_msgs M) + length (incremental_queued_msgs M) \<and>
        n \<le> k \<and> k \<le> length us \<and> unat (next_exp_inc_seq_num M') = k + 1 \<and> rebuilds us es k)"

lemma CheckSnapshotSync_completes:
  assumes "snapshot_queued_msgs M = x # xs" "mu_type (snd x) = MarketUpdateType_SNAPSHOT_START"
    and "scan_snapshot 0 (snapshot_queued_msgs M) = Some es" "snd (last (snapshot_queued_msgs M)) = e"
    and "mu_type e = MarketUpdateType_SNAPSHOT_END"
    and "scan_incrementals (mu_order_id e + 1) (incremental_queued_msgs M) = (m, fs, True)"
  shows "CheckSnapshotSync M = M\<lparr>next_exp_inc_seq_num := m,
      incoming_md_updates := fold Enqueue (es @ fs) (incoming_md_updates M), snapshot_queued_msgs := [],
      incremental_queued_msgs := [], in_recovery := False,
      snapshot_mcast_socket := (snapshot_mcast_socket M)\<lparr>socket_fd := - 1\<rparr>\<rparr>"
  using assms by (simp add: CheckSnapshotSync_def)

lemma CheckSnapshotSync_cases:
  assumes "valid_feed no_orders us" "of_snapshot us n (snapshot_queued_msgs M)"
    and "genuine us (incremental_queued_msgs M)" "n \<le> length us" "length us + 2 < 2 ^ 64"
  shows "waits M (CheckSnapshotSync M) \<or> completes us n M (CheckSnapshotSync M)"
proof (cases "snapshot_queued_msgs M")
  case Nil
  then show ?thesis by (simp add: CheckSnapshotSync_def waits_def)
next
  case (Cons x xs)
  let ?q = "snapshot_queued_msgs M" and ?ys = "incremental_queued_msgs M"
  have q: "?q \<noteq> []" "hd ?q = x" using Cons by simp_all
  show ?thesis
  proof (cases "mu_type (snd x) = MarketUpdateType_SNAPSHOT_START")
    case False
    then show ?thesis by (simp add: CheckSnapshotSync_def waits_def Cons)
  next
    case start: True
    show ?thesis
    proof (cases "scan_snapshot 0 ?q")
      case None
      then show ?thesis using start by (simp add: CheckSnapshotSync_def waits_def Cons)
    next
      case (Some es)
      let ?e = "snd (last ?q)"
      show ?thesis
      proof (cases "mu_type ?e = MarketUpdateType_SNAPSHOT_END")
        case False
        then have "CheckSnapshotSync M = M" using start Some Cons by (simp add: CheckSnapshotSync_def)
        then show ?thesis using start q by (simp add: waits_def)
      next
        case True
        obtain m fs b where fs: "scan_incrementals (mu_order_id ?e + 1) ?ys = (m, fs, b)"
          by (cases "scan_incrementals (mu_order_id ?e + 1) ?ys")
        show ?thesis
        proof (cases b)
          case False
          have "CheckSnapshotSync M = M\<lparr>next_exp_inc_seq_num := m, snapshot_queued_msgs := []\<rparr>"
            using start Some True fs False Cons by (simp add: CheckSnapshotSync_def)
          then show ?thesis by (simp add: waits_def)
        next
          case b: True
          have fs': "scan_incrementals (mu_order_id ?e + 1) ?ys = (m, fs, True)" using fs b by simp
          have run: "CheckSnapshotSync M = M\<lparr>next_exp_inc_seq_num := m,
              incoming_md_updates := fold Enqueue (es @ fs) (incoming_md_updates M), snapshot_queued_msgs := [],
              incremental_queued_msgs := [], in_recovery := False,
              snapshot_mcast_socket := (snapshot_mcast_socket M)\<lparr>socket_fd := - 1\<rparr>\<rparr>"
            by (rule CheckSnapshotSync_completes [OF Cons start Some refl True fs'])
          obtain k where k: "n \<le> k" "k \<le> length us" "unat m = k + 1" "rebuilds us (es @ fs) k"
            using recovery_events [OF assms Some q(1) True fs'] by blast
          have len: "length (es @ fs) \<le> length ?q + length ?ys"
            using recovery_lengths(1) [OF Some] recovery_lengths(2) [OF fs] by simp
          have "\<exists>es' k. fold Enqueue (es @ fs) (incoming_md_updates M) = fold Enqueue es' (incoming_md_updates M) \<and>
              length es' \<le> length ?q + length ?ys \<and> n \<le> k \<and> k \<le> length us \<and> unat m = k + 1 \<and> rebuilds us es' k"
            using len k by blast
          then have "completes us n M (CheckSnapshotSync M)"
            unfolding completes_def run by simp
          then show ?thesis ..
        qed
      qed
    qed
  qed
qed

section \<open>Runs over lossy streams\<close>

text \<open>
  The exchange sends the updates \<open>us\<close> under the numbers 1, 2, ... and snapshots of them. Update
  messages arrive in any order, any number of times or not at all. Of the snapshots, only messages of
  the one whose SNAPSHOT\_START arrived last come in, again in any order, any number of times or not at
  all: neither the network nor the code promises this, and \<open>mixed_snapshot_accepted\<close> shows what
  happens else. \<open>taken\<close> is what the trading engine has read from the queue, which has room for what
  a step may add; the code does not check this either.
\<close>

definition has_queue_room :: "MarketDataConsumer \<Rightarrow> bool" where
  "has_queue_room M \<longleftrightarrow> num_elements (incoming_md_updates M) + length (snapshot_queued_msgs M) +
     length (incremental_queued_msgs M) + 1 \<le> q_size (incoming_md_updates M)"

inductive consumer_run ::
  "subscription \<Rightarrow> MEMarketUpdate list \<Rightarrow> MarketDataConsumer \<Rightarrow> MEMarketUpdate list \<Rightarrow> nat \<Rightarrow> bool"
  for env us where
  start: "MarketDataConsumer_new env q = Inr M \<Longrightarrow> q_ok q \<Longrightarrow> q_list q = [] \<Longrightarrow> consumer_run env us M [] 0"
| incremental: "consumer_run env us M taken n \<Longrightarrow> has_queue_room M \<Longrightarrow> k < length us \<Longrightarrow>
    handle_update env False \<lparr>mdp_seq_num = of_nat (k + 1), mdp_update = us ! k\<rparr> M = Inr M' \<Longrightarrow>
    consumer_run env us M' taken n"
| snapshot_start: "consumer_run env us M taken n \<Longrightarrow> has_queue_room M \<Longrightarrow> m \<le> length us \<Longrightarrow>
    handle_update env True \<lparr>mdp_seq_num = 0, mdp_update = start_update (of_nat m)\<rparr> M = Inr M' \<Longrightarrow>
    consumer_run env us M' taken m"
| snapshot_message: "consumer_run env us M taken n \<Longrightarrow> has_queue_room M \<Longrightarrow>
    0 < i \<Longrightarrow> i < length (the_snapshot us n) \<Longrightarrow>
    handle_update env True \<lparr>mdp_seq_num = of_nat i, mdp_update = the_snapshot us n ! i\<rparr> M = Inr M' \<Longrightarrow>
    consumer_run env us M' taken n"
| engine_reads: "consumer_run env us M taken n \<Longrightarrow> GetNextToRead (incoming_md_updates M) = Some u \<Longrightarrow>
    UpdateReadIndex (incoming_md_updates M) = Inr q \<Longrightarrow>
    consumer_run env us (M\<lparr>incoming_md_updates := q\<rparr>) (taken @ [u]) n"

text \<open>What has been delivered are the orders after some of the updates, the expected ones when not recovering.\<close>

definition delivered_ok :: "MEMarketUpdate list \<Rightarrow> MarketDataConsumer \<Rightarrow> MEMarketUpdate list \<Rightarrow> bool" where
  "delivered_ok us M taken \<longleftrightarrow>
     (\<exists>k\<le>length us. feed_state (taken @ q_list (incoming_md_updates M)) = feed_state (take k us) \<and>
        (\<not> in_recovery M \<longrightarrow> unat (next_exp_inc_seq_num M) = k + 1))"

definition consumer_inv :: "MEMarketUpdate list \<Rightarrow> MarketDataConsumer \<Rightarrow> MEMarketUpdate list \<Rightarrow> nat \<Rightarrow> bool" where
  "consumer_inv us M taken n \<longleftrightarrow> n \<le> length us \<and> q_ok (incoming_md_updates M) \<and> delivered_ok us M taken \<and>
     map_ok (incremental_queued_msgs M) \<and>
     (in_recovery M \<longrightarrow> of_snapshot us n (snapshot_queued_msgs M) \<and> genuine us (incremental_queued_msgs M) \<and>
       (snapshot_queued_msgs M \<noteq> [] \<longrightarrow> map_contains 0 (snapshot_queued_msgs M)))"

lemma start_entry:
  assumes "valid_feed no_orders us" "of_snapshot us n xs" "xs \<noteq> []"
    and "mu_type (snd (hd xs)) = MarketUpdateType_SNAPSHOT_START"
  shows "map_contains 0 xs"
proof -
  let ?k = "unat (fst (hd xs))" and ?m = "feed_state (take n us)"
  have hd: "?k < length (the_snapshot us n)" "snd (hd xs) = the_snapshot us n ! ?k"
    using assms(2) list.set_sel(1) [OF assms(3)] by (auto simp: of_snapshot_def split_def)
  have "the_snapshot us n ! ?k \<in> set (snapshot_body ?m @ [end_update (of_nat n)])" if "?k \<noteq> 0"
  proof -
    have "the_snapshot us n ! ?k = (snapshot_body ?m @ [end_update (of_nat n)]) ! (?k - 1)"
      using that by (simp add: the_snapshot_def snapshot_updates_def nth_Cons')
    moreover have "?k - 1 < length (snapshot_body ?m @ [end_update (of_nat n)])"
      using hd(1) that by (simp add: the_snapshot_def snapshot_updates_def)
    ultimately show ?thesis by (metis nth_mem)
  qed
  then have "?k = 0"
    using assms(4) hd(2) snapshot_body_types [OF feed_state_ok [OF assms(1)], of _ n]
    by (fastforce simp: end_update_def)
  then have "fst (hd xs) = 0" by (simp add: unat_eq_0)
  with list.set_sel(1) [OF assms(3)] show ?thesis by (force simp: map_contains_def)
qed

lemma check_inv:
  assumes "valid_feed no_orders us" "length us + 2 < 2 ^ 64" "n \<le> length us"
    and "q_ok (incoming_md_updates M)" "delivered_ok us M taken" "in_recovery M"
    and "map_ok (incremental_queued_msgs M)" "of_snapshot us n (snapshot_queued_msgs M)"
    and "genuine us (incremental_queued_msgs M)"
    and "num_elements (incoming_md_updates M) + length (snapshot_queued_msgs M) +
      length (incremental_queued_msgs M) \<le> q_size (incoming_md_updates M)"
  shows "consumer_inv us (CheckSnapshotSync M) taken n"
proof -
  let ?M = "CheckSnapshotSync M"
  consider "waits M ?M" | "completes us n M ?M"
    using CheckSnapshotSync_cases [OF assms(1,8,9,3,2)] by blast
  then show ?thesis
  proof cases
    case 1
    have "of_snapshot us n []" by (simp add: of_snapshot_def)
    moreover have "delivered_ok us ?M taken" using 1 assms(5,6) by (auto simp: waits_def delivered_ok_def)
    moreover have "snapshot_queued_msgs ?M \<noteq> [] \<longrightarrow> map_contains 0 (snapshot_queued_msgs ?M)"
      using 1 start_entry [OF assms(1,8)] by (auto simp: waits_def)
    ultimately show ?thesis using 1 assms by (auto simp: waits_def consumer_inv_def)
  next
    case 2
    then obtain es k where es: "incoming_md_updates ?M = fold Enqueue es (incoming_md_updates M)"
      "length es \<le> length (snapshot_queued_msgs M) + length (incremental_queued_msgs M)"
      "k \<le> length us" "unat (next_exp_inc_seq_num ?M) = k + 1" "rebuilds us es k"
      unfolding completes_def by blast
    have room: "length (q_list (incoming_md_updates M)) + length es \<le> q_size (incoming_md_updates M)"
      using es(2) assms(10) by simp
    note q = lfq.enq_all [OF assms(4) room]
    obtain j where j: "feed_state (taken @ q_list (incoming_md_updates M)) = feed_state (take j us)"
      using assms(5) by (auto simp: delivered_ok_def)
    have "\<forall>t\<ge>ME_MAX_TICKERS. feed_state (take j us) t = (\<lambda>_. None)"
      using live_ok_outside [OF feed_state_ok [OF assms(1)]] by blast
    then have "feed_state (taken @ q_list (incoming_md_updates M) @ es) = feed_state (take k us)"
      using es(5) j by (simp add: rebuilds_def feed_state_def)
    then have "delivered_ok us ?M taken"
      using es(1,3,4) q by (auto simp: delivered_ok_def)
    then show ?thesis using 2 q es(1) assms(3) by (simp add: consumer_inv_def completes_def)
  qed
qed

text \<open>A message of the feed: an update, or a message of the snapshot after \<open>n\<close> updates.\<close>

definition feed_message :: "MEMarketUpdate list \<Rightarrow> bool \<Rightarrow> nat \<Rightarrow> MDPMarketUpdate \<Rightarrow> bool" where
  "feed_message us is_snapshot n r \<longleftrightarrow>
     (let k = unat (mdp_seq_num r); u = mdp_update r in
      if is_snapshot then n \<le> length us \<and> k < length (the_snapshot us n) \<and> u = the_snapshot us n ! k
      else 0 < k \<and> k \<le> length us \<and> u = us ! (k - 1))"

lemma length_map_put: "length (map_put k v xs) \<le> length xs + 1"
  by (induction k v xs rule: map_put.induct) auto

lemma of_snapshot_put:
  assumes "of_snapshot us n xs" "feed_message us True n r"
  shows "of_snapshot us n (map_put (mdp_seq_num r) (mdp_update r) xs)"
proof -
  have xs: "map_ok xs" "\<forall>(k, u)\<in>set xs. unat k < length (the_snapshot us n) \<and> u = the_snapshot us n ! unat k"
    using assms(1) by (simp_all add: of_snapshot_def)
  have "\<forall>(k, u)\<in>set (map_put (mdp_seq_num r) (mdp_update r) xs).
      unat k < length (the_snapshot us n) \<and> u = the_snapshot us n ! unat k"
    by (rule std_map.put_all [OF xs(1) _ xs(2)]) (use assms(2) in \<open>simp add: feed_message_def\<close>)
  then show ?thesis using map_put_ok [OF xs(1)] by (simp add: of_snapshot_def)
qed

lemma genuine_put:
  assumes "genuine us xs" "map_ok xs" "feed_message us False n r"
  shows "genuine us (map_put (mdp_seq_num r) (mdp_update r) xs)"
  unfolding genuine_def
  by (rule std_map.put_all [OF assms(2) _ assms(1) [unfolded genuine_def]])
    (use assms(3) in \<open>simp add: feed_message_def\<close>)

lemma of_snapshot_Nil [simp]: "of_snapshot us n []"
  by (simp add: of_snapshot_def)

lemma genuine_Nil [simp]: "genuine us []"
  by (simp add: genuine_def)

lemma QueueMessage_inv:
  assumes "valid_feed no_orders us" "length us + 2 < 2 ^ 64" "consumer_inv us M taken n" "in_recovery M"
    and "has_queue_room M" "feed_message us b n' r" "n' \<le> length us"
    and "n' = n \<or> b \<and> mdp_seq_num r = 0"
  shows "consumer_inv us (QueueMessage b r M) taken n'"
proof (cases b)
  case True
  let ?k = "mdp_seq_num r"
  let ?q = "if map_contains ?k (snapshot_queued_msgs M) then [] else snapshot_queued_msgs M"
  let ?M = "M\<lparr>snapshot_queued_msgs := map_put ?k (mdp_update r) ?q\<rparr>"
  have run: "QueueMessage b r M = CheckSnapshotSync ?M" using True by (simp add: QueueMessage_def)
  have "of_snapshot us n' ?q"
    using assms(3,4,8) by (auto simp: consumer_inv_def)
  then have "of_snapshot us n' (map_put ?k (mdp_update r) ?q)"
    using assms(6) True by (intro of_snapshot_put) simp_all
  moreover have "length (map_put ?k (mdp_update r) ?q) \<le> length (snapshot_queued_msgs M) + 1"
    using length_map_put [of ?k "mdp_update r" ?q] by (auto split: if_splits)
  ultimately show ?thesis
    unfolding run using assms(3-5) by (intro check_inv [OF assms(1,2,7)])
      (auto simp: consumer_inv_def delivered_ok_def has_queue_room_def)
next
  case False
  let ?M = "M\<lparr>incremental_queued_msgs := map_put (mdp_seq_num r) (mdp_update r) (incremental_queued_msgs M)\<rparr>"
  have run: "QueueMessage b r M = CheckSnapshotSync ?M" using False by (simp add: QueueMessage_def)
  have inc: "map_ok (incremental_queued_msgs M)" "genuine us (incremental_queued_msgs M)" "n' = n"
    using assms(3,4,8) False by (simp_all add: consumer_inv_def)
  have msg: "feed_message us False n' r" using assms(6) False by simp
  note put = genuine_put [OF inc(2,1) msg] map_put_ok [OF inc(1)]
    length_map_put [of "mdp_seq_num r" "mdp_update r" "incremental_queued_msgs M"]
  show ?thesis
    unfolding run using assms(3-5) put inc(3) by (intro check_inv [OF assms(1,2,7)])
      (auto simp: consumer_inv_def delivered_ok_def has_queue_room_def)
qed

lemma handle_update_inv:
  assumes "valid_feed no_orders us" "length us + 2 < 2 ^ 64" "consumer_inv us M taken n"
    and "has_queue_room M" "feed_message us b n' r" "n' \<le> length us"
    and "n' = n \<or> b \<and> mdp_seq_num r = 0" "handle_update env b r M = Inr M'"
  shows "consumer_inv us M' taken n'"
proof -
  let ?lost = "mdp_seq_num r \<noteq> next_exp_inc_seq_num M"
  consider (recovering) "in_recovery M" | (gap) "\<not> in_recovery M" ?lost
    | (next_update) "\<not> in_recovery M" "\<not> ?lost" "\<not> b" | (ignored) "\<not> in_recovery M" "\<not> ?lost" b
    by blast
  then show ?thesis
  proof cases
    case recovering
    then have same: "M\<lparr>in_recovery := True\<rparr> = M" by simp
    have "M' = QueueMessage b r M" using recovering assms(8) by (simp add: handle_update_def same)
    then show ?thesis using QueueMessage_inv [OF assms(1-3) recovering assms(4-7)] by simp
  next
    case gap
    let ?M = "M\<lparr>in_recovery := True, snapshot_queued_msgs := [], incremental_queued_msgs := [],
      snapshot_mcast_socket := (snapshot_mcast_socket M)\<lparr>socket_fd := sub_fd env\<rparr>\<rparr>"
    have "M' = QueueMessage b r ?M"
      using gap assms(8) by (auto simp: handle_update_def StartSnapshotSync_def result_simps)
    moreover have "consumer_inv us ?M taken n"
      using assms(3) by (auto simp: consumer_inv_def delivered_ok_def)
    moreover have "has_queue_room ?M" using assms(4) by (simp add: has_queue_room_def)
    ultimately show ?thesis
      using QueueMessage_inv [OF assms(1,2), of ?M taken n b n' r] assms(5-7) by simp
  next
    case next_update
    let ?q = "incoming_md_updates M"
    have same: "M\<lparr>in_recovery := False\<rparr> = M" using next_update by simp
    have M': "M' = M\<lparr>next_exp_inc_seq_num := next_exp_inc_seq_num M + 1, incoming_md_updates := Enqueue (mdp_update r) ?q\<rparr>"
      using next_update assms(8) by (auto simp: handle_update_def same)
    obtain k where k: "k \<le> length us" "feed_state (taken @ q_list ?q) = feed_state (take k us)"
      "unat (next_exp_inc_seq_num M) = k + 1"
      using assms(3) next_update by (auto simp: consumer_inv_def delivered_ok_def)
    then have r: "k < length us" "mdp_update r = us ! k"
      using assms(5) next_update by (auto simp: feed_message_def)
    have "unat (next_exp_inc_seq_num M + 1) = k + 2" using k(3) r(1) assms(2) by (subst unat_succ) simp_all
    moreover have room: "num_elements ?q < q_size ?q" and q: "q_ok ?q"
      using assms(3,4) by (simp_all add: has_queue_room_def consumer_inv_def)
    moreover have "feed_state (taken @ q_list ?q @ [us ! k]) = feed_state (take (k + 1) us)"
      using k(2) r(1) by (simp add: take_Suc_conv_app_nth feed_state_def)
    ultimately have "delivered_ok us M' taken"
      using r Enqueue_ok(2) [OF q room, of "us ! k"] by (auto simp: delivered_ok_def M' intro!: exI [of _ "k + 1"])
    then show ?thesis
      using assms(3,6) next_update(1) Enqueue_ok(1) [OF q room] by (simp add: consumer_inv_def M')
  next
    case ignored
    then have "M' = M" using assms(8) by (auto simp: handle_update_def)
    then show ?thesis using assms(3,6) ignored by (simp add: consumer_inv_def)
  qed
qed

lemma consumer_run_inv:
  assumes "consumer_run env us M taken n" "valid_feed no_orders us" "length us + 2 < 2 ^ 64"
  shows "consumer_inv us M taken n"
  using assms(1)
proof induction
  case (start q M)
  then show ?case
    by (auto simp: MarketDataConsumer_new_def result_simps consumer_inv_def delivered_ok_def feed_state_def)
next
  case (incremental M taken n k M')
  have k: "unat (of_nat (k + 1) :: SeqNum) = k + 1"
    using incremental(3) assms(3) by (intro unat_of_nat64) simp
  then have msg: "feed_message us False n \<lparr>mdp_seq_num = of_nat (k + 1), mdp_update = us ! k\<rparr>"
    using incremental(3) by (simp add: feed_message_def)
  have "n \<le> length us" using incremental.IH by (simp add: consumer_inv_def)
  from handle_update_inv [OF assms(2,3) incremental.IH incremental(2) msg this _ incremental(4)]
  show ?case by simp
next
  case (snapshot_start M taken n m M')
  have "the_snapshot us m ! 0 = start_update (of_nat m)"
    by (simp add: the_snapshot_def snapshot_updates_def)
  moreover have "0 < length (the_snapshot us m)" using the_snapshot_length(1) [of us m] by linarith
  ultimately have msg: "feed_message us True m \<lparr>mdp_seq_num = 0, mdp_update = start_update (of_nat m)\<rparr>"
    using snapshot_start(3) by (simp add: feed_message_def)
  from handle_update_inv [OF assms(2,3) snapshot_start.IH snapshot_start(2) msg snapshot_start(3) _ snapshot_start(4)]
  show ?case by simp
next
  case (snapshot_message M taken n i M')
  have i: "unat (of_nat i :: SeqNum) = i"
    using snapshot_message(4) the_snapshot_length(2) [of us n] by (simp add: unsigned_of_nat take_bit_nat_eq_self)
  have n: "n \<le> length us" using snapshot_message.IH by (simp add: consumer_inv_def)
  with i have msg: "feed_message us True n \<lparr>mdp_seq_num = of_nat i, mdp_update = the_snapshot us n ! i\<rparr>"
    using snapshot_message(4) by (simp add: feed_message_def)
  from handle_update_inv [OF assms(2,3) snapshot_message.IH snapshot_message(2) msg n _ snapshot_message(5)]
  show ?case by simp
next
  case (engine_reads M taken n u q)
  have ok: "q_ok (incoming_md_updates M)" using engine_reads.IH by (simp add: consumer_inv_def)
  obtain q' xs where "q_list (incoming_md_updates M) = u # xs" "UpdateReadIndex (incoming_md_updates M) = Inr q'"
    "q_ok q'" "q_list q' = xs"
    using lfq.front_SomeE [OF ok engine_reads(2)] by metis
  with engine_reads(3) engine_reads.IH show ?case by (auto simp: consumer_inv_def delivered_ok_def)
qed

section \<open>Properties\<close>

text \<open>
  C8: Update messages may be lost, repeated and reordered in any way, and messages of the snapshots lost,
  repeated and reordered as long as they belong to the snapshot whose SNAPSHOT\_START arrived last, and the
  queue to the engine has room for what is held back (\<open>consumer_run\<close>): what the trading engine has been
  given always describes the live orders of some moment of the exchange, and while the consumer is not
  recovering that moment is the one just before the next expected update. Messages of one snapshot
  that arrive behind the start of another are excluded, for the code takes such a mixture for a
  snapshot (\<open>mixed_snapshot_accepted\<close>).
\<close>

theorem consumer_consistent:
  assumes "consumer_run env us M taken n" "valid_feed no_orders us" "length us + 2 < 2 ^ 64"
  shows "\<exists>k\<le>length us. feed_state (taken @ q_list (incoming_md_updates M)) = feed_state (take k us) \<and>
    (\<not> in_recovery M \<longrightarrow> unat (next_exp_inc_seq_num M) = k + 1)"
  using consumer_run_inv [OF assms] by (simp add: consumer_inv_def delivered_ok_def)

section \<open>When the recovery ends\<close>

definition as_entries :: "MDPMarketUpdate list \<Rightarrow> (SeqNum \<times> MEMarketUpdate) list" where
  "as_entries ms = map (\<lambda>m. (mdp_seq_num m, mdp_update m)) ms"

lemma as_entries_simps [simp]:
  "as_entries [] = []" "as_entries (m # ms) = (mdp_seq_num m, mdp_update m) # as_entries ms"
  "as_entries (ms @ ns) = as_entries ms @ as_entries ns"
  by (simp_all add: as_entries_def)

lemma scan_snapshot_numbered:
  "scan_snapshot n (as_entries (number_updates n us)) = Some (filter (\<lambda>u. \<not> is_marker u) us)"
  by (induction us arbitrary: n) simp_all

lemma scan_incrementals_numbered:
  "scan_incrementals n (as_entries (number_updates n us)) =
    (n + of_nat (length us), filter (\<lambda>u. \<not> is_marker u) us, True)"
  by (induction us arbitrary: n) (simp_all add: add.assoc)

lemma scan_incrementals_old:
  assumes "unat k + length us \<le> unat n"
  shows "scan_incrementals n (as_entries (number_updates k us) @ ys) = scan_incrementals n ys"
  using assms
proof (induction us arbitrary: k)
  case (Cons u us)
  then have kn: "unat k < unat n" by simp
  have "unat n < 2 ^ 64" using unsigned_less [of n, where ?'a = nat] by simp
  with kn have "unat (k + 1) = unat k + 1" by (intro unat_succ) linarith
  with Cons kn show ?case by (simp add: word_less_nat_alt)
qed simp

text \<open>The entries with the updates from \<open>j\<close> up to \<open>l\<close>, of which the snapshot holds the first \<open>n\<close>.\<close>

lemma scan_incrementals_contiguous:
  assumes "j \<le> n" "n \<le> l" "l \<le> length us" "length us + 2 < 2 ^ 64"
  shows "scan_incrementals (of_nat n + 1) (as_entries (number_updates (of_nat j + 1) (take (l - j) (drop j us)))) =
    (of_nat l + 1, filter (\<lambda>u. \<not> is_marker u) (take (l - n) (drop n us)), True)"
proof -
  have "l - j = (n - j) + (l - n)" "n = (n - j) + j" using assms(1,2) by simp_all
  then have cut: "take (l - j) (drop j us) = take (n - j) (drop j us) @ take (l - n) (drop n us)"
    by (metis drop_drop take_add)
  define A B where "A = take (n - j) (drop j us)" and "B = take (l - n) (drop n us)"
  have len: "length A = n - j" "length B = l - n" using assms by (simp_all add: A_def B_def)
  have nums: "unat (of_nat j + 1 :: SeqNum) = j + 1" "unat (of_nat n + 1 :: SeqNum) = n + 1"
    using assms unat_of_nat64 [of "j + 1"] unat_of_nat64 [of "n + 1"] by (simp_all add: add.commute)
  have split: "number_updates (of_nat j + 1) (A @ B) = number_updates (of_nat j + 1) A @ number_updates (of_nat n + 1) B"
    using assms(1) by (simp add: len of_nat_diff add.commute)
  have "scan_incrementals (of_nat n + 1) (as_entries (number_updates (of_nat n + 1) B)) =
      (of_nat l + 1, filter (\<lambda>u. \<not> is_marker u) B, True)"
    using assms(2) by (simp add: scan_incrementals_numbered len of_nat_diff)
  moreover have "unat (of_nat j + 1 :: SeqNum) + length A \<le> unat (of_nat n + 1 :: SeqNum)"
    using assms(1) by (simp add: nums len)
  ultimately show ?thesis
    unfolding cut A_def [symmetric] B_def [symmetric] split by (simp add: scan_incrementals_old)
qed

section \<open>A recovery, message by message\<close>

lemma numbered_keys:
  assumes "length us < 2 ^ 64" "k \<in> fst ` set (as_entries (number_updates 0 us))"
  shows "k < of_nat (length us)"
proof -
  from assms(2) obtain i where "i < length us" "k = of_nat i"
    by (auto simp: as_entries_def number_updates_def)
  with assms(1) show ?thesis by (simp add: word_less_nat_alt unat_of_nat64)
qed

text \<open>A message of the snapshot that arrives behind all before it.\<close>

lemma handle_snapshot_message:
  assumes "in_recovery M" "snapshot_queued_msgs M = as_entries (number_updates 0 xs)" "length xs < 2 ^ 64"
  shows "handle_update env True \<lparr>mdp_seq_num = of_nat (length xs), mdp_update = u\<rparr> M =
    Inr (CheckSnapshotSync (M\<lparr>snapshot_queued_msgs := as_entries (number_updates 0 (xs @ [u]))\<rparr>))"
proof -
  have keys: "\<forall>k\<in>fst ` set (as_entries (number_updates 0 xs)). k < of_nat (length xs)"
    using numbered_keys [OF assms(3)] by blast
  then have "\<not> map_contains (of_nat (length xs)) (as_entries (number_updates 0 xs))"
    by (auto simp: map_contains_def)
  moreover have "in_recovery_update (\<lambda>_. True) M = M" using assms(1) by (cases M) simp
  ultimately have "QueueMessage True \<lparr>mdp_seq_num = of_nat (length xs), mdp_update = u\<rparr> (in_recovery_update (\<lambda>_. True) M) =
      CheckSnapshotSync (M\<lparr>snapshot_queued_msgs := as_entries (number_updates 0 (xs @ [u]))\<rparr>)"
    using assms(2) keys by (simp only: ) (simp add: QueueMessage_def map_put_last)
  then show ?thesis using assms(1) by (simp add: handle_update_def)
qed

lemma CheckSnapshotSync_waits:
  assumes "snapshot_queued_msgs M = x # xs" "mu_type (snd x) = MarketUpdateType_SNAPSHOT_START"
    and "scan_snapshot 0 (snapshot_queued_msgs M) = Some es"
    and "mu_type (snd (last (snapshot_queued_msgs M))) \<noteq> MarketUpdateType_SNAPSHOT_END"
  shows "CheckSnapshotSync M = M"
  using assms by (simp add: CheckSnapshotSync_def)

lemma CheckSnapshotSync_incomplete:
  assumes "snapshot_queued_msgs M = as_entries (number_updates 0 (start_update m # xs @ [u]))"
    and "mu_type u \<noteq> MarketUpdateType_SNAPSHOT_END"
  shows "CheckSnapshotSync M = M"
proof (rule CheckSnapshotSync_waits)
  show "snapshot_queued_msgs M = (0, start_update m) # as_entries (number_updates 1 (xs @ [u]))"
    using assms(1) by simp
  show "scan_snapshot 0 (snapshot_queued_msgs M) = Some (filter (\<lambda>u. \<not> is_marker u) (start_update m # xs @ [u]))"
    unfolding assms(1) scan_snapshot_numbered ..
qed (use assms in \<open>simp_all add: start_update_def\<close>)

text \<open>All messages of the current snapshot but the last, in order.\<close>

lemma snapshot_prefix:
  assumes run: "consumer_run env us M taken n" and rec: "in_recovery M" and valid: "valid_feed no_orders us"
    and queued: "snapshot_queued_msgs M = [(0, start_update (of_nat n))]"
    and room: "num_elements (incoming_md_updates M) + length (the_snapshot us n) +
      length (incremental_queued_msgs M) \<le> q_size (incoming_md_updates M)"
  shows "i + 1 < length (the_snapshot us n) \<Longrightarrow> consumer_run env us
    (M\<lparr>snapshot_queued_msgs := as_entries (number_updates 0 (take (i + 1) (the_snapshot us n)))\<rparr>) taken n"
proof (induction i)
  case 0
  have "take 1 (the_snapshot us n) = [start_update (of_nat n)]" by (simp add: the_snapshot_def snapshot_updates_def)
  moreover have "M\<lparr>snapshot_queued_msgs := [(0, start_update (of_nat n))]\<rparr> = M" using queued by (cases M) simp
  ultimately show ?case using run by simp
next
  case (Suc i)
  let ?S = "the_snapshot us n" and ?i = "Suc i"
  let ?M = "\<lambda>i. M\<lparr>snapshot_queued_msgs := as_entries (number_updates 0 (take i (the_snapshot us n)))\<rparr>"
  have i: "?i < length ?S" "length (take ?i ?S) = ?i" using Suc.prems by simp_all
  have r: "consumer_run env us (?M ?i) taken n" using Suc by simp
  have "mu_type (?S ! ?i) \<noteq> MarketUpdateType_SNAPSHOT_END"
    using the_snapshot_end [OF valid i(1)] Suc.prems by auto
  moreover have split: "take (Suc ?i) ?S = take ?i ?S @ [?S ! ?i]" by (rule take_Suc_conv_app_nth [OF i(1)])
  moreover obtain xs where xs: "take ?i ?S = start_update (of_nat n) # xs" by (simp add: the_snapshot_def snapshot_updates_def)
  ultimately have "CheckSnapshotSync (?M (Suc ?i)) = ?M (Suc ?i)"
    by (intro CheckSnapshotSync_incomplete [of _ "of_nat n" xs "?S ! ?i"]) simp_all
  then have "handle_update env True \<lparr>mdp_seq_num = of_nat ?i, mdp_update = ?S ! ?i\<rparr> (?M ?i) = Inr (?M (Suc ?i))"
    using handle_snapshot_message [of "?M ?i" "take ?i ?S" env "?S ! ?i"] rec i the_snapshot_length(2) [of us n] split
    by simp
  moreover have "has_queue_room (?M ?i)" using room i by (simp add: has_queue_room_def as_entries_def number_updates_def)
  ultimately show ?case using snapshot_message [OF r _ _ i(1)] by simp
qed

text \<open>The whole snapshot.\<close>

lemma snapshot_arrives:
  assumes run: "consumer_run env us M taken n" and rec: "in_recovery M" and valid: "valid_feed no_orders us"
    and queued: "snapshot_queued_msgs M = [(0, start_update (of_nat n))]"
    and room: "num_elements (incoming_md_updates M) + length (the_snapshot us n) +
      length (incremental_queued_msgs M) \<le> q_size (incoming_md_updates M)"
  shows "consumer_run env us
    (CheckSnapshotSync (M\<lparr>snapshot_queued_msgs := as_entries (number_updates 0 (the_snapshot us n))\<rparr>)) taken n"
proof -
  let ?S = "the_snapshot us n"
  obtain i where i: "length ?S = i + 2" using the_snapshot_length(1) [of us n] by (metis add.commute le_Suc_ex)
  let ?M = "M\<lparr>snapshot_queued_msgs := as_entries (number_updates 0 (take (i + 1) ?S))\<rparr>"
  have r: "consumer_run env us ?M taken n" using snapshot_prefix [OF assms, of i] i by simp
  have "take (i + 1) ?S @ [?S ! (i + 1)] = take (Suc (i + 1)) ?S" by (rule take_Suc_conv_app_nth [symmetric]) (simp add: i)
  then have S: "take (i + 1) ?S @ [?S ! (i + 1)] = ?S" by (simp add: i)
  have len: "length (take (i + 1) ?S) = i + 1" by (simp add: i)
  have "handle_update env True \<lparr>mdp_seq_num = of_nat (i + 1), mdp_update = ?S ! (i + 1)\<rparr> ?M =
      Inr (CheckSnapshotSync (M\<lparr>snapshot_queued_msgs := as_entries (number_updates 0 ?S)\<rparr>))"
    using handle_snapshot_message [of ?M "take (i + 1) ?S" env "?S ! (i + 1)"] rec the_snapshot_length(2) [of us n]
    unfolding S len by (simp add: i)
  moreover have "has_queue_room ?M" using room i by (simp add: has_queue_room_def as_entries_def number_updates_def)
  ultimately show ?thesis using snapshot_message [OF r, of "i + 1"] i by simp
qed

text \<open>
  An update arrives twice. The second copy starts a recovery, which the snapshot of the empty market
  and the queued update end.
\<close>

lemma sample_recovery:
  obtains M where "consumer_run \<lparr>sub_fd = 3, sub_joined = True\<rparr> [sample_add] M [] 0" "\<not> in_recovery M"
    "next_exp_inc_seq_num M = 2" "2 \<le> num_elements (incoming_md_updates M)"
proof -
  let ?env = "\<lparr>sub_fd = 3, sub_joined = True\<rparr>" and ?q = "LockFreeQueue_new 64 sample_add" and ?us = "[sample_add]"
  let ?M0 = "\<lparr>next_exp_inc_seq_num = 1, incoming_md_updates = ?q, incremental_mcast_socket = Socket_new\<lparr>socket_fd := 3\<rparr>,
    snapshot_mcast_socket = Socket_new, in_recovery = False, snapshot_queued_msgs = [], incremental_queued_msgs = []\<rparr>"
  let ?M1 = "?M0\<lparr>next_exp_inc_seq_num := 2, incoming_md_updates := Enqueue sample_add ?q\<rparr>"
  let ?M2 = "?M1\<lparr>in_recovery := True, incremental_queued_msgs := [(1, sample_add)],
    snapshot_mcast_socket := Socket_new\<lparr>socket_fd := 3\<rparr>\<rparr>"
  let ?M3 = "?M2\<lparr>snapshot_queued_msgs := [(0, start_update 0)]\<rparr>"
  note eval = handle_update_def has_queue_room_def LockFreeQueue_new_def StartSnapshotSync_def QueueMessage_def
    CheckSnapshotSync_def start_update_def
  have "consumer_run ?env ?us ?M0 [] 0" by (rule start [of _ ?q]) (simp_all add: MarketDataConsumer_new_def)
  from incremental [OF this, of 0 ?M1] have r1: "consumer_run ?env ?us ?M1 [] 0" by (simp add: eval)
  from incremental [OF r1, of 0 ?M2] have r2: "consumer_run ?env ?us ?M2 [] 0" by (simp add: eval)
  from snapshot_start [OF r2, of 0 ?M3] have r3: "consumer_run ?env ?us ?M3 [] 0" by (simp add: eval)
  have t: "ticker_snapshot (\<lambda>_ _. None) = (\<lambda>t. [clear_update t])"
    by (simp add: ticker_snapshot_def map_filter_def fun_eq_iff)
  have empty: "the_snapshot ?us 0 = start_update 0 # map clear_update [0..<8] @ [end_update 0]"
    by (simp add: the_snapshot_def snapshot_updates_def snapshot_body_def t feed_state_def no_orders_def ME_MAX_TICKERS_def)
  let ?Q = "as_entries (number_updates 0 (the_snapshot ?us 0))"
  let ?M4 = "CheckSnapshotSync (?M3\<lparr>snapshot_queued_msgs := ?Q\<rparr>)"
  have r4: "consumer_run ?env ?us ?M4 [] 0"
    by (rule snapshot_arrives [OF r3 _ valid_sample]) (simp_all add: empty LockFreeQueue_new_def)
  obtain rest where Q: "?Q = (0, start_update 0) # rest" "snd (last ?Q) = end_update 0" by (simp add: empty)
  obtain es where es: "scan_snapshot 0 ?Q = Some es" unfolding scan_snapshot_numbered by blast
  have ty: "mu_type (start_update 0) = MarketUpdateType_SNAPSHOT_START" "mu_type (end_update 0) = MarketUpdateType_SNAPSHOT_END"
    "scan_incrementals (mu_order_id (end_update 0) + 1) [(1, sample_add)] = (2, [sample_add], True)"
    by (simp_all add: start_update_def end_update_def is_marker_def sample_add_def)
  have "?M4 = ?M3\<lparr>snapshot_queued_msgs := ?Q, next_exp_inc_seq_num := 2,
      incoming_md_updates := fold Enqueue (es @ [sample_add]) (Enqueue sample_add ?q), snapshot_queued_msgs := [],
      incremental_queued_msgs := [], in_recovery := False, snapshot_mcast_socket := Socket_new\<lparr>socket_fd := - 1\<rparr>\<rparr>"
    using CheckSnapshotSync_completes [of "?M3\<lparr>snapshot_queued_msgs := ?Q\<rparr>" "(0, start_update 0)" rest es "end_update 0" 2
        "[sample_add]"] Q es ty by simp
  then show thesis by (intro that [OF r4]) simp_all
qed

theorem consumer_consistent_witness:
  "\<exists>M. consumer_run \<lparr>sub_fd = 3, sub_joined = True\<rparr> [sample_add] M [] 0 \<and> \<not> in_recovery M \<and>
    2 \<le> length (q_list (incoming_md_updates M)) \<and> feed_state (q_list (incoming_md_updates M)) = feed_state [sample_add]"
proof -
  obtain M where M: "consumer_run \<lparr>sub_fd = 3, sub_joined = True\<rparr> [sample_add] M [] 0" "\<not> in_recovery M"
    "next_exp_inc_seq_num M = 2" "2 \<le> num_elements (incoming_md_updates M)" by (rule sample_recovery)
  have "length [sample_add] + 2 < 2 ^ 64" by simp
  from consumer_consistent [OF M(1) valid_sample this] M(2,3)
  have "feed_state (q_list (incoming_md_updates M)) = feed_state [sample_add]" by auto
  with M show ?thesis by (intro exI [of _ M]) simp
qed

section \<open>What ends a recovery\<close>

text \<open>
  C11: A recovery ends as soon as it can. When all messages of the snapshot after \<open>n\<close> updates are
  queued, and the queued updates are those from some \<open>j\<close> up to \<open>l\<close> without a gap with \<open>j \<le> n \<le> l\<close>,
  the check leaves recovery, expects the update after \<open>l\<close> next, and hands on events that rebuild the
  orders after \<open>l\<close> updates.
\<close>

theorem recovery_completes:
  assumes "valid_feed no_orders us" "length us + 2 < 2 ^ 64" "j \<le> n" "n \<le> l" "l \<le> length us"
    and "snapshot_queued_msgs M = as_entries (number_updates 0 (the_snapshot us n))"
    and "incremental_queued_msgs M = as_entries (number_updates (of_nat j + 1) (take (l - j) (drop j us)))"
  shows "\<exists>es. incoming_md_updates (CheckSnapshotSync M) = fold Enqueue es (incoming_md_updates M) \<and>
    feed_state es = feed_state (take l us) \<and> \<not> in_recovery (CheckSnapshotSync M) \<and>
    next_exp_inc_seq_num (CheckSnapshotSync M) = of_nat l + 1"
proof -
  let ?m = "feed_state (take n us)" and ?fs = "filter (\<lambda>u. \<not> is_marker u) (take (l - n) (drop n us))"
  let ?es = "snapshot_body ?m @ ?fs"
  have q: "snapshot_queued_msgs M = (0, start_update (of_nat n)) #
      as_entries (number_updates 1 (snapshot_body ?m)) @ [(of_nat (length (snapshot_body ?m)) + 1, end_update (of_nat n))]"
    by (simp add: assms(6) the_snapshot_def snapshot_updates_def add.commute)
  have scan: "scan_snapshot 0 (snapshot_queued_msgs M) = Some (snapshot_body ?m)"
    by (simp add: assms(6) scan_snapshot_numbered the_snapshot_markers [OF assms(1)])
  have last: "snd (last (snapshot_queued_msgs M)) = end_update (of_nat n)" by (simp add: q)
  obtain rest where Cons: "snapshot_queued_msgs M = (0, start_update (of_nat n)) # rest" using q by blast
  have incs: "scan_incrementals (of_nat n + 1) (incremental_queued_msgs M) = (of_nat l + 1, ?fs, True)"
    unfolding assms(7) by (rule scan_incrementals_contiguous [OF assms(3-5,2)])
  have run: "CheckSnapshotSync M = M\<lparr>next_exp_inc_seq_num := of_nat l + 1,
      incoming_md_updates := fold Enqueue ?es (incoming_md_updates M), snapshot_queued_msgs := [],
      incremental_queued_msgs := [], in_recovery := False,
      snapshot_mcast_socket := (snapshot_mcast_socket M)\<lparr>socket_fd := - 1\<rparr>\<rparr>"
    using incs by (intro CheckSnapshotSync_completes [OF Cons _ scan last]) (simp_all add: start_update_def end_update_def)
  have "feed_state ?es = feed_state (take l us)"
    using snapshot_rebuilds [OF feed_state_ok [OF assms(1)], of no_orders n] take_feed [OF assms(4), of us]
    by (simp add: feed_state_def [of ?es] fold_feed_filter no_orders_def)
  then show ?thesis unfolding run by (intro exI [of _ ?es]) simp
qed

theorem recovery_completes_witness:
  "\<exists>M es. in_recovery M \<and> \<not> in_recovery (CheckSnapshotSync M) \<and> next_exp_inc_seq_num (CheckSnapshotSync M) = 2 \<and>
    incoming_md_updates (CheckSnapshotSync M) = fold Enqueue es (incoming_md_updates M) \<and>
    feed_state es = feed_state [sample_add]"
proof -
  obtain M0 where "MarketDataConsumer_new \<lparr>sub_fd = 3, sub_joined = True\<rparr> (LockFreeQueue_new 8 sample_add) = Inr M0"
    by (simp add: MarketDataConsumer_new_def)
  let ?M = "M0\<lparr>in_recovery := True, snapshot_queued_msgs := as_entries (number_updates 0 (the_snapshot [sample_add] 0)),
    incremental_queued_msgs := as_entries (number_updates (of_nat 0 + 1) (take (1 - 0) (drop 0 [sample_add])))\<rparr>"
  have "length [sample_add] + 2 < 2 ^ 64" by simp
  from recovery_completes [OF valid_sample this, of 0 0 1 ?M] show ?thesis
    by (intro exI [of _ ?M]) auto
qed

text \<open>
  C37: The number of SNAPSHOT\_START is never compared with that of SNAPSHOT\_END. A queue that begins
  with the messages of one snapshot and ends with those of a later one, each half lost, is taken for
  a complete snapshot of the later one, whatever stale orders its first half holds.
\<close>

theorem mixed_snapshot_accepted:
  assumes "\<forall>u\<in>set xs. \<not> is_marker u"
    and "snapshot_queued_msgs M = as_entries (number_updates 0 (start_update a # xs @ [end_update b]))"
    and "incremental_queued_msgs M = []"
  shows "\<not> in_recovery (CheckSnapshotSync M) \<and> next_exp_inc_seq_num (CheckSnapshotSync M) = b + 1 \<and>
    incoming_md_updates (CheckSnapshotSync M) = fold Enqueue xs (incoming_md_updates M)"
proof -
  have "filter (\<lambda>u. \<not> is_marker u) (start_update a # xs @ [end_update b]) = xs"
    using assms(1) by (simp add: is_marker_def start_update_def end_update_def)
  then have scan: "scan_snapshot 0 (snapshot_queued_msgs M) = Some xs"
    unfolding assms(2) scan_snapshot_numbered by simp
  have last: "snd (last (snapshot_queued_msgs M)) = end_update b" by (simp add: assms(2))
  obtain rest where Cons: "snapshot_queued_msgs M = (0, start_update a) # rest"
    using assms(2) by simp
  have "scan_incrementals (mu_order_id (end_update b) + 1) (incremental_queued_msgs M) = (b + 1, [], True)"
    by (simp add: assms(3) end_update_def)
  from CheckSnapshotSync_completes [OF Cons _ scan last _ this] show ?thesis
    by (simp add: start_update_def end_update_def)
qed

theorem mixed_snapshot_accepted_witness:
  "\<exists>M. in_recovery M \<and> snapshot_queued_msgs M =
      as_entries (number_updates 0 (start_update 1 # [clear_update 2, sample_add] @ [end_update 3])) \<and>
    \<not> in_recovery (CheckSnapshotSync M) \<and> next_exp_inc_seq_num (CheckSnapshotSync M) = 4"
proof -
  obtain M0 where "MarketDataConsumer_new \<lparr>sub_fd = 3, sub_joined = True\<rparr> (LockFreeQueue_new 8 sample_add) = Inr M0"
    by (simp add: MarketDataConsumer_new_def)
  let ?M = "M0\<lparr>in_recovery := True, snapshot_queued_msgs :=
    as_entries (number_updates 0 (start_update 1 # [clear_update 2, sample_add] @ [end_update 3])),
    incremental_queued_msgs := []\<rparr>"
  have "\<forall>u\<in>set [clear_update 2, sample_add]. \<not> is_marker u"
    by (simp add: is_marker_def clear_update_def sample_add_def)
  from mixed_snapshot_accepted [OF this, of ?M 1 3] show ?thesis
    by (intro exI [of _ ?M]) simp
qed

end
