(* ===== verification/Matching_Engine.thy ===== *)
theory Matching_Engine
  imports Exchange_Properties Lock_Free_Queue
begin

text \<open>
  The matching engine (\<open>src/src/include/matching_engine/matching_engine.hpp\<close>,
  \<open>src/src/matching_engine/matching_engine.cpp\<close>): one order book per instrument, requests read from
  a queue the order gateway fills, responses and market updates written to two more. The engine
  calls the book, the book calls back with messages: \<open>deliver\<close> writes what the book has \<open>sent\<close>, in
  order, each to its queue.
\<close>

section \<open>State and operations\<close>

record MatchingEngine =
  ticker_order_book :: "nat \<Rightarrow> ExchangeOrderBook"
  incoming_requests :: "MEClientRequest LockFreeQueue"
  outgoing_ogw_responses :: "MEClientResponse LockFreeQueue"
  outgoing_md_updates :: "MEMarketUpdate LockFreeQueue"

text \<open>
  The constructor makes the books; \<open>cid_oid\<close> and \<open>slots\<close> are the first contents of their arrays.
\<close>

definition MatchingEngine_new ::
  "(nat \<Rightarrow> nat \<Rightarrow> nat \<Rightarrow> ptr) \<Rightarrow> (nat \<Rightarrow> nat \<Rightarrow> ptr) \<Rightarrow> MEClientRequest LockFreeQueue \<Rightarrow>
   MEClientResponse LockFreeQueue \<Rightarrow> MEMarketUpdate LockFreeQueue \<Rightarrow> MatchingEngine" where
  "MatchingEngine_new cid_oid slots requests responses updates =
     \<lparr>ticker_order_book = (\<lambda>i. ExchangeOrderBook_new (of_nat i) (cid_oid i) (slots i)),
      incoming_requests = requests, outgoing_ogw_responses = responses,
      outgoing_md_updates = updates\<rparr>"

definition ME_SendClientResponse :: "MEClientResponse \<Rightarrow> MatchingEngine \<Rightarrow> MatchingEngine" where
  "ME_SendClientResponse r E = E\<lparr>outgoing_ogw_responses := Enqueue r (outgoing_ogw_responses E)\<rparr>"

definition ME_SendMarketUpdate :: "MEMarketUpdate \<Rightarrow> MatchingEngine \<Rightarrow> MatchingEngine" where
  "ME_SendMarketUpdate u E = E\<lparr>outgoing_md_updates := Enqueue u (outgoing_md_updates E)\<rparr>"

fun deliver :: "engine_message \<Rightarrow> MatchingEngine \<Rightarrow> MatchingEngine" where
  "deliver (Response r) E = ME_SendClientResponse r E"
| "deliver (Update u) E = ME_SendMarketUpdate u E"

text \<open>\<open>ticker_order_book_[ticker_id]\<close> has no bounds check.\<close>

definition ProcessClientRequest :: "MEClientRequest \<Rightarrow> MatchingEngine \<Rightarrow> MatchingEngine result" where
  "ProcessClientRequest rq E =
     (let t = unat (rq_ticker_id rq)
      in if ME_MAX_TICKERS \<le> t then Inl Out_of_bounds
         else
           (let order_book = (ticker_order_book E t)\<lparr>sent := []\<rparr>
            in rbind
                (case rq_type rq of
                   ClientRequestType_NEW \<Rightarrow>
                     Add (rq_client_id rq) (rq_order_id rq) (rq_ticker_id rq) (rq_side rq) (rq_price rq)
                       (rq_qty rq) order_book
                 | ClientRequestType_CANCEL \<Rightarrow>
                     Cancel (rq_client_id rq) (rq_order_id rq) (rq_ticker_id rq) order_book
                 | _ \<Rightarrow> FATAL (''Received invalid client-request-type:'' @ ClientRequestTypeToString (rq_type rq)))
                (\<lambda>b. Inr (fold deliver (sent b) (E\<lparr>ticker_order_book := (ticker_order_book E)(t := b\<lparr>sent := []\<rparr>)\<rparr>)))))"

text \<open>One round of the loop in \<open>Run\<close>.\<close>

definition Run_once :: "MatchingEngine \<Rightarrow> MatchingEngine result" where
  "Run_once E =
     (case GetNextToRead (incoming_requests E) of
        None \<Rightarrow> Inr E
      | Some rq \<Rightarrow>
          rbind (ProcessClientRequest rq E) (\<lambda>E.
          rbind (UpdateReadIndex (incoming_requests E)) (\<lambda>q.
          Inr (E\<lparr>incoming_requests := q\<rparr>))))"

section \<open>The specification\<close>

definition responses :: "engine_message list \<Rightarrow> MEClientResponse list" where
  "responses ms = [r. Response r \<leftarrow> ms]"

definition updates :: "engine_message list \<Rightarrow> MEMarketUpdate list" where
  "updates ms = [u. Update u \<leftarrow> ms]"

definition spec_request :: "MEClientRequest \<Rightarrow> ExchangeSpec \<Rightarrow> ExchangeSpec" where
  "spec_request rq S =
     (if rq_type rq = ClientRequestType_NEW
      then spec_add (rq_client_id rq) (rq_order_id rq) (rq_ticker_id rq) (rq_side rq) (rq_price rq) (rq_qty rq) S
      else spec_cancel (rq_client_id rq) (rq_order_id rq) (rq_ticker_id rq) S)"

definition engine_ok :: "MatchingEngine \<Rightarrow> (nat \<Rightarrow> Side \<Rightarrow> levels) \<Rightarrow> bool" where
  "engine_ok E L \<longleftrightarrow>
     (\<forall>t < ME_MAX_TICKERS. exchange_inv (ticker_order_book E t) (L t) \<and> sent (ticker_order_book E t) = []) \<and>
     q_ok (incoming_requests E) \<and> q_ok (outgoing_ogw_responses E) \<and> q_ok (outgoing_md_updates E)"

definition can_process :: "MEClientRequest \<Rightarrow> MatchingEngine \<Rightarrow> bool" where
  "can_process rq E \<longleftrightarrow>
     unat (rq_ticker_id rq) < ME_MAX_TICKERS \<and>
     ((rq_type rq = ClientRequestType_NEW \<and>
       can_add (rq_client_id rq) (rq_order_id rq) (rq_side rq) (rq_price rq) (ticker_order_book E (unat (rq_ticker_id rq)))) \<or>
      (rq_type rq = ClientRequestType_CANCEL \<and> can_cancel (rq_client_id rq) (rq_order_id rq)))"

definition request_messages :: "MEClientRequest \<Rightarrow> MatchingEngine \<Rightarrow> (nat \<Rightarrow> Side \<Rightarrow> levels) \<Rightarrow> engine_message list" where
  "request_messages rq E L =
     sp_sent (spec_request rq (abs_book (ticker_order_book E (unat (rq_ticker_id rq))) (L (unat (rq_ticker_id rq)))))"

definition queues_fit :: "engine_message list \<Rightarrow> MatchingEngine \<Rightarrow> bool" where
  "queues_fit ms E \<longleftrightarrow>
     length (q_list (outgoing_ogw_responses E)) + length (responses ms) \<le> q_size (outgoing_ogw_responses E) \<and>
     length (q_list (outgoing_md_updates E)) + length (updates ms) \<le> q_size (outgoing_md_updates E)"

section \<open>Delivery\<close>

lemma responses_simps [simp]:
  "responses [] = []" "responses (Response r # ms) = r # responses ms" "responses (Update u # ms) = responses ms"
  "responses (ms @ ms') = responses ms @ responses ms'"
  by (simp_all add: responses_def)

lemma updates_simps [simp]:
  "updates [] = []" "updates (Response r # ms) = updates ms" "updates (Update u # ms) = u # updates ms"
  "updates (ms @ ms') = updates ms @ updates ms'"
  by (simp_all add: updates_def)

lemma fold_deliver:
  "outgoing_ogw_responses (fold deliver ms E) = fold Enqueue (responses ms) (outgoing_ogw_responses E) \<and>
   outgoing_md_updates (fold deliver ms E) = fold Enqueue (updates ms) (outgoing_md_updates E) \<and>
   ticker_order_book (fold deliver ms E) = ticker_order_book E \<and>
   incoming_requests (fold deliver ms E) = incoming_requests E"
proof (induction ms arbitrary: E)
  case (Cons m ms)
  then show ?case
    by (cases m) (simp_all add: ME_SendClientResponse_def ME_SendMarketUpdate_def)
qed simp

lemma exchange_inv_sent [simp]: "exchange_inv (b\<lparr>sent := m\<rparr>) L = exchange_inv b L"
  by (simp add: exchange_inv_def market_ok_def)

lemma can_add_sent [simp]: "can_add c co s p (b\<lparr>sent := m\<rparr>) = can_add c co s p b"
  by (simp add: can_add_def)

lemma book_request:
  assumes inv: "exchange_inv b L" and st: "sent b = []"
    and can: "(rq_type rq = ClientRequestType_NEW \<and> can_add (rq_client_id rq) (rq_order_id rq) (rq_side rq) (rq_price rq) b) \<or>
      (rq_type rq = ClientRequestType_CANCEL \<and> can_cancel (rq_client_id rq) (rq_order_id rq))"
  obtains b' L' where
    "(case rq_type rq of
        ClientRequestType_NEW \<Rightarrow>
          Add (rq_client_id rq) (rq_order_id rq) (rq_ticker_id rq) (rq_side rq) (rq_price rq) (rq_qty rq) (b\<lparr>sent := []\<rparr>)
      | ClientRequestType_CANCEL \<Rightarrow>
          Cancel (rq_client_id rq) (rq_order_id rq) (rq_ticker_id rq) (b\<lparr>sent := []\<rparr>)
      | _ \<Rightarrow> FATAL (''Received invalid client-request-type:'' @ ClientRequestTypeToString (rq_type rq))) = Inr b'"
    "exchange_inv b' L'" "abs_book b' L' = spec_request rq (abs_book b L)" "pools_kept b b'"
proof -
  have b: "b\<lparr>sent := []\<rparr> = b" using st by simp
  from can show thesis
  proof (elim disjE conjE)
    assume ty: "rq_type rq = ClientRequestType_NEW"
      and c: "can_add (rq_client_id rq) (rq_order_id rq) (rq_side rq) (rq_price rq) b"
    show thesis
      by (rule Add_inv [OF inv c, where t = "rq_ticker_id rq" and qty = "rq_qty rq"], rule that)
        (simp_all add: ty b spec_request_def)
  next
    assume ty: "rq_type rq = ClientRequestType_CANCEL" and c: "can_cancel (rq_client_id rq) (rq_order_id rq)"
    show thesis
      by (rule Cancel_inv [OF inv c, where t = "rq_ticker_id rq"], rule that)
        (simp_all add: ty b spec_request_def)
  qed
qed

lemma Process_sends:
  assumes ok: "engine_ok E L" and can: "can_process rq E"
  obtains b' L1 where
    "ProcessClientRequest rq E = Inr (fold deliver (request_messages rq E L)
       (E\<lparr>ticker_order_book := (ticker_order_book E)(unat (rq_ticker_id rq) := b'\<lparr>sent := []\<rparr>)\<rparr>))"
    "exchange_inv b' L1"
    "abs_book b' L1 = spec_request rq (abs_book (ticker_order_book E (unat (rq_ticker_id rq))) (L (unat (rq_ticker_id rq))))"
proof -
  let ?t = "unat (rq_ticker_id rq)"
  let ?b = "ticker_order_book E ?t"
  have t: "?t < ME_MAX_TICKERS" using can by (simp add: can_process_def)
  have inv: "exchange_inv ?b (L ?t)" and st: "sent ?b = []" using ok t by (simp_all add: engine_ok_def)
  obtain b' L1 where b': "(case rq_type rq of
        ClientRequestType_NEW \<Rightarrow>
          Add (rq_client_id rq) (rq_order_id rq) (rq_ticker_id rq) (rq_side rq) (rq_price rq) (rq_qty rq) (?b\<lparr>sent := []\<rparr>)
      | ClientRequestType_CANCEL \<Rightarrow>
          Cancel (rq_client_id rq) (rq_order_id rq) (rq_ticker_id rq) (?b\<lparr>sent := []\<rparr>)
      | _ \<Rightarrow> FATAL (''Received invalid client-request-type:'' @ ClientRequestTypeToString (rq_type rq))) = Inr b'"
    "exchange_inv b' L1" "abs_book b' L1 = spec_request rq (abs_book ?b (L ?t))" "pools_kept ?b b'"
    by (rule book_request [OF inv st, of rq]) (use can in \<open>auto simp: can_process_def\<close>)
  have ms: "sent b' = request_messages rq E L" using abs_book_fields(4) [OF b'(3)] by (simp add: request_messages_def)
  show thesis by (rule that [OF _ b'(2,3)]) (use t b'(1) ms in \<open>simp add: ProcessClientRequest_def\<close>)
qed

text \<open>The messages fit if the queues are not overrun after the request.\<close>

lemma Process_fits:
  assumes ok: "engine_ok E L" and can: "can_process rq E" and run: "ProcessClientRequest rq E = Inr E'"
    and room: "num_elements (outgoing_ogw_responses E') \<le> q_size (outgoing_ogw_responses E')"
      "num_elements (outgoing_md_updates E') \<le> q_size (outgoing_md_updates E')"
  shows "queues_fit (request_messages rq E L) E"
proof -
  obtain b' where "E' = fold deliver (request_messages rq E L)
      (E\<lparr>ticker_order_book := (ticker_order_book E)(unat (rq_ticker_id rq) := b'\<lparr>sent := []\<rparr>)\<rparr>)"
    by (rule Process_sends [OF ok can]) (use run in auto)
  with room show ?thesis by (simp add: queues_fit_def fold_deliver)
qed

lemma Process_ok:
  assumes ok: "engine_ok E L" and can: "can_process rq E" and fit: "queues_fit (request_messages rq E L) E"
  obtains E' L' where "ProcessClientRequest rq E = Inr E'" "engine_ok E' L'"
    "incoming_requests E' = incoming_requests E"
    "q_list (outgoing_ogw_responses E') = q_list (outgoing_ogw_responses E) @ responses (request_messages rq E L)"
    "q_list (outgoing_md_updates E') = q_list (outgoing_md_updates E) @ updates (request_messages rq E L)"
    "abs_book (ticker_order_book E' (unat (rq_ticker_id rq))) (L' (unat (rq_ticker_id rq))) =
      (spec_request rq (abs_book (ticker_order_book E (unat (rq_ticker_id rq))) (L (unat (rq_ticker_id rq)))))
        \<lparr>sp_sent := []\<rparr>"
    "\<And>t. t \<noteq> unat (rq_ticker_id rq) \<Longrightarrow> ticker_order_book E' t = ticker_order_book E t \<and> L' t = L t"
proof -
  let ?t = "unat (rq_ticker_id rq)"
  let ?ms = "request_messages rq E L"
  obtain b' L1 where
    res: "ProcessClientRequest rq E = Inr (fold deliver ?ms
       (E\<lparr>ticker_order_book := (ticker_order_book E)(?t := b'\<lparr>sent := []\<rparr>)\<rparr>))"
    and b': "exchange_inv b' L1" "abs_book b' L1 = spec_request rq (abs_book (ticker_order_book E ?t) (L ?t))"
    by (rule Process_sends [OF ok can])
  let ?F = "E\<lparr>ticker_order_book := (ticker_order_book E)(?t := b'\<lparr>sent := []\<rparr>)\<rparr>"
  let ?E = "fold deliver ?ms ?F"
  have D: "outgoing_ogw_responses ?E = fold Enqueue (responses ?ms) (outgoing_ogw_responses E)"
    "outgoing_md_updates ?E = fold Enqueue (updates ?ms) (outgoing_md_updates E)"
    "ticker_order_book ?E = (ticker_order_book E)(?t := b'\<lparr>sent := []\<rparr>)"
    "incoming_requests ?E = incoming_requests E"
    using fold_deliver [of ?ms ?F] by simp_all
  have q: "q_ok (outgoing_ogw_responses E)" "q_ok (outgoing_md_updates E)" using ok by (simp_all add: engine_ok_def)
  have RU: "q_ok (fold Enqueue (responses ?ms) (outgoing_ogw_responses E))"
    "q_list (fold Enqueue (responses ?ms) (outgoing_ogw_responses E)) = q_list (outgoing_ogw_responses E) @ responses ?ms"
    "q_ok (fold Enqueue (updates ?ms) (outgoing_md_updates E))"
    "q_list (fold Enqueue (updates ?ms) (outgoing_md_updates E)) = q_list (outgoing_md_updates E) @ updates ?ms"
    using lfq.enq_all [OF q(1), of "responses ?ms"] lfq.enq_all [OF q(2), of "updates ?ms"] fit
    by (simp_all add: queues_fit_def)
  show thesis
  proof (rule that [OF res, where L' = "L(?t := L1)"])
    show "engine_ok ?E (L(?t := L1))"
      using ok b'(1) by (simp add: engine_ok_def D RU)
  qed (simp_all add: D RU b'(2))
qed

section \<open>Properties\<close>

text \<open>
  C4: The engine handles a request as the specification of its book says: the book of the
  instrument takes the specified state, the specified responses and updates are appended to their
  queues in order, the books of the other instruments are left alone.
\<close>

theorem ProcessClientRequest_refines:
  assumes "engine_ok E L" "can_process rq E" "queues_fit (request_messages rq E L) E"
  shows "\<exists>E' L'. ProcessClientRequest rq E = Inr E' \<and> engine_ok E' L' \<and>
    q_list (outgoing_ogw_responses E') = q_list (outgoing_ogw_responses E) @ responses (request_messages rq E L) \<and>
    q_list (outgoing_md_updates E') = q_list (outgoing_md_updates E) @ updates (request_messages rq E L) \<and>
    abs_book (ticker_order_book E' (unat (rq_ticker_id rq))) (L' (unat (rq_ticker_id rq))) =
      (spec_request rq (abs_book (ticker_order_book E (unat (rq_ticker_id rq))) (L (unat (rq_ticker_id rq)))))
        \<lparr>sp_sent := []\<rparr> \<and>
    (\<forall>t. t \<noteq> unat (rq_ticker_id rq) \<longrightarrow> ticker_order_book E' t = ticker_order_book E t \<and> L' t = L t)"
  by (rule Process_ok [OF assms]) blast

definition empty_engine :: "MEClientRequest list \<Rightarrow> MatchingEngine" where
  "empty_engine rqs =
     MatchingEngine_new (\<lambda>_ _ _. None) (\<lambda>_ _. None)
       (fold Enqueue rqs (LockFreeQueue_new 8 MEClientRequest_default))
       (LockFreeQueue_new 8 MEClientResponse_default) (LockFreeQueue_new 8 MEMarketUpdate_default)"

definition sample_request :: MEClientRequest where
  "sample_request =
     \<lparr>rq_type = ClientRequestType_CANCEL, rq_client_id = 3, rq_ticker_id = 2, rq_order_id = 7,
      rq_side = Side_BUY, rq_price = I64 100, rq_qty = 5\<rparr>"

lemma empty_engine_ok:
  assumes "length rqs \<le> 8"
  shows "engine_ok (empty_engine rqs) (\<lambda>_ _. [])" "q_list (incoming_requests (empty_engine rqs)) = rqs"
  using assms lfq.enq_all [of "LockFreeQueue_new 8 MEClientRequest_default" rqs]
    empty_book_inv [unfolded empty_book_def]
  by (simp_all add: engine_ok_def empty_engine_def MatchingEngine_new_def)
    (simp add: ExchangeOrderBook_new_def)

lemma sample_ready:
  "can_process sample_request (empty_engine rqs)"
  "queues_fit (request_messages sample_request (empty_engine rqs) (\<lambda>_ _. [])) (empty_engine rqs)"
proof -
  show "can_process sample_request (empty_engine rqs)"
    by (simp add: can_process_def sample_request_def can_cancel_def ME_MAX_TICKERS_def ME_MAX_ORDER_IDS_def)
  have "abs_book (ticker_order_book (empty_engine rqs) 2) (\<lambda>_. []) =
      \<lparr>sp_orders = (\<lambda>_. []), sp_index = (\<lambda>_. None), sp_next = 1, sp_sent = []\<rparr>"
    by (simp add: empty_engine_def MatchingEngine_new_def ExchangeOrderBook_new_ok(2))
  then show "queues_fit (request_messages sample_request (empty_engine rqs) (\<lambda>_ _. [])) (empty_engine rqs)"
    by (simp add: queues_fit_def request_messages_def sample_request_def spec_request_def spec_cancel_def
        empty_engine_def MatchingEngine_new_def LockFreeQueue_new_def)
qed

theorem ProcessClientRequest_refines_witness:
  "\<exists>E' L'. ProcessClientRequest sample_request (empty_engine []) = Inr E' \<and> engine_ok E' L' \<and>
    q_list (outgoing_ogw_responses E') = responses (request_messages sample_request (empty_engine []) (\<lambda>_ _. []))"
  using ProcessClientRequest_refines [OF empty_engine_ok(1) sample_ready, of "[]"]
  by (auto simp: empty_engine_def MatchingEngine_new_def)

text \<open>
  C23: Requests are handled one at a time in the order of the queue, and each is answered: a round of
  the engine's loop takes the oldest request off the queue, and among the responses it appends there
  is one to the client that sent the request, with the client's order id.
\<close>

theorem Run_answers_oldest:
  assumes "engine_ok E L" "q_list (incoming_requests E) = rq # rqs" "can_process rq E"
    "queues_fit (request_messages rq E L) E"
  shows "\<exists>E' L' rs. Run_once E = Inr E' \<and> engine_ok E' L' \<and> q_list (incoming_requests E') = rqs \<and>
    q_list (outgoing_ogw_responses E') = q_list (outgoing_ogw_responses E) @ rs \<and>
    (\<exists>r\<in>set rs. rs_client_id r = rq_client_id rq \<and> rs_client_order_id r = rq_order_id rq)"
proof -
  have qi: "q_ok (incoming_requests E)" using assms(1) by (simp add: engine_ok_def)
  obtain E' L' where E': "ProcessClientRequest rq E = Inr E'" "engine_ok E' L'"
    "incoming_requests E' = incoming_requests E"
    "q_list (outgoing_ogw_responses E') = q_list (outgoing_ogw_responses E) @ responses (request_messages rq E L)"
    by (rule Process_ok [OF assms(1,3,4)]) blast
  obtain q where q: "UpdateReadIndex (incoming_requests E') = Inr q" "q_ok q" "q_list q = rqs"
    using lfq.deq_law [OF qi assms(2)] E'(3) by auto
  have "Run_once E = Inr (E'\<lparr>incoming_requests := q\<rparr>)"
    using lfq.front_law [OF qi] assms(2) E'(1) q(1) by (simp add: Run_once_def)
  moreover have "engine_ok (E'\<lparr>incoming_requests := q\<rparr>) L'" using E'(2) q(2) by (simp add: engine_ok_def)
  moreover have "\<exists>r\<in>set (responses (request_messages rq E L)).
      rs_client_id r = rq_client_id rq \<and> rs_client_order_id r = rq_order_id rq"
    by (auto simp: request_messages_def spec_request_def spec_add_def spec_cancel_def accepted_def
        split: prod.splits option.splits)
  ultimately show ?thesis using E'(4) q(3)
    by (intro exI [of _ "E'\<lparr>incoming_requests := q\<rparr>"] exI [of _ L'] exI) auto
qed

theorem Run_answers_oldest_witness:
  "\<exists>E' L' rs. Run_once (empty_engine [sample_request, sample_request]) = Inr E' \<and> engine_ok E' L' \<and>
    q_list (incoming_requests E') = [sample_request] \<and>
    q_list (outgoing_ogw_responses E') = q_list (outgoing_ogw_responses (empty_engine [sample_request, sample_request])) @ rs \<and>
    (\<exists>r\<in>set rs. rs_client_id r = rq_client_id sample_request \<and> rs_client_order_id r = rq_order_id sample_request)"
  by (rule Run_answers_oldest [OF empty_engine_ok(1) empty_engine_ok(2) sample_ready]) simp_all

text \<open>
  A request whose type byte is neither NEW nor CANCEL ends the whole exchange: the default branch
  of the switch is \<open>FATAL\<close>, and nothing before it checks the byte a client sent.
\<close>

theorem Process_invalid_type:
  assumes "rq_type rq \<noteq> ClientRequestType_NEW" "rq_type rq \<noteq> ClientRequestType_CANCEL"
    "unat (rq_ticker_id rq) < ME_MAX_TICKERS"
  shows "ProcessClientRequest rq E =
    Inl (Fatal (''Received invalid client-request-type:'' @ ClientRequestTypeToString (rq_type rq)))"
  using assms by (cases "rq_type rq") (simp_all add: ProcessClientRequest_def FATAL_def)

theorem Process_invalid_type_witness:
  "ProcessClientRequest (sample_request\<lparr>rq_type := ClientRequestType_OTHER 9\<rparr>) (empty_engine []) =
    Inl (Fatal (''Received invalid client-request-type:'' @
      ClientRequestTypeToString (rq_type (sample_request\<lparr>rq_type := ClientRequestType_OTHER 9\<rparr>))))"
  by (rule Process_invalid_type) (simp_all add: sample_request_def ME_MAX_TICKERS_def)

end
