(* ===== verification/Double.thy ===== *)
theory Double
  imports Prelude "HOL-Library.Log_Nat"
begin

text \<open>
  The type \<open>double\<close> of the code: IEEE 754 binary64 with rounding to nearest, ties to even. A
  finite number is a sign, a significand below 2^53 and an exponent, normalised so that the
  significand has 53 bits or the exponent is the least one. Every operation computes the exact
  rational result and rounds it once.
\<close>

section \<open>Numbers\<close>

datatype double = NaN | Infinity bool | Finite bool nat int

definition two_to :: "int \<Rightarrow> rat" where
  "two_to e = (if 0 \<le> e then 2 ^ nat e else 1 / 2 ^ nat (- e))"

fun value_of :: "double \<Rightarrow> rat" where
  "value_of (Finite s m e) = (if s then - 1 else 1) * of_nat m * two_to e"
| "value_of _ = 0"

fun is_finite :: "double \<Rightarrow> bool" where
  "is_finite (Finite _ _ _) = True"
| "is_finite _ = False"

fun is_negative :: "double \<Rightarrow> bool" where
  "is_negative (Finite s _ _) = s"
| "is_negative (Infinity s) = s"
| "is_negative NaN = False"

definition dzero :: double where
  "dzero = Finite False 0 (- 1074)"

section \<open>Rounding\<close>

text \<open>The exponent of the highest bit of a positive rational.\<close>

definition top_bit :: "rat \<Rightarrow> int" where
  "top_bit r =
     (case quotient_of r of (n, d) \<Rightarrow>
        let l = bitlen n - bitlen d in if two_to l \<le> r then l else l - 1)"

definition round_even :: "rat \<Rightarrow> nat" where
  "round_even q =
     (let f = nat \<lfloor>q\<rfloor>; d = q - of_nat f in if d > 1 / 2 \<or> (d = 1 / 2 \<and> odd f) then f + 1 else f)"

text \<open>\<open>z\<close> is the sign of an exact zero.\<close>

definition round_rat :: "bool \<Rightarrow> rat \<Rightarrow> double" where
  "round_rat z r =
     (if r = 0 then Finite z 0 (- 1074)
      else
        (let e = max (- 1074) (top_bit \<bar>r\<bar> - 52);
             m = round_even (\<bar>r\<bar> / two_to e);
             (m, e) = (if m = 2 ^ 53 then (2 ^ 52, e + 1) else (m, e))
         in if e > 971 then Infinity (r < 0) else Finite (r < 0) m e))"

section \<open>Operations\<close>

definition d_of_int :: "int \<Rightarrow> double" where
  "d_of_int i = round_rat False (of_int i)"

fun dneg :: "double \<Rightarrow> double" where
  "dneg (Finite s m e) = Finite (\<not> s) m e"
| "dneg (Infinity s) = Infinity (\<not> s)"
| "dneg NaN = NaN"

fun dadd :: "double \<Rightarrow> double \<Rightarrow> double" where
  "dadd NaN _ = NaN"
| "dadd _ NaN = NaN"
| "dadd (Infinity s) (Infinity t) = (if s = t then Infinity s else NaN)"
| "dadd (Infinity s) _ = Infinity s"
| "dadd _ (Infinity t) = Infinity t"
| "dadd (Finite s m e) (Finite t n f) =
     round_rat (s \<and> t) (value_of (Finite s m e) + value_of (Finite t n f))"

definition dsub :: "double \<Rightarrow> double \<Rightarrow> double" where
  "dsub x y = dadd x (dneg y)"

definition dmul :: "double \<Rightarrow> double \<Rightarrow> double" where
  "dmul x y =
     (let s = (is_negative x \<noteq> is_negative y) in
      if x = NaN \<or> y = NaN then NaN
      else if is_finite x \<and> is_finite y then round_rat s (value_of x * value_of y)
      else if (is_finite x \<and> value_of x = 0) \<or> (is_finite y \<and> value_of y = 0) then NaN
      else Infinity s)"

definition ddiv :: "double \<Rightarrow> double \<Rightarrow> double" where
  "ddiv x y =
     (let s = (is_negative x \<noteq> is_negative y) in
      if x = NaN \<or> y = NaN then NaN
      else if is_finite x \<and> is_finite y then
        (if value_of y \<noteq> 0 then round_rat s (value_of x / value_of y)
         else if value_of x = 0 then NaN else Infinity s)
      else if is_finite x then Finite s 0 (- 1074)
      else if is_finite y then Infinity s
      else NaN)"

text \<open>Comparisons; all but \<open>!=\<close> are false on NaN.\<close>

fun dless :: "double \<Rightarrow> double \<Rightarrow> bool" where
  "dless NaN _ = False"
| "dless _ NaN = False"
| "dless (Infinity s) y = (s \<and> y \<noteq> Infinity True)"
| "dless x (Infinity t) = (\<not> t)"
| "dless x y = (value_of x < value_of y)"

definition deq :: "double \<Rightarrow> double \<Rightarrow> bool" where
  "deq x y \<longleftrightarrow> (if is_finite x \<and> is_finite y then value_of x = value_of y else x = y \<and> x \<noteq> NaN)"

definition dgeq :: "double \<Rightarrow> double \<Rightarrow> bool" where
  "dgeq x y \<longleftrightarrow> dless y x \<or> deq x y"

section \<open>Powers of two\<close>

lemma two_to_powi: "two_to e = 2 powi e"
  by (auto simp: two_to_def power_int_def power_divide inverse_eq_divide)

lemma two_to_pos [simp]: "0 < two_to e"
  by (simp add: two_to_def)

lemma two_to_neq_0 [simp]: "two_to e \<noteq> 0"
  using two_to_pos [of e] by linarith

lemma two_to_add: "two_to (a + b) = two_to a * two_to b"
  by (simp add: two_to_powi power_int_add)

lemma two_to_nat [simp]: "two_to (int n) = 2 ^ n"
  by (simp add: two_to_def)

lemma two_to_mono: "a \<le> b \<Longrightarrow> two_to a \<le> two_to b"
  by (simp add: two_to_powi power_int_increasing)

lemma two_to_less_iff: "two_to a < two_to b \<longleftrightarrow> a < b"
  using two_to_mono [of b a] power_int_strict_increasing [of a b "2 :: rat"]
  by (fastforce simp: two_to_powi)

lemma bitlen_two_to:
  assumes "0 < n"
  shows "two_to (bitlen n - 1) \<le> of_int n" "of_int n < two_to (bitlen n)"
proof -
  have b: "2 ^ nat (bitlen n - 1) \<le> n" "n < 2 ^ nat (bitlen n)" "0 < bitlen n"
    using bitlen_bounds [OF assms] bitlen_eq_zero_iff [of n] bitlen_nonneg [of n] assms by auto
  have "of_int (2 ^ nat (bitlen n - 1)) \<le> (of_int n :: rat)" "of_int n < (of_int (2 ^ nat (bitlen n)) :: rat)"
    using b(1,2) by (simp_all only: of_int_le_iff of_int_less_iff)
  then show "two_to (bitlen n - 1) \<le> of_int n" "of_int n < two_to (bitlen n)"
    using b(3) by (simp_all add: two_to_def)
qed

text \<open>The exponent of a natural number.\<close>

lemma top_bit_nat:
  assumes "0 < k"
  shows "two_to (top_bit (of_nat k)) \<le> of_nat k" "of_nat k < two_to (top_bit (of_nat k) + 1)" "0 \<le> top_bit (of_nat k)"
proof -
  have q: "quotient_of (of_nat k) = (int k, 1)"
    using quotient_of_int [of "int k"] by simp
  have one: "bitlen 1 = 1" using bitlen_pow2 [of 1 0] by (simp add: bitlen_def floorlog_def)
  have b: "two_to (bitlen (int k) - 1) \<le> of_nat k" "of_nat k < two_to (bitlen (int k))"
    using bitlen_two_to [of "int k"] assms by simp_all
  have "\<not> two_to (bitlen (int k)) \<le> of_nat k" using b(2) by simp
  then have t: "top_bit (of_nat k) = bitlen (int k) - 1"
    using b(1) by (simp add: top_bit_def q one)
  show "two_to (top_bit (of_nat k)) \<le> of_nat k" "of_nat k < two_to (top_bit (of_nat k) + 1)"
    using b by (simp_all add: t)
  show "0 \<le> top_bit (of_nat k)" using bitlen_eq_zero_iff [of "int k"] bitlen_nonneg [of "int k"] assms by (simp add: t)
qed

lemma round_even_nat [simp]: "round_even (of_nat m) = m"
  by (simp add: round_even_def)

text \<open>Integers up to 2^53 are not rounded.\<close>

lemma round_rat_exact:
  assumes "\<bar>r\<bar> = of_nat k" "k \<le> 2 ^ 53"
  shows "is_finite (round_rat z r) \<and> value_of (round_rat z r) = r"
proof (cases "k = 0")
  case True
  then show ?thesis using assms(1) by (simp add: round_rat_def)
next
  case False
  let ?t = "top_bit (of_nat k)" and ?e = "top_bit (of_nat k) - 52"
  note t = top_bit_nat [of k]
  have sgn: "r = (if r < 0 then - 1 else 1) * of_nat k" using assms(1) by (auto split: if_splits)
  have r0: "r \<noteq> 0" using assms(1) False by auto
  have e: "max (- 1074) (top_bit \<bar>r\<bar> - 52) = ?e" using t(3) False assms(1) by simp
  have "two_to ?t \<le> two_to 53" using t(1) False assms(2)
    by (metis (no_types, lifting) of_nat_le_iff of_nat_numeral of_nat_power order_trans two_to_nat
        of_nat_0_less_iff bot_nat_0.not_eq_extremum)
  then have t53: "?t \<le> 53" using two_to_less_iff [of 53 ?t] by simp
  show ?thesis
  proof (cases "?t = 53")
    case True
    then have "two_to 53 \<le> of_nat k" using t(1) False by simp
    then have "k = 2 ^ 53" using assms(2) two_to_nat [of 53]
      by (metis le_antisym numeral_power_le_of_nat_cancel_iff of_nat_numeral)
    then have "\<bar>r\<bar> / two_to ?e = of_nat (2 ^ 52)" using assms(1) True by (simp add: two_to_def)
    then have m: "round_even (\<bar>r\<bar> / two_to ?e) = 2 ^ 52" by (simp only: round_even_nat)
    have "round_rat z r = Finite (r < 0) (2 ^ 52) 1"
      unfolding round_rat_def e Let_def m using r0 True by simp
    then show ?thesis
      using sgn \<open>k = 2 ^ 53\<close> by (auto simp: two_to_def)
  next
    case F: False
    then have e52: "?t \<le> 52" using t53 by simp
    let ?m = "k * 2 ^ nat (- ?e)"
    have neg: "two_to (- ?e) = 2 ^ nat (- ?e)" using e52 by (simp add: two_to_def)
    have inv: "two_to ?e * two_to (- ?e) = 1" using two_to_add [of ?e "- ?e"] by (simp add: two_to_def)
    have q: "\<bar>r\<bar> / two_to ?e = of_nat ?m"
      using assms(1) inv neg by (simp add: field_simps)
    have "of_nat ?m < two_to (?t + 1) * two_to (- ?e)" using t(2) False neg by simp
    also have "\<dots> = two_to 53" by (simp add: two_to_add [symmetric])
    finally have "?m < 2 ^ 53"
      by (metis (no_types, lifting) of_nat_less_iff of_nat_numeral of_nat_power two_to_nat of_nat_numeral)
    moreover have val: "of_nat ?m * two_to ?e = (of_nat k :: rat)"
      using inv neg by (simp add: mult.assoc mult.commute)
    moreover have "round_even (\<bar>r\<bar> / two_to ?e) = ?m" unfolding q by (rule round_even_nat)
    ultimately have run: "round_rat z r = Finite (r < 0) ?m ?e"
      unfolding round_rat_def e Let_def using r0 e52 by simp
    then have "value_of (round_rat z r) = (if r < 0 then - 1 else 1) * (of_nat ?m * two_to ?e)"
      by (simp only: value_of.simps mult.assoc)
    then have "value_of (round_rat z r) = r" unfolding val using sgn by simp
    with run show ?thesis by simp
  qed
qed

lemma round_rat_int:
  assumes "\<bar>i\<bar> \<le> 2 ^ 53"
  shows "is_finite (round_rat z (of_int i)) \<and> value_of (round_rat z (of_int i)) = of_int i"
  by (rule round_rat_exact [of _ "nat \<bar>i\<bar>"]) (use assms in simp_all)

text \<open>A double that holds an integer.\<close>

definition holds_int :: "double \<Rightarrow> int \<Rightarrow> bool" where
  "holds_int x i \<longleftrightarrow> is_finite x \<and> value_of x = of_int i"

lemma holds_d_of_int: "\<bar>i\<bar> \<le> 2 ^ 53 \<Longrightarrow> holds_int (d_of_int i) i"
  unfolding holds_int_def d_of_int_def by (rule round_rat_int)

lemma holds_dzero [simp]: "holds_int dzero 0"
  by (simp add: holds_int_def dzero_def)

lemma dadd_finite:
  "is_finite x \<Longrightarrow> is_finite y \<Longrightarrow> dadd x y = round_rat (is_negative x \<and> is_negative y) (value_of x + value_of y)"
  by (cases x; cases y) simp_all

lemma holds_dadd:
  assumes "holds_int x i" "holds_int y j" "\<bar>i + j\<bar> \<le> 2 ^ 53"
  shows "holds_int (dadd x y) (i + j)"
proof -
  have f: "is_finite x" "is_finite y" "value_of x + value_of y = of_int (i + j)"
    using assms(1,2) by (simp_all add: holds_int_def)
  show ?thesis unfolding holds_int_def dadd_finite [OF f(1,2)] f(3) by (rule round_rat_int [OF assms(3)])
qed

lemma holds_dmul:
  assumes "holds_int x i" "holds_int y j" "\<bar>i * j\<bar> \<le> 2 ^ 53"
  shows "holds_int (dmul x y) (i * j)"
proof -
  have f: "is_finite x" "is_finite y" "value_of x * value_of y = of_int (i * j)"
    using assms(1,2) by (simp_all add: holds_int_def)
  then have "dmul x y = round_rat (is_negative x \<noteq> is_negative y) (of_int (i * j))"
    by (cases x; cases y) (simp_all add: dmul_def)
  with round_rat_int [OF assms(3)] show ?thesis by (simp add: holds_int_def)
qed

lemma holds_dneg: "holds_int x i \<Longrightarrow> holds_int (dneg x) (- i)"
  by (cases x) (auto simp: holds_int_def)

lemma holds_dless: "holds_int x i \<Longrightarrow> holds_int y j \<Longrightarrow> dless x y \<longleftrightarrow> i < j"
  by (cases x; cases y) (auto simp: holds_int_def simp del: value_of.simps)

lemma dless_NaN [simp]: "\<not> dless x NaN" "\<not> dless NaN x"
  by (cases x; simp)+

lemma deq_NaN [simp]: "\<not> deq x NaN" "\<not> deq NaN x"
  by (simp_all add: deq_def)

lemma dgeq_NaN [simp]: "\<not> dgeq x NaN" "\<not> dgeq NaN x"
  by (simp_all add: dgeq_def)

end
