(* ===== verification/Trading_Order_Book.thy ===== *)
theory Trading_Order_Book
  imports Order_Levels_Rep Market_Feed
begin

text \<open>
  The book a trading engine keeps of the market
  (\<open>src/src/include/trading_engine/trading_order_book.hpp\<close>,
  \<open>src/src/trading_engine/trading_order_book.cpp\<close>): the levels and rings of \<open>Order_Levels\<close>, an array
  from market order ids to orders, and the best bid and offer. The two array members of pointers
  have no initialiser, so their first contents are parameters of the constructor. What
  \<open>OnMarketUpdate\<close> calls on the trading engine is part of its result.
\<close>

section \<open>State\<close>

record BBO =
  bid_price :: Price
  ask_price :: Price
  bid_qty :: Qty
  ask_qty :: Qty

definition BBO_default :: BBO where
  "BBO_default =
     \<lparr>bid_price = PRICE_INVALID, ask_price = PRICE_INVALID, bid_qty = QTY_INVALID, ask_qty = QTY_INVALID\<rparr>"

definition BBO_ToString :: "BBO \<Rightarrow> string" where
  "BBO_ToString q =
     ''BBO{'' @ QtyToString (bid_qty q) @ ''@'' @ PriceToString (bid_price q) @ ''X'' @
     PriceToString (ask_price q) @ ''@'' @ QtyToString (ask_qty q) @ ''}''"

definition TradingOrder_default :: TradingOrder where
  "TradingOrder_default =
     \<lparr>o_order_id = ORDER_ID_INVALID, o_side = Side_INVALID, o_price = PRICE_INVALID,
      o_qty = QTY_INVALID, o_priority = PRIORITY_INVALID, o_prev_order = None, o_next_order = None\<rparr>"

record TradingOrderBook = "TradingOrder OrderBook" +
  tb_ticker_id :: TickerId
  oid_to_order :: "nat \<Rightarrow> ptr"
  bbo :: BBO

definition TradingOrderBook_new :: "TickerId \<Rightarrow> (nat \<Rightarrow> ptr) \<Rightarrow> (nat \<Rightarrow> ptr) \<Rightarrow> TradingOrderBook" where
  "TradingOrderBook_new ticker_id oid slots =
     \<lparr>orders_at_price_pool = MemoryPool_new ME_MAX_PRICE_LEVELS OrdersAtPrice_default,
      bids_by_price = None, asks_by_price = None, price_orders_at_price = slots,
      order_pool = MemoryPool_new ME_MAX_ORDER_IDS TradingOrder_default,
      tb_ticker_id = ticker_id, oid_to_order = oid, bbo = BBO_default\<rparr>"

section \<open>Orders\<close>

text \<open>\<open>oid_to_order_.at(order_id)\<close>, read and written.\<close>

definition oid_at :: "OrderId \<Rightarrow> TradingOrderBook \<Rightarrow> ptr result" where
  "oid_at oid b = (if unat oid < ME_MAX_ORDER_IDS then Inr (oid_to_order b (unat oid)) else Inl Out_of_range)"

definition set_oid :: "OrderId \<Rightarrow> ptr \<Rightarrow> TradingOrderBook \<Rightarrow> TradingOrderBook result" where
  "set_oid oid p b =
     (if unat oid < ME_MAX_ORDER_IDS then Inr (b\<lparr>oid_to_order := (oid_to_order b)(unat oid := p)\<rparr>)
      else Inl Out_of_range)"

text \<open>The level operations are those of \<open>Order_Levels\<close>; this class has its own copy of their code.\<close>

definition tb_AddOrdersAtPrice :: "ptr \<Rightarrow> TradingOrderBook \<Rightarrow> TradingOrderBook result" where
  "tb_AddOrdersAtPrice = AddOrdersAtPrice"

definition tb_RemoveOrdersAtPrice :: "Side \<Rightarrow> Price \<Rightarrow> TradingOrderBook \<Rightarrow> TradingOrderBook result" where
  "tb_RemoveOrdersAtPrice = RemoveOrdersAtPrice"

definition tb_AddOrder :: "nat \<Rightarrow> TradingOrderBook \<Rightarrow> TradingOrderBook result" where
  "tb_AddOrder x b =
     rbind (order b (Some x)) (\<lambda>o1.
     let lp = GetOrdersAtPrice (o_price o1) b
     in rbind
          (if lp = None then
             rbind (set_order (Some x) (\<lambda>q. q\<lparr>o_prev_order := Some x, o_next_order := Some x\<rparr>) b) (\<lambda>b.
             rbind (Allocate \<lparr>l_side = o_side o1, l_price = o_price o1, l_first_order = Some x,
                              l_prev_entry = None, l_next_entry = None\<rparr> (orders_at_price_pool b)) (\<lambda>(a, P).
             tb_AddOrdersAtPrice (Some a) (b\<lparr>orders_at_price_pool := P\<rparr>)))
           else
             rbind (level b lp) (\<lambda>l.
             let first = l_first_order l
             in rbind (order b first) (\<lambda>f.
                rbind (set_order (o_prev_order f) (\<lambda>q. q\<lparr>o_next_order := Some x\<rparr>) b) (\<lambda>b.
                rbind (order b first) (\<lambda>f.
                rbind (set_order (Some x) (\<lambda>q. q\<lparr>o_prev_order := o_prev_order f\<rparr>) b) (\<lambda>b.
                rbind (set_order (Some x) (\<lambda>q. q\<lparr>o_next_order := first\<rparr>) b) (\<lambda>b.
                set_order first (\<lambda>q. q\<lparr>o_prev_order := Some x\<rparr>) b))))))) (\<lambda>b.
        rbind (order b (Some x)) (\<lambda>o1.
        set_oid (o_order_id o1) (Some x) b)))"

definition tb_RemoveOrder :: "ptr \<Rightarrow> TradingOrderBook \<Rightarrow> TradingOrderBook result" where
  "tb_RemoveOrder p b =
     (case p of
        None \<Rightarrow> Inl Null_deref
      | Some x \<Rightarrow>
          rbind (order b (Some x)) (\<lambda>o1.
          let lp = GetOrdersAtPrice (o_price o1) b
          in rbind
               (if o_prev_order o1 = Some x then tb_RemoveOrdersAtPrice (o_side o1) (o_price o1) b
                else
                  (let before = o_prev_order o1; after = o_next_order o1
                   in rbind (set_order before (\<lambda>q. q\<lparr>o_next_order := after\<rparr>) b) (\<lambda>b.
                      rbind (set_order after (\<lambda>q. q\<lparr>o_prev_order := before\<rparr>) b) (\<lambda>b.
                      rbind (level b lp) (\<lambda>l.
                      rbind (if l_first_order l = Some x
                             then set_level lp (\<lambda>q. q\<lparr>l_first_order := after\<rparr>) b else Inr b) (\<lambda>b.
                      set_order (Some x) (\<lambda>q. q\<lparr>o_prev_order := None, o_next_order := None\<rparr>) b)))))) (\<lambda>b.
             rbind (order b (Some x)) (\<lambda>o1.
             rbind (set_oid (o_order_id o1) None b) (\<lambda>b.
             rbind (Deallocate x (order_pool b)) (\<lambda>P.
             Inr (b\<lparr>order_pool := P\<rparr>)))))))"

lemma tb_AddOrder_link:
  "tb_AddOrder x b =
     rbind (link_order x b) (\<lambda>b. rbind (order b (Some x)) (\<lambda>o1. set_oid (o_order_id o1) (Some x) b))"
  by (simp add: tb_AddOrder_def link_order_def rbind_assoc tb_AddOrdersAtPrice_def)

lemma tb_RemoveOrder_unlink:
  "tb_RemoveOrder (Some x) b =
     rbind (unlink_order x b) (\<lambda>b.
     rbind (order b (Some x)) (\<lambda>o1.
     rbind (set_oid (o_order_id o1) None b) (\<lambda>b.
     rbind (Deallocate x (order_pool b)) (\<lambda>P.
     Inr (b\<lparr>order_pool := P\<rparr>)))))"
  by (simp add: tb_RemoveOrder_def unlink_order_def rbind_assoc tb_RemoveOrdersAtPrice_def)

section \<open>Best bid and offer\<close>

text \<open>The loop over the ring of the best level, and price and quantity of that level.\<close>

partial_function (option) sum_ring :: "TradingOrderBook \<Rightarrow> ptr \<Rightarrow> ptr \<Rightarrow> Qty \<Rightarrow> Qty result option" where
  "sum_ring b first p qty =
     (if p = first then Some (Inr qty)
      else
        (case order b p of
           Inl e \<Rightarrow> Some (Inl e)
         | Inr q \<Rightarrow> sum_ring b first (o_next_order q) (qty + o_qty q)))"

definition level_quote :: "ptr \<Rightarrow> TradingOrderBook \<Rightarrow> (Price \<times> Qty) result" where
  "level_quote best b =
     (if best = None then Inr (PRICE_INVALID, QTY_INVALID)
      else
        rbind (level b best) (\<lambda>l.
        rbind (order b (l_first_order l)) (\<lambda>f.
        rbind (loop_result (sum_ring b (l_first_order l) (o_next_order f) (o_qty f))) (\<lambda>qty.
        Inr (l_price l, qty)))))"

definition UpdateBbo :: "bool \<Rightarrow> bool \<Rightarrow> TradingOrderBook \<Rightarrow> TradingOrderBook result" where
  "UpdateBbo update_bid update_ask b =
     rbind (if update_bid
            then rbind (level_quote (bids_by_price b) b) (\<lambda>(p, q).
                 Inr (b\<lparr>bbo := (bbo b)\<lparr>bid_price := p, bid_qty := q\<rparr>\<rparr>))
            else Inr b) (\<lambda>b.
     if update_ask
     then rbind (level_quote (asks_by_price b) b) (\<lambda>(p, q).
          Inr (b\<lparr>bbo := (bbo b)\<lparr>ask_price := p, ask_qty := q\<rparr>\<rparr>))
     else Inr b)"

section \<open>Market updates\<close>

text \<open>CLEAR: every order and every level back to its pool.\<close>

definition clear_order :: "nat \<Rightarrow> TradingOrderBook \<Rightarrow> TradingOrderBook result" where
  "clear_order i b =
     (case oid_to_order b i of
        None \<Rightarrow> Inr b
      | Some x \<Rightarrow> rbind (Deallocate x (order_pool b)) (\<lambda>P. Inr (b\<lparr>order_pool := P\<rparr>)))"

partial_function (option) clear_ring :: "ptr \<Rightarrow> ptr \<Rightarrow> TradingOrderBook \<Rightarrow> TradingOrderBook result option" where
  "clear_ring best p b =
     (if p = best then Some (Inr b)
      else
        (case dealloc_ptr p (orders_at_price_pool b) of
           Inl e \<Rightarrow> Some (Inl e)
         | Inr P \<Rightarrow>
             (case level (b\<lparr>orders_at_price_pool := P\<rparr>) p of
                Inl e \<Rightarrow> Some (Inl e)
              | Inr l \<Rightarrow> clear_ring best (l_next_entry l) (b\<lparr>orders_at_price_pool := P\<rparr>))))"

definition clear_levels :: "ptr \<Rightarrow> TradingOrderBook \<Rightarrow> TradingOrderBook result" where
  "clear_levels best b =
     (if best = None then Inr b
      else
        rbind (level b best) (\<lambda>l.
        rbind (loop_result (clear_ring best (l_next_entry l) b)) (\<lambda>b.
        rbind (dealloc_ptr best (orders_at_price_pool b)) (\<lambda>P.
        Inr (b\<lparr>orders_at_price_pool := P\<rparr>)))))"

definition clear_book :: "TradingOrderBook \<Rightarrow> TradingOrderBook result" where
  "clear_book b =
     rbind (rfold clear_order [0..<ME_MAX_ORDER_IDS] b) (\<lambda>b.
     let b = b\<lparr>oid_to_order := (\<lambda>_. None)\<rparr>
     in rbind (clear_levels (bids_by_price b) b) (\<lambda>b.
        rbind (clear_levels (asks_by_price b) b) (\<lambda>b.
        Inr (b\<lparr>bids_by_price := None, asks_by_price := None\<rparr>))))"

text \<open>The last statement of \<open>OnMarketUpdate\<close> is a call on the trading engine.\<close>

datatype engine_call = OnTradeUpdate_call | OnOrderBookUpdate_call

definition bid_updated :: "MEMarketUpdate \<Rightarrow> TradingOrderBook \<Rightarrow> bool" where
  "bid_updated u b =
     (case bids_by_price b of
        None \<Rightarrow> False
      | Some a \<Rightarrow> mu_side u = Side_BUY \<and> mu_price u \<ge> l_price (obj (orders_at_price_pool b) a))"

definition ask_updated :: "MEMarketUpdate \<Rightarrow> TradingOrderBook \<Rightarrow> bool" where
  "ask_updated u b =
     (case asks_by_price b of
        None \<Rightarrow> False
      | Some a \<Rightarrow> mu_side u = Side_SELL \<and> mu_price u \<le> l_price (obj (orders_at_price_pool b) a))"

definition apply_update :: "MEMarketUpdate \<Rightarrow> TradingOrderBook \<Rightarrow> TradingOrderBook result" where
  "apply_update u b =
     (case mu_type u of
        MarketUpdateType_ADD \<Rightarrow>
          rbind (Allocate \<lparr>o_order_id = mu_order_id u, o_side = mu_side u, o_price = mu_price u,
                           o_qty = mu_qty u, o_priority = mu_priority u, o_prev_order = None,
                           o_next_order = None\<rparr> (order_pool b)) (\<lambda>(x, P).
          tb_AddOrder x (b\<lparr>order_pool := P\<rparr>))
      | MarketUpdateType_MODIFY \<Rightarrow>
          rbind (oid_at (mu_order_id u) b) (\<lambda>p.
          set_order p (\<lambda>q. q\<lparr>o_qty := mu_qty u\<rparr>) b)
      | MarketUpdateType_CANCEL \<Rightarrow>
          rbind (oid_at (mu_order_id u) b) (\<lambda>p.
          tb_RemoveOrder p b)
      | MarketUpdateType_CLEAR \<Rightarrow> clear_book b
      | _ \<Rightarrow> Inr b)"

definition OnMarketUpdate :: "MEMarketUpdate \<Rightarrow> TradingOrderBook \<Rightarrow> (TradingOrderBook \<times> engine_call) result" where
  "OnMarketUpdate u b =
     (let bid_upd = bid_updated u b;
          ask_upd = ask_updated u b
      in if mu_type u = MarketUpdateType_TRADE then Inr (b, OnTradeUpdate_call)
         else
           rbind (apply_update u b) (\<lambda>b.
           rbind (UpdateBbo bid_upd ask_upd b) (\<lambda>b.
           Inr (b, OnOrderBookUpdate_call))))"

end
