(* ===== verification/Position_Keeper.thy ===== *)
theory Position_Keeper
  imports Double Trading_Order_Book
begin

text \<open>
  Positions and profit (\<open>src/src/include/trading_engine/position_keeper.hpp\<close>). A position is an
  \<open>int32_t\<close>; arithmetic of the code on \<open>int\<close> and \<open>int64_t\<close> that leaves the range is
  \<open>Signed_overflow\<close>, conversions and unsigned arithmetic wrap. \<open>open_vwap_\<close> has no initialiser, so its
  first contents are a parameter. \<open>bbo_\<close> points to the quotes of the book of the instrument given to
  \<open>UpdateBbo\<close>; only \<open>ToString\<close> reads it again.
\<close>

section \<open>Signed arithmetic\<close>

definition int32 :: "int \<Rightarrow> int result" where
  "int32 i = (if - (2 ^ 31) \<le> i \<and> i < 2 ^ 31 then Inr i else Inl Signed_overflow)"

definition int64 :: "int \<Rightarrow> int result" where
  "int64 i = (if - (2 ^ 63) \<le> i \<and> i < 2 ^ 63 then Inr i else Inl Signed_overflow)"

abbreviation price_int :: "Price \<Rightarrow> int" where
  "price_int p \<equiv> sint (bits64 p)"

text \<open>\<open>std::abs\<close> of an \<open>int\<close>.\<close>

definition abs32 :: "int \<Rightarrow> int result" where
  "abs32 i = int32 \<bar>i\<bar>"

section \<open>State\<close>

record PositionInfo =
  position :: "32 word"
  real_pnl :: double
  unreal_pnl :: double
  total_pnl :: double
  open_vwap :: "nat \<Rightarrow> double"
  volume :: Qty
  pi_bbo :: "nat option"

definition PositionInfo_new :: "(nat \<Rightarrow> double) \<Rightarrow> PositionInfo" where
  "PositionInfo_new vwap =
     \<lparr>position = 0, real_pnl = dzero, unreal_pnl = dzero, total_pnl = dzero, open_vwap = vwap,
      volume = 0, pi_bbo = None\<rparr>"

text \<open>\<open>open_vwap_[i]\<close>, read and written, without a bounds check on four elements.\<close>

definition vwap_at :: "nat \<Rightarrow> PositionInfo \<Rightarrow> double result" where
  "vwap_at i P = (if i < 4 then Inr (open_vwap P i) else Inl Out_of_bounds)"

definition set_vwap :: "nat \<Rightarrow> double \<Rightarrow> PositionInfo \<Rightarrow> PositionInfo result" where
  "set_vwap i v P = (if i < 4 then Inr (P\<lparr>open_vwap := (open_vwap P)(i := v)\<rparr>) else Inl Out_of_bounds)"

section \<open>Fills\<close>

definition opp_side :: "Side \<Rightarrow> Side" where
  "opp_side s = (if s = Side_BUY then Side_SELL else Side_BUY)"

text \<open>A fill that opens or increases the position, and one that decreases it.\<close>

definition fill_increases :: "MEClientResponse \<Rightarrow> PositionInfo \<Rightarrow> PositionInfo result" where
  "fill_increases r P =
     (let i = SideToIndex (rs_side r) in
      rbind (int64 (price_int (rs_price r) * uint (rs_exec_qty r))) (\<lambda>pq.
      rbind (vwap_at i P) (\<lambda>v.
      set_vwap i (dadd v (d_of_int pq)) P)))"

definition fill_decreases :: "MEClientResponse \<Rightarrow> int \<Rightarrow> PositionInfo \<Rightarrow> PositionInfo result" where
  "fill_decreases r old_position P =
     (let i = SideToIndex (rs_side r);
          opp = SideToIndex (opp_side (rs_side r));
          pos = sint (position P);
          price = price_int (rs_price r)
      in rbind (vwap_at opp P) (\<lambda>v.
         rbind (abs32 old_position) (\<lambda>abs_old.
         let opp_side_vwap = ddiv v (d_of_int abs_old) in
         rbind (abs32 pos) (\<lambda>abs_pos.
         rbind (set_vwap opp (dmul opp_side_vwap (d_of_int abs_pos)) P) (\<lambda>P.
         let closed = min (sint (rs_exec_qty r)) abs_old;
             P = P\<lparr>real_pnl := dadd (real_pnl P)
                     (dmul (dmul (d_of_int closed) (dsub opp_side_vwap (d_of_int price)))
                        (d_of_int (SideToValue (rs_side r))))\<rparr>
         in rbind (int32 (pos * old_position)) (\<lambda>prod.
            if prod < 0 then
              rbind (int64 (price * abs_pos)) (\<lambda>pq.
              rbind (set_vwap i (d_of_int pq) P) (\<lambda>P.
              set_vwap opp dzero P))
            else Inr P))))))"

text \<open>The unrealised profit at a price, given as a double.\<close>

definition mark_position :: "double \<Rightarrow> PositionInfo \<Rightarrow> PositionInfo result" where
  "mark_position price P =
     (let pos = sint (position P) in
      rbind (abs32 pos) (\<lambda>abs_pos.
      if pos > 0 then
        rbind (vwap_at (SideToIndex Side_BUY) P) (\<lambda>v.
        Inr (P\<lparr>unreal_pnl := dmul (dsub price (ddiv v (d_of_int abs_pos))) (d_of_int abs_pos)\<rparr>))
      else
        rbind (vwap_at (SideToIndex Side_SELL) P) (\<lambda>v.
        Inr (P\<lparr>unreal_pnl := dmul (dsub (ddiv v (d_of_int abs_pos)) price) (d_of_int abs_pos)\<rparr>))))"

text \<open>After a fill: a flat position has no cost, any other is marked at the price of the fill.\<close>

definition settle_fill :: "MEClientResponse \<Rightarrow> PositionInfo \<Rightarrow> PositionInfo result" where
  "settle_fill r P =
     (if position P = 0 then
        rbind (set_vwap (SideToIndex Side_SELL) dzero P) (\<lambda>P.
        rbind (set_vwap (SideToIndex Side_BUY) dzero P) (\<lambda>P.
        Inr (P\<lparr>unreal_pnl := dzero\<rparr>)))
      else mark_position (d_of_int (price_int (rs_price r))) P)"

definition AddFill :: "MEClientResponse \<Rightarrow> PositionInfo \<Rightarrow> PositionInfo result" where
  "AddFill r P =
     (let old_position = sint (position P);
          side_value = SideToValue (rs_side r);
          P = P\<lparr>position := position P + rs_exec_qty r * of_int side_value,
                volume := volume P + rs_exec_qty r\<rparr>
      in rbind (int32 (old_position * side_value)) (\<lambda>direction.
         rbind (if direction \<ge> 0 then fill_increases r P else fill_decreases r old_position P) (\<lambda>P.
         rbind (settle_fill r P) (\<lambda>P.
         Inr (P\<lparr>total_pnl := dadd (unreal_pnl P) (real_pnl P)\<rparr>)))))"

section \<open>Quotes\<close>

definition half :: double where
  "half = Finite False (2 ^ 52) (- 53)"

definition PositionInfo_UpdateBbo :: "nat \<Rightarrow> BBO \<Rightarrow> PositionInfo \<Rightarrow> PositionInfo result" where
  "PositionInfo_UpdateBbo t q P =
     (let P = P\<lparr>pi_bbo := Some t\<rparr> in
      if position P \<noteq> 0 \<and> bid_price q \<noteq> PRICE_INVALID \<and> ask_price q \<noteq> PRICE_INVALID then
        rbind (int64 (price_int (bid_price q) + price_int (ask_price q))) (\<lambda>sum.
        rbind (mark_position (dmul (d_of_int sum) half) P) (\<lambda>P.
        Inr (P\<lparr>total_pnl := dadd (unreal_pnl P) (real_pnl P)\<rparr>)))
      else Inr P)"

section \<open>All instruments\<close>

type_synonym PositionKeeper = "nat \<Rightarrow> PositionInfo"

text \<open>\<open>ticker_position_.at(ticker_id)\<close>.\<close>

definition at_ticker :: "TickerId \<Rightarrow> (PositionInfo \<Rightarrow> PositionInfo result) \<Rightarrow> PositionKeeper \<Rightarrow> PositionKeeper result" where
  "at_ticker t f K =
     (if unat t < ME_MAX_TICKERS then rbind (f (K (unat t))) (\<lambda>P. Inr (K(unat t := P))) else Inl Out_of_range)"

definition PositionKeeper_AddFill :: "MEClientResponse \<Rightarrow> PositionKeeper \<Rightarrow> PositionKeeper result" where
  "PositionKeeper_AddFill r = at_ticker (rs_ticker_id r) (AddFill r)"

definition PositionKeeper_UpdateBbo :: "TickerId \<Rightarrow> BBO \<Rightarrow> PositionKeeper \<Rightarrow> PositionKeeper result" where
  "PositionKeeper_UpdateBbo t q = at_ticker t (PositionInfo_UpdateBbo (unat t) q)"

definition GetPositionInfo :: "TickerId \<Rightarrow> PositionKeeper \<Rightarrow> PositionInfo result" where
  "GetPositionInfo t K = (if unat t < ME_MAX_TICKERS then Inr (K (unat t)) else Inl Out_of_range)"

section \<open>What a fill does\<close>

lemma int32_Inr [result_simps]: "int32 i = Inr j \<longleftrightarrow> j = i \<and> - (2 ^ 31) \<le> i \<and> i < 2 ^ 31"
  by (auto simp: int32_def)

lemma set_vwap_Inr [result_simps]: "set_vwap i v P = Inr Q \<longleftrightarrow> i < 4 \<and> Q = P\<lparr>open_vwap := (open_vwap P)(i := v)\<rparr>"
  by (auto simp: set_vwap_def)

lemma set_vwap_same:
  "set_vwap i v P = Inr Q \<Longrightarrow> position Q = position P \<and> volume Q = volume P \<and> real_pnl Q = real_pnl P \<and>
    unreal_pnl Q = unreal_pnl P \<and> total_pnl Q = total_pnl P"
  by (auto simp: set_vwap_def split: if_splits)

lemma fill_increases_same:
  "fill_increases r P = Inr Q \<Longrightarrow> position Q = position P \<and> volume Q = volume P \<and> real_pnl Q = real_pnl P"
  by (auto simp: fill_increases_def elim!: rbind_eq_InrE dest: set_vwap_same)

lemma fill_decreases_same:
  "fill_decreases r i P = Inr Q \<Longrightarrow> position Q = position P \<and> volume Q = volume P"
  by (auto simp: fill_decreases_def elim!: rbind_eq_InrE dest!: set_vwap_same split: if_splits)

lemma mark_position_same:
  "mark_position d P = Inr Q \<Longrightarrow> position Q = position P \<and> volume Q = volume P \<and> real_pnl Q = real_pnl P \<and>
    open_vwap Q = open_vwap P"
  by (auto simp: mark_position_def elim!: rbind_eq_InrE split: if_splits)

lemma sum_list_nonneg_int: "(\<And>x. x \<in> set xs \<Longrightarrow> 0 \<le> f x) \<Longrightarrow> (0 :: int) \<le> sum_list (map f xs)"
  by (induction xs) simp_all

lemma vwap_simps [simp]:
  "i < 4 \<Longrightarrow> vwap_at i P = Inr (open_vwap P i)"
  "i < 4 \<Longrightarrow> set_vwap i v P = Inr (P\<lparr>open_vwap := (open_vwap P)(i := v)\<rparr>)"
  by (simp_all add: vwap_at_def set_vwap_def)

lemma abs32_simp [simp]: "\<bar>i\<bar> < 2 ^ 31 \<Longrightarrow> abs32 i = Inr \<bar>i\<bar>"
  by (simp add: abs32_def int32_def)

lemma mark_position_ok:
  assumes "\<bar>sint (position P)\<bar> < 2 ^ 31"
  obtains Q where "mark_position d P = Inr Q" "position Q = position P" "volume Q = volume P"
    "open_vwap Q = open_vwap P" "real_pnl Q = real_pnl P"
proof -
  have "\<exists>Q. mark_position d P = Inr Q"
    using assms by (cases "0 < sint (position P)") (simp_all add: mark_position_def)
  then show thesis using that mark_position_same by blast
qed

text \<open>An opening fill.\<close>

lemma AddFill_opening:
  assumes s: "rs_side r = Side_BUY \<or> rs_side r = Side_SELL"
    and range: "\<bar>sint (position P)\<bar> < 2 ^ 31" "\<bar>sint (position P + rs_exec_qty r * of_int (SideToValue (rs_side r)))\<bar> < 2 ^ 31"
    and dir: "0 \<le> sint (position P) * SideToValue (rs_side r)"
    and pq: "\<bar>price_int (rs_price r) * uint (rs_exec_qty r)\<bar> \<le> 2 ^ 53"
    and nz: "position P + rs_exec_qty r * of_int (SideToValue (rs_side r)) \<noteq> 0"
  obtains Q where "AddFill r P = Inr Q" "position Q = position P + rs_exec_qty r * of_int (SideToValue (rs_side r))"
    "volume Q = volume P + rs_exec_qty r"
    "open_vwap Q = (open_vwap P)(SideToIndex (rs_side r) :=
      dadd (open_vwap P (SideToIndex (rs_side r))) (d_of_int (price_int (rs_price r) * uint (rs_exec_qty r))))"
    "real_pnl Q = real_pnl P"
proof -
  let ?v = "SideToValue (rs_side r)" and ?i = "SideToIndex (rs_side r)"
  let ?pq = "price_int (rs_price r) * uint (rs_exec_qty r)"
  let ?P = "P\<lparr>position := position P + rs_exec_qty r * of_int ?v, volume := volume P + rs_exec_qty r\<rparr>"
  let ?P1 = "?P\<lparr>open_vwap := (open_vwap P)(?i := dadd (open_vwap P ?i) (d_of_int ?pq))\<rparr>"
  have i: "?i < 4" using s by auto
  have dir': "int32 (sint (position P) * ?v) = Inr (sint (position P) * ?v)"
    using s range(1) by (auto simp: int32_def abs_less_iff)
  have "int64 ?pq = Inr ?pq" using pq by (simp add: int64_def abs_le_iff)
  then have inc: "fill_increases r ?P = Inr ?P1" using i by (simp add: fill_increases_def)
  obtain Q where Q: "mark_position (d_of_int (price_int (rs_price r))) ?P1 = Inr Q"
    "position Q = position ?P1" "volume Q = volume ?P1" "open_vwap Q = open_vwap ?P1" "real_pnl Q = real_pnl ?P1"
    by (rule mark_position_ok [of ?P1]) (use range(2) in simp_all)
  have "AddFill r P = Inr (Q\<lparr>total_pnl := dadd (unreal_pnl Q) (real_pnl Q)\<rparr>)"
    using dir dir' inc Q(1) nz by (simp add: AddFill_def settle_fill_def)
  then show thesis by (rule that) (simp_all add: Q)
qed

section \<open>Properties\<close>

definition fill_value :: "MEClientResponse \<Rightarrow> int" where
  "fill_value r = price_int (rs_price r) * uint (rs_exec_qty r)"

lemma sint_small: "0 \<le> i \<Longrightarrow> i < 2 ^ 31 \<Longrightarrow> sint (of_int i :: 32 word) = i"
  "0 \<le> i \<Longrightarrow> i < 2 ^ 31 \<Longrightarrow> sint (of_int (- i) :: 32 word) = - i"
  by (simp_all add: signed_of_int signed_take_bit_int_eq_self del: of_int_minus)

lemma opening_step:
  fixes P :: PositionInfo
  assumes s: "rs_side r = s" "s = Side_BUY \<or> s = Side_SELL"
    and pos: "position P = of_int (SideToValue s * q)" "0 \<le> q" "q + uint (rs_exec_qty r) < 2 ^ 31"
    and vw: "holds_int (open_vwap P (SideToIndex s)) v" "\<bar>fill_value r\<bar> \<le> 2 ^ 53" "\<bar>v + fill_value r\<bar> \<le> 2 ^ 53"
    and nz: "0 < rs_exec_qty r"
  obtains Q where "AddFill r P = Inr Q" "position Q = of_int (SideToValue s * (q + uint (rs_exec_qty r)))"
    "volume Q = volume P + rs_exec_qty r" "holds_int (open_vwap Q (SideToIndex s)) (v + fill_value r)"
    "real_pnl Q = real_pnl P"
proof -
  let ?e = "uint (rs_exec_qty r)" and ?v = "SideToValue s"
  have e: "0 < ?e" using nz by (simp add: word_less_def)
  have new: "position P + rs_exec_qty r * of_int ?v = of_int (?v * (q + ?e))"
    by (simp add: pos(1) algebra_simps)
  have sv: "?v = 1 \<or> ?v = - 1" using s(2) by auto
  have sp: "sint (position P) = ?v * q" "sint (of_int (?v * (q + ?e)) :: 32 word) = ?v * (q + ?e)"
    using sv sint_small [of q] sint_small [of "q + ?e"] pos(2,3) e unfolding pos(1) by auto
  have nz': "(of_int (?v * (q + ?e)) :: 32 word) \<noteq> 0"
  proof
    assume "(of_int (?v * (q + ?e)) :: 32 word) = 0"
    then have "sint (of_int (?v * (q + ?e)) :: 32 word) = 0" by simp
    with sp(2) sv pos(2) e show False by auto
  qed
  obtain Q where Q: "AddFill r P = Inr Q" "position Q = position P + rs_exec_qty r * of_int ?v"
    "volume Q = volume P + rs_exec_qty r"
    "open_vwap Q = (open_vwap P)(SideToIndex s := dadd (open_vwap P (SideToIndex s)) (d_of_int (fill_value r)))"
    "real_pnl Q = real_pnl P"
    by (rule AddFill_opening [of r P])
      (use s sp sv pos e vw(2) nz' in \<open>auto simp: new fill_value_def abs_mult\<close>)
  have h: "holds_int (open_vwap Q (SideToIndex s)) (v + fill_value r)"
    using holds_dadd [OF vw(1) holds_d_of_int [OF vw(2)] vw(3)] by (simp add: Q(4))
  show thesis by (rule that [OF Q(1) _ Q(3) h Q(5)]) (simp only: Q(2) new)
qed

lemma opening_fills:
  fixes P :: PositionInfo
  assumes "s = Side_BUY \<or> s = Side_SELL" "\<forall>r\<in>set rs. rs_side r = s \<and> 0 < rs_exec_qty r"
    and "position P = of_int (SideToValue s * q)" "0 \<le> q" "q + (\<Sum>r\<leftarrow>rs. uint (rs_exec_qty r)) < 2 ^ 31"
    and "holds_int (open_vwap P (SideToIndex s)) v" "\<bar>v\<bar> + (\<Sum>r\<leftarrow>rs. \<bar>fill_value r\<bar>) \<le> 2 ^ 53"
  shows "\<exists>Q. rfold AddFill rs P = Inr Q \<and> position Q = of_int (SideToValue s * (q + (\<Sum>r\<leftarrow>rs. uint (rs_exec_qty r)))) \<and>
    holds_int (open_vwap Q (SideToIndex s)) (v + (\<Sum>r\<leftarrow>rs. fill_value r)) \<and> real_pnl Q = real_pnl P"
  using assms
proof (induction rs arbitrary: P q v)
  case (Cons r rs)
  let ?e = "uint (rs_exec_qty r)"
  have rest: "0 \<le> (\<Sum>r\<leftarrow>rs. uint (rs_exec_qty r))" "0 \<le> (\<Sum>r\<leftarrow>rs. \<bar>fill_value r\<bar>)"
    by (rule sum_list_nonneg_int, simp)+
  have bounds: "q + ?e < 2 ^ 31" "\<bar>fill_value r\<bar> \<le> 2 ^ 53" "\<bar>v + fill_value r\<bar> \<le> 2 ^ 53"
    "\<bar>v + fill_value r\<bar> + (\<Sum>r\<leftarrow>rs. \<bar>fill_value r\<bar>) \<le> 2 ^ 53"
    using Cons.prems(5,7) rest by simp_all
  obtain Q where Q: "AddFill r P = Inr Q" "position Q = of_int (SideToValue s * (q + ?e))"
    "holds_int (open_vwap Q (SideToIndex s)) (v + fill_value r)" "real_pnl Q = real_pnl P"
    by (rule opening_step [OF _ Cons.prems(1,3,4) bounds(1) Cons.prems(6) bounds(2,3)])
      (use Cons.prems(2) in auto)
  have q: "0 \<le> q + ?e" "q + ?e + (\<Sum>r\<leftarrow>rs. uint (rs_exec_qty r)) < 2 ^ 31" using Cons.prems(4,5) by simp_all
  have "\<forall>r\<in>set rs. rs_side r = s \<and> 0 < rs_exec_qty r" using Cons.prems(2) by simp
  from Cons.IH [OF Cons.prems(1) this Q(2) q Q(3) bounds(4)] show ?case
    using Q(1,4) by (simp add: add.assoc)
qed simp

text \<open>
  C33: From a flat position with a zero cost, fills of one side add up exactly: the position is the sum
  of the quantities and the cost is the sum of price times quantity without any rounding, as long as
  the quantities fit \<open>int32_t\<close> and the amounts 53 bits; nothing is realised.
\<close>

theorem opening_fills_exact:
  assumes "s \<in> {Side_BUY, Side_SELL}" "\<forall>r\<in>set rs. rs_side r = s \<and> 0 < rs_exec_qty r"
    and "(\<Sum>r\<leftarrow>rs. uint (rs_exec_qty r)) < 2 ^ 31" "(\<Sum>r\<leftarrow>rs. \<bar>fill_value r\<bar>) \<le> 2 ^ 53"
    and "position P = 0" "holds_int (open_vwap P (SideToIndex s)) 0"
  shows "\<exists>Q. rfold AddFill rs P = Inr Q \<and> sint (position Q) = SideToValue s * (\<Sum>r\<leftarrow>rs. uint (rs_exec_qty r)) \<and>
    holds_int (open_vwap Q (SideToIndex s)) (\<Sum>r\<leftarrow>rs. fill_value r) \<and> real_pnl Q = real_pnl P"
proof -
  let ?n = "\<Sum>r\<leftarrow>rs. uint (rs_exec_qty r)"
  have s: "s = Side_BUY \<or> s = Side_SELL" using assms(1) by simp
  have "position P = of_int (SideToValue s * 0)" "0 \<le> (0 :: int)" "0 + ?n < 2 ^ 31" "\<bar>0\<bar> + (\<Sum>r\<leftarrow>rs. \<bar>fill_value r\<bar>) \<le> 2 ^ 53"
    using assms(3-5) by simp_all
  from opening_fills [OF s assms(2) this(1-3) assms(6) this(4)] obtain Q where
    Q: "rfold AddFill rs P = Inr Q" "position Q = of_int (SideToValue s * ?n)"
      "holds_int (open_vwap Q (SideToIndex s)) (\<Sum>r\<leftarrow>rs. fill_value r)" "real_pnl Q = real_pnl P"
    by auto
  have "0 \<le> ?n" by (rule sum_list_nonneg_int) simp
  then have "sint (position Q) = SideToValue s * ?n"
    using s sint_small [of ?n] assms(3) unfolding Q(2) by auto
  with Q show ?thesis by blast
qed

definition sample_fill :: "Side \<Rightarrow> Qty \<Rightarrow> MEClientResponse" where
  "sample_fill s n = MEClientResponse_default\<lparr>rs_type := ClientResponseType_FILLED, rs_ticker_id := 2,
     rs_side := s, rs_price := I64 100, rs_exec_qty := n, rs_leaves_qty := 0\<rparr>"

theorem opening_fills_exact_witness:
  "\<exists>Q. rfold AddFill [sample_fill Side_SELL 7, sample_fill Side_SELL 3] (PositionInfo_new (\<lambda>_. dzero)) = Inr Q \<and>
    sint (position Q) = - 10 \<and> holds_int (open_vwap Q 0) 1000 \<and> real_pnl Q = dzero"
  using opening_fills_exact [of Side_SELL "[sample_fill Side_SELL 7, sample_fill Side_SELL 3]" "PositionInfo_new (\<lambda>_. dzero)"]
  by (simp add: sample_fill_def PositionInfo_new_def fill_value_def)

text \<open>
  A fill that flips a large position is undefined: \<open>position_ * old_position\<close> is a product of two
  \<open>int\<close>s and overflows from about 46341 on each side.
\<close>

theorem flip_overflows:
  assumes "rs_side r = Side_SELL" "0 < sint (position P)" "uint (rs_exec_qty r) < 2 ^ 31"
    and "sint (position P) * (uint (rs_exec_qty r) - sint (position P)) > 2 ^ 31"
  shows "AddFill r P = Inl Signed_overflow"
proof -
  let ?old = "sint (position P)" and ?e = "uint (rs_exec_qty r)"
  let ?P = "P\<lparr>position := position P - rs_exec_qty r, volume := volume P + rs_exec_qty r\<rparr>"
  have old: "?old < 2 ^ 31" using sint_lt [of "position P"] by simp
  have gt: "?old < ?e"
  proof (rule ccontr)
    assume "\<not> ?old < ?e"
    then have "?old * (?e - ?old) \<le> 0" using assms(2) by (simp add: mult_nonneg_nonpos)
    with assms(4) show False by simp
  qed
  have "position P - rs_exec_qty r = of_int (- (?e - ?old))" by simp
  then have new: "sint (position P - rs_exec_qty r) = - (?e - ?old)"
    using sint_small(2) [of "?e - ?old"] gt old assms(2,3) by simp
  have dir: "int32 (?old * SideToValue (rs_side r)) = Inr (- ?old)" using assms(1,2) old by (simp add: int32_def)
  have prod: "int32 (- (?e - ?old) * ?old) = Inl Signed_overflow"
    using assms(4) by (simp add: int32_def algebra_simps)
  have "fill_decreases r ?old ?P = Inl Signed_overflow"
    using new prod old assms(1-3) gt by (simp add: fill_decreases_def opp_side_def)
  then show ?thesis using dir assms(1,2) by (simp add: AddFill_def)
qed

theorem flip_overflows_witness:
  "AddFill (sample_fill Side_SELL 100000) ((PositionInfo_new (\<lambda>_. dzero))\<lparr>position := 50000\<rparr>) = Inl Signed_overflow"
  by (rule flip_overflows) (simp_all add: sample_fill_def)

end
