(* ===== verification/Risk_Manager.thy ===== *)
theory Risk_Manager
  imports Position_Keeper
begin

text \<open>
  The configuration of a trading engine (\<open>RiskCfg\<close> and \<open>TradeEngineCfg\<close> of
  \<open>src/src/include/common/types.hpp\<close>) and the check before a new order
  (\<open>src/src/include/trading_engine/risk_manager.hpp\<close>). The risk manager points into the position keeper,
  which is an argument here.
\<close>

section \<open>Configuration\<close>

record RiskCfg =
  max_order_size :: Qty
  max_position :: Qty
  max_loss :: double

record TradeEngineCfg =
  clip :: Qty
  threshold :: double
  risk_cfg :: RiskCfg

definition RiskCfg_default :: RiskCfg where
  "RiskCfg_default = \<lparr>max_order_size = 0, max_position = 0, max_loss = dzero\<rparr>"

definition TradeEngineCfg_default :: TradeEngineCfg where
  "TradeEngineCfg_default = \<lparr>clip = 0, threshold = dzero, risk_cfg = RiskCfg_default\<rparr>"

type_synonym TradeEngineCfgMap = "nat \<Rightarrow> TradeEngineCfg"

section \<open>The check\<close>

datatype RiskCheckResult =
  Risk_INVALID | Risk_ORDER_TOO_LARGE | Risk_POSITION_TOO_LARGE | Risk_LOSS_TOO_LARGE | Risk_ALLOWED

fun RiskCheckResultToString :: "RiskCheckResult \<Rightarrow> string" where
  "RiskCheckResultToString Risk_INVALID = ''INVALID''"
| "RiskCheckResultToString Risk_ORDER_TOO_LARGE = ''ORDER_TOO_LARGE''"
| "RiskCheckResultToString Risk_POSITION_TOO_LARGE = ''POSITION_TOO_LARGE''"
| "RiskCheckResultToString Risk_LOSS_TOO_LARGE = ''LOSS_TOO_LARGE''"
| "RiskCheckResultToString Risk_ALLOWED = ''ALLOWED''"

definition RiskInfo_CheckPreTradeRisk :: "PositionInfo \<Rightarrow> RiskCfg \<Rightarrow> Side \<Rightarrow> Qty \<Rightarrow> RiskCheckResult result" where
  "RiskInfo_CheckPreTradeRisk info cfg side qty =
     (if qty > max_order_size cfg then Inr Risk_ORDER_TOO_LARGE
      else
        rbind (int32 (SideToValue side * sint qty)) (\<lambda>delta.
        rbind (int32 (sint (position info) + delta)) (\<lambda>pos.
        rbind (abs32 pos) (\<lambda>abs_pos.
        Inr (if abs_pos > sint (max_position cfg) then Risk_POSITION_TOO_LARGE
             else if dless (total_pnl info) (max_loss cfg) then Risk_LOSS_TOO_LARGE
             else Risk_ALLOWED)))))"

definition CheckPreTradeRisk ::
  "TradeEngineCfgMap \<Rightarrow> PositionKeeper \<Rightarrow> TickerId \<Rightarrow> Side \<Rightarrow> Qty \<Rightarrow> RiskCheckResult result" where
  "CheckPreTradeRisk cfg K ticker_id side qty =
     (if unat ticker_id < ME_MAX_TICKERS
      then RiskInfo_CheckPreTradeRisk (K (unat ticker_id)) (risk_cfg (cfg (unat ticker_id))) side qty
      else Inl Out_of_range)"

section \<open>Facts\<close>

lemma CheckPreTradeRisk_allowed:
  assumes "CheckPreTradeRisk cfg K t side qty = Inr Risk_ALLOWED"
  shows "unat t < ME_MAX_TICKERS" "qty \<le> max_order_size (risk_cfg (cfg (unat t)))"
    "\<bar>sint (position (K (unat t))) + SideToValue side * sint qty\<bar> \<le> sint (max_position (risk_cfg (cfg (unat t))))"
    "\<not> dless (total_pnl (K (unat t))) (max_loss (risk_cfg (cfg (unat t))))"
  using assms
  by (auto simp: CheckPreTradeRisk_def RiskInfo_CheckPreTradeRisk_def abs32_def result_simps not_less split: if_splits)

lemma NaN_ops [simp]:
  "dadd NaN x = NaN" "dadd x NaN = NaN" "dmul NaN x = NaN" "dmul x NaN = NaN" "ddiv NaN x = NaN"
  "dsub NaN x = NaN" "dsub x NaN = NaN"
  by (cases x; simp add: dmul_def ddiv_def dsub_def)+

section \<open>Property\<close>

text \<open>
  The cost array \<open>open_vwap_\<close> is never initialised. If the element of the side holds a NaN when the
  first fill arrives, the profit becomes NaN, and no loss limit stops an order any more: a comparison
  with NaN is false.
\<close>

theorem uninitialised_cost_disables_loss_limit:
  assumes "AddFill r P = Inr Q" "rs_side r = Side_BUY" "0 \<le> sint (position P)" "0 < sint (position Q)"
    and "open_vwap P (SideToIndex Side_BUY) = NaN"
  shows "total_pnl Q = NaN \<and> RiskInfo_CheckPreTradeRisk Q cfg side qty \<noteq> Inr Risk_LOSS_TOO_LARGE"
proof -
  let ?P = "P\<lparr>position := position P + rs_exec_qty r, volume := volume P + rs_exec_qty r\<rparr>"
  have int: "int32 (sint (position P) * SideToValue (rs_side r)) = Inr (sint (position P))"
    using assms(2) sint_lt [of "position P"] assms(3) by (simp add: int32_def)
  obtain V W where V: "fill_increases r ?P = Inr V" and W: "settle_fill r V = Inr W"
    and Q: "Q = W\<lparr>total_pnl := dadd (unreal_pnl W) (real_pnl W)\<rparr>"
    using assms(1-3) int by (auto simp: AddFill_def elim!: rbind_eq_InrE)
  have vw: "open_vwap V 2 = NaN" and pos: "position V = position ?P"
    using V assms(2,5) by (auto simp: fill_increases_def elim!: rbind_eq_InrE)
  have "position V \<noteq> 0"
  proof
    assume "position V = 0"
    with W have "position W = 0" by (auto simp: settle_fill_def elim!: rbind_eq_InrE)
    with Q assms(4) show False by simp
  qed
  then have mark: "mark_position (d_of_int (price_int (rs_price r))) V = Inr W" using W by (simp add: settle_fill_def)
  then have "position W = position V" using mark_position_same by blast
  then have "0 < sint (position V)" using Q assms(4) by simp
  then have "unreal_pnl W = NaN" using mark vw by (auto simp: mark_position_def elim!: rbind_eq_InrE)
  then have nan: "total_pnl Q = NaN" by (simp add: Q)
  then show ?thesis
    by (auto simp: RiskInfo_CheckPreTradeRisk_def elim!: rbind_eq_InrE split: if_splits)
qed

theorem uninitialised_cost_disables_loss_limit_witness:
  "\<exists>Q. AddFill (sample_fill Side_BUY 10) (PositionInfo_new (\<lambda>_. NaN)) = Inr Q \<and> total_pnl Q = NaN \<and>
    RiskInfo_CheckPreTradeRisk Q RiskCfg_default Side_BUY 0 \<noteq> Inr Risk_LOSS_TOO_LARGE"
proof -
  let ?r = "sample_fill Side_BUY 10" and ?P = "PositionInfo_new (\<lambda>_. NaN)"
  obtain Q where Q: "AddFill ?r ?P = Inr Q" "position Q = position ?P + rs_exec_qty ?r * of_int (SideToValue (rs_side ?r))"
    by (rule AddFill_opening [of ?r ?P]) (simp_all add: sample_fill_def PositionInfo_new_def)
  have "0 < sint (position Q)" unfolding Q(2) by (simp add: sample_fill_def PositionInfo_new_def)
  from uninitialised_cost_disables_loss_limit [OF Q(1) _ _ this] Q(1) show ?thesis
    by (simp add: sample_fill_def PositionInfo_new_def)
qed

end
