(* ===== verification/Order_Manager.thy ===== *)
theory Order_Manager
  imports Risk_Manager Lock_Free_Queue Messages
begin

text \<open>
  The order manager of a trading engine (\<open>src/src/include/trading_engine/order_manager.hpp\<close>,
  \<open>src/src/trading_engine/order_manager.cpp\<close>, \<open>src/src/include/trading_engine/om_order.hpp\<close>): one order
  per instrument and side. Of the engine it uses the client id and \<open>SendClientRequest\<close>, which writes to
  the queue of the gateway. A pointer to an order is its place in \<open>ticker_side_order_\<close>.
\<close>

section \<open>State\<close>

datatype OMOrderState = OM_INVALID | OM_PENDING_NEW | OM_LIVE | OM_PENDING_CANCEL | OM_DEAD

fun OMOrderStateToString :: "OMOrderState \<Rightarrow> string" where
  "OMOrderStateToString OM_PENDING_NEW = ''PENDING_NEW''"
| "OMOrderStateToString OM_LIVE = ''LIVE''"
| "OMOrderStateToString OM_PENDING_CANCEL = ''PENDING_CANCEL''"
| "OMOrderStateToString OM_DEAD = ''DEAD''"
| "OMOrderStateToString OM_INVALID = ''INVALID''"

record OMOrder =
  om_ticker_id :: TickerId
  om_order_id :: OrderId
  om_side :: Side
  om_price :: Price
  om_qty :: Qty
  om_state :: OMOrderState

definition OMOrder_default :: OMOrder where
  "OMOrder_default =
     \<lparr>om_ticker_id = TICKER_ID_INVALID, om_order_id = ORDER_ID_INVALID, om_side = Side_INVALID,
      om_price = PRICE_INVALID, om_qty = QTY_INVALID, om_state = OM_INVALID\<rparr>"

definition OMOrder_ToString :: "OMOrder \<Rightarrow> string" where
  "OMOrder_ToString q =
     ''OMOrder'' @ ''['' @
     ''tid:'' @ TickerIdToString (om_ticker_id q) @ '' '' @
     ''oid:'' @ OrderIdToString (om_order_id q) @ '' '' @
     ''side:'' @ SideToString (om_side q) @ '' '' @
     ''price:'' @ PriceToString (om_price q) @ '' '' @
     ''qty:'' @ QtyToString (om_qty q) @ '' '' @
     ''state:'' @ OMOrderStateToString (om_state q) @ '']''"

record OrderManager =
  om_client_id :: ClientId
  outgoing_ogw_requests :: "MEClientRequest LockFreeQueue"
  ticker_side_order :: "nat \<Rightarrow> nat \<Rightarrow> OMOrder"
  next_order_id :: OrderId

definition OrderManager_new :: "ClientId \<Rightarrow> MEClientRequest LockFreeQueue \<Rightarrow> OrderManager" where
  "OrderManager_new client_id requests =
     \<lparr>om_client_id = client_id, outgoing_ogw_requests = requests,
      ticker_side_order = (\<lambda>_ _. OMOrder_default), next_order_id = 1\<rparr>"

definition SendClientRequest :: "MEClientRequest \<Rightarrow> OrderManager \<Rightarrow> OrderManager" where
  "SendClientRequest r M = M\<lparr>outgoing_ogw_requests := Enqueue r (outgoing_ogw_requests M)\<rparr>"

text \<open>\<open>&ticker_side_order_.at(ticker_id).at(SideToIndex(side))\<close>.\<close>

type_synonym om_place = "nat \<times> nat"

definition order_place :: "TickerId \<Rightarrow> Side \<Rightarrow> om_place result" where
  "order_place t side =
     (if unat t < ME_MAX_TICKERS \<and> SideToIndex side < 4 then Inr (unat t, SideToIndex side) else Inl Out_of_range)"

definition om_order :: "om_place \<Rightarrow> OrderManager \<Rightarrow> OMOrder" where
  "om_order p M = ticker_side_order M (fst p) (snd p)"

definition set_om_order :: "om_place \<Rightarrow> OMOrder \<Rightarrow> OrderManager \<Rightarrow> OrderManager" where
  "set_om_order p q M =
     M\<lparr>ticker_side_order := (ticker_side_order M)(fst p := (ticker_side_order M (fst p))(snd p := q))\<rparr>"

section \<open>Operations\<close>

definition NewOrder :: "om_place \<Rightarrow> TickerId \<Rightarrow> Price \<Rightarrow> Side \<Rightarrow> Qty \<Rightarrow> OrderManager \<Rightarrow> OrderManager" where
  "NewOrder p ticker_id price side qty M =
     (let new_request =
            \<lparr>rq_type = ClientRequestType_NEW, rq_client_id = om_client_id M, rq_ticker_id = ticker_id,
             rq_order_id = next_order_id M, rq_side = side, rq_price = price, rq_qty = qty\<rparr>;
          M = SendClientRequest new_request M;
          M = set_om_order p
                \<lparr>om_ticker_id = ticker_id, om_order_id = next_order_id M, om_side = side,
                 om_price = price, om_qty = qty, om_state = OM_PENDING_NEW\<rparr> M
      in M\<lparr>next_order_id := next_order_id M + 1\<rparr>)"

definition CancelOrder :: "om_place \<Rightarrow> OrderManager \<Rightarrow> OrderManager" where
  "CancelOrder p M =
     (let order = om_order p M;
          cancel_request =
            \<lparr>rq_type = ClientRequestType_CANCEL, rq_client_id = om_client_id M,
             rq_ticker_id = om_ticker_id order, rq_order_id = om_order_id order, rq_side = om_side order,
             rq_price = om_price order, rq_qty = om_qty order\<rparr>
      in set_om_order p (order\<lparr>om_state := OM_PENDING_CANCEL\<rparr>) (SendClientRequest cancel_request M))"

definition MoveOrder ::
  "TradeEngineCfgMap \<Rightarrow> PositionKeeper \<Rightarrow> om_place \<Rightarrow> TickerId \<Rightarrow> Price \<Rightarrow> Side \<Rightarrow> Qty \<Rightarrow>
   OrderManager \<Rightarrow> OrderManager result" where
  "MoveOrder cfg K p ticker_id price side qty M =
     (case om_state (om_order p M) of
        OM_LIVE \<Rightarrow> Inr (if om_price (om_order p M) \<noteq> price then CancelOrder p M else M)
      | OM_INVALID \<Rightarrow>
          if price \<noteq> PRICE_INVALID then
            rbind (CheckPreTradeRisk cfg K ticker_id side qty) (\<lambda>risk_result.
            Inr (if risk_result = Risk_ALLOWED then NewOrder p ticker_id price side qty M else M))
          else Inr M
      | OM_DEAD \<Rightarrow>
          if price \<noteq> PRICE_INVALID then
            rbind (CheckPreTradeRisk cfg K ticker_id side qty) (\<lambda>risk_result.
            Inr (if risk_result = Risk_ALLOWED then NewOrder p ticker_id price side qty M else M))
          else Inr M
      | OM_PENDING_NEW \<Rightarrow> Inr M
      | OM_PENDING_CANCEL \<Rightarrow> Inr M)"

definition MoveOrders ::
  "TradeEngineCfgMap \<Rightarrow> PositionKeeper \<Rightarrow> TickerId \<Rightarrow> Price \<Rightarrow> Price \<Rightarrow> Qty \<Rightarrow> OrderManager \<Rightarrow>
   OrderManager result" where
  "MoveOrders cfg K ticker_id bid ask qty M =
     rbind (order_place ticker_id Side_BUY) (\<lambda>bid_place.
     rbind (MoveOrder cfg K bid_place ticker_id bid Side_BUY qty M) (\<lambda>M.
     rbind (order_place ticker_id Side_SELL) (\<lambda>ask_place.
     MoveOrder cfg K ask_place ticker_id ask Side_SELL qty M)))"

definition OnOrderUpdate :: "MEClientResponse \<Rightarrow> OrderManager \<Rightarrow> OrderManager result" where
  "OnOrderUpdate r M =
     rbind (order_place (rs_ticker_id r) (rs_side r)) (\<lambda>p.
     let order = om_order p M in
     case rs_type r of
       ClientResponseType_ACCEPTED \<Rightarrow> Inr (set_om_order p (order\<lparr>om_state := OM_LIVE\<rparr>) M)
     | ClientResponseType_CANCELED \<Rightarrow> Inr (set_om_order p (order\<lparr>om_state := OM_DEAD\<rparr>) M)
     | ClientResponseType_FILLED \<Rightarrow>
         (let order = order\<lparr>om_qty := rs_leaves_qty r\<rparr>
          in Inr (set_om_order p (if om_qty order = 0 then order\<lparr>om_state := OM_DEAD\<rparr> else order) M))
     | _ \<Rightarrow> Inr M)"

section \<open>Places\<close>

lemma om_order_set [simp]: "om_order p' (set_om_order p q M) = (if p' = p then q else om_order p' M)"
  by (cases p; cases p') (auto simp: om_order_def set_om_order_def)

lemma set_om_order_frame [simp]:
  "next_order_id (set_om_order p q M) = next_order_id M"
  "outgoing_ogw_requests (set_om_order p q M) = outgoing_ogw_requests M"
  "om_client_id (set_om_order p q M) = om_client_id M"
  by (simp_all add: set_om_order_def)

lemma om_order_frame [simp]:
  "om_order p (M\<lparr>next_order_id := n\<rparr>) = om_order p M" "om_order p (SendClientRequest r M) = om_order p M"
  by (simp_all add: om_order_def SendClientRequest_def)

lemma SendClientRequest_frame [simp]:
  "next_order_id (SendClientRequest r M) = next_order_id M" "om_client_id (SendClientRequest r M) = om_client_id M"
  "outgoing_ogw_requests (SendClientRequest r M) = Enqueue r (outgoing_ogw_requests M)"
  by (simp_all add: SendClientRequest_def)

end
