(* ===== verification/Trading_Strategies.thy ===== *)
theory Trading_Strategies
  imports Order_Manager
begin

text \<open>
  The feature engine and the two strategies
  (\<open>src/src/include/trading_engine/feature_engine.hpp\<close>, \<open>market_maker.hpp\<close>, \<open>liquidity_taker.hpp\<close>).
  They see a book through its best bid and offer. \<open>FEATURE_INVALID\<close> is a quiet NaN, which compares
  unequal to everything, itself included.
\<close>

section \<open>Features\<close>

definition FEATURE_INVALID :: double where
  "FEATURE_INVALID = NaN"

record FeatureEngine =
  mkt_price :: double
  agg_trade_qty_ratio :: double

definition FeatureEngine_new :: FeatureEngine where
  "FeatureEngine_new = \<lparr>mkt_price = FEATURE_INVALID, agg_trade_qty_ratio = FEATURE_INVALID\<rparr>"

definition both_quoted :: "BBO \<Rightarrow> bool" where
  "both_quoted q \<longleftrightarrow> bid_price q \<noteq> PRICE_INVALID \<and> ask_price q \<noteq> PRICE_INVALID"

text \<open>The numerator is computed in \<open>int64_t\<close>, the sum of the quantities in \<open>uint32_t\<close>.\<close>

definition FeatureEngine_OnOrderBookUpdate :: "BBO \<Rightarrow> FeatureEngine \<Rightarrow> FeatureEngine result" where
  "FeatureEngine_OnOrderBookUpdate q F =
     (if both_quoted q then
        rbind (int64 (price_int (bid_price q) * uint (ask_qty q))) (\<lambda>a.
        rbind (int64 (price_int (ask_price q) * uint (bid_qty q))) (\<lambda>b.
        rbind (int64 (a + b)) (\<lambda>sum.
        Inr (F\<lparr>mkt_price := ddiv (d_of_int sum) (d_of_int (uint (bid_qty q + ask_qty q)))\<rparr>))))
      else Inr F)"

definition FeatureEngine_OnTradeUpdate :: "MEMarketUpdate \<Rightarrow> BBO \<Rightarrow> FeatureEngine \<Rightarrow> FeatureEngine" where
  "FeatureEngine_OnTradeUpdate u q F =
     (if both_quoted q
      then F\<lparr>agg_trade_qty_ratio := ddiv (d_of_int (uint (mu_qty u)))
              (d_of_int (uint (if mu_side u = Side_BUY then ask_qty q else bid_qty q)))\<rparr>
      else F)"

section \<open>Market maker\<close>

text \<open>\<open>price - (far ? 0 : 1)\<close> and \<open>price + (far ? 0 : 1)\<close> in \<open>int64_t\<close>.\<close>

definition price_of :: "int \<Rightarrow> Price result" where
  "price_of i = rbind (int64 i) (\<lambda>i. Inr (I64 (of_int i)))"

definition MarketMaker_OnOrderBookUpdate ::
  "TradeEngineCfgMap \<Rightarrow> PositionKeeper \<Rightarrow> FeatureEngine \<Rightarrow> TickerId \<Rightarrow> BBO \<Rightarrow> OrderManager \<Rightarrow>
   OrderManager result" where
  "MarketMaker_OnOrderBookUpdate cfg K F ticker_id q M =
     (let fair_price = mkt_price F in
      if both_quoted q \<and> \<not> deq fair_price FEATURE_INVALID then
        (if ME_MAX_TICKERS \<le> unat ticker_id then Inl Out_of_range
         else
           (let c = cfg (unat ticker_id);
                bid = price_int (bid_price q);
                ask = price_int (ask_price q)
            in rbind (price_of (bid - (if dgeq (dsub fair_price (d_of_int bid)) (threshold c) then 0 else 1))) (\<lambda>new_bid.
               rbind (price_of (ask + (if dgeq (dsub (d_of_int ask) fair_price) (threshold c) then 0 else 1))) (\<lambda>new_ask.
               MoveOrders cfg K ticker_id new_bid new_ask (clip c) M))))
      else Inr M)"

section \<open>Liquidity taker\<close>

definition LiquidityTaker_OnTradeUpdate ::
  "TradeEngineCfgMap \<Rightarrow> PositionKeeper \<Rightarrow> FeatureEngine \<Rightarrow> MEMarketUpdate \<Rightarrow> BBO \<Rightarrow> OrderManager \<Rightarrow>
   OrderManager result" where
  "LiquidityTaker_OnTradeUpdate cfg K F u q M =
     (let agg_qty_ratio = agg_trade_qty_ratio F in
      if both_quoted q \<and> \<not> deq agg_qty_ratio FEATURE_INVALID then
        (if ME_MAX_TICKERS \<le> unat (mu_ticker_id u) then Inl Out_of_range
         else
           (let c = cfg (unat (mu_ticker_id u)) in
            if dgeq agg_qty_ratio (threshold c) then
              (if mu_side u = Side_BUY
               then MoveOrders cfg K (mu_ticker_id u) (ask_price q) PRICE_INVALID (clip c) M
               else MoveOrders cfg K (mu_ticker_id u) PRICE_INVALID (bid_price q) (clip c) M)
            else Inr M))
      else Inr M)"

section \<open>Property\<close>

text \<open>
  The check for a missing feature never fails. A \<open>FEATURE_INVALID\<close> fair price passes
  \<open>fair_price != FEATURE_INVALID\<close>, so the market maker moves its orders on it, one tick outside the
  quotes on both sides, whatever the threshold is.
\<close>

theorem invalid_feature_not_caught:
  assumes "both_quoted q" "unat i < ME_MAX_TICKERS" "mkt_price F = FEATURE_INVALID"
    and "- (2 ^ 63) < price_int (bid_price q)" "price_int (ask_price q) < 2 ^ 63 - 1"
  shows "MarketMaker_OnOrderBookUpdate cfg K F i q M =
    MoveOrders cfg K i (I64 (bits64 (bid_price q) - 1)) (I64 (bits64 (ask_price q) + 1)) (clip (cfg (unat i))) M"
proof -
  have price: "price_of (price_int (bid_price q) - 1) = Inr (I64 (bits64 (bid_price q) - 1))"
    "price_of (price_int (ask_price q) + 1) = Inr (I64 (bits64 (ask_price q) + 1))"
    using assms(4,5) sint_lt [of "bits64 (bid_price q)"] sint_ge [of "bits64 (ask_price q)"]
    by (simp_all add: price_of_def int64_def)
  have cmp: "\<not> dgeq (dsub NaN x) y" "\<not> dgeq (dsub x NaN) y" "\<not> deq NaN x" for x y
    by (simp_all add: dgeq_def deq_def)
  show ?thesis using assms(1,2,3) by (simp add: MarketMaker_OnOrderBookUpdate_def FEATURE_INVALID_def cmp price)
qed

theorem invalid_feature_not_caught_witness:
  "MarketMaker_OnOrderBookUpdate (\<lambda>_. TradeEngineCfg_default) (\<lambda>_. PositionInfo_new (\<lambda>_. dzero)) FeatureEngine_new 2
     \<lparr>bid_price = I64 100, ask_price = I64 105, bid_qty = 4, ask_qty = 3\<rparr>
     (OrderManager_new 1 (LockFreeQueue_new 8 MEClientRequest_default)) =
   MoveOrders (\<lambda>_. TradeEngineCfg_default) (\<lambda>_. PositionInfo_new (\<lambda>_. dzero)) 2 (I64 99) (I64 106) 0
     (OrderManager_new 1 (LockFreeQueue_new 8 MEClientRequest_default))"
  using invalid_feature_not_caught
    [of "\<lparr>bid_price = I64 100, ask_price = I64 105, bid_qty = 4, ask_qty = 3\<rparr>" 2 FeatureEngine_new
      "\<lambda>_. TradeEngineCfg_default" "\<lambda>_. PositionInfo_new (\<lambda>_. dzero)"
      "OrderManager_new 1 (LockFreeQueue_new 8 MEClientRequest_default)"]
  by (simp add: both_quoted_def PRICE_INVALID_def i64_max_def FeatureEngine_new_def ME_MAX_TICKERS_def TradeEngineCfg_default_def)

end
