(* ===== verification/Trading_Book_Refinement.thy ===== *)
theory Trading_Book_Refinement
  imports Trading_Order_Book
begin

text \<open>
  The trading engine's book against lists of orders in price-time priority: each update has the
  effect of \<open>book_apply\<close>, the best bid and offer follow the first level of the lists, and where
  they do not: the first order of a side, and every order after CLEAR at a price that had a level.
\<close>

section \<open>Specification\<close>

definition as_order :: "MEMarketUpdate \<Rightarrow> TradingOrder" where
  "as_order u =
     \<lparr>o_order_id = mu_order_id u, o_side = mu_side u, o_price = mu_price u, o_qty = mu_qty u,
      o_priority = mu_priority u, o_prev_order = None, o_next_order = None\<rparr>"

type_synonym order_lists = "Side \<Rightarrow> TradingOrder list"

definition book_apply :: "MEMarketUpdate \<Rightarrow> order_lists \<Rightarrow> order_lists" where
  "book_apply u S =
     (case mu_type u of
        MarketUpdateType_ADD \<Rightarrow> S(mu_side u := spec_insert (mu_side u) (as_order u) (S (mu_side u)))
      | MarketUpdateType_MODIFY \<Rightarrow>
          (\<lambda>s. map (\<lambda>q. if o_order_id q = mu_order_id u then q\<lparr>o_qty := mu_qty u\<rparr> else q) (S s))
      | MarketUpdateType_CANCEL \<Rightarrow> (\<lambda>s. filter (\<lambda>q. o_order_id q \<noteq> mu_order_id u) (S s))
      | MarketUpdateType_CLEAR \<Rightarrow> (\<lambda>_. [])
      | _ \<Rightarrow> S)"

text \<open>Price and quantity of the best level of a side.\<close>

definition best_quote :: "TradingOrder list \<Rightarrow> Price \<times> Qty" where
  "best_quote qs =
     (if qs = [] then (PRICE_INVALID, QTY_INVALID)
      else (o_price (hd qs), sum_list (map o_qty (filter (\<lambda>q. o_price q = o_price (hd qs)) qs))))"

definition quote_of :: "Side \<Rightarrow> BBO \<Rightarrow> Price \<times> Qty" where
  "quote_of s q = (if s = Side_BUY then (bid_price q, bid_qty q) else (ask_price q, ask_qty q))"

abbreviation order_list :: "order_lists \<Rightarrow> TradingOrder list" where
  "order_list S \<equiv> S Side_BUY @ S Side_SELL"

text \<open>
  What an update may assume of the book: a new order has a new id within the array, its price shares
  the slot of no other price, and both pools have room; an update of an order gives the side and
  price of that order.
\<close>

definition tb_fits :: "MEMarketUpdate \<Rightarrow> order_lists \<Rightarrow> bool" where
  "tb_fits u S \<longleftrightarrow>
     (case mu_type u of
        MarketUpdateType_ADD \<Rightarrow>
          trade_side (mu_side u) \<and> unat (mu_order_id u) < ME_MAX_ORDER_IDS \<and>
          (\<forall>q\<in>set (order_list S). o_order_id q \<noteq> mu_order_id u) \<and>
          (\<forall>q\<in>set (order_list S). PriceToIndex (o_price q) = PriceToIndex (mu_price u) \<longrightarrow>
             o_price q = mu_price u \<and> o_side q = mu_side u) \<and>
          length (order_list S) + 1 < ME_MAX_ORDER_IDS \<and>
          card (o_price ` set (order_list S)) + 1 < ME_MAX_PRICE_LEVELS
      | MarketUpdateType_MODIFY \<Rightarrow>
          trade_side (mu_side u) \<and>
          (\<exists>q\<in>set (S (mu_side u)). o_order_id q = mu_order_id u \<and> o_price q = mu_price u)
      | MarketUpdateType_CANCEL \<Rightarrow>
          trade_side (mu_side u) \<and>
          (\<exists>q\<in>set (S (mu_side u)). o_order_id q = mu_order_id u \<and> o_price q = mu_price u)
      | MarketUpdateType_CLEAR \<Rightarrow> False
      | _ \<Rightarrow> True)"

section \<open>The invariant\<close>

definition tb_ok :: "TradingOrderBook \<Rightarrow> (Side \<Rightarrow> levels) \<Rightarrow> bool" where
  "tb_ok b L \<longleftrightarrow>
     book_ok b L \<and> (\<forall>s. \<not> trade_side s \<longrightarrow> L s = []) \<and>
     pool_ok (order_pool b) \<and> live (order_pool b) = set (addrs (all_levels L)) \<and>
     (\<forall>x\<in>live (order_pool b). unat (o_order_id (ord b x)) < ME_MAX_ORDER_IDS) \<and>
     (\<forall>i<ME_MAX_ORDER_IDS. \<forall>x. oid_to_order b i = Some x \<longleftrightarrow>
        x \<in> live (order_pool b) \<and> unat (o_order_id (ord b x)) = i) \<and>
     store_size (order_pool b) = ME_MAX_ORDER_IDS \<and>
     store_size (orders_at_price_pool b) = ME_MAX_PRICE_LEVELS"

definition tb_orders :: "TradingOrderBook \<Rightarrow> (Side \<Rightarrow> levels) \<Rightarrow> order_lists" where
  "tb_orders b L s = map (\<lambda>x. strip (ord b x)) (addrs (L s))"

text \<open>The array from ids to orders, for a set of live orders.\<close>

definition oids_ok :: "TradingOrderBook \<Rightarrow> nat set \<Rightarrow> bool" where
  "oids_ok b X \<longleftrightarrow>
     (\<forall>x\<in>X. unat (o_order_id (ord b x)) < ME_MAX_ORDER_IDS) \<and>
     (\<forall>i<ME_MAX_ORDER_IDS. \<forall>x. oid_to_order b i = Some x \<longleftrightarrow> x \<in> X \<and> unat (o_order_id (ord b x)) = i)"

lemma tb_ok_oids:
  "tb_ok b L \<longleftrightarrow>
     book_ok b L \<and> (\<forall>s. \<not> trade_side s \<longrightarrow> L s = []) \<and>
     pool_ok (order_pool b) \<and> live (order_pool b) = set (addrs (all_levels L)) \<and> oids_ok b (live (order_pool b)) \<and>
     store_size (order_pool b) = ME_MAX_ORDER_IDS \<and> store_size (orders_at_price_pool b) = ME_MAX_PRICE_LEVELS"
  unfolding tb_ok_def oids_ok_def by blast

lemma oids_ok_insert:
  assumes ok: "oids_ok b X" and x: "x \<notin> X" "unat (o_order_id (ord b' x)) < ME_MAX_ORDER_IDS"
    and old: "\<And>y. y \<in> X \<Longrightarrow> o_order_id (ord b' y) = o_order_id (ord b y)"
    and fresh: "\<And>y. y \<in> X \<Longrightarrow> o_order_id (ord b y) \<noteq> o_order_id (ord b' x)"
    and b': "oid_to_order b' = (oid_to_order b)(unat (o_order_id (ord b' x)) := Some x)"
  shows "oids_ok b' (insert x X)"
  unfolding oids_ok_def
proof (intro conjI allI impI ballI)
  show "unat (o_order_id (ord b' y)) < ME_MAX_ORDER_IDS" if "y \<in> insert x X" for y
    using that ok x(2) old [of y] unfolding oids_ok_def by (cases "y = x") auto
  show "oid_to_order b' i = Some y \<longleftrightarrow> y \<in> insert x X \<and> unat (o_order_id (ord b' y)) = i"
    if "i < ME_MAX_ORDER_IDS" for i y
  proof -
    have "oid_to_order b i = Some y \<longleftrightarrow> y \<in> X \<and> unat (o_order_id (ord b y)) = i"
      using ok that unfolding oids_ok_def by blast
    then show ?thesis using x(1) old [of y] fresh [of y] unfolding b'
      by (cases "y = x"; cases "i = unat (o_order_id (ord b' x))") (auto simp: word_unat_eq_iff)
  qed
qed

lemma oids_ok_remove:
  assumes ok: "oids_ok b X" and old: "\<And>y. o_order_id (ord b' y) = o_order_id (ord b y)"
    and other: "\<And>y. y \<in> X \<Longrightarrow> y \<noteq> x \<Longrightarrow> o_order_id (ord b y) \<noteq> o_order_id (ord b x)"
    and b': "oid_to_order b' = (oid_to_order b)(unat (o_order_id (ord b x)) := None)"
  shows "oids_ok b' (X - {x})"
  unfolding oids_ok_def
proof (intro conjI allI impI ballI)
  show "unat (o_order_id (ord b' y)) < ME_MAX_ORDER_IDS" if "y \<in> X - {x}" for y
    using that ok unfolding oids_ok_def old by blast
  show "oid_to_order b' i = Some y \<longleftrightarrow> y \<in> X - {x} \<and> unat (o_order_id (ord b' y)) = i"
    if "i < ME_MAX_ORDER_IDS" for i y
  proof -
    have "oid_to_order b i = Some y \<longleftrightarrow> y \<in> X \<and> unat (o_order_id (ord b y)) = i"
      using ok that unfolding oids_ok_def by blast
    then show ?thesis using other [of y] unfolding b' old
      by (cases "i = unat (o_order_id (ord b x))") (auto simp: word_unat_eq_iff)
  qed
qed

lemma tb_orders_side_orders: "tb_orders b L = side_orders b L"
  by (rule ext) (simp add: tb_orders_def side_orders_def)

lemma tb_okD:
  assumes "tb_ok b L"
  shows "book_ok b L" "\<not> trade_side s \<Longrightarrow> L s = []" "pool_ok (order_pool b)"
    "live (order_pool b) = set (addrs (all_levels L))"
    "x \<in> live (order_pool b) \<Longrightarrow> unat (o_order_id (ord b x)) < ME_MAX_ORDER_IDS"
    "i < ME_MAX_ORDER_IDS \<Longrightarrow>
       oid_to_order b i = Some x \<longleftrightarrow> x \<in> live (order_pool b) \<and> unat (o_order_id (ord b x)) = i"
    "store_size (order_pool b) = ME_MAX_ORDER_IDS"
    "store_size (orders_at_price_pool b) = ME_MAX_PRICE_LEVELS"
  using assms unfolding tb_ok_def by blast+

lemma tb_ok_new: "tb_ok (TradingOrderBook_new t (\<lambda>_. None) (\<lambda>_. None)) (\<lambda>_. [])"
  by (simp add: tb_ok_def TradingOrderBook_new_def book_ok_empty ME_MAX_PRICE_LEVELS_def ME_MAX_ORDER_IDS_def)

lemma tb_ids_differ:
  assumes "tb_ok b L" "x \<in> live (order_pool b)" "y \<in> live (order_pool b)"
    "o_order_id (ord b x) = o_order_id (ord b y)"
  shows "x = y"
proof -
  let ?i = "unat (o_order_id (ord b x))"
  have "?i < ME_MAX_ORDER_IDS" by (rule tb_okD(5) [OF assms(1,2)])
  from tb_okD(6) [OF assms(1) this, of x] tb_okD(6) [OF assms(1) this, of y] assms(2-4)
  show ?thesis by simp
qed

lemma tb_live_sides:
  "tb_ok b L \<Longrightarrow> trade_side s \<Longrightarrow> live (order_pool b) = set (addrs (L s)) \<union> set (addrs (L (other_side s)))"
  using tb_okD(4) addrs_sides by metis

lemma tb_orders_set: "set (tb_orders b L s) = (\<lambda>x. strip (ord b x)) ` set (addrs (L s))"
  by (simp add: tb_orders_def)

lemma tb_order_list: "set (order_list (tb_orders b L)) = (\<lambda>x. strip (ord b x)) ` set (addrs (all_levels L))"
  by (simp add: tb_orders_set image_Un)

lemma trading_more:
  fixes b b' :: TradingOrderBook
  assumes "OrderBook.more b' = OrderBook.more b"
  shows "tb_ticker_id b' = tb_ticker_id b" "oid_to_order b' = oid_to_order b" "bbo b' = bbo b"
  using assms by (cases b; cases b'; simp)+

lemma tb_orders_bbo [simp]: "tb_orders (b\<lparr>bbo := q\<rparr>) L = tb_orders b L"
  by (rule ext) (simp add: tb_orders_def)

lemma book_ok_bbo: "book_ok b L \<Longrightarrow> book_ok (b\<lparr>bbo := q\<rparr>) L" for b :: TradingOrderBook
  by (rule book_ok_cong [of b]) simp_all

lemma tb_ok_bbo: "tb_ok b L \<Longrightarrow> tb_ok (b\<lparr>bbo := q\<rparr>) L"
  unfolding tb_ok_def by (simp add: book_ok_bbo)

section \<open>The best level\<close>

lemma sum_ring_walk:
  assumes "chain (\<lambda>x. o_next_order (ord b x)) prv (ys @ [f])" "f \<notin> set ys"
  shows "sum_ring b (Some f) (Some (hd (ys @ [f]))) qty =
    Some (Inr (qty + sum_list (map (\<lambda>x. o_qty (ord b x)) ys)))"
  using assms
proof (induction ys arbitrary: qty)
  case Nil
  show ?case by (simp add: sum_ring.simps [of b "Some f" "Some f"])
next
  case (Cons y ys)
  have nxt: "o_next_order (ord b y) = Some (hd (ys @ [f]))" "chain (\<lambda>x. o_next_order (ord b x)) prv (ys @ [f])"
    using Cons.prems(1) by (simp_all add: chain_Cons)
  have "sum_ring b (Some f) (Some y) qty = sum_ring b (Some f) (o_next_order (ord b y)) (qty + o_qty (ord b y))"
    using Cons.prems(2) by (simp add: sum_ring.simps [of b "Some f" "Some y"])
  also have "\<dots> = Some (Inr (qty + o_qty (ord b y) + sum_list (map (\<lambda>x. o_qty (ord b x)) ys)))"
    using Cons.IH [OF nxt(2)] Cons.prems(2) nxt(1) by simp
  finally show ?case by (simp add: add.assoc)
qed

lemma best_quote_orders:
  assumes "addrs (L s) = f # ys"
  shows "best_quote (tb_orders b L s) =
    (o_price (ord b f), sum_list (map (\<lambda>x. o_qty (ord b x)) (filter (\<lambda>y. o_price (ord b y) = o_price (ord b f)) (addrs (L s)))))"
  unfolding best_quote_def tb_orders_def filter_map by (simp add: assms o_def)

lemma level_quote_ok:
  assumes ok: "book_ok b L" and s: "trade_side s"
  shows "level_quote (best_by_price s b) b = Inr (best_quote (tb_orders b L s))"
proof (cases "L s")
  case Nil
  with best_level(1) [OF ok s] show ?thesis by (simp add: level_quote_def best_quote_def tb_orders_def)
next
  case (Cons w vs)
  obtain a os where w: "w = (a, os)" by (cases w)
  have so: "side_ok b s ([] @ (a, os) # vs)" using book_okD(1) [OF ok s] Cons w by simp
  then have lv: "level_ok b s (a, os)" and best: "best_by_price s b = Some a" by (simp_all add: side_ok_def)
  then obtain f ys where os: "os = f # ys" by (cases os) (auto simp: level_ok_def)
  have ring: "ring (\<lambda>x. o_next_order (ord b x)) (\<lambda>x. o_prev_order (ord b x)) (f # ys)"
    using lv os by (simp add: level_ok_def)
  have "chain (\<lambda>x. o_next_order (ord b x)) (\<lambda>x. o_prev_order (ord b x)) (f # (ys @ [f]))" "f \<notin> set ys"
    using ring by (simp_all add: ring_def)
  then have ch: "chain (\<lambda>x. o_next_order (ord b x)) (\<lambda>x. o_prev_order (ord b x)) (ys @ [f])" "f \<notin> set ys"
    "o_next_order (ord b f) = Some (hd (ys @ [f]))"
    by (simp_all add: chain_Cons)
  have fl: "l_first_order (lvl b a) = Some f" using lv os by (simp add: level_ok_def)
  have pf: "o_price (ord b f) = lprice b (a, os)" using order_price [OF so, of "(a, os)" f] os by simp
  have all: "addrs (L s) = f # ys @ addrs vs" by (simp add: Cons w os)
  have "filter (\<lambda>y. o_price (ord b y) = lprice b (a, os)) (addrs (L s)) = os"
    using level_orders_filter [OF so] Cons w by simp
  then have "best_quote (tb_orders b L s) = (lprice b (a, os), sum_list (map (\<lambda>x. o_qty (ord b x)) os))"
    using best_quote_orders [where L = L and s = s and b = b, OF all] pf by simp
  then show ?thesis
    using best fl sum_ring_walk [OF ch(1,2), of "o_qty (ord b f)"] ch(3)
    by (simp add: level_quote_def lprice_def os)
qed

lemma UpdateBbo_ok:
  assumes "book_ok b L"
  shows "UpdateBbo x y b = Inr (b\<lparr>bbo := (bbo b)
    \<lparr>bid_price := if x then fst (best_quote (tb_orders b L Side_BUY)) else bid_price (bbo b),
     bid_qty := if x then snd (best_quote (tb_orders b L Side_BUY)) else bid_qty (bbo b),
     ask_price := if y then fst (best_quote (tb_orders b L Side_SELL)) else ask_price (bbo b),
     ask_qty := if y then snd (best_quote (tb_orders b L Side_SELL)) else ask_qty (bbo b)\<rparr>\<rparr>)"
proof -
  have bid: "level_quote (bids_by_price b) b = Inr (best_quote (tb_orders b L Side_BUY))"
    using level_quote_ok [OF assms, of Side_BUY] by (simp add: best_by_price_def)
  have ask: "level_quote (asks_by_price (b\<lparr>bbo := q\<rparr>)) (b\<lparr>bbo := q\<rparr>) = Inr (best_quote (tb_orders b L Side_SELL))" for q
    using level_quote_ok [OF book_ok_bbo [OF assms], of Side_SELL q] by (simp add: best_by_price_def)
  have same: "b\<lparr>bbo := bbo b\<rparr> = b" by simp
  show ?thesis
    using bid ask [of "bbo b"] ask
    by (cases x; cases y; cases "best_quote (tb_orders b L Side_BUY)"; cases "best_quote (tb_orders b L Side_SELL)")
      (simp_all add: UpdateBbo_def same)
qed

section \<open>Adding an order\<close>

lemma level_some_order:
  assumes "book_ok b L" "lv \<in> set (all_levels L)"
  obtains t y where "trade_side t" "lv \<in> set (L t)" "y \<in> set (snd lv)" "o_price (ord b y) = lprice b lv"
    "o_side (ord b y) = t" "l_side (lvl b (fst lv)) = t" "y \<in> set (addrs (all_levels L))"
proof -
  obtain t where t: "trade_side t" "lv \<in> set (L t)" using assms(2) by auto
  have so: "side_ok b t (L t)" by (rule book_okD(1) [OF assms(1) t(1)])
  then have lv: "level_ok b t lv" using t(2) by (simp add: side_ok_def)
  then obtain y where y: "y \<in> set (snd lv)" by (metis level_ok_def list.set_sel(1))
  then have "y \<in> set (addrs (all_levels L))"
    using t addrs_upper [OF t(2)] by auto
  with order_price [OF so t(2) y] lv y t show thesis by (intro that [of t y]) (auto simp: level_ok_def)
qed

lemma tb_slot_free:
  assumes ok: "book_ok b L"
    and apart: "\<forall>q\<in>set (order_list (tb_orders b L)). PriceToIndex (o_price q) = PriceToIndex p \<longrightarrow> o_price q = p \<and> o_side q = s"
  shows "slot_free s p b"
proof (cases "GetOrdersAtPrice p b")
  case (Some a)
  obtain w where w: "w \<in> set (all_levels L)" "fst w = a" "PriceToIndex (lprice b w) = PriceToIndex p"
    using price_slot_Some [OF ok Some] by blast
  obtain t y where y: "o_price (ord b y) = lprice b w" "o_side (ord b y) = t" "l_side (lvl b (fst w)) = t"
    "y \<in> set (addrs (all_levels L))"
    using level_some_order [OF ok w(1)] by metis
  have "strip (ord b y) \<in> set (order_list (tb_orders b L))" unfolding tb_order_list using y(4) by blast
  from bspec [OF apart this] y(1,2) w(3) have "lprice b w = p" "t = s" by simp_all
  then show ?thesis using Some y(3) w(2) by (simp add: slot_free_def lprice_def)
qed (simp add: slot_free_def)

text \<open>There are as many levels as prices.\<close>

lemma card_levels:
  assumes "book_ok b L"
  shows "card (live (orders_at_price_pool b)) \<le> card (o_price ` set (order_list (tb_orders b L)))"
proof -
  have lv: "live (orders_at_price_pool b) = fst ` set (all_levels L)"
    using assms by (simp add: book_ok_def)
  have "fst ` set (all_levels L) \<subseteq> (\<lambda>p. the (GetOrdersAtPrice p b)) ` o_price ` set (order_list (tb_orders b L))"
  proof
    fix a assume "a \<in> fst ` set (all_levels L)"
    then obtain w where w: "w \<in> set (all_levels L)" "a = fst w" by blast
    obtain y where y: "o_price (ord b y) = lprice b w" "y \<in> set (addrs (all_levels L))"
      using level_some_order [OF assms w(1)] by metis
    have "strip (ord b y) \<in> set (order_list (tb_orders b L))" unfolding tb_order_list using y(2) by blast
    then have "lprice b w \<in> o_price ` set (order_list (tb_orders b L))" using y(1) by force
    moreover have "a = the (GetOrdersAtPrice (lprice b w) b)"
      using price_slot [OF assms w(1)] w(2) by simp
    ultimately show "a \<in> (\<lambda>p. the (GetOrdersAtPrice p b)) ` o_price ` set (order_list (tb_orders b L))" by blast
  qed
  then show ?thesis
    unfolding lv by (meson card_image_le card_mono finite_imageI finite_set order_trans)
qed

lemma tb_has_room:
  assumes "tb_ok b L" "length (order_list (tb_orders b L)) + 1 < ME_MAX_ORDER_IDS"
    "card (o_price ` set (order_list (tb_orders b L))) + 1 < ME_MAX_PRICE_LEVELS"
  shows "has_room (order_pool b)" "has_room (orders_at_price_pool b)"
proof -
  have "card (live (order_pool b)) \<le> length (order_list (tb_orders b L))"
    unfolding tb_okD(4) [OF assms(1)] using card_length [of "addrs (all_levels L)"] by (simp add: tb_orders_def)
  then show "has_room (order_pool b)" using assms(2) tb_okD(7) [OF assms(1)] by (simp add: has_room_def)
  show "has_room (orders_at_price_pool b)"
    using card_levels [OF tb_okD(1) [OF assms(1)]] assms(3) tb_okD(8) [OF assms(1)] by (simp add: has_room_def)
qed

lemma add_ok:
  assumes ok: "tb_ok b L" and u: "mu_type u = MarketUpdateType_ADD" "tb_fits u (tb_orders b L)"
  obtains b' ls' where "apply_update u b = Inr b'" "tb_ok b' (L(mu_side u := ls'))"
    "tb_orders b' (L(mu_side u := ls')) = book_apply u (tb_orders b L)" "bbo b' = bbo b"
    "tb_ticker_id b' = tb_ticker_id b"
proof -
  let ?s = "mu_side u" and ?q = "as_order u" and ?i = "unat (mu_order_id u)"
  note D = tb_okD [OF ok]
  have s: "trade_side ?s" and i: "?i < ME_MAX_ORDER_IDS"
    and fresh: "\<forall>q\<in>set (order_list (tb_orders b L)). o_order_id q \<noteq> mu_order_id u"
    using u by (simp_all add: tb_fits_def)
  have slot: "slot_free ?s (mu_price u) b"
    by (rule tb_slot_free [OF D(1)]) (use u in \<open>simp add: tb_fits_def\<close>)
  have room: "has_room (order_pool b)" "has_room (orders_at_price_pool b)"
    using tb_has_room [OF ok] u by (simp_all add: tb_fits_def)
  obtain x P where P: "Allocate ?q (order_pool b) = Inr (x, P)" "x \<notin> live (order_pool b)"
    "live P = insert x (live (order_pool b))" "pool_ok P" "store_size P = store_size (order_pool b)"
    "obj P x = ?q" "\<And>y. y \<noteq> x \<Longrightarrow> obj P y = ord b y"
    using mem_pool.allocE [OF D(3), of ?q] room(1) unfolding has_room_def by metis
  let ?b1 = "b\<lparr>order_pool := P\<rparr>"
  have xn: "x \<notin> set (addrs (all_levels L))" using P(2) D(4) by simp
  have book1: "book_ok ?b1 L"
  proof (rule book_ok_cong [OF D(1)])
    show "ord ?b1 y = ord b y" if "y \<in> set (addrs (all_levels L))" for y
      using P(7) [of y] xn that by auto
  qed simp_all
  have slot1: "slot_free ?s (mu_price u) ?b1"
    using slot by (simp add: slot_free_def GetOrdersAtPrice_def split: option.splits)
  have xo: "o_side (ord ?b1 x) = ?s" "o_price (ord ?b1 x) = mu_price u" using P(6) by (simp_all add: as_order_def)
  obtain b2 ls' xs ys where b2: "link_order x ?b1 = Inr b2" "addrs (L ?s) = xs @ ys" "addrs ls' = xs @ x # ys"
    "\<forall>y\<in>set xs. \<not> goes_after ?s (o_price (ord ?b1 y)) (mu_price u)"
    "\<forall>y\<in>set ys. goes_after ?s (o_price (ord ?b1 y)) (mu_price u)"
    "book_ok b2 (L(?s := ls'))" "orders_kept ?b1 b2"
    by (rule link_order_ok [OF book1 s xn xo slot1]) (use room(2) in simp_all)
  have st: "strip (ord b2 y) = strip (obj P y)" for y using b2(7) by (simp add: orders_kept_def)
  note sm = strip_fields [OF st]
  have k: "live (order_pool b2) = insert x (live (order_pool b))" "pool_ok (order_pool b2)"
    "store_size (order_pool b2) = ME_MAX_ORDER_IDS" "store_size (orders_at_price_pool b2) = ME_MAX_PRICE_LEVELS"
    using b2(7) P(3-5) D(7,8) by (simp_all add: orders_kept_def)
  have mr: "oid_to_order b2 = oid_to_order b" "bbo b2 = bbo b" "tb_ticker_id b2 = tb_ticker_id b"
    using trading_more [of b2 b] b2(7) by (simp_all add: orders_kept_def)
  have xid: "o_order_id (ord b2 x) = mu_order_id u" using sm(1) [of x] P(6) by (simp add: as_order_def)
  define b' where "b' = b2\<lparr>oid_to_order := (oid_to_order b)(?i := Some x)\<rparr>"
  have b': "order_pool b' = order_pool b2" "oid_to_order b' = (oid_to_order b)(?i := Some x)"
    "orders_at_price_pool b' = orders_at_price_pool b2" "bbo b' = bbo b" "tb_ticker_id b' = tb_ticker_id b"
    by (simp_all add: b'_def mr)
  have res: "apply_update u b = Inr b'"
    using P(1) b2(1) i mr(1) xid u(1)
    by (simp add: apply_update_def as_order_def [symmetric] tb_AddOrder_link set_oid_def b'_def)
  have old: "strip (ord b' y) = strip (ord b y)" if "y \<in> live (order_pool b)" for y
    using st [of y] P(7) [of y] P(2) that b'(1) by metis
  have xid': "o_order_id (ord b' x) = mu_order_id u" using xid b'(1) by simp
  have new: "strip (ord b' x) = ?q" using st [of x] P(6) b'(1) by (simp add: as_order_def strip_def)
  have fresh': "o_order_id (ord b y) \<noteq> o_order_id (ord b' x)" if "y \<in> live (order_pool b)" for y
  proof -
    have "strip (ord b y) \<in> set (order_list (tb_orders b L))" using that D(4) unfolding tb_order_list by blast
    with fresh have "o_order_id (strip (ord b y)) \<noteq> mu_order_id u" by blast
    then show ?thesis by (simp add: xid')
  qed
  have oids0: "oids_ok b (live (order_pool b))" using ok unfolding tb_ok_oids by blast
  have "oids_ok b' (insert x (live (order_pool b)))"
    by (rule oids_ok_insert [OF oids0 P(2) _ strip_fields(1) [OF old] fresh']) (simp_all add: xid' i b'(2))
  then have ok': "tb_ok b' (L(?s := ls'))"
    unfolding tb_ok_oids
  proof (intro conjI allI impI)
    show "book_ok b' (L(?s := ls'))" by (rule book_ok_cong [OF b2(6)]) (simp_all add: b'_def)
    show "(L(?s := ls')) t = []" if "\<not> trade_side t" for t using that D(2) s by auto
    show "live (order_pool b') = set (addrs (all_levels (L(?s := ls'))))"
      using k(1) D(4) b2(2,3) unfolding addrs_update_side [OF s] addrs_sides [OF s] b'(1) by auto
  qed (simp_all add: b'(1,3) k)
  have sub: "y \<in> live (order_pool b)" if "y \<in> set (addrs (L t))" for y t
    using that D(2) [of t] tb_live_sides [OF ok, of t] by (cases "trade_side t") auto
  have pr: "o_price (obj P y) = o_price (ord b y)" if "y \<in> set (xs @ ys)" for y
  proof -
    have "y \<in> live (order_pool b)" using that b2(2) by (intro sub [where t = ?s]) simp
    with P(2) have "y \<noteq> x" by blast
    with P(7) show ?thesis by simp
  qed
  have "tb_orders b' (L(?s := ls')) = (tb_orders b L)(?s := spec_insert ?s ?q (tb_orders b L ?s))"
    unfolding tb_orders_side_orders
    by (rule side_orders_insert [where L = L, OF b2(2,3) old [OF sub] new]) (use b2(4,5) pr in \<open>auto simp: as_order_def\<close>)
  then have "tb_orders b' (L(?s := ls')) = book_apply u (tb_orders b L)" using u(1) by (simp add: book_apply_def)
  with res ok' show thesis by (rule that) (simp_all add: b')
qed

section \<open>Changing and removing an order\<close>

lemma listed_order:
  assumes ok: "tb_ok b L" and q: "q \<in> set (tb_orders b L s)" "o_order_id q = oid" and s: "trade_side s"
  obtains x where "x \<in> set (addrs (L s))" "q = strip (ord b x)" "x \<in> live (order_pool b)"
    "o_order_id (ord b x) = oid" "oid_at oid b = Inr (Some x)"
proof -
  obtain x where x: "x \<in> set (addrs (L s))" "q = strip (ord b x)" using q(1) unfolding tb_orders_set by blast
  have lv: "x \<in> live (order_pool b)" using tb_live_sides [OF ok s] x(1) by blast
  have id: "o_order_id (ord b x) = oid" using q(2) x(2) by simp
  have r: "unat oid < ME_MAX_ORDER_IDS" using tb_okD(5) [OF ok lv] id by simp
  from tb_okD(6) [OF ok this, of x] lv id r show thesis
    by (intro that [OF x lv id]) (simp add: oid_at_def)
qed

lemma modify_ok:
  assumes ok: "tb_ok b L" and u: "mu_type u = MarketUpdateType_MODIFY" "tb_fits u (tb_orders b L)"
  obtains b' where "apply_update u b = Inr b'" "tb_ok b' L" "tb_orders b' L = book_apply u (tb_orders b L)"
    "bbo b' = bbo b" "tb_ticker_id b' = tb_ticker_id b"
proof -
  let ?f = "\<lambda>q. q\<lparr>o_qty := mu_qty u\<rparr>" and ?s = "mu_side u"
  note D = tb_okD [OF ok]
  obtain q where q: "q \<in> set (tb_orders b L ?s)" "o_order_id q = mu_order_id u" "trade_side ?s"
    using u by (auto simp: tb_fits_def)
  obtain x where x: "x \<in> live (order_pool b)" "o_order_id (ord b x) = mu_order_id u"
    "oid_at (mu_order_id u) b = Inr (Some x)"
    using listed_order [OF ok q] by metis
  let ?b = "b\<lparr>order_pool := upd_obj x ?f (order_pool b)\<rparr>"
  have res: "apply_update u b = Inr ?b" using u(1) x(3) by (simp add: apply_update_def)
  have book: "book_ok ?b L" by (rule book_ok_upd_order [OF D(1)]) simp_all
  have oid: "o_order_id (ord ?b y) = o_order_id (ord b y)" for y by simp
  have ok': "tb_ok ?b L"
    unfolding tb_ok_def oid using D book by (simp add: D(6))
  have "tb_orders ?b L s = book_apply u (tb_orders b L) s" for s
  proof -
    have same: "y = x" if "y \<in> set (addrs (L s))" "o_order_id (ord b y) = mu_order_id u" for y
    proof (rule tb_ids_differ [OF ok])
      show "y \<in> live (order_pool b)"
        using that(1) D(2) [of s] tb_live_sides [OF ok, of s] by (cases "trade_side s") auto
    qed (use x that in simp_all)
    have "strip (ord ?b y) = (if o_order_id (strip (ord b y)) = mu_order_id u
        then (strip (ord b y))\<lparr>o_qty := mu_qty u\<rparr> else strip (ord b y))" if "y \<in> set (addrs (L s))" for y
    proof (cases "o_order_id (ord b y) = mu_order_id u")
      case True
      with same [OF that] have "y = x" by blast
      with x(2) show ?thesis by simp
    next
      case False
      with x(2) have "y \<noteq> x" by blast
      with False show ?thesis by simp
    qed
    then show ?thesis
      using u(1) by (simp add: tb_orders_def book_apply_def)
  qed
  then have "tb_orders ?b L = book_apply u (tb_orders b L)" ..
  with res ok' show thesis by (rule that) simp_all
qed

lemma cancel_orders:
  assumes ok: "tb_ok b L" and s: "trade_side s" and x: "x \<in> set (addrs (L s))"
    and addrs: "addrs ls' = remove1 x (addrs (L s))" and st: "\<And>y. strip (ord b' y) = strip (ord b y)"
  shows "tb_orders b' (L(s := ls')) t = filter (\<lambda>q. o_order_id q \<noteq> o_order_id (ord b x)) (tb_orders b L t)"
proof -
  note D = tb_okD [OF ok]
  have xl: "x \<in> live (order_pool b)" using x tb_live_sides [OF ok s] by simp
  have other: "o_order_id (ord b y) \<noteq> o_order_id (ord b x)" if "y \<in> live (order_pool b)" "y \<noteq> x" for y
    using tb_ids_differ [OF ok that(1) xl] that(2) by auto
  show ?thesis
  proof (cases "t = s")
    case True
    have "remove1 x (addrs (L s)) = filter (\<lambda>y. o_order_id (ord b y) \<noteq> o_order_id (ord b x)) (addrs (L s))"
      using sides_disjoint(4) [OF D(1) s] other tb_live_sides [OF ok s]
      by (subst distinct_remove1_removeAll) (auto simp: removeAll_filter_not_eq intro!: filter_cong)
    then show ?thesis using True by (simp add: tb_orders_def st addrs filter_map o_def)
  next
    case False
    have "o_order_id (ord b y) \<noteq> o_order_id (ord b x)" if "y \<in> set (addrs (L t))" for y
    proof (rule other)
      have "L t \<noteq> []" using that by auto
      then have "trade_side t" using D(2) [of t] by blast
      then have "t = other_side s" using False s by (auto simp: other_side_def)
      then show "y \<noteq> x" "y \<in> live (order_pool b)"
        using that x sides_disjoint(2) [OF D(1) s] tb_live_sides [OF ok s] by auto
    qed
    then show ?thesis using False by (simp add: tb_orders_def st filter_map o_def)
  qed
qed

lemma cancel_ok:
  assumes ok: "tb_ok b L" and u: "mu_type u = MarketUpdateType_CANCEL" "tb_fits u (tb_orders b L)"
  obtains b' ls' where "apply_update u b = Inr b'" "tb_ok b' (L(mu_side u := ls'))"
    "tb_orders b' (L(mu_side u := ls')) = book_apply u (tb_orders b L)"
    "bbo b' = bbo b" "tb_ticker_id b' = tb_ticker_id b"
proof -
  let ?s = "mu_side u" and ?i = "unat (mu_order_id u)"
  note D = tb_okD [OF ok]
  obtain q where q: "q \<in> set (tb_orders b L ?s)" "o_order_id q = mu_order_id u" and s: "trade_side ?s"
    using u by (auto simp: tb_fits_def)
  obtain x where x: "x \<in> set (addrs (L ?s))" "x \<in> live (order_pool b)" "o_order_id (ord b x) = mu_order_id u"
    "oid_at (mu_order_id u) b = Inr (Some x)"
    using listed_order [OF ok q s] by metis
  have i: "?i < ME_MAX_ORDER_IDS" using D(5) [OF x(2)] x(3) by simp
  obtain b1 ls' where b1: "unlink_order x b = Inr b1" "addrs ls' = remove1 x (addrs (L ?s))"
    "book_ok b1 (L(?s := ls'))" "orders_kept b b1"
    by (rule unlink_order_ok [OF D(1) s x(1)])
  have st: "strip (ord b1 y) = strip (ord b y)" for y using b1(4) by (simp add: orders_kept_def)
  have k: "live (order_pool b1) = live (order_pool b)" "pool_ok (order_pool b1)"
    "store_size (order_pool b1) = store_size (order_pool b)"
    "store_size (orders_at_price_pool b1) = store_size (orders_at_price_pool b)"
    using b1(4) D(3) by (simp_all add: orders_kept_def)
  have mr: "oid_to_order b1 = oid_to_order b" "bbo b1 = bbo b" "tb_ticker_id b1 = tb_ticker_id b"
    using trading_more [of b1 b] b1(4) by (simp_all add: orders_kept_def)
  obtain P where P: "Deallocate x (order_pool b1) = Inr P" "live P = live (order_pool b1) - {x}" "pool_ok P"
    "store_size P = store_size (order_pool b1)" "\<And>y. obj P y = ord b1 y"
    using mem_pool.deallocE [of "order_pool b1" x] k x(2) by metis
  define b' where "b' = b1\<lparr>oid_to_order := (oid_to_order b)(?i := None), order_pool := P\<rparr>"
  have b': "order_pool b' = P" "oid_to_order b' = (oid_to_order b)(?i := None)"
    "orders_at_price_pool b' = orders_at_price_pool b1" "bbo b' = bbo b" "tb_ticker_id b' = tb_ticker_id b"
    by (simp_all add: b'_def mr)
  have res: "apply_update u b = Inr b'"
    using u(1) x(3,4) b1(1) P(1) i mr(1) strip_fields(1) [OF st [of x]]
    by (simp add: apply_update_def tb_RemoveOrder_unlink set_oid_def b'_def)
  have st': "strip (ord b' y) = strip (ord b y)" for y using st P(5) b'(1) by simp
  note id' = strip_fields(1) [OF st']
  have other: "o_order_id (ord b y) \<noteq> mu_order_id u" if "y \<in> live (order_pool b)" "y \<noteq> x" for y
    using tb_ids_differ [OF ok that(1) x(2)] x(3) that(2) by auto
  have lv: "live (order_pool b') = live (order_pool b) - {x}" using P(2) k(1) b'(1) by simp
  have oids0: "oids_ok b (live (order_pool b))" using ok unfolding tb_ok_oids by blast
  have "oids_ok b' (live (order_pool b'))"
    unfolding lv by (rule oids_ok_remove [OF oids0 id']) (use other x(3) b'(2) in simp_all)
  then have ok': "tb_ok b' (L(?s := ls'))"
    unfolding tb_ok_oids
  proof (intro conjI allI impI)
    show "book_ok b' (L(?s := ls'))"
      by (rule book_ok_cong [OF b1(3)]) (simp_all add: b'_def P(5))
    show "(L(?s := ls')) t = []" if "\<not> trade_side t" for t using that D(2) s by auto
    show "live (order_pool b') = set (addrs (all_levels (L(?s := ls'))))"
      using lv D(4) sides_disjoint(2,4) [OF D(1) s] x(1) b1(2)
      unfolding addrs_update_side [OF s] addrs_sides [OF s] by auto
  qed (simp_all add: b' P k D)
  have "tb_orders b' (L(?s := ls')) t = book_apply u (tb_orders b L) t" for t
    using cancel_orders [OF ok s x(1) b1(2) st'] u(1) x(3) by (simp add: book_apply_def)
  then have "tb_orders b' (L(?s := ls')) = book_apply u (tb_orders b L)" ..
  with res ok' show thesis by (rule that) (simp_all add: b')
qed

section \<open>When the best quote is recomputed\<close>

definition touches_best :: "MEMarketUpdate \<Rightarrow> order_lists \<Rightarrow> bool" where
  "touches_best u S \<longleftrightarrow>
     S (mu_side u) \<noteq> [] \<and> \<not> goes_after (mu_side u) (mu_price u) (o_price (hd (S (mu_side u))))"

lemma best_price:
  assumes ok: "book_ok b L" and s: "trade_side s" and a: "best_by_price s b = Some a"
  shows "tb_orders b L s \<noteq> []" "l_price (lvl b a) = o_price (hd (tb_orders b L s))"
proof -
  have so: "side_ok b s (L s)" by (rule book_okD(1) [OF ok s])
  then obtain os vs where L: "L s = (a, os) # vs" using a by (cases "L s") (auto simp: side_ok_def)
  then have "level_ok b s (a, os)" using so by (simp add: side_ok_def)
  then obtain f ys where "os = f # ys" by (cases os) (auto simp: level_ok_def)
  with L order_price [OF so, of "(a, os)" f]
  show "tb_orders b L s \<noteq> []" "l_price (lvl b a) = o_price (hd (tb_orders b L s))"
    by (simp_all add: tb_orders_def lprice_def)
qed

lemma tb_orders_empty: "book_ok b L \<Longrightarrow> trade_side s \<Longrightarrow> best_by_price s b = None \<Longrightarrow> tb_orders b L s = []"
  using best_level(1) [of b L s] unfolding tb_orders_def by blast

lemma bid_updated_iff:
  assumes "book_ok b L"
  shows "bid_updated u b \<longleftrightarrow> mu_side u = Side_BUY \<and> touches_best u (tb_orders b L)"
proof (cases "bids_by_price b")
  case None
  then have "tb_orders b L Side_BUY = []"
    by (intro tb_orders_empty [OF assms]) (simp_all add: best_by_price_def)
  with None show ?thesis by (auto simp: bid_updated_def touches_best_def)
next
  case (Some a)
  then have a: "best_by_price Side_BUY b = Some a" by (simp add: best_by_price_def)
  show ?thesis
    using best_price [OF assms _ a] Some by (auto simp: bid_updated_def touches_best_def goes_after_def not_less)
qed

lemma ask_updated_iff:
  assumes "book_ok b L"
  shows "ask_updated u b \<longleftrightarrow> mu_side u = Side_SELL \<and> touches_best u (tb_orders b L)"
proof (cases "asks_by_price b")
  case None
  then have "tb_orders b L Side_SELL = []"
    by (intro tb_orders_empty [OF assms]) (simp_all add: best_by_price_def)
  with None show ?thesis by (auto simp: ask_updated_def touches_best_def)
next
  case (Some a)
  then have a: "best_by_price Side_SELL b = Some a" by (simp add: best_by_price_def)
  show ?thesis
    using best_price [OF assms _ a] Some by (auto simp: ask_updated_def touches_best_def goes_after_def not_less)
qed

lemma apply_update_ok:
  assumes "tb_ok b L" "tb_fits u (tb_orders b L)"
  obtains b' L' where "apply_update u b = Inr b'" "tb_ok b' L'" "tb_orders b' L' = book_apply u (tb_orders b L)"
    "bbo b' = bbo b" "tb_ticker_id b' = tb_ticker_id b"
proof (cases "mu_type u = MarketUpdateType_ADD \<or> mu_type u = MarketUpdateType_MODIFY \<or> mu_type u = MarketUpdateType_CANCEL")
  case True
  then show thesis using that add_ok modify_ok cancel_ok assms by (elim disjE) metis+
next
  case False
  then have "apply_update u b = Inr b" "book_apply u (tb_orders b L) = tb_orders b L"
    using assms(2) by (auto simp: apply_update_def book_apply_def tb_fits_def split: MarketUpdateType.splits)
  with assms(1) show thesis by (intro that [of b L]) simp_all
qed

lemma OnMarketUpdate_ok:
  assumes ok: "tb_ok b L" and u: "tb_fits u (tb_orders b L)"
  obtains b' c L' where "OnMarketUpdate u b = Inr (b', c)" "tb_ok b' L'"
    "tb_orders b' L' = book_apply u (tb_orders b L)" "tb_ticker_id b' = tb_ticker_id b"
    "\<And>s. trade_side s \<Longrightarrow> quote_of s (bbo b') =
      (if mu_type u \<noteq> MarketUpdateType_TRADE \<and> mu_side u = s \<and> touches_best u (tb_orders b L)
       then best_quote (tb_orders b' L' s) else quote_of s (bbo b))"
proof (cases "mu_type u = MarketUpdateType_TRADE")
  case True
  then show thesis using that [of b OnTradeUpdate_call L] ok by (simp add: OnMarketUpdate_def book_apply_def)
next
  case False
  obtain b1 L' where b1: "apply_update u b = Inr b1" "tb_ok b1 L'" "tb_orders b1 L' = book_apply u (tb_orders b L)"
    "bbo b1 = bbo b" "tb_ticker_id b1 = tb_ticker_id b"
    by (rule apply_update_ok [OF ok u])
  note upd = UpdateBbo_ok [OF tb_okD(1) [OF b1(2)], of "bid_updated u b" "ask_updated u b"]
  let ?q = "(bbo b1)
    \<lparr>bid_price := if bid_updated u b then fst (best_quote (tb_orders b1 L' Side_BUY)) else bid_price (bbo b1),
     bid_qty := if bid_updated u b then snd (best_quote (tb_orders b1 L' Side_BUY)) else bid_qty (bbo b1),
     ask_price := if ask_updated u b then fst (best_quote (tb_orders b1 L' Side_SELL)) else ask_price (bbo b1),
     ask_qty := if ask_updated u b then snd (best_quote (tb_orders b1 L' Side_SELL)) else ask_qty (bbo b1)\<rparr>"
  have run: "OnMarketUpdate u b = Inr (b1\<lparr>bbo := ?q\<rparr>, OnOrderBookUpdate_call)"
    using False b1(1) upd by (simp add: OnMarketUpdate_def)
  note iff = bid_updated_iff [OF tb_okD(1) [OF ok]] ask_updated_iff [OF tb_okD(1) [OF ok]]
  show thesis
  proof (rule that [OF run tb_ok_bbo [OF b1(2)]])
    show "quote_of s (bbo (b1\<lparr>bbo := ?q\<rparr>)) =
      (if mu_type u \<noteq> MarketUpdateType_TRADE \<and> mu_side u = s \<and> touches_best u (tb_orders b L)
       then best_quote (tb_orders (b1\<lparr>bbo := ?q\<rparr>) L' s) else quote_of s (bbo b))" if "trade_side s" for s
      using that False b1(4) unfolding iff tb_orders_bbo by (auto simp: quote_of_def)
  qed (simp_all add: b1)
qed

section \<open>Updates behind the best level\<close>

lemma tb_orders_sorted:
  assumes "book_ok b L" "trade_side s"
  shows "spec_sorted s (tb_orders b L s)"
proof -
  have so: "side_ok b s (L s)" by (rule book_okD(1) [OF assms])
  have "sorted_wrt (\<lambda>x y. \<not> goes_after s (o_price (ord b x)) (o_price (ord b y))) (addrs (L s))"
    by (rule addrs_sorted [where f = "lprice b"]) (use so order_price [OF so] in \<open>auto simp: side_ok_def\<close>)
  then show ?thesis by (simp add: spec_sorted_def tb_orders_def sorted_wrt_map)
qed

lemma tb_order_ids:
  assumes "tb_ok b L"
  shows "distinct (map o_order_id (order_list (tb_orders b L)))"
proof -
  have "distinct (addrs (all_levels L))" using tb_okD(1) [OF assms] by (simp add: book_ok_def)
  moreover have "inj_on (\<lambda>x. o_order_id (ord b x)) (set (addrs (all_levels L)))"
    using tb_ids_differ [OF assms] tb_okD(4) [OF assms] by (intro inj_onI) simp
  moreover have "map o_order_id (order_list (tb_orders b L)) = map (\<lambda>x. o_order_id (ord b x)) (addrs (all_levels L))"
    by (simp add: tb_orders_def o_def)
  ultimately show ?thesis by (simp only: distinct_map)
qed

lemma distinct_id:
  "distinct (map o_order_id qs) \<Longrightarrow> q \<in> set qs \<Longrightarrow> r \<in> set qs \<Longrightarrow> o_order_id q = o_order_id r \<Longrightarrow> q = r"
  by (simp add: distinct_map inj_on_def)

lemma same_id:
  assumes "distinct (map o_order_id (order_list S))" "trade_side s" "trade_side t"
    and "q \<in> set (S s)" "r \<in> set (S t)" "o_order_id q = o_order_id r"
  shows "s = t \<and> q = r"
proof -
  have "q = r" using distinct_id [OF assms(1), of q r] assms(2-6) by auto
  moreover have "set (S Side_BUY) \<inter> set (S Side_SELL) = {}"
    using assms(1) by (auto simp: distinct_map)
  ultimately show ?thesis using assms(2-5) by auto
qed

lemma tb_fits_existing:
  assumes "tb_fits u S" "mu_type u = MarketUpdateType_MODIFY \<or> mu_type u = MarketUpdateType_CANCEL"
  obtains q where "trade_side (mu_side u)" "q \<in> set (S (mu_side u))" "o_order_id q = mu_order_id u"
    "o_price q = mu_price u"
proof -
  have "trade_side (mu_side u) \<and> (\<exists>q\<in>set (S (mu_side u)). o_order_id q = mu_order_id u \<and> o_price q = mu_price u)"
    using assms(2,1) by (elim disjE) (simp_all add: tb_fits_def)
  with that show thesis by blast
qed

lemma other_side_kept:
  assumes "distinct (map o_order_id (order_list S))" "tb_fits u S" "trade_side s" "mu_side u \<noteq> s"
  shows "book_apply u S s = S s"
proof (cases "mu_type u = MarketUpdateType_MODIFY \<or> mu_type u = MarketUpdateType_CANCEL")
  case True
  then obtain q where q: "trade_side (mu_side u)" "q \<in> set (S (mu_side u))" "o_order_id q = mu_order_id u"
    using tb_fits_existing [OF assms(2)] by metis
  have "o_order_id r \<noteq> mu_order_id u" if "r \<in> set (S s)" for r
    using same_id [OF assms(1,3) q(1) that q(2)] q(3) assms(4) by auto
  with True show ?thesis by (auto simp: book_apply_def map_idI)
next
  case False
  with assms(2,4) show ?thesis
    by (auto simp: book_apply_def tb_fits_def split: MarketUpdateType.splits)
qed

lemma best_quote_filter:
  assumes "xs \<noteq> []" "ys \<noteq> []" "o_price (hd ys) = o_price (hd xs)"
    "filter (\<lambda>q. o_price q = o_price (hd xs)) ys = filter (\<lambda>q. o_price q = o_price (hd xs)) xs"
  shows "best_quote ys = best_quote xs"
  using assms by (simp add: best_quote_def)

lemma best_quote_kept:
  assumes S: "distinct (map o_order_id (order_list S))" "tb_fits u S" "trade_side s" "mu_side u = s"
    and worse: "\<not> touches_best u S" and ne: "S s \<noteq> []"
  shows "best_quote (book_apply u S s) = best_quote (S s)"
proof -
  obtain h t where h: "S s = h # t" using ne by (cases "S s") auto
  have after: "goes_after s (mu_price u) (o_price h)" using worse S(4) h by (simp add: touches_best_def)
  then have differ: "mu_price u \<noteq> o_price h" by auto
  have touched: "o_price r = mu_price u"
    if "mu_type u = MarketUpdateType_MODIFY \<or> mu_type u = MarketUpdateType_CANCEL"
      "r \<in> set (S s)" "o_order_id r = mu_order_id u" for r
  proof -
    note mc = that(1)
    obtain q where q: "q \<in> set (S s)" "o_order_id q = mu_order_id u" "o_price q = mu_price u"
      using tb_fits_existing [OF S(2) mc] S(4) by metis
    with same_id [OF S(1,3,3) that(2) q(1)] that(3) show ?thesis by simp
  qed
  show ?thesis
  proof (cases "mu_type u")
    case MarketUpdateType_ADD
    let ?P = "\<lambda>r. \<not> goes_after s (o_price r) (o_price (as_order u))" and ?E = "\<lambda>q. o_price q = o_price h"
    have new: "book_apply u S s = takeWhile ?P (S s) @ as_order u # dropWhile ?P (S s)"
      using MarketUpdateType_ADD S(4) by (simp add: book_apply_def spec_insert_def)
    have "?P h" using goes_after_asym [OF after] by (simp add: as_order_def)
    then have "hd (book_apply u S s) = h" unfolding new h by simp
    moreover have "filter ?E (book_apply u S s) = filter ?E (S s)"
    proof -
      have "\<not> ?E (as_order u)" using differ by (simp add: as_order_def)
      then have "filter ?E (book_apply u S s) = filter ?E (takeWhile ?P (S s) @ dropWhile ?P (S s))"
        unfolding new filter_append by (simp only: filter.simps if_False)
      then show ?thesis by (simp only: takeWhile_dropWhile_id)
    qed
    moreover have "book_apply u S s \<noteq> []" unfolding new by simp
    ultimately show ?thesis using h by (intro best_quote_filter) simp_all
  next
    case MarketUpdateType_MODIFY
    let ?f = "\<lambda>q. if o_order_id q = mu_order_id u then q\<lparr>o_qty := mu_qty u\<rparr> else q"
    have new: "book_apply u S s = map ?f (S s)" using MarketUpdateType_MODIFY by (simp add: book_apply_def)
    have keep: "?f q = q" if "q \<in> set (S s)" "o_price q = o_price h" for q
      using touched [of q] MarketUpdateType_MODIFY that differ by auto
    have f: "filter (\<lambda>q. o_price q = o_price h) (map ?f qs) = filter (\<lambda>q. o_price q = o_price h) qs"
      if "set qs \<subseteq> set (S s)" for qs
      using that by (induction qs) (auto simp: keep)
    have "hd (map ?f (S s)) = h" using h keep [of h] by simp
    with f [of "S s"] h show ?thesis
      unfolding new by (intro best_quote_filter) (simp_all del: list.map filter.simps)
  next
    case MarketUpdateType_CANCEL
    have new: "book_apply u S s = filter (\<lambda>q. o_order_id q \<noteq> mu_order_id u) (S s)"
      using MarketUpdateType_CANCEL by (simp add: book_apply_def)
    have keep: "o_order_id q \<noteq> mu_order_id u" if "q \<in> set (S s)" "o_price q = o_price h" for q
      using touched [of q] MarketUpdateType_CANCEL that differ by auto
    then have "o_order_id h \<noteq> mu_order_id u" using h by simp
    moreover have "filter (\<lambda>q. o_price q = o_price h) (filter (\<lambda>q. o_order_id q \<noteq> mu_order_id u) (S s)) =
        filter (\<lambda>q. o_price q = o_price h) (S s)"
      using keep by (auto intro: filter_cong)
    ultimately show ?thesis
      unfolding new using h by (intro best_quote_filter) simp_all
  qed (use S(2) in \<open>simp_all add: book_apply_def tb_fits_def\<close>)
qed

section \<open>Properties\<close>

text \<open>
  C9: Every update that fits the book ends normally and has the effect of the specification over
  lists of orders in price-time priority: a new order goes behind all orders of its side that are not
  worse, MODIFY changes the quantity in place, CANCEL removes, everything else changes nothing; the
  pointer structure stays well-formed.
\<close>

theorem trading_book_refines:
  assumes "tb_ok b L" "tb_fits u (tb_orders b L)"
  shows "\<exists>b' c L'. OnMarketUpdate u b = Inr (b', c) \<and> tb_ok b' L' \<and> tb_orders b' L' = book_apply u (tb_orders b L)"
  using OnMarketUpdate_ok [OF assms] by metis

lemma sample_fits: "tb_fits sample_add (tb_orders (TradingOrderBook_new t (\<lambda>_. None) (\<lambda>_. None)) (\<lambda>_. []))"
  by (simp add: tb_fits_def sample_add_def tb_orders_def ME_MAX_ORDER_IDS_def ME_MAX_PRICE_LEVELS_def)

theorem trading_book_refines_witness:
  "\<exists>b' c L'. OnMarketUpdate sample_add (TradingOrderBook_new 2 (\<lambda>_. None) (\<lambda>_. None)) = Inr (b', c) \<and>
    tb_ok b' L' \<and> tb_orders b' L' Side_BUY = [as_order sample_add]"
proof -
  let ?b = "TradingOrderBook_new 2 (\<lambda>_. None) (\<lambda>_. None)"
  have "book_apply sample_add (tb_orders ?b (\<lambda>_. [])) Side_BUY = [as_order sample_add]"
    by (simp add: book_apply_def sample_add_def tb_orders_def spec_insert_def)
  with trading_book_refines [OF tb_ok_new sample_fits] show ?thesis by metis
qed

text \<open>
  C14: The best bid and offer follow the book through ADD, MODIFY, CANCEL and TRADE. If both quotes are
  right, the price and the total quantity of the first level, then they are right after any such
  update that fits the book (\<open>tb_fits\<close>: its ids, its price slot, room, the order it names), except an
  ADD to an empty side. CLEAR does not fit: it empties the book and leaves the quotes as they were
  (\<open>clear_keeps_quotes\<close>).
\<close>

theorem bbo_follows_book:
  assumes "tb_ok b L" "tb_fits u (tb_orders b L)"
    and "mu_type u = MarketUpdateType_ADD \<longrightarrow> tb_orders b L (mu_side u) \<noteq> []"
    and "\<forall>s\<in>{Side_BUY, Side_SELL}. quote_of s (bbo b) = best_quote (tb_orders b L s)"
  shows "\<exists>b' c L'. OnMarketUpdate u b = Inr (b', c) \<and> tb_ok b' L' \<and> tb_orders b' L' = book_apply u (tb_orders b L) \<and>
    (\<forall>s\<in>{Side_BUY, Side_SELL}. quote_of s (bbo b') = best_quote (tb_orders b' L' s))"
proof -
  let ?S = "tb_orders b L"
  obtain b' c L' where run: "OnMarketUpdate u b = Inr (b', c)" "tb_ok b' L'" "tb_orders b' L' = book_apply u ?S"
    "\<And>s. trade_side s \<Longrightarrow> quote_of s (bbo b') =
      (if mu_type u \<noteq> MarketUpdateType_TRADE \<and> mu_side u = s \<and> touches_best u ?S
       then best_quote (tb_orders b' L' s) else quote_of s (bbo b))"
    by (rule OnMarketUpdate_ok [OF assms(1,2)]) blast
  have "quote_of s (bbo b') = best_quote (tb_orders b' L' s)" if s: "s \<in> {Side_BUY, Side_SELL}" for s
  proof (cases "mu_type u \<noteq> MarketUpdateType_TRADE \<and> mu_side u = s \<and> touches_best u ?S")
    case True
    with run(4) [of s] s show ?thesis by simp
  next
    case False
    have right: "quote_of s (bbo b) = best_quote (?S s)" using assms(4) s by blast
    have "best_quote (book_apply u ?S s) = best_quote (?S s)"
    proof (cases "mu_side u = s \<and> ?S s \<noteq> [] \<and> mu_type u \<noteq> MarketUpdateType_TRADE")
      case True
      with False best_quote_kept [OF tb_order_ids [OF assms(1)] assms(2)] s show ?thesis by auto
    next
      case F: False
      have "book_apply u ?S s = ?S s"
      proof (cases "mu_side u = s")
        case True
        with F assms(2,3) show ?thesis
          by (auto simp: book_apply_def tb_fits_def split: MarketUpdateType.splits)
      next
        case False
        with other_side_kept [OF tb_order_ids [OF assms(1)] assms(2)] s show ?thesis by auto
      qed
      then show ?thesis by simp
    qed
    with False run(3) run(4) [of s] s right show ?thesis by auto
  qed
  with run(1-3) show ?thesis by blast
qed

lemma sample_book:
  obtains b L where "tb_ok b L" "tb_orders b L = (\<lambda>_. [])(Side_BUY := [as_order sample_add])"
proof -
  let ?b = "TradingOrderBook_new 2 (\<lambda>_. None) (\<lambda>_. None)"
  have "book_apply sample_add (tb_orders ?b (\<lambda>_. [])) = (\<lambda>_. [])(Side_BUY := [as_order sample_add])"
    by (simp add: book_apply_def sample_add_def tb_orders_def spec_insert_def fun_eq_iff)
  with OnMarketUpdate_ok [OF tb_ok_new sample_fits] that show thesis by metis
qed

theorem bbo_follows_book_witness:
  "\<exists>b L b' c. tb_orders b L Side_BUY = [as_order sample_add] \<and> quote_of Side_BUY (bbo b) = (I64 100, 10) \<and>
    OnMarketUpdate (sample_add\<lparr>mu_type := MarketUpdateType_CANCEL\<rparr>) b = Inr (b', c) \<and>
    quote_of Side_BUY (bbo b') = (PRICE_INVALID, QTY_INVALID)"
proof -
  let ?u = "sample_add\<lparr>mu_type := MarketUpdateType_CANCEL\<rparr>"
  obtain b0 L where b0: "tb_ok b0 L" "tb_orders b0 L = (\<lambda>_. [])(Side_BUY := [as_order sample_add])"
    by (rule sample_book)
  let ?b = "b0\<lparr>bbo := \<lparr>bid_price = I64 100, ask_price = PRICE_INVALID, bid_qty = 10, ask_qty = QTY_INVALID\<rparr>\<rparr>"
  have fits: "tb_fits ?u (tb_orders ?b L)" by (simp add: tb_fits_def b0(2) sample_add_def as_order_def)
  have quotes: "\<forall>s\<in>{Side_BUY, Side_SELL}. quote_of s (bbo ?b) = best_quote (tb_orders ?b L s)"
    by (simp add: quote_of_def best_quote_def b0(2) sample_add_def as_order_def)
  have "mu_type ?u = MarketUpdateType_ADD \<longrightarrow> tb_orders ?b L (mu_side ?u) \<noteq> []" by simp
  from bbo_follows_book [OF tb_ok_bbo [OF b0(1)] fits this quotes]
  obtain b' c L' where run: "OnMarketUpdate ?u ?b = Inr (b', c)" "tb_orders b' L' = book_apply ?u (tb_orders ?b L)"
    "\<forall>s\<in>{Side_BUY, Side_SELL}. quote_of s (bbo b') = best_quote (tb_orders b' L' s)" by blast
  have "quote_of Side_BUY (bbo b') = (PRICE_INVALID, QTY_INVALID)"
    using run(2,3) by (simp add: book_apply_def b0(2) best_quote_def as_order_def)
  with run(1) b0(2) show ?thesis
    by (intro exI [of _ ?b] exI [of _ L] exI [of _ b'] exI [of _ c]) (simp add: quote_of_def)
qed

text \<open>
  C15: The quote of a side misses its first order: \<open>bid_updated\<close> and \<open>ask_updated\<close> are false while the
  side is empty, so after an ADD to an empty side the book has the order and the quote is unchanged,
  INVALID in a new book.
\<close>

theorem first_order_not_quoted:
  assumes "tb_ok b L" "tb_fits u (tb_orders b L)" "mu_type u = MarketUpdateType_ADD"
    and "tb_orders b L (mu_side u) = []"
  shows "\<exists>b' c L'. OnMarketUpdate u b = Inr (b', c) \<and> tb_ok b' L' \<and>
    tb_orders b' L' (mu_side u) = [as_order u] \<and> quote_of (mu_side u) (bbo b') = quote_of (mu_side u) (bbo b)"
proof -
  have s: "trade_side (mu_side u)" using assms(2,3) by (simp add: tb_fits_def)
  have "book_apply u (tb_orders b L) (mu_side u) = [as_order u]"
    using assms(3,4) by (simp add: book_apply_def spec_insert_def)
  moreover have "\<not> touches_best u (tb_orders b L)" using assms(4) by (simp add: touches_best_def)
  ultimately show ?thesis
    using OnMarketUpdate_ok [OF assms(1,2)] s by metis
qed

theorem first_order_not_quoted_witness:
  "\<exists>b' c L'. OnMarketUpdate sample_add (TradingOrderBook_new 2 (\<lambda>_. None) (\<lambda>_. None)) = Inr (b', c) \<and>
    tb_ok b' L' \<and> tb_orders b' L' Side_BUY = [as_order sample_add] \<and>
    quote_of Side_BUY (bbo b') = (PRICE_INVALID, QTY_INVALID)"
proof -
  let ?b = "TradingOrderBook_new 2 (\<lambda>_. None) (\<lambda>_. None)"
  have "mu_type sample_add = MarketUpdateType_ADD" "tb_orders ?b (\<lambda>_. []) (mu_side sample_add) = []"
    by (simp_all add: sample_add_def tb_orders_def)
  from first_order_not_quoted [OF tb_ok_new sample_fits this] show ?thesis
    by (simp add: sample_add_def quote_of_def TradingOrderBook_new_def BBO_default_def)
qed

section \<open>CLEAR\<close>

lemma clear_orders_ok:
  assumes "pool_ok (order_pool b)" "set js \<subseteq> {..<ME_MAX_ORDER_IDS}" "distinct js"
    and "\<And>i x. i \<in> set js \<Longrightarrow> oid_to_order b i = Some x \<Longrightarrow>
      x \<in> live (order_pool b) \<and> unat (o_order_id (ord b x)) = i"
  shows "\<exists>P. rfold clear_order js b = Inr (b\<lparr>order_pool := P\<rparr>) \<and> pool_ok P \<and>
    store_size P = store_size (order_pool b) \<and> (\<forall>y. obj P y = ord b y) \<and>
    live P = live (order_pool b) - {x. \<exists>i\<in>set js. oid_to_order b i = Some x}"
  using assms
proof (induction js arbitrary: b)
  case (Cons j js)
  show ?case
  proof (cases "oid_to_order b j")
    case None
    have "clear_order j b = Inr b" using None by (simp add: clear_order_def)
    moreover have "\<exists>P. rfold clear_order js b = Inr (b\<lparr>order_pool := P\<rparr>) \<and> pool_ok P \<and>
      store_size P = store_size (order_pool b) \<and> (\<forall>y. obj P y = ord b y) \<and>
      live P = live (order_pool b) - {x. \<exists>i\<in>set js. oid_to_order b i = Some x}"
      using Cons.prems(1-3) by (intro Cons.IH Cons.prems(4)) simp_all
    ultimately show ?thesis using None by simp
  next
    case (Some x)
    then have x: "x \<in> live (order_pool b)" "unat (o_order_id (ord b x)) = j" using Cons.prems(4) [of j x] by simp_all
    obtain Q where Q: "Deallocate x (order_pool b) = Inr Q" "live Q = live (order_pool b) - {x}" "pool_ok Q"
      "store_size Q = store_size (order_pool b)" "\<And>y. obj Q y = ord b y"
      using mem_pool.deallocE [OF Cons.prems(1) x(1)] by metis
    let ?b = "b\<lparr>order_pool := Q\<rparr>"
    have "y \<in> live (order_pool ?b) \<and> unat (o_order_id (ord ?b y)) = i"
      if "i \<in> set js" "oid_to_order ?b i = Some y" for i y
    proof -
      have y: "y \<in> live (order_pool b) \<and> unat (o_order_id (ord b y)) = i"
        using Cons.prems(4) [of i y] that by simp
      with x(2) that(1) Cons.prems(3) have "y \<noteq> x" by auto
      with y Q show ?thesis by simp
    qed
    then obtain P where P: "rfold clear_order js ?b = Inr (?b\<lparr>order_pool := P\<rparr>)" "pool_ok P"
      "store_size P = store_size Q" "\<And>y. obj P y = obj Q y"
      "live P = live Q - {x. \<exists>i\<in>set js. oid_to_order b i = Some x}"
      using Cons.IH [of ?b] Cons.prems(2,3) Q(3) by auto
    have "rfold clear_order (j # js) b = Inr (b\<lparr>order_pool := P\<rparr>)"
      using Some Q(1) P(1) by (simp add: clear_order_def)
    moreover have "live P = live (order_pool b) - {x. \<exists>i\<in>set (j # js). oid_to_order b i = Some x}"
      using P(5) Q(2) Some by auto
    ultimately show ?thesis using P Q by auto
  qed
next
  case Nil
  then show ?case by (intro exI [of _ "order_pool b"]) simp
qed

lemma clear_ring_walk:
  assumes "chain (\<lambda>a. l_next_entry (lvl b a)) prv (ys @ [f])" "f \<notin> set ys" "distinct ys"
    "pool_ok (orders_at_price_pool b)" "set ys \<subseteq> live (orders_at_price_pool b)"
  shows "\<exists>P. clear_ring (Some f) (Some (hd (ys @ [f]))) b = Some (Inr (b\<lparr>orders_at_price_pool := P\<rparr>)) \<and>
    pool_ok P \<and> store_size P = store_size (orders_at_price_pool b) \<and> (\<forall>a. obj P a = lvl b a) \<and>
    live P = live (orders_at_price_pool b) - set ys"
  using assms
proof (induction ys arbitrary: b)
  case Nil
  then show ?case
    by (intro exI [of _ "orders_at_price_pool b"]) (simp add: clear_ring.simps [of "Some f" "Some f"])
next
  case (Cons y ys)
  have nxt: "l_next_entry (lvl b y) = Some (hd (ys @ [f]))" "chain (\<lambda>a. l_next_entry (lvl b a)) prv (ys @ [f])"
    using Cons.prems(1) by (simp_all add: chain_Cons)
  obtain Q where Q: "Deallocate y (orders_at_price_pool b) = Inr Q" "live Q = live (orders_at_price_pool b) - {y}"
    "pool_ok Q" "store_size Q = store_size (orders_at_price_pool b)" "\<And>a. obj Q a = lvl b a"
    using mem_pool.deallocE [OF Cons.prems(4), of y] Cons.prems(5) by (metis list.set_intros(1) subsetD)
  let ?b = "b\<lparr>orders_at_price_pool := Q\<rparr>"
  have "\<exists>P. clear_ring (Some f) (Some (hd (ys @ [f]))) ?b = Some (Inr (?b\<lparr>orders_at_price_pool := P\<rparr>)) \<and>
    pool_ok P \<and> store_size P = store_size (orders_at_price_pool ?b) \<and> (\<forall>a. obj P a = lvl ?b a) \<and>
    live P = live (orders_at_price_pool ?b) - set ys"
    by (rule Cons.IH) (use Cons.prems Q nxt in auto)
  moreover have "clear_ring (Some f) (Some y) b = clear_ring (Some f) (Some (hd (ys @ [f]))) ?b"
    using Cons.prems(2) Q(1,5) nxt(1)
    by (simp add: clear_ring.simps [of "Some f" "Some y"] dealloc_ptr_def)
  ultimately show ?case using Q by auto
qed

lemma clear_levels_ok:
  assumes "ring (\<lambda>a. l_next_entry (lvl b a)) (\<lambda>a. l_prev_entry (lvl b a)) as"
    "best = (if as = [] then None else Some (hd as))"
    "pool_ok (orders_at_price_pool b)" "set as \<subseteq> live (orders_at_price_pool b)"
  shows "\<exists>P. clear_levels best b = Inr (b\<lparr>orders_at_price_pool := P\<rparr>) \<and>
    pool_ok P \<and> store_size P = store_size (orders_at_price_pool b) \<and> (\<forall>a. obj P a = lvl b a) \<and>
    live P = live (orders_at_price_pool b) - set as"
proof (cases as)
  case Nil
  with assms show ?thesis
    by (intro exI [of _ "orders_at_price_pool b"]) (simp add: clear_levels_def)
next
  case (Cons f ys)
  have ch: "chain (\<lambda>a. l_next_entry (lvl b a)) (\<lambda>a. l_prev_entry (lvl b a)) (ys @ [f])" "f \<notin> set ys" "distinct ys"
    "l_next_entry (lvl b f) = Some (hd (ys @ [f]))"
    using assms(1) Cons by (simp_all add: ring_def chain_Cons)
  obtain Q where Q: "clear_ring (Some f) (Some (hd (ys @ [f]))) b = Some (Inr (b\<lparr>orders_at_price_pool := Q\<rparr>))"
    "pool_ok Q" "store_size Q = store_size (orders_at_price_pool b)" "\<And>a. obj Q a = lvl b a"
    "live Q = live (orders_at_price_pool b) - set ys"
    using clear_ring_walk [OF ch(1-3) assms(3)] assms(4) Cons by auto
  have "f \<in> live Q" using Q(5) ch(2) assms(4) Cons by simp
  then obtain P where P: "Deallocate f Q = Inr P" "live P = live Q - {f}" "pool_ok P"
    "store_size P = store_size Q" "\<And>a. obj P a = obj Q a"
    using mem_pool.deallocE [OF Q(2)] by metis
  have "clear_levels best b = Inr (b\<lparr>orders_at_price_pool := P\<rparr>)"
    using assms(2) Cons Q(1) P(1) ch(4) by (simp add: clear_levels_def dealloc_ptr_def)
  moreover have "live P = live (orders_at_price_pool b) - set as" using P(2) Q(5) Cons by auto
  ultimately show ?thesis using P Q by auto
qed

text \<open>Everything goes back to the pools, except that the slots still point to the levels.\<close>

lemma clear_book_ok:
  assumes ok: "tb_ok b L"
  obtains P Q where "clear_book b = Inr (b\<lparr>order_pool := P, oid_to_order := (\<lambda>_. None),
      orders_at_price_pool := Q, bids_by_price := None, asks_by_price := None\<rparr>)"
    "pool_ok P" "live P = {}" "store_size P = ME_MAX_ORDER_IDS" "\<And>y. obj P y = ord b y"
    "pool_ok Q" "live Q = {}" "store_size Q = ME_MAX_PRICE_LEVELS" "\<And>a. obj Q a = lvl b a"
proof -
  note D = tb_okD [OF ok]
  have "\<exists>P. rfold clear_order [0..<ME_MAX_ORDER_IDS] b = Inr (b\<lparr>order_pool := P\<rparr>) \<and> pool_ok P \<and>
    store_size P = store_size (order_pool b) \<and> (\<forall>y. obj P y = ord b y) \<and>
    live P = live (order_pool b) - {x. \<exists>i\<in>set [0..<ME_MAX_ORDER_IDS]. oid_to_order b i = Some x}"
    by (rule clear_orders_ok [OF D(3)]) (use D(6) in auto)
  then obtain P where P: "rfold clear_order [0..<ME_MAX_ORDER_IDS] b = Inr (b\<lparr>order_pool := P\<rparr>)" "pool_ok P"
    "store_size P = store_size (order_pool b)" "\<And>y. obj P y = ord b y"
    "live P = live (order_pool b) - {x. \<exists>i\<in>set [0..<ME_MAX_ORDER_IDS]. oid_to_order b i = Some x}"
    by metis
  have "\<exists>i\<in>set [0..<ME_MAX_ORDER_IDS]. oid_to_order b i = Some x" if "x \<in> live (order_pool b)" for x
    using D(5) [OF that] D(6) [OF D(5) [OF that], of x] that by auto
  then have empty: "live P = {}" using P(5) by blast
  let ?b1 = "b\<lparr>order_pool := P, oid_to_order := (\<lambda>_. None)\<rparr>"
  have so: "side_ok b s (L s)" if "trade_side s" for s by (rule book_okD(1) [OF D(1) that])
  have lv: "live (orders_at_price_pool b) = fst ` set (L Side_BUY) \<union> fst ` set (L Side_SELL)"
    "fst ` set (L Side_BUY) \<inter> fst ` set (L Side_SELL) = {}"
    using live_levels [OF D(1), of Side_BUY] sides_disjoint(1) [OF D(1), of Side_BUY] by (simp_all add: other_side_def)
  have "\<exists>Q. clear_levels (bids_by_price ?b1) ?b1 = Inr (?b1\<lparr>orders_at_price_pool := Q\<rparr>) \<and>
    pool_ok Q \<and> store_size Q = store_size (orders_at_price_pool ?b1) \<and> (\<forall>a. obj Q a = lvl ?b1 a) \<and>
    live Q = live (orders_at_price_pool ?b1) - set (map fst (L Side_BUY))"
    by (rule clear_levels_ok)
      (use so [of Side_BUY] lv D(1) in \<open>auto simp: side_ok_def best_by_price_def book_ok_def hd_map\<close>)
  then obtain Q1 where Q1: "clear_levels (bids_by_price ?b1) ?b1 = Inr (?b1\<lparr>orders_at_price_pool := Q1\<rparr>)"
    "pool_ok Q1" "store_size Q1 = store_size (orders_at_price_pool b)" "\<And>a. obj Q1 a = lvl b a"
    "live Q1 = live (orders_at_price_pool ?b1) - set (map fst (L Side_BUY))"
    by auto
  then have sells: "live Q1 = fst ` set (L Side_SELL)" using lv by auto
  let ?b2 = "?b1\<lparr>orders_at_price_pool := Q1\<rparr>"
  have "\<exists>Q. clear_levels (asks_by_price ?b2) ?b2 = Inr (?b2\<lparr>orders_at_price_pool := Q\<rparr>) \<and>
    pool_ok Q \<and> store_size Q = store_size (orders_at_price_pool ?b2) \<and> (\<forall>a. obj Q a = lvl ?b2 a) \<and>
    live Q = live (orders_at_price_pool ?b2) - set (map fst (L Side_SELL))"
    by (rule clear_levels_ok)
      (use so [of Side_SELL] Q1 sells in \<open>auto simp: side_ok_def best_by_price_def hd_map\<close>)
  then obtain Q where Q: "clear_levels (asks_by_price ?b2) ?b2 = Inr (?b2\<lparr>orders_at_price_pool := Q\<rparr>)"
    "pool_ok Q" "store_size Q = store_size Q1" "\<And>a. obj Q a = obj Q1 a" "live Q = {}"
    using sells by auto
  have "clear_book b = Inr (b\<lparr>order_pool := P, oid_to_order := (\<lambda>_. None), orders_at_price_pool := Q,
      bids_by_price := None, asks_by_price := None\<rparr>)"
    using P(1) Q1(1) Q(1) by (simp add: clear_book_def)
  then show thesis
    by (rule that) (use P empty Q Q1 D(7,8) in simp_all)
qed

lemma clear_update_run:
  assumes "clear_book b = Inr b1"
  shows "OnMarketUpdate (clear_update t) b = Inr (b1, OnOrderBookUpdate_call)"
proof -
  have "\<not> bid_updated (clear_update t) b" "\<not> ask_updated (clear_update t) b"
    by (simp_all add: bid_updated_def ask_updated_def clear_update_def MEMarketUpdate_default_def split: option.split)
  then show ?thesis
    using assms by (simp add: OnMarketUpdate_def apply_update_def clear_update_def UpdateBbo_def)
qed

text \<open>CLEAR empties both sides, and the quotes still show the orders that are gone.\<close>

lemma clear_keeps_quotes:
  assumes "tb_ok b L"
  shows "\<exists>b1. OnMarketUpdate (clear_update t) b = Inr (b1, OnOrderBookUpdate_call) \<and>
    bids_by_price b1 = None \<and> asks_by_price b1 = None \<and> bbo b1 = bbo b"
  by (rule clear_book_ok [OF assms]) (auto dest: clear_update_run [of _ _ t])

text \<open>Adding at a slot that still points to a level of before the CLEAR.\<close>

lemma link_order_stale:
  assumes slot: "GetOrdersAtPrice (o_price (ord b x)) b = Some a" and l: "l_first_order (lvl b a) = Some f"
    and prev: "f \<noteq> x \<Longrightarrow> o_prev_order (ord b f) \<noteq> None" "f = x \<Longrightarrow> o_prev_order (ord b f) = None"
  shows "link_order x b = Inl Null_deref \<or>
    (\<exists>P. link_order x b = Inr (b\<lparr>order_pool := P\<rparr>) \<and> o_order_id (obj P x) = o_order_id (ord b x))"
proof (cases "f = x")
  case True
  with slot l prev(2) show ?thesis by (simp add: link_order_def set_order_def)
next
  case False
  then obtain p where p: "o_prev_order (ord b f) = Some p" using prev(1) by blast
  let ?P1 = "upd_obj p (o_next_order_update (\<lambda>_. Some x)) (order_pool b)"
  let ?P = "upd_obj f (o_prev_order_update (\<lambda>_. Some x)) (upd_obj x (o_next_order_update (\<lambda>_. Some f))
    (upd_obj x (o_prev_order_update (\<lambda>_. o_prev_order (obj ?P1 f))) ?P1))"
  have "link_order x b = Inr (b\<lparr>order_pool := ?P\<rparr>)"
    using slot l p False by (simp add: link_order_def)
  moreover have "o_order_id (obj ?P x) = o_order_id (ord b x)" using False by simp
  ultimately show ?thesis by blast
qed

text \<open>The level an order is in, as the price slots find it.\<close>

lemma order_in_level:
  assumes book: "book_ok b L" and y: "y \<in> set (addrs (all_levels L))"
  obtains a f where "GetOrdersAtPrice (o_price (ord b y)) b = Some a" "l_first_order (lvl b a) = Some f"
    "o_prev_order (ord b f) \<noteq> None"
proof -
  obtain lv where lv: "lv \<in> set (all_levels L)" "y \<in> set (snd lv)" using y unfolding in_addrs_iff by blast
  then obtain s where s: "trade_side s" "lv \<in> set (L s)" by auto
  note so = book_okD(1) [OF book s(1)]
  have price: "lprice b lv = o_price (ord b y)" using order_price [OF so s(2) lv(2)] by simp
  have lok: "level_ok b s lv" using so s(2) by (simp add: side_ok_def)
  obtain f ys where fs: "snd lv = f # ys" using lv(2) by (cases "snd lv") auto
  have "l_first_order (lvl b (fst lv)) = Some f" "o_prev_order (ord b f) \<noteq> None"
    using lok ring_prev_hd(1) [of _ "\<lambda>x. o_prev_order (ord b x)" f ys] by (auto simp: level_ok_def fs)
  moreover have "GetOrdersAtPrice (o_price (ord b y)) b = Some (fst lv)" using price_slot [OF book lv(1)] price by simp
  ultimately show thesis using that by blast
qed

text \<open>An ADD to a book whose orders are gone while a slot still holds the level of its price.\<close>

lemma add_to_stale_level:
  assumes upd: "mu_type u = MarketUpdateType_ADD" "unat (mu_order_id u) < ME_MAX_ORDER_IDS"
    and none: "bids_by_price b = None" "asks_by_price b = None"
    and pool: "pool_ok (order_pool b)" "live (order_pool b) = {}" "store_size (order_pool b) = ME_MAX_ORDER_IDS"
    and slot: "GetOrdersAtPrice (mu_price u) b = Some a" "l_first_order (lvl b a) = Some f" "o_prev_order (ord b f) \<noteq> None"
  shows "OnMarketUpdate u b = Inl Null_deref \<or>
    (\<exists>b'. OnMarketUpdate u b = Inr (b', OnOrderBookUpdate_call) \<and> oid_to_order b' (unat (mu_order_id u)) \<noteq> None \<and>
       bids_by_price b' = None \<and> asks_by_price b' = None)"
proof -
  obtain x R where R: "Allocate (as_order u) (order_pool b) = Inr (x, R)" "obj R x = as_order u"
    "\<And>z. z \<noteq> x \<Longrightarrow> obj R z = ord b z"
    using mem_pool.allocE [OF pool(1), of "as_order u" thesis] pool(2,3) by (simp add: ME_MAX_ORDER_IDS_def)
  let ?b2 = "b\<lparr>order_pool := R\<rparr>"
  have "GetOrdersAtPrice (o_price (ord ?b2 x)) ?b2 = Some a"
    using R(2) slot(1) by (simp add: GetOrdersAtPrice_def as_order_def)
  then have "link_order x ?b2 = Inl Null_deref \<or>
    (\<exists>P. link_order x ?b2 = Inr (?b2\<lparr>order_pool := P\<rparr>) \<and> o_order_id (obj P x) = o_order_id (ord ?b2 x))"
    by (rule link_order_stale [of _ _ _ f]) (use slot R in \<open>simp_all add: as_order_def\<close>)
  moreover have add: "apply_update u b = tb_AddOrder x ?b2"
    using R(1) upd(1) by (simp add: apply_update_def as_order_def [symmetric])
  ultimately consider "apply_update u b = Inl Null_deref"
    | V where "apply_update u b = Inr (?b2\<lparr>order_pool := V, oid_to_order := (oid_to_order b)(unat (mu_order_id u) := Some x)\<rparr>)"
    using R(2) upd(2) by (auto simp: tb_AddOrder_link set_oid_def as_order_def)
  then show ?thesis
  proof cases
    case 1
    then show ?thesis using upd(1) by (simp add: OnMarketUpdate_def)
  next
    case (2 V)
    moreover have "\<not> bid_updated u b" "\<not> ask_updated u b" by (simp_all add: bid_updated_def ask_updated_def none)
    ultimately show ?thesis using upd(1) none by (simp add: OnMarketUpdate_def UpdateBbo_def)
  qed
qed

text \<open>
  C10: CLEAR does not reset the slots of the levels it gives back. A later ADD at a price that had a
  level follows the stale pointer: it dereferences null, or it links the new order into the freed level
  and neither side of the book ever shows it.
\<close>

theorem clear_leaves_stale_levels:
  assumes "tb_ok b L" "q \<in> set (order_list (tb_orders b L))"
    and "mu_type u = MarketUpdateType_ADD" "mu_price u = o_price q" "unat (mu_order_id u) < ME_MAX_ORDER_IDS"
  shows "\<exists>b1. OnMarketUpdate (clear_update t) b = Inr (b1, OnOrderBookUpdate_call) \<and>
    (OnMarketUpdate u b1 = Inl Null_deref \<or>
     (\<exists>b2. OnMarketUpdate u b1 = Inr (b2, OnOrderBookUpdate_call) \<and> oid_to_order b2 (unat (mu_order_id u)) \<noteq> None \<and>
        bids_by_price b2 = None \<and> asks_by_price b2 = None))"
proof -
  obtain P Q where clear: "clear_book b = Inr (b\<lparr>order_pool := P, oid_to_order := (\<lambda>_. None),
      orders_at_price_pool := Q, bids_by_price := None, asks_by_price := None\<rparr>)"
    "pool_ok P" "live P = {}" "store_size P = ME_MAX_ORDER_IDS" "\<And>y. obj P y = ord b y"
    "\<And>a. obj Q a = lvl b a"
    by (rule clear_book_ok [OF assms(1)]) blast
  let ?b1 = "b\<lparr>order_pool := P, oid_to_order := (\<lambda>_. None),
      orders_at_price_pool := Q, bids_by_price := None, asks_by_price := None\<rparr>"
  obtain y where "y \<in> set (addrs (all_levels L))" "q = strip (ord b y)"
    using assms(2) unfolding tb_order_list by blast
  moreover obtain a f where "GetOrdersAtPrice (o_price (ord b y)) b = Some a" "l_first_order (lvl b a) = Some f"
    "o_prev_order (ord b f) \<noteq> None"
    by (rule order_in_level [OF tb_okD(1) [OF assms(1)] calculation(1)])
  ultimately have "OnMarketUpdate u ?b1 = Inl Null_deref \<or>
    (\<exists>b2. OnMarketUpdate u ?b1 = Inr (b2, OnOrderBookUpdate_call) \<and> oid_to_order b2 (unat (mu_order_id u)) \<noteq> None \<and>
       bids_by_price b2 = None \<and> asks_by_price b2 = None)"
    using assms(4) clear(5,6)
    by (intro add_to_stale_level [OF assms(3,5) _ _ _ _ _ _ _, where a = a and f = f])
      (simp_all add: clear(2-4) GetOrdersAtPrice_def)
  with clear_update_run [OF clear(1)] show ?thesis by blast
qed

theorem clear_leaves_stale_levels_witness:
  "\<exists>b b1. OnMarketUpdate (clear_update 2) b = Inr (b1, OnOrderBookUpdate_call) \<and>
    (OnMarketUpdate sample_add b1 = Inl Null_deref \<or>
     (\<exists>b2. OnMarketUpdate sample_add b1 = Inr (b2, OnOrderBookUpdate_call) \<and> oid_to_order b2 1 \<noteq> None \<and>
        bids_by_price b2 = None \<and> asks_by_price b2 = None))"
proof -
  obtain b L where b: "tb_ok b L" "tb_orders b L = (\<lambda>_. [])(Side_BUY := [as_order sample_add])"
    by (rule sample_book)
  have "as_order sample_add \<in> set (order_list (tb_orders b L))" by (simp add: b(2))
  from clear_leaves_stale_levels [OF b(1) this, of sample_add 2] show ?thesis
    by (simp add: sample_add_def as_order_def ME_MAX_ORDER_IDS_def) blast
qed

end
