(* ===== verification/Trading_Engine.thy ===== *)
theory Trading_Engine
  imports Trading_Strategies Trading_Book_Refinement
begin

text \<open>
  The trading engine (\<open>src/src/include/trading_engine/trading_engine.hpp\<close>,
  \<open>src/src/trading_engine/trading_engine.cpp\<close>): a book per instrument, the position keeper, the risk
  configuration, the feature engine, the order manager, and the strategy that the algorithm type
  installs as callbacks. Its loop takes all responses, then all market updates, off their queues.
\<close>

section \<open>State\<close>

record TradingEngine =
  te_order_manager :: OrderManager
  te_books :: "nat \<Rightarrow> TradingOrderBook"
  incoming_ogw_responses :: "MEClientResponse LockFreeQueue"
  te_md_updates :: "MEMarketUpdate LockFreeQueue"
  last_event_time :: i64
  feature_engine :: FeatureEngine
  position_keeper :: PositionKeeper
  te_cfg :: TradeEngineCfgMap
  te_algo :: AlgoType

text \<open>
  \<open>oids\<close>, \<open>slots\<close> and \<open>vwaps\<close> are the first contents of the arrays without initialiser.
\<close>

definition TradingEngine_new ::
  "(nat \<Rightarrow> nat \<Rightarrow> ptr) \<Rightarrow> (nat \<Rightarrow> nat \<Rightarrow> ptr) \<Rightarrow> (nat \<Rightarrow> nat \<Rightarrow> double) \<Rightarrow> ClientId \<Rightarrow> AlgoType \<Rightarrow>
   TradeEngineCfgMap \<Rightarrow> MEClientRequest LockFreeQueue \<Rightarrow> MEClientResponse LockFreeQueue \<Rightarrow>
   MEMarketUpdate LockFreeQueue \<Rightarrow> TradingEngine" where
  "TradingEngine_new oids slots vwaps client_id algo_type ticker_cfg client_requests client_responses market_updates =
     \<lparr>te_order_manager = OrderManager_new client_id client_requests,
      te_books = (\<lambda>i. TradingOrderBook_new (of_nat i) (oids i) (slots i)),
      incoming_ogw_responses = client_responses, te_md_updates = market_updates,
      last_event_time = I64 0, feature_engine = FeatureEngine_new,
      position_keeper = (\<lambda>i. PositionInfo_new (vwaps i)), te_cfg = ticker_cfg, te_algo = algo_type\<rparr>"

section \<open>Callbacks\<close>

text \<open>
  \<open>algo_on_order_book_update_\<close>, \<open>algo_on_trade_update_\<close> and \<open>algo_on_order_update_\<close>: the handlers of the
  installed strategy. Those of an algorithm without one, and two of the strategies' own, only log.
\<close>

definition algo_on_order_book_update :: "TickerId \<Rightarrow> BBO \<Rightarrow> TradingEngine \<Rightarrow> TradingEngine result" where
  "algo_on_order_book_update ticker_id q E =
     (if te_algo E = AlgoType_MAKER then
        rbind (MarketMaker_OnOrderBookUpdate (te_cfg E) (position_keeper E) (feature_engine E) ticker_id q
                 (te_order_manager E)) (\<lambda>M.
        Inr (E\<lparr>te_order_manager := M\<rparr>))
      else Inr E)"

definition algo_on_trade_update :: "MEMarketUpdate \<Rightarrow> BBO \<Rightarrow> TradingEngine \<Rightarrow> TradingEngine result" where
  "algo_on_trade_update u q E =
     (if te_algo E = AlgoType_TAKER then
        rbind (LiquidityTaker_OnTradeUpdate (te_cfg E) (position_keeper E) (feature_engine E) u q
                 (te_order_manager E)) (\<lambda>M.
        Inr (E\<lparr>te_order_manager := M\<rparr>))
      else Inr E)"

definition algo_on_order_update :: "MEClientResponse \<Rightarrow> TradingEngine \<Rightarrow> TradingEngine result" where
  "algo_on_order_update r E =
     (if te_algo E = AlgoType_MAKER \<or> te_algo E = AlgoType_TAKER then
        rbind (OnOrderUpdate r (te_order_manager E)) (\<lambda>M. Inr (E\<lparr>te_order_manager := M\<rparr>))
      else Inr E)"

section \<open>Events\<close>

definition TE_OnOrderBookUpdate :: "TickerId \<Rightarrow> TradingOrderBook \<Rightarrow> TradingEngine \<Rightarrow> TradingEngine result" where
  "TE_OnOrderBookUpdate ticker_id book E =
     rbind (PositionKeeper_UpdateBbo ticker_id (bbo book) (position_keeper E)) (\<lambda>K.
     rbind (FeatureEngine_OnOrderBookUpdate (bbo book) (feature_engine E)) (\<lambda>F.
     algo_on_order_book_update ticker_id (bbo book) (E\<lparr>position_keeper := K, feature_engine := F\<rparr>)))"

definition TE_OnTradeUpdate :: "MEMarketUpdate \<Rightarrow> TradingOrderBook \<Rightarrow> TradingEngine \<Rightarrow> TradingEngine result" where
  "TE_OnTradeUpdate u book E =
     algo_on_trade_update u (bbo book)
       (E\<lparr>feature_engine := FeatureEngine_OnTradeUpdate u (bbo book) (feature_engine E)\<rparr>)"

definition TE_OnOrderUpdate :: "MEClientResponse \<Rightarrow> TradingEngine \<Rightarrow> TradingEngine result" where
  "TE_OnOrderUpdate r E =
     rbind (if rs_type r = ClientResponseType_FILLED
            then rbind (PositionKeeper_AddFill r (position_keeper E)) (\<lambda>K. Inr (E\<lparr>position_keeper := K\<rparr>))
            else Inr E) (algo_on_order_update r)"

text \<open>\<open>OnMarketUpdate\<close> of the instrument's book, and the call it makes on the engine.\<close>

definition TE_OnMarketUpdate :: "MEMarketUpdate \<Rightarrow> TradingEngine \<Rightarrow> TradingEngine result" where
  "TE_OnMarketUpdate u E =
     (let t = unat (mu_ticker_id u) in
      rbind (ASSERT (t < ME_MAX_TICKERS) (''Unknown ticker-id on update:'' @ MEMarketUpdate_ToString u)) (\<lambda>_.
      rbind (OnMarketUpdate u (te_books E t)) (\<lambda>(book, call).
      let E = E\<lparr>te_books := (te_books E)(t := book)\<rparr>
      in case call of
           OnTradeUpdate_call \<Rightarrow> TE_OnTradeUpdate u book E
         | OnOrderBookUpdate_call \<Rightarrow> TE_OnOrderBookUpdate (mu_ticker_id u) book E)))"

lemma algo_queues [simp]:
  "algo_on_order_book_update t q E = Inr E' \<Longrightarrow>
    incoming_ogw_responses E' = incoming_ogw_responses E \<and> te_md_updates E' = te_md_updates E"
  "algo_on_trade_update u q E = Inr E' \<Longrightarrow>
    incoming_ogw_responses E' = incoming_ogw_responses E \<and> te_md_updates E' = te_md_updates E"
  "algo_on_order_update r E = Inr E' \<Longrightarrow>
    incoming_ogw_responses E' = incoming_ogw_responses E \<and> te_md_updates E' = te_md_updates E"
  by (auto simp: algo_on_order_book_update_def algo_on_trade_update_def algo_on_order_update_def
      elim!: rbind_eq_InrE split: if_splits)

lemma TE_OnOrderUpdate_queues:
  assumes "TE_OnOrderUpdate r E = Inr E'"
  shows "incoming_ogw_responses E' = incoming_ogw_responses E" "te_md_updates E' = te_md_updates E"
  using assms algo_queues(3) [of r]
  by (auto simp: TE_OnOrderUpdate_def elim!: rbind_eq_InrE split: if_splits)

lemma TE_OnMarketUpdate_queues:
  assumes "TE_OnMarketUpdate u E = Inr E'"
  shows "te_md_updates E' = te_md_updates E"
  using assms algo_queues(1) [of "mu_ticker_id u"] algo_queues(2) [of u]
  by (auto simp: TE_OnMarketUpdate_def TE_OnTradeUpdate_def TE_OnOrderBookUpdate_def
      elim!: rbind_eq_InrE split: if_splits engine_call.splits)

section \<open>The loop\<close>

text \<open>\<open>clock n\<close> is what the n-th call of \<open>GetCurrentNanos\<close> returns.\<close>

function take_responses :: "(nat \<Rightarrow> i64) \<Rightarrow> TradingEngine \<Rightarrow> TradingEngine result" where
  "take_responses clock E =
     (case GetNextToRead (incoming_ogw_responses E) of
        None \<Rightarrow> Inr E
      | Some r \<Rightarrow>
          (case TE_OnOrderUpdate r E of
             Inl e \<Rightarrow> Inl e
           | Inr E' \<Rightarrow>
               (case UpdateReadIndex (incoming_ogw_responses E') of
                  Inl e \<Rightarrow> Inl e
                | Inr q \<Rightarrow>
                    take_responses (\<lambda>n. clock (n + 1)) (E'\<lparr>incoming_ogw_responses := q, last_event_time := clock 0\<rparr>))))"
  by pat_completeness auto
termination
  by (relation "measure (\<lambda>(_, E). num_elements (incoming_ogw_responses E))")
    (auto simp: UpdateReadIndex_def TE_OnOrderUpdate_queues result_simps)

function take_updates :: "(nat \<Rightarrow> i64) \<Rightarrow> TradingEngine \<Rightarrow> TradingEngine result" where
  "take_updates clock E =
     (case GetNextToRead (te_md_updates E) of
        None \<Rightarrow> Inr E
      | Some u \<Rightarrow>
          (case TE_OnMarketUpdate u E of
             Inl e \<Rightarrow> Inl e
           | Inr E' \<Rightarrow>
               (case UpdateReadIndex (te_md_updates E') of
                  Inl e \<Rightarrow> Inl e
                | Inr q \<Rightarrow>
                    take_updates (\<lambda>n. clock (n + 1)) (E'\<lparr>te_md_updates := q, last_event_time := clock 0\<rparr>))))"
  by pat_completeness auto
termination
  by (relation "measure (\<lambda>(_, E). num_elements (te_md_updates E))")
    (auto simp: UpdateReadIndex_def TE_OnMarketUpdate_queues result_simps)

declare take_responses.simps [simp del] take_updates.simps [simp del]

definition TradingEngine_Run_once :: "(nat \<Rightarrow> i64) \<Rightarrow> (nat \<Rightarrow> i64) \<Rightarrow> TradingEngine \<Rightarrow> TradingEngine result" where
  "TradingEngine_Run_once clock clock' E = rbind (take_responses clock E) (take_updates clock')"

end
