(* ===== verification/Position_Limit.thy ===== *)
theory Position_Limit
  imports Trading_Engine
begin

text \<open>
  What the order manager and the position keeper of a trading engine do to the two numbers a risk
  limit is about: the position in an instrument, and the quantity of the orders that may still trade.
  The first part reduces the handlers of the engine to atomic actions on orders, the second shows that
  each action keeps the limit as long as the responses of the exchange are genuine.
\<close>

section \<open>Orders that may still trade\<close>

definition outstanding :: "OMOrder \<Rightarrow> bool" where
  "outstanding q \<longleftrightarrow> om_state q \<in> {OM_PENDING_NEW, OM_LIVE, OM_PENDING_CANCEL}"

definition open_qty :: "OMOrder \<Rightarrow> Qty option" where
  "open_qty q = (if outstanding q then Some (om_qty q) else None)"

abbreviation side_place :: "nat \<Rightarrow> Side \<Rightarrow> om_place" where
  "side_place t s \<equiv> (t, SideToIndex s)"

definition exposure :: "om_place \<Rightarrow> OrderManager \<Rightarrow> int" where
  "exposure p M = (case open_qty (om_order p M) of None \<Rightarrow> 0 | Some q \<Rightarrow> uint q)"

text \<open>The position cannot leave \<open>[- mx, mx]\<close>, however the outstanding orders trade.\<close>

definition within_limit :: "int \<Rightarrow> nat \<Rightarrow> PositionKeeper \<Rightarrow> OrderManager \<Rightarrow> bool" where
  "within_limit mx t K M \<longleftrightarrow>
     sint (position (K t)) + exposure (side_place t Side_BUY) M \<le> mx \<and>
     - mx \<le> sint (position (K t)) - exposure (side_place t Side_SELL) M"

lemma exposure_nonneg [simp]: "0 \<le> exposure p M"
  by (simp add: exposure_def split: option.split)

section \<open>Atomic actions\<close>

inductive om_action :: "TradeEngineCfgMap \<Rightarrow> PositionKeeper \<Rightarrow> OrderManager \<Rightarrow> OrderManager \<Rightarrow> bool"
  for cfg :: TradeEngineCfgMap and K :: PositionKeeper where
  act_cancel: "t < ME_MAX_TICKERS \<Longrightarrow> trade_side s \<Longrightarrow> om_state (om_order (side_place t s) M) = OM_LIVE \<Longrightarrow>
    om_action cfg K M (CancelOrder (side_place t s) M)"
| act_new: "trade_side s \<Longrightarrow> \<not> outstanding (om_order (side_place (unat i) s) M) \<Longrightarrow>
    CheckPreTradeRisk cfg K i s qty = Inr Risk_ALLOWED \<Longrightarrow>
    om_action cfg K M (NewOrder (side_place (unat i) s) i price s qty M)"

lemma MoveOrder_actions:
  assumes "MoveOrder cfg K (side_place (unat i) s) i price s qty M = Inr M'" "unat i < ME_MAX_TICKERS" "trade_side s"
  shows "(om_action cfg K)\<^sup>*\<^sup>* M M'"
proof (cases "om_state (om_order (side_place (unat i) s) M)")
  case OM_LIVE
  then show ?thesis using assms act_cancel [of "unat i" s M cfg K]
    by (auto simp: MoveOrder_def split: if_splits)
next
  case OM_INVALID
  then have "\<not> outstanding (om_order (side_place (unat i) s) M)" by (simp add: outstanding_def)
  then show ?thesis using assms OM_INVALID act_new [of s i M cfg K qty price]
    by (auto simp: MoveOrder_def result_simps split: if_splits)
next
  case OM_DEAD
  then have "\<not> outstanding (om_order (side_place (unat i) s) M)" by (simp add: outstanding_def)
  then show ?thesis using assms OM_DEAD act_new [of s i M cfg K qty price]
    by (auto simp: MoveOrder_def result_simps split: if_splits)
qed (use assms in \<open>auto simp: MoveOrder_def\<close>)

lemma MoveOrders_actions:
  assumes "MoveOrders cfg K i bid ask qty M = Inr M'"
  shows "(om_action cfg K)\<^sup>*\<^sup>* M M'"
proof -
  have i: "unat i < ME_MAX_TICKERS" using assms
    by (auto simp: MoveOrders_def order_place_def elim!: rbind_eq_InrE split: if_splits)
  then obtain M1 where "MoveOrder cfg K (side_place (unat i) Side_BUY) i bid Side_BUY qty M = Inr M1"
    "MoveOrder cfg K (side_place (unat i) Side_SELL) i ask Side_SELL qty M1 = Inr M'"
    using assms by (auto simp: MoveOrders_def order_place_def elim!: rbind_eq_InrE)
  then show ?thesis using MoveOrder_actions i by (metis rtranclp_trans)
qed

lemma MarketMaker_actions:
  "MarketMaker_OnOrderBookUpdate cfg K F i q M = Inr M' \<Longrightarrow> (om_action cfg K)\<^sup>*\<^sup>* M M'"
  by (auto simp: MarketMaker_OnOrderBookUpdate_def dest: MoveOrders_actions elim!: rbind_eq_InrE split: if_splits)

lemma LiquidityTaker_actions:
  "LiquidityTaker_OnTradeUpdate cfg K F u q M = Inr M' \<Longrightarrow> (om_action cfg K)\<^sup>*\<^sup>* M M'"
  by (auto simp: LiquidityTaker_OnTradeUpdate_def dest: MoveOrders_actions split: if_splits)

text \<open>A quote changes the marks of a position, not the position.\<close>

lemma UpdateBbo_position:
  "PositionKeeper_UpdateBbo i q K = Inr K' \<Longrightarrow> position (K' t) = position (K t)"
  by (auto simp: PositionKeeper_UpdateBbo_def at_ticker_def PositionInfo_UpdateBbo_def
      dest: mark_position_same elim!: rbind_eq_InrE split: if_splits)

lemma algo_on_order_book_update_frame:
  assumes "algo_on_order_book_update i q E = Inr E'"
  shows "position_keeper E' = position_keeper E \<and> te_cfg E' = te_cfg E \<and> te_algo E' = te_algo E"
    "(om_action (te_cfg E) (position_keeper E))\<^sup>*\<^sup>* (te_order_manager E) (te_order_manager E')"
  using assms by (auto simp: algo_on_order_book_update_def elim!: rbind_eq_InrE MarketMaker_actions split: if_splits)

lemma algo_on_trade_update_frame:
  assumes "algo_on_trade_update u q E = Inr E'"
  shows "position_keeper E' = position_keeper E \<and> te_cfg E' = te_cfg E \<and> te_algo E' = te_algo E"
    "(om_action (te_cfg E) (position_keeper E))\<^sup>*\<^sup>* (te_order_manager E) (te_order_manager E')"
  using assms by (auto simp: algo_on_trade_update_def elim!: rbind_eq_InrE LiquidityTaker_actions split: if_splits)

lemma TE_OnMarketUpdate_actions:
  assumes "TE_OnMarketUpdate u E = Inr E'"
  shows "te_cfg E' = te_cfg E \<and> te_algo E' = te_algo E \<and>
    (\<forall>t. position (position_keeper E' t) = position (position_keeper E t)) \<and>
    (om_action (te_cfg E) (position_keeper E'))\<^sup>*\<^sup>* (te_order_manager E) (te_order_manager E')"
proof -
  obtain book call where *: "(case call of
      OnTradeUpdate_call \<Rightarrow> TE_OnTradeUpdate u book (E\<lparr>te_books := (te_books E)(unat (mu_ticker_id u) := book)\<rparr>)
    | OnOrderBookUpdate_call \<Rightarrow>
        TE_OnOrderBookUpdate (mu_ticker_id u) book (E\<lparr>te_books := (te_books E)(unat (mu_ticker_id u) := book)\<rparr>)) = Inr E'"
    using assms by (auto simp: TE_OnMarketUpdate_def elim!: rbind_eq_InrE)
  show ?thesis
  proof (cases call)
    case OnTradeUpdate_call
    then show ?thesis using * algo_on_trade_update_frame [of u "bbo book"] by (force simp: TE_OnTradeUpdate_def)
  next
    case OnOrderBookUpdate_call
    then obtain K F where K: "PositionKeeper_UpdateBbo (mu_ticker_id u) (bbo book) (position_keeper E) = Inr K"
      "algo_on_order_book_update (mu_ticker_id u) (bbo book)
        (E\<lparr>te_books := (te_books E)(unat (mu_ticker_id u) := book), position_keeper := K, feature_engine := F\<rparr>) = Inr E'"
      using * by (auto simp: TE_OnOrderBookUpdate_def elim!: rbind_eq_InrE)
    from algo_on_order_book_update_frame [OF K(2)] UpdateBbo_position [OF K(1)] show ?thesis by simp
  qed
qed

section \<open>Genuine responses\<close>

text \<open>
  \<open>runs a rs b\<close>: the responses \<open>rs\<close> are what an exchange sends about one order that has \<open>a\<close> left to
  trade (\<open>None\<close> if there is no such order) and leave it with \<open>b\<close>.
\<close>

fun runs :: "Qty option \<Rightarrow> MEClientResponse list \<Rightarrow> Qty option \<Rightarrow> bool" where
  "runs a [] b \<longleftrightarrow> a = b"
| "runs None (r # rs) b \<longleftrightarrow> False"
| "runs (Some q) (r # rs) b \<longleftrightarrow>
     (case rs_type r of
        ClientResponseType_ACCEPTED \<Rightarrow> runs (Some q) rs b
      | ClientResponseType_CANCELED \<Rightarrow> runs None rs b
      | ClientResponseType_FILLED \<Rightarrow>
          rs_exec_qty r \<le> q \<and> rs_leaves_qty r = q - rs_exec_qty r \<and>
          runs (if rs_leaves_qty r = 0 then None else Some (rs_leaves_qty r)) rs b
      | _ \<Rightarrow> False)"

lemma runs_append: "runs a xs m \<Longrightarrow> runs m ys b \<Longrightarrow> runs a (xs @ ys) b"
  by (induction a xs m rule: runs.induct) (auto split: ClientResponseType.splits)

lemma runs_None: "runs None rs b \<longleftrightarrow> rs = [] \<and> b = None"
  by (cases rs) auto

lemma OnOrderUpdate_frame:
  assumes "OnOrderUpdate r M = Inr M'"
  shows "outgoing_ogw_requests M' = outgoing_ogw_requests M" "om_client_id M' = om_client_id M"
    "next_order_id M' = next_order_id M" "unat (rs_ticker_id r) < ME_MAX_TICKERS"
    "p \<noteq> side_place (unat (rs_ticker_id r)) (rs_side r) \<Longrightarrow> om_order p M' = om_order p M"
  using assms
  by (auto simp: OnOrderUpdate_def order_place_def elim!: rbind_eq_InrE split: if_splits ClientResponseType.splits)

lemma OnOrderUpdate_rejected:
  "OnOrderUpdate r M = Inr M' \<Longrightarrow> rs_type r = ClientResponseType_CANCEL_REJECTED \<Longrightarrow> M' = M"
  by (auto simp: OnOrderUpdate_def elim!: rbind_eq_InrE)

text \<open>The order manager follows such responses.\<close>

lemma OnOrderUpdate_runs:
  assumes "OnOrderUpdate r M = Inr M'" "runs (open_qty (om_order (side_place (unat (rs_ticker_id r)) (rs_side r)) M)) (r # rs) b"
  shows "runs (open_qty (om_order (side_place (unat (rs_ticker_id r)) (rs_side r)) M')) rs b"
  using assms
  by (auto simp: OnOrderUpdate_def order_place_def open_qty_def outstanding_def elim!: rbind_eq_InrE
      split: if_splits ClientResponseType.splits)

section \<open>Fills\<close>

lemma settle_fill_same: "settle_fill r P = Inr Q \<Longrightarrow> position Q = position P"
  by (auto simp: settle_fill_def dest!: set_vwap_same mark_position_same elim!: rbind_eq_InrE split: if_splits)

lemma AddFill_position:
  assumes "AddFill r P = Inr Q"
  shows "position Q = position P + rs_exec_qty r * of_int (SideToValue (rs_side r))"
  using assms
  by (auto simp: AddFill_def dest!: settle_fill_same fill_increases_same fill_decreases_same
      elim!: rbind_eq_InrE split: if_splits)

lemma fill_position:
  assumes "AddFill r P = Inr Q" "trade_side (rs_side r)"
    and "\<bar>sint (position P) + SideToValue (rs_side r) * uint (rs_exec_qty r)\<bar> < 2 ^ 31"
  shows "sint (position Q) = sint (position P) + SideToValue (rs_side r) * uint (rs_exec_qty r)"
proof -
  let ?i = "sint (position P) + SideToValue (rs_side r) * uint (rs_exec_qty r)"
  have "position Q = of_int ?i" using AddFill_position [OF assms(1)] by (simp add: mult.commute)
  then show ?thesis using assms(3)
    by (simp add: signed_of_int signed_take_bit_int_eq_self abs_less_iff del: of_int_add of_int_mult)
qed

section \<open>The limit\<close>

lemma within_limit_cong:
  assumes "position (K' t) = position (K t)"
    "\<And>s. trade_side s \<Longrightarrow> open_qty (om_order (side_place t s) M') = open_qty (om_order (side_place t s) M)"
  shows "within_limit mx t K' M' = within_limit mx t K M"
  using assms(1) assms(2) [of Side_BUY] assms(2) [of Side_SELL]
  by (simp add: within_limit_def exposure_def)

lemma CancelOrder_open [simp]:
  "om_state (om_order p M) = OM_LIVE \<Longrightarrow> open_qty (om_order p' (CancelOrder p M)) = open_qty (om_order p' M)"
  by (simp add: CancelOrder_def open_qty_def outstanding_def)

lemma NewOrder_open [simp]:
  "open_qty (om_order p' (NewOrder p i price s qty M)) = (if p' = p then Some qty else open_qty (om_order p' M))"
  by (simp add: NewOrder_def open_qty_def outstanding_def)

text \<open>Limits below \<open>2\<^sup>3\<^sup>1\<close>, so that the conversions to \<open>int32_t\<close> keep them.\<close>

definition cfg_ok :: "TradeEngineCfgMap \<Rightarrow> bool" where
  "cfg_ok cfg \<longleftrightarrow> (\<forall>t < ME_MAX_TICKERS.
     uint (max_order_size (risk_cfg (cfg t))) < 2 ^ 31 \<and> uint (max_position (risk_cfg (cfg t))) < 2 ^ 31)"

abbreviation limit_of :: "TradeEngineCfgMap \<Rightarrow> nat \<Rightarrow> int" where
  "limit_of cfg t \<equiv> uint (max_position (risk_cfg (cfg t)))"

lemma sint_uint_small: "uint (x :: 32 word) < 2 ^ 31 \<Longrightarrow> sint x = uint x"
  by (simp add: sint_uint signed_take_bit_int_eq_self order_trans [OF _ uint_ge_0])

lemma om_action_limit:
  assumes act: "om_action cfg K M M'" and cfg: "cfg_ok cfg" and t: "t < ME_MAX_TICKERS"
    and lim: "within_limit (limit_of cfg t) t K M"
  shows "within_limit (limit_of cfg t) t K M'"
  using act
proof cases
  case (act_cancel t' s)
  then show ?thesis using lim within_limit_cong [of K t K M' M] by simp
next
  case (act_new s i qty price)
  note allowed = CheckPreTradeRisk_allowed [OF act_new(4)]
  show ?thesis
  proof (cases "unat i = t")
    case True
    have mx: "uint (max_order_size (risk_cfg (cfg t))) < 2 ^ 31" "limit_of cfg t < 2 ^ 31"
      using cfg t by (simp_all add: cfg_ok_def)
    have "uint qty < 2 ^ 31" using allowed(2) mx(1) True by (simp add: word_le_def)
    then have "\<bar>sint (position (K t)) + SideToValue s * uint qty\<bar> \<le> limit_of cfg t"
      using allowed(3) True sint_uint_small [of qty] sint_uint_small [OF mx(2)] by simp
    then show ?thesis using act_new(1,2) lim True
      by (auto simp: within_limit_def exposure_def)
  next
    case False
    then show ?thesis using lim act_new(1) within_limit_cong [of K t K M' M] by simp
  qed
qed

lemma om_actions_limit:
  assumes "(om_action cfg K)\<^sup>*\<^sup>* M M'" "cfg_ok cfg" "t < ME_MAX_TICKERS" "within_limit (limit_of cfg t) t K M"
  shows "within_limit (limit_of cfg t) t K M'"
  using assms by (induction rule: rtranclp_induct) (auto intro: om_action_limit)

text \<open>A genuine fill moves quantity from the orders to the position.\<close>

lemma fill_limit:
  assumes fill: "AddFill r P = Inr Q" and s: "trade_side (rs_side r)" and ty: "rs_type r = ClientResponseType_FILLED"
    and upd: "OnOrderUpdate r M = Inr M'"
    and run: "runs (open_qty (om_order (side_place (unat (rs_ticker_id r)) (rs_side r)) M)) (r # rs) b"
    and lim: "within_limit mx (unat (rs_ticker_id r)) K M" and mx: "mx < 2 ^ 31"
    and K: "K (unat (rs_ticker_id r)) = P" "K' (unat (rs_ticker_id r)) = Q"
  shows "within_limit mx (unat (rs_ticker_id r)) K' M'"
proof -
  let ?t = "unat (rs_ticker_id r)" and ?s = "rs_side r"
  let ?o = "om_order (side_place ?t ?s) M" and ?o' = "om_order (side_place ?t ?s) M'"
  have out: "outstanding ?o" "rs_exec_qty r \<le> om_qty ?o"
    using run ty by (auto simp: open_qty_def split: if_splits)
  have o': "?o' = ?o\<lparr>om_qty := om_qty ?o - rs_exec_qty r,
      om_state := if om_qty ?o = rs_exec_qty r then OM_DEAD else om_state ?o\<rparr>"
    using upd ty run out by (auto simp: OnOrderUpdate_def order_place_def open_qty_def elim!: rbind_eq_InrE split: if_splits)
  have ex: "exposure (side_place ?t ?s) M = uint (om_qty ?o)"
    "exposure (side_place ?t ?s) M' = uint (om_qty ?o) - uint (rs_exec_qty r)"
    using out by (auto simp: exposure_def open_qty_def o' outstanding_def uint_sub_if' word_le_def)
  have other: "exposure (side_place ?t s') M' = exposure (side_place ?t s') M" if "trade_side s'" "s' \<noteq> ?s" for s'
    using OnOrderUpdate_frame(5) [OF upd, of "side_place ?t s'"] that s by (auto simp: exposure_def)
  have le: "uint (rs_exec_qty r) \<le> uint (om_qty ?o)" using out(2) by (simp add: word_le_def)
  have "\<bar>sint (position P) + SideToValue ?s * uint (rs_exec_qty r)\<bar> < 2 ^ 31"
    using lim mx le ex(1) s exposure_nonneg [of "side_place ?t (other_side ?s)" M] uint_ge_0 [of "rs_exec_qty r"]
    by (auto simp: within_limit_def K other_side_def abs_less_iff
        simp del: exposure_nonneg unsigned_greater_eq uint_ge_0)
  from fill_position [OF fill s this]
  have pos: "sint (position Q) = sint (position P) + SideToValue ?s * uint (rs_exec_qty r)" .
  show ?thesis
    using lim s ex pos other [of "other_side ?s"] le uint_ge_0 [of "rs_exec_qty r"]
    by (auto simp: within_limit_def K other_side_def simp del: unsigned_greater_eq uint_ge_0)
qed

end
