(* ===== verification/Client_View.thy ===== *)
theory Client_View
  imports Matching_Engine Position_Limit
begin

text \<open>
  The exchange seen by one client: the responses a request causes for the orders of a client on one
  side of a book are, in order, a genuine account (\<open>runs\<close>) of what happens to these orders.
\<close>

section \<open>A client's part\<close>

definition own :: "ClientId \<Rightarrow> ExchangeOrder list \<Rightarrow> ExchangeOrder list" where
  "own c qs = filter (\<lambda>q. o_client_id q = c) qs"

definition told :: "ClientId \<Rightarrow> Side \<Rightarrow> engine_message list \<Rightarrow> MEClientResponse list" where
  "told c s ms = filter (\<lambda>r. rs_client_id r = c \<and> rs_side r = s) (responses ms)"

text \<open>The quantities of the orders a client has, when it is at most one.\<close>

fun open_list :: "Qty option \<Rightarrow> Qty list" where
  "open_list None = []"
| "open_list (Some q) = (if q = 0 then [] else [q])"

lemma own_simps [simp]:
  "own c [] = []" "own c (q # qs) = (if o_client_id q = c then q # own c qs else own c qs)"
  "own c (qs @ rs) = own c qs @ own c rs"
  by (simp_all add: own_def)

lemma told_simps [simp]:
  "told c s [] = []" "told c s (Update u # ms) = told c s ms"
  "told c s (Response r # ms) = (if rs_client_id r = c \<and> rs_side r = s then r # told c s ms else told c s ms)"
  "told c s (ms @ ms') = told c s ms @ told c s ms'"
  by (simp_all add: told_def)

lemma open_list_Cons: "q # qs = open_list b \<longleftrightarrow> b = Some q \<and> q \<noteq> 0 \<and> qs = []"
  by (cases b) auto

section \<open>Matching\<close>

definition in_fill :: "TickerId \<Rightarrow> ClientId \<Rightarrow> Side \<Rightarrow> OrderId \<Rightarrow> OrderId \<Rightarrow> Qty \<Rightarrow> ExchangeOrder \<Rightarrow> MEClientResponse" where
  "in_fill t c s co mo l q =
     \<lparr>rs_type = ClientResponseType_FILLED, rs_client_id = c, rs_ticker_id = t, rs_client_order_id = co,
      rs_market_order_id = mo, rs_side = s, rs_price = o_price q, rs_exec_qty = min l (o_qty q),
      rs_leaves_qty = l - min l (o_qty q)\<rparr>"

definition rest_fill :: "TickerId \<Rightarrow> Qty \<Rightarrow> ExchangeOrder \<Rightarrow> MEClientResponse" where
  "rest_fill t l q =
     \<lparr>rs_type = ClientResponseType_FILLED, rs_client_id = o_client_id q, rs_ticker_id = t,
      rs_client_order_id = o_client_order_id q, rs_market_order_id = o_order_id q, rs_side = o_side q,
      rs_price = o_price q, rs_exec_qty = min l (o_qty q), rs_leaves_qty = o_qty q - min l (o_qty q)\<rparr>"

lemma responses_match [simp]:
  "responses (match_messages t c s co mo l q) = [in_fill t c s co mo l q, rest_fill t l q]"
  by (simp add: match_messages_def in_fill_def rest_fill_def)

lemma fill_fields [simp]:
  "rs_client_id (in_fill t c s co mo l q) = c" "rs_side (in_fill t c s co mo l q) = s"
  "rs_client_id (rest_fill t l q) = o_client_id q" "rs_side (rest_fill t l q) = o_side q"
  "rs_type (in_fill t c s co mo l q) = ClientResponseType_FILLED" "rs_type (rest_fill t l q) = ClientResponseType_FILLED"
  "rs_exec_qty (in_fill t c s co mo l q) = min l (o_qty q)" "rs_exec_qty (rest_fill t l q) = min l (o_qty q)"
  "rs_leaves_qty (in_fill t c s co mo l q) = l - min l (o_qty q)"
  "rs_leaves_qty (rest_fill t l q) = o_qty q - min l (o_qty q)"
  "rs_ticker_id (in_fill t c s co mo l q) = t" "rs_ticker_id (rest_fill t l q) = t"
  by (simp_all add: in_fill_def rest_fill_def)

lemma told_match [simp]:
  "told c' s' (match_messages t c s co mo l q) =
     (if c = c' \<and> s = s' then [in_fill t c s co mo l q] else []) @
     (if o_client_id q = c' \<and> o_side q = s' then [rest_fill t l q] else [])"
  by (simp add: told_def)

text \<open>The orders that rest.\<close>

lemma match_tells_resting:
  assumes "spec_match t c0 s0 co mo p l qs = (l', qs', gone, ms)"
    and "\<forall>q\<in>set qs. o_side q = s \<and> o_qty q \<noteq> 0" "s \<noteq> s0" "map o_qty (own c qs) = open_list b"
  shows "\<exists>b'. runs b (told c s ms) b' \<and> map o_qty (own c qs') = open_list b'"
  using assms
proof (induction t c0 s0 co mo p l qs arbitrary: l' qs' gone ms b rule: spec_match.induct)
  case (2 t c0 s0 co mo p l q qs)
  obtain l2 qs2 gone2 ms2 where r:
    "spec_match t c0 s0 co mo p (l - min l (o_qty q)) qs = (l2, qs2, gone2, ms2)" by (metis prod_cases4)
  have q: "o_side q = s" "o_qty q \<noteq> 0" "\<forall>q\<in>set qs. o_side q = s \<and> o_qty q \<noteq> 0" using "2.prems"(2) by simp_all
  consider (stop) "l = 0 \<or> not_crossed s0 p (o_price q)"
    | (gone) "\<not> (l = 0 \<or> not_crossed s0 p (o_price q))" "o_qty q - min l (o_qty q) = 0"
    | (part) "\<not> (l = 0 \<or> not_crossed s0 p (o_price q))" "o_qty q - min l (o_qty q) \<noteq> 0" by blast
  then show ?case
  proof cases
    case stop
    with "2.prems"(1,4) show ?thesis by (intro exI [of _ b]) auto
  next
    case gone
    have res: "qs' = qs2" "ms = match_messages t c0 s0 co mo l q @ ms2" using "2.prems"(1) gone r by auto
    show ?thesis
    proof (cases "o_client_id q = c")
      case True
      then have b: "b = Some (o_qty q)" "own c qs = []" using "2.prems"(4) by (auto simp: open_list_Cons)
      obtain b' where b': "runs None (told c s ms2) b'" "map o_qty (own c qs2) = open_list b'"
        using "2.IH" [OF gone r q(3) "2.prems"(3), of None] b(2) by auto
      show ?thesis using b' True q(1) "2.prems"(3) gone(2) by (auto simp: res b(1))
    next
      case False
      then show ?thesis using "2.IH" [OF gone r q(3) "2.prems"(3), of b] "2.prems"(3,4) by (auto simp: res)
    qed
  next
    case part
    have res: "qs' = q\<lparr>o_qty := o_qty q - min l (o_qty q)\<rparr> # qs" "ms = match_messages t c0 s0 co mo l q"
      using "2.prems"(1) part by auto
    show ?thesis
    proof (cases "o_client_id q = c")
      case True
      then have b: "b = Some (o_qty q)" "own c qs = []" using "2.prems"(4) by (auto simp: open_list_Cons)
      show ?thesis using True q(1) "2.prems"(3) part(2)
        by (intro exI [of _ "Some (o_qty q - min l (o_qty q))"]) (auto simp: res b)
    next
      case False
      then show ?thesis using "2.prems"(3,4) by (intro exI [of _ b]) (auto simp: res)
    qed
  qed
qed auto

text \<open>The incoming order.\<close>

lemma match_tells_incoming:
  assumes "spec_match t c0 s0 co mo p l qs = (l', qs', gone, ms)" "\<forall>q\<in>set qs. o_side q \<noteq> s0"
  shows "\<exists>b'. runs (Some l) (told c0 s0 ms) b' \<and> open_list b' = (if l' = 0 then [] else [l'])"
  using assms
proof (induction t c0 s0 co mo p l qs arbitrary: l' qs' gone ms rule: spec_match.induct)
  case (1 t c s co mo p l)
  then show ?case by (intro exI [of _ "Some l"]) auto
next
  case (2 t c0 s0 co mo p l q qs)
  obtain l2 qs2 gone2 ms2 where r:
    "spec_match t c0 s0 co mo p (l - min l (o_qty q)) qs = (l2, qs2, gone2, ms2)" by (metis prod_cases4)
  consider (stop) "l = 0 \<or> not_crossed s0 p (o_price q)"
    | (gone) "\<not> (l = 0 \<or> not_crossed s0 p (o_price q))" "o_qty q - min l (o_qty q) = 0"
    | (part) "\<not> (l = 0 \<or> not_crossed s0 p (o_price q))" "o_qty q - min l (o_qty q) \<noteq> 0" by blast
  then show ?case
  proof cases
    case stop
    with "2.prems"(1) show ?thesis by (intro exI [of _ "Some l"]) auto
  next
    case gone
    have res: "l' = l2" "ms = match_messages t c0 s0 co mo l q @ ms2" using "2.prems"(1) gone r by auto
    obtain b' where b': "runs (Some (l - min l (o_qty q))) (told c0 s0 ms2) b'"
      "open_list b' = (if l2 = 0 then [] else [l2])"
      using "2.IH" [OF gone r] "2.prems"(2) by auto
    show ?thesis
    proof (cases "l - min l (o_qty q) = 0")
      case True
      then have "ms2 = []" "l2 = 0" using r by (cases qs; auto)+
      then show ?thesis using True "2.prems"(2) by (intro exI [of _ None]) (auto simp: res)
    next
      case False
      then show ?thesis using b' "2.prems"(2) by (intro exI [of _ b']) (auto simp: res)
    qed
  next
    case part
    have res: "l' = l - min l (o_qty q)" "ms = match_messages t c0 s0 co mo l q"
      using "2.prems"(1) part by auto
    have "min l (o_qty q) = l" using part by (auto simp: min_def split: if_splits)
    then show ?thesis using "2.prems"(2) by (intro exI [of _ None]) (auto simp: res)
  qed
qed

lemma match_tells_others:
  assumes "spec_match t c0 s0 co mo p l qs = (l', qs', gone, ms)" "\<forall>q\<in>set qs. o_side q \<noteq> s0" "c \<noteq> c0"
  shows "told c s0 ms = []"
  using assms
proof (induction t c0 s0 co mo p l qs arbitrary: l' qs' gone ms rule: spec_match.induct)
  case (2 t c0 s0 co mo p l q qs)
  obtain l2 qs2 gone2 ms2 where r:
    "spec_match t c0 s0 co mo p (l - min l (o_qty q)) qs = (l2, qs2, gone2, ms2)" by (metis prod_cases4)
  show ?case using "2.prems" "2.IH" [OF _ _ r] r by (auto split: if_splits)
qed simp

section \<open>Requests\<close>

text \<open>What the view needs of a book: sides and ids in order, and an index that points into the book.\<close>

definition view_ok :: "ExchangeSpec \<Rightarrow> bool" where
  "view_ok S \<longleftrightarrow>
     (\<forall>s. trade_side s \<longrightarrow> (\<forall>q\<in>set (sp_orders S s). o_side q = s \<and> o_qty q \<noteq> 0)) \<and>
     distinct (map o_order_id (spec_orders S)) \<and>
     (\<forall>c i mo. sp_index S (c, i) = Some mo \<longrightarrow> (\<exists>q\<in>set (spec_orders S). o_order_id q = mo \<and> o_client_id q = c))"

lemma view_okD:
  assumes "view_ok S" "trade_side s" "q \<in> set (sp_orders S s)"
  shows "o_side q = s" "o_qty q \<noteq> 0"
  using assms by (auto simp: view_ok_def)

lemma own_filter: "own c (filter P qs) = filter P (own c qs)"
  by (simp add: own_def conj_commute)

lemma own_split: "own c (takeWhile P qs) @ own c (dropWhile P qs) = own c qs"
  by (metis own_simps(3) takeWhile_dropWhile_id)

lemma own_insert:
  "o_client_id q \<noteq> c \<Longrightarrow> own c (spec_insert s q qs) = own c qs"
  "o_client_id q = c \<Longrightarrow> own c qs = [] \<Longrightarrow> own c (spec_insert s q qs) = [q]"
  using own_split [of c "\<lambda>r. \<not> goes_after s (o_price r) (o_price q)" qs] by (auto simp: spec_insert_def)

lemma other_other [simp]: "trade_side s \<Longrightarrow> other_side (other_side s) = s" "trade_side s \<Longrightarrow> trade_side (other_side s)"
  "trade_side s \<Longrightarrow> other_side s \<noteq> s"
  by (auto simp: other_side_def)

lemma two_sides: "trade_side s \<Longrightarrow> trade_side s' \<Longrightarrow> s' \<noteq> s \<Longrightarrow> s' = other_side s"
  by (auto simp: other_side_def)

text \<open>A new order.\<close>

lemma add_parts:
  assumes "spec_match t c s co (fill_id (sp_next S)) p qty (sp_orders S (other_side s)) = (l, opp, gone, ms)"
    "trade_side s" "sp_sent S = []"
  shows "sp_orders (spec_add c co t s p qty S) (other_side s) = opp"
    "sp_orders (spec_add c co t s p qty S) s =
      (if l = 0 then sp_orders S s
       else spec_insert s (spec_order c co t s p l (sp_next S) (spec_priority p (sp_orders S s))) (sp_orders S s))"
    "told c' s' (sp_sent (spec_add c co t s p qty S)) =
      (if c = c' \<and> s = s' then accepted c co t s p qty (sp_next S) # told c' s' ms else told c' s' ms)"
  using assms other_other(3) [OF assms(2)] by (simp_all add: spec_add_def accepted_def)

lemma add_tells:
  assumes ok: "view_ok S" and empty: "sp_sent S = []" and s: "trade_side s" "trade_side s'"
    and own: "map o_qty (own c' (sp_orders S s')) = open_list b" and other: "\<not> (c' = c \<and> s' = s)"
  shows "\<exists>b'. runs b (told c' s' (sp_sent (spec_add c co t s p qty S))) b' \<and>
    map o_qty (own c' (sp_orders (spec_add c co t s p qty S) s')) = open_list b'"
proof -
  obtain l opp gone ms where m:
    "spec_match t c s co (fill_id (sp_next S)) p qty (sp_orders S (other_side s)) = (l, opp, gone, ms)"
    by (metis prod_cases4)
  note parts = add_parts [OF m s(1) empty]
  have opp: "\<forall>q\<in>set (sp_orders S (other_side s)). o_side q = other_side s \<and> o_qty q \<noteq> 0"
    using view_okD [OF ok, of "other_side s"] s(1) by simp
  show ?thesis
  proof (cases "s' = s")
    case True
    then have "c \<noteq> c'" using other by simp
    moreover have "told c' s ms = []"
      using match_tells_others [OF m] opp s(1) \<open>c \<noteq> c'\<close> by (metis other_other(3))
    ultimately show ?thesis using own True
      by (intro exI [of _ b]) (simp add: parts own_insert(1) spec_order_def)
  next
    case False
    then have so: "s' = other_side s" using s two_sides by blast
    then show ?thesis using match_tells_resting [OF m opp other_other(3) [OF s(1)]] own False
      by (simp add: parts)
  qed
qed

lemma add_tells_own:
  assumes ok: "view_ok S" and empty: "sp_sent S = []" and s: "trade_side s"
    and own: "own c (sp_orders S s) = []"
  shows "\<exists>b'. runs (Some qty) (told c s (sp_sent (spec_add c co t s p qty S))) b' \<and>
    map o_qty (own c (sp_orders (spec_add c co t s p qty S) s)) = open_list b'"
proof -
  obtain l opp gone ms where m:
    "spec_match t c s co (fill_id (sp_next S)) p qty (sp_orders S (other_side s)) = (l, opp, gone, ms)"
    by (metis prod_cases4)
  have "\<forall>q\<in>set (sp_orders S (other_side s)). o_side q \<noteq> s"
    using view_okD(1) [OF ok, of "other_side s"] s by simp
  from match_tells_incoming [OF m this] obtain b' where
    "runs (Some qty) (told c s ms) b'" "open_list b' = (if l = 0 then [] else [l])" by blast
  then show ?thesis using own
    by (intro exI [of _ b']) (simp add: add_parts [OF m s empty] own_insert(2) spec_order_def accepted_def)
qed

text \<open>A cancel.\<close>

lemma indexed_order:
  assumes ok: "view_ok S" and idx: "sp_index S (c, co) = Some mo"
  obtains q where "q \<in> set (spec_orders S)" "o_order_id q = mo" "o_client_id q = c"
    "\<And>r. r \<in> set (spec_orders S) \<Longrightarrow> o_order_id r = mo \<Longrightarrow> r = q"
    "hd (filter (\<lambda>r. o_order_id r = mo) (spec_orders S)) = q" "q \<in> set (sp_orders S (o_side q))" "trade_side (o_side q)"
proof -
  obtain q where q: "q \<in> set (spec_orders S)" "o_order_id q = mo" "o_client_id q = c"
    using assms unfolding view_ok_def by blast
  have dist: "distinct (map o_order_id (spec_orders S))" using ok by (simp add: view_ok_def)
  have uniq: "r = q" if "r \<in> set (spec_orders S)" "o_order_id r = mo" for r
    using dist that q(1,2) by (metis distinct_map inj_on_def)
  have "filter (\<lambda>r. o_order_id r = mo) (spec_orders S) \<noteq> []" using q by (auto simp: filter_empty_conv)
  then have "hd (filter (\<lambda>r. o_order_id r = mo) (spec_orders S)) \<in> set (filter (\<lambda>r. o_order_id r = mo) (spec_orders S))"
    by (rule hd_in_set)
  then have hd: "hd (filter (\<lambda>r. o_order_id r = mo) (spec_orders S)) = q" using uniq by simp
  have "q \<in> set (sp_orders S (o_side q)) \<and> trade_side (o_side q)"
    using q(1) view_okD(1) [OF ok, of Side_BUY q] view_okD(1) [OF ok, of Side_SELL q] by (auto simp: spec_orders_def)
  then show thesis using that q uniq hd by blast
qed

lemma cancel_tells:
  assumes ok: "view_ok S" and empty: "sp_sent S = []" and s: "trade_side s"
    and own: "map o_qty (own c' (sp_orders S s)) = open_list b"
  shows "\<exists>b'. runs b (told c' s (sp_sent (spec_cancel c co t S))) b' \<and>
    map o_qty (own c' (sp_orders (spec_cancel c co t S) s)) = open_list b'"
proof (cases "sp_index S (c, co)")
  case None
  then show ?thesis using own empty s by (intro exI [of _ b]) (auto simp: spec_cancel_def)
next
  case (Some mo)
  then obtain q where q: "q \<in> set (spec_orders S)" "o_order_id q = mo" "o_client_id q = c"
    and uniq: "\<And>r. r \<in> set (spec_orders S) \<Longrightarrow> o_order_id r = mo \<Longrightarrow> r = q"
    and hd: "hd (filter (\<lambda>r. o_order_id r = mo) (spec_orders S)) = q" and side: "q \<in> set (sp_orders S (o_side q))"
    by (rule indexed_order [OF ok]) blast
  have S': "sp_orders (spec_cancel c co t S) s =
      (if s = o_side q then filter (\<lambda>r. o_order_id r \<noteq> mo) (sp_orders S s) else sp_orders S s)"
    using Some hd by (simp add: spec_cancel_def)
  have all: "r \<in> set (spec_orders S)" if "r \<in> set (sp_orders S s)" for r using that s by (auto simp: spec_orders_def)
  show ?thesis
  proof (cases "c' = c \<and> s = o_side q")
    case True
    then have "q \<in> set (own c (sp_orders S s))" using side q(3) by (simp add: own_def)
    then have one: "own c (sp_orders S s) = [q]" "b = Some (o_qty q)"
      using own True by (cases "own c (sp_orders S s)"; auto simp: open_list_Cons)+
    have "own c' (sp_orders (spec_cancel c co t S) s) = []" using True one(1) q(2) unfolding S' by (simp add: own_filter)
    moreover have "runs b (told c' s (sp_sent (spec_cancel c co t S))) None"
      using True Some hd empty q(3) by (simp add: one(2) spec_cancel_def)
    ultimately show ?thesis by (intro exI [of _ None]) simp
  next
    case False
    have "own c' (sp_orders (spec_cancel c co t S) s) = own c' (sp_orders S s)"
    proof (cases "s = o_side q")
      case True
      then have "\<forall>r\<in>set (own c' (sp_orders S s)). o_order_id r \<noteq> mo"
        using False q(3) uniq all by (auto simp: own_def)
      then show ?thesis using True unfolding S' by (simp add: own_filter)
    qed (simp add: S')
    moreover have "told c' s (sp_sent (spec_cancel c co t S)) = []"
      using False Some hd empty q(3) by (auto simp: spec_cancel_def)
    ultimately show ?thesis using own by (intro exI [of _ b]) simp
  qed
qed

section \<open>The engine's books\<close>

lemma view_ok_book:
  assumes "exchange_inv b L"
  shows "view_ok (abs_book b L)"
  unfolding view_ok_def
proof (intro conjI allI impI ballI)
  have ok: "eob_ok b L" and mk: "market_ok (abs_book b L)" using assms by (simp_all add: exchange_inv_def)
  note D = eob_okD [OF ok]
  fix s q assume s: "trade_side s" and q: "q \<in> set (sp_orders (abs_book b L) s)"
  have "side_wf s (sp_next (abs_book b L)) (sp_orders (abs_book b L) s)" using mk s by (auto simp: market_ok_def)
  then show "o_side q = s" "o_qty q \<noteq> 0" using q by (auto simp: side_wf_def)
next
  have ok: "eob_ok b L" using assms by (simp add: exchange_inv_def)
  note D = eob_okD [OF ok]
  have d: "distinct (addrs (all_levels L))" by (rule book_okD(3) [OF D(1), of Side_BUY]) simp
  show "distinct (map o_order_id (spec_orders (abs_book b L)))"
    using d D(3,4) by (simp add: spec_orders_abs distinct_map o_def del: map_append addrs_simps)
next
  have ok: "eob_ok b L" using assms by (simp add: exchange_inv_def)
  note D = eob_okD [OF ok]
  fix c i mo assume "sp_index (abs_book b L) (c, i) = Some mo"
  then obtain x where r: "cid_oid_in_range c i" and x: "cid_oid_to_order b (unat c) (unat i) = Some x" "mo = o_order_id (ord b x)"
    by (auto simp: abs_index_def split: if_splits)
  have "x \<in> set (addrs (all_levels L))" "o_client_id (ord b x) = c" using D(8) [OF r x(1)] D(3) by simp_all
  then show "\<exists>q\<in>set (spec_orders (abs_book b L)). o_order_id q = mo \<and> o_client_id q = c"
    unfolding spec_orders_abs by (auto simp: x(2) simp del: addrs_simps)
qed

definition book_spec :: "MatchingEngine \<Rightarrow> (nat \<Rightarrow> Side \<Rightarrow> levels) \<Rightarrow> nat \<Rightarrow> ExchangeSpec" where
  "book_spec X L t = abs_book (ticker_order_book X t) (L t)"

text \<open>The orders of a client in a book of the engine.\<close>

definition client_orders :: "ClientId \<Rightarrow> MatchingEngine \<Rightarrow> (nat \<Rightarrow> Side \<Rightarrow> levels) \<Rightarrow> nat \<Rightarrow> Side \<Rightarrow> ExchangeOrder list" where
  "client_orders c X L t s = own c (sp_orders (book_spec X L t) s)"

definition is_new :: "ClientId \<Rightarrow> nat \<Rightarrow> Side \<Rightarrow> MEClientRequest \<Rightarrow> bool" where
  "is_new c t s rq \<longleftrightarrow> rq_type rq = ClientRequestType_NEW \<and> rq_client_id rq = c \<and> unat (rq_ticker_id rq) = t \<and> rq_side rq = s"

lemma engine_view:
  assumes "engine_ok X L" "t < ME_MAX_TICKERS"
  shows "view_ok (book_spec X L t)" "sp_sent (book_spec X L t) = []"
  using assms view_ok_book by (simp_all add: engine_ok_def book_spec_def)

text \<open>What one request tells the client about its orders on one side of one book.\<close>

lemma request_tells:
  assumes ok: "engine_ok X L" "t < ME_MAX_TICKERS" and t: "unat (rq_ticker_id rq) = t"
    and can: "can_process rq X" and s: "trade_side s"
    and own: "map o_qty (own c (sp_orders (book_spec X L t) s)) = open_list b"
    and new: "is_new c t s rq \<Longrightarrow> own c (sp_orders (book_spec X L t) s) = [] \<and> b' = Some (rq_qty rq)"
      "\<not> is_new c t s rq \<Longrightarrow> b' = b"
  shows "\<exists>b2. runs b' (told c s (request_messages rq X L)) b2 \<and>
    map o_qty (own c (sp_orders (spec_request rq (book_spec X L t)) s)) = open_list b2"
proof -
  note V = engine_view [OF ok]
  have ms: "request_messages rq X L = sp_sent (spec_request rq (book_spec X L t))"
    by (simp add: request_messages_def book_spec_def t)
  consider (new) "is_new c t s rq" | (add) "\<not> is_new c t s rq" "rq_type rq = ClientRequestType_NEW"
    | (cancel) "rq_type rq \<noteq> ClientRequestType_NEW" by blast
  then show ?thesis
  proof cases
    case new
    then have "rq_type rq = ClientRequestType_NEW" "rq_client_id rq = c" "rq_side rq = s" by (simp_all add: is_new_def)
    then show ?thesis using add_tells_own [OF V s] assms(7) [OF new] by (simp add: ms spec_request_def)
  next
    case add
    then have "trade_side (rq_side rq)" using can by (auto simp: can_process_def can_add_def)
    moreover have "\<not> (c = rq_client_id rq \<and> s = rq_side rq)" using add t by (auto simp: is_new_def)
    ultimately show ?thesis using add_tells [OF V _ s own] add(2) assms(8) [OF add(1)] by (simp add: ms spec_request_def)
  next
    case cancel
    then have "\<not> is_new c t s rq" by (simp add: is_new_def)
    then show ?thesis using cancel_tells [OF V s own] cancel assms(8) by (simp add: ms spec_request_def)
  qed
qed

text \<open>Every response names the instrument of the request, and a real side unless it rejects a cancel.\<close>

lemma match_responses:
  assumes "spec_match t c0 s0 co mo p l qs = (l', qs', gone, ms)" "trade_side s0" "\<forall>q\<in>set qs. trade_side (o_side q)"
  shows "\<forall>r\<in>set (responses ms). rs_ticker_id r = t \<and> trade_side (rs_side r)"
  using assms
proof (induction t c0 s0 co mo p l qs arbitrary: l' qs' gone ms rule: spec_match.induct)
  case (2 t c0 s0 co mo p l q qs)
  obtain l2 qs2 gone2 ms2 where r:
    "spec_match t c0 s0 co mo p (l - min l (o_qty q)) qs = (l2, qs2, gone2, ms2)" by (metis prod_cases4)
  show ?case using "2.prems" "2.IH" [OF _ _ r] r by (auto split: if_splits)
qed simp

lemma request_responses:
  assumes ok: "engine_ok X L" and can: "can_process rq X" and r: "r \<in> set (responses (request_messages rq X L))"
  shows "rs_ticker_id r = rq_ticker_id rq \<and> (trade_side (rs_side r) \<or> rs_type r = ClientResponseType_CANCEL_REJECTED)"
proof -
  let ?t = "unat (rq_ticker_id rq)"
  let ?S = "book_spec X L ?t"
  have t: "?t < ME_MAX_TICKERS" using can by (simp add: can_process_def)
  note V = engine_view [OF ok t]
  have r': "r \<in> set (responses (sp_sent (spec_request rq ?S)))" using r by (simp add: request_messages_def book_spec_def)
  show ?thesis
  proof (cases "rq_type rq = ClientRequestType_NEW")
    case True
    then have s: "trade_side (rq_side rq)" using can by (auto simp: can_process_def can_add_def)
    obtain l opp gone ms where m: "spec_match (rq_ticker_id rq) (rq_client_id rq) (rq_side rq) (rq_order_id rq)
        (fill_id (sp_next ?S)) (rq_price rq) (rq_qty rq) (sp_orders ?S (other_side (rq_side rq))) = (l, opp, gone, ms)"
      by (metis prod_cases4)
    have "\<forall>q\<in>set (sp_orders ?S (other_side (rq_side rq))). trade_side (o_side q)"
      using view_okD(1) [OF V(1), of "other_side (rq_side rq)"] s by (metis other_other(2))
    from match_responses [OF m s this] show ?thesis
      using r' True s m V(2) by (auto simp: spec_request_def spec_add_def accepted_def split: if_splits)
  next
    case False
    show ?thesis
    proof (cases "sp_index ?S (rq_client_id rq, rq_order_id rq)")
      case None
      then show ?thesis using r' False V(2) by (auto simp: spec_request_def spec_cancel_def)
    next
      case (Some mo)
      then obtain q where "hd (filter (\<lambda>r. o_order_id r = mo) (spec_orders ?S)) = q" "trade_side (o_side q)"
        by (rule indexed_order [OF V(1)]) blast
      then show ?thesis using r' False V(2) Some by (auto simp: spec_request_def spec_cancel_def)
    qed
  qed
qed

end
