(* ===== verification/Trading_Session.thy ===== *)
theory Trading_Session
  imports Client_View
begin

text \<open>
  A trading engine connected to the matching engine: every interleaving of market updates, gateway
  sends, network arrivals, other clients' requests, turns of the exchange and deliveries of responses.
  The handlers of the trader and the exchange are those of the code; the network and the two gateways
  between them are the in-order channels the gateway theories prove them to be. What the trader
  receives as market data is arbitrary. The trader runs one of the two strategies, the market maker or
  the liquidity taker, whose orders pass through the order manager; the conditions on queues and
  requests are at \<open>session_step\<close>.
\<close>

section \<open>The system\<close>

record Session =
  trader :: TradingEngine
  to_exchange :: "MEClientRequest list"
  exchange :: MatchingEngine
  to_client :: "MEClientResponse list"

abbreviation manager :: "Session \<Rightarrow> OrderManager" where
  "manager S \<equiv> te_order_manager (trader S)"

abbreviation session_client :: "Session \<Rightarrow> ClientId" where
  "session_client S \<equiv> om_client_id (manager S)"

definition session_start :: "Session \<Rightarrow> bool" where
  "session_start S \<longleftrightarrow>
     (\<exists>oids slots vwaps c algo cfg reqs resps upds inc out md.
        trader S = TradingEngine_new oids slots vwaps c algo cfg reqs resps upds \<and>
        algo \<in> {AlgoType_MAKER, AlgoType_TAKER} \<and>
        q_ok reqs \<and> q_list reqs = [] \<and> to_exchange S = [] \<and> to_client S = [] \<and>
        exchange S = MatchingEngine_new (\<lambda>_ _ _. None) (\<lambda>_ _. None) inc out md \<and>
        q_ok inc \<and> q_list inc = [] \<and> q_ok out \<and> q_list out = [] \<and> q_ok md)"

text \<open>
  The steps. No queue is overrun, which the code relies on and does not check: a queue has room for what
  is written to it. In a turn of the exchange the request is one the book can take (\<open>can_process\<close>: a
  known type, side and instrument, ids in range, a price slot of its own, room in the pools); a malformed
  request, also of another client, can corrupt a book or end the exchange (\<open>invalid_side_crosses\<close>,
  \<open>Process_invalid_type\<close>, \<open>Add_out_of_range\<close>). A handler that ends its process makes no step.
\<close>

abbreviation no_overrun :: "'a LockFreeQueue \<Rightarrow> bool" where
  "no_overrun q \<equiv> num_elements q \<le> q_size q"

inductive session_step :: "Session \<Rightarrow> Session \<Rightarrow> bool" where
  market_update: "TE_OnMarketUpdate u (trader S) = Inr E \<Longrightarrow>
    no_overrun (outgoing_ogw_requests (te_order_manager E)) \<Longrightarrow>
    session_step S (S\<lparr>trader := E\<rparr>)"
| order_update: "to_client S = r # rs \<Longrightarrow> TE_OnOrderUpdate r (trader S) = Inr E \<Longrightarrow>
    session_step S (S\<lparr>trader := E, to_client := rs\<rparr>)"
| gateway_sends: "GetNextToRead (outgoing_ogw_requests (manager S)) = Some rq \<Longrightarrow>
    UpdateReadIndex (outgoing_ogw_requests (manager S)) = Inr q \<Longrightarrow>
    session_step S (S\<lparr>trader := (trader S)\<lparr>te_order_manager := (manager S)\<lparr>outgoing_ogw_requests := q\<rparr>\<rparr>,
      to_exchange := to_exchange S @ [rq]\<rparr>)"
| request_arrives: "to_exchange S = rq # rqs \<Longrightarrow>
    num_elements (incoming_requests (exchange S)) < q_size (incoming_requests (exchange S)) \<Longrightarrow>
    session_step S (S\<lparr>to_exchange := rqs,
      exchange := (exchange S)\<lparr>incoming_requests := Enqueue rq (incoming_requests (exchange S))\<rparr>\<rparr>)"
| other_request: "rq_client_id rq \<noteq> session_client S \<Longrightarrow>
    num_elements (incoming_requests (exchange S)) < q_size (incoming_requests (exchange S)) \<Longrightarrow>
    session_step S (S\<lparr>exchange := (exchange S)\<lparr>incoming_requests := Enqueue rq (incoming_requests (exchange S))\<rparr>\<rparr>)"
| exchange_turn: "GetNextToRead (incoming_requests (exchange S)) = Some rq \<Longrightarrow> can_process rq (exchange S) \<Longrightarrow>
    Run_once (exchange S) = Inr X \<Longrightarrow> no_overrun (outgoing_ogw_responses X) \<Longrightarrow>
    no_overrun (outgoing_md_updates X) \<Longrightarrow> session_step S (S\<lparr>exchange := X\<rparr>)"
| response_leaves: "GetNextToRead (outgoing_ogw_responses (exchange S)) = Some r \<Longrightarrow>
    UpdateReadIndex (outgoing_ogw_responses (exchange S)) = Inr q \<Longrightarrow>
    session_step S (S\<lparr>exchange := (exchange S)\<lparr>outgoing_ogw_responses := q\<rparr>,
      to_client := to_client S @ (if rs_client_id r = session_client S then [r] else [])\<rparr>)"
| update_leaves: "UpdateReadIndex (outgoing_md_updates (exchange S)) = Inr q \<Longrightarrow>
    session_step S (S\<lparr>exchange := (exchange S)\<lparr>outgoing_md_updates := q\<rparr>\<rparr>)"

inductive session_reachable :: "Session \<Rightarrow> bool" where
  session_init: "session_start S \<Longrightarrow> session_reachable S"
| session_next: "session_reachable S \<Longrightarrow> session_step S S' \<Longrightarrow> session_reachable S'"

section \<open>Agreement on one order\<close>

definition all_requests :: "Session \<Rightarrow> MEClientRequest list" where
  "all_requests S =
     q_list (incoming_requests (exchange S)) @ to_exchange S @ q_list (outgoing_ogw_requests (manager S))"

definition all_responses :: "Session \<Rightarrow> MEClientResponse list" where
  "all_responses S = to_client S @ q_list (outgoing_ogw_responses (exchange S))"

text \<open>
  What the order manager believes (\<open>a\<close>), the new orders on their way, the responses on their way and the
  quantities that rest at the exchange fit together: after the responses the manager believes what
  rests, unless its order has not arrived yet.
\<close>

definition agree :: "Qty option \<Rightarrow> MEClientRequest list \<Rightarrow> MEClientResponse list \<Rightarrow> Qty list \<Rightarrow> bool" where
  "agree a news rs qs \<longleftrightarrow>
     (\<exists>b. runs a rs b \<and> (news = [] \<and> qs = open_list b \<or>
        (\<exists>rq. news = [rq] \<and> rs = [] \<and> qs = [] \<and> b = Some (rq_qty rq))))"

lemma agree_None: "agree None news rs qs \<longleftrightarrow> news = [] \<and> rs = [] \<and> qs = []"
  by (auto simp: agree_def runs_None)

lemma agree_new: "agree None news rs qs \<Longrightarrow> agree (Some (rq_qty rq)) (news @ [rq]) rs qs"
  by (auto simp: agree_None) (auto simp: agree_def)

lemma agree_response:
  assumes "agree a news (r # rs) qs" "\<And>b. runs a (r # rs) b \<Longrightarrow> runs a' rs b"
  shows "agree a' news rs qs"
  using assms(1) assms(2) unfolding agree_def by blast

lemma agree_old_request:
  assumes ag: "agree a news rs qs" and tells: "\<And>b. qs = open_list b \<Longrightarrow> \<exists>b2. runs b R b2 \<and> qs' = open_list b2"
  shows "agree a news (rs @ R) qs'"
proof -
  from ag obtain b where b: "runs a rs b" "news = [] \<and> qs = open_list b \<or>
        (\<exists>rq. news = [rq] \<and> rs = [] \<and> qs = [] \<and> b = Some (rq_qty rq))" by (auto simp: agree_def)
  from b(2) show ?thesis
  proof (elim disjE conjE exE)
    assume "news = []" "qs = open_list b"
    with tells [of b] b(1) show ?thesis by (auto simp: agree_def intro: runs_append)
  next
    fix rq assume *: "news = [rq]" "rs = []" "qs = []" "b = Some (rq_qty rq)"
    with tells [of None] have "R = []" "qs' = []" by (auto simp: runs_None)
    with * b(1) show ?thesis by (auto simp: agree_def)
  qed
qed

lemma agree_new_request:
  assumes ag: "agree a (rq # news) rs qs"
    and tells: "qs = [] \<Longrightarrow> \<exists>b2. runs (Some (rq_qty rq)) R b2 \<and> qs' = open_list b2"
  shows "agree a news (rs @ R) qs'"
  using ag tells by (auto simp: agree_def)

section \<open>The invariant\<close>

definition place_agrees :: "Session \<Rightarrow> (nat \<Rightarrow> Side \<Rightarrow> levels) \<Rightarrow> nat \<Rightarrow> Side \<Rightarrow> bool" where
  "place_agrees S L t s \<longleftrightarrow>
     agree (open_qty (om_order (side_place t s) (manager S)))
       (filter (is_new (session_client S) t s) (all_requests S))
       (filter (\<lambda>r. rs_client_id r = session_client S \<and> unat (rs_ticker_id r) = t \<and> rs_side r = s) (all_responses S))
       (map o_qty (client_orders (session_client S) (exchange S) L t s))"

definition responses_known :: "Session \<Rightarrow> bool" where
  "responses_known S \<longleftrightarrow>
     (\<forall>r\<in>set (all_responses S). trade_side (rs_side r) \<or> rs_type r = ClientResponseType_CANCEL_REJECTED) \<and>
     (\<forall>r\<in>set (to_client S). rs_client_id r = session_client S)"

definition session_inv :: "Session \<Rightarrow> (nat \<Rightarrow> Side \<Rightarrow> levels) \<Rightarrow> bool" where
  "session_inv S L \<longleftrightarrow>
     engine_ok (exchange S) L \<and> q_ok (outgoing_ogw_requests (manager S)) \<and> responses_known S \<and>
     te_algo (trader S) \<in> {AlgoType_MAKER, AlgoType_TAKER} \<and>
     (\<forall>t < ME_MAX_TICKERS. \<forall>s. trade_side s \<longrightarrow> place_agrees S L t s) \<and>
     (cfg_ok (te_cfg (trader S)) \<longrightarrow>
       (\<forall>t < ME_MAX_TICKERS. within_limit (limit_of (te_cfg (trader S)) t) t (position_keeper (trader S)) (manager S)))"

lemma session_invD:
  assumes "session_inv S L"
  shows "engine_ok (exchange S) L" "q_ok (outgoing_ogw_requests (manager S))" "responses_known S"
    "t < ME_MAX_TICKERS \<Longrightarrow> trade_side s \<Longrightarrow> place_agrees S L t s"
    "cfg_ok (te_cfg (trader S)) \<Longrightarrow> t < ME_MAX_TICKERS \<Longrightarrow>
      within_limit (limit_of (te_cfg (trader S)) t) t (position_keeper (trader S)) (manager S)"
    "te_algo (trader S) \<in> {AlgoType_MAKER, AlgoType_TAKER}"
  using assms unfolding session_inv_def by blast+

text \<open>Steps that only move messages along.\<close>

lemma session_inv_move:
  assumes inv: "session_inv S L"
    and "engine_ok (exchange S') L" "q_ok (outgoing_ogw_requests (manager S'))"
    and "ticker_order_book (exchange S') = ticker_order_book (exchange S)"
    and "te_cfg (trader S') = te_cfg (trader S)" "te_algo (trader S') = te_algo (trader S)" "position_keeper (trader S') = position_keeper (trader S)"
    and "om_client_id (manager S') = session_client S" "\<And>p. om_order p (manager S') = om_order p (manager S)"
    and "\<And>t s. filter (is_new (session_client S) t s) (all_requests S') = filter (is_new (session_client S) t s) (all_requests S)"
    and "filter (\<lambda>r. rs_client_id r = session_client S) (all_responses S') =
      filter (\<lambda>r. rs_client_id r = session_client S) (all_responses S)"
    and "set (all_responses S') \<subseteq> set (all_responses S)" "\<forall>r\<in>set (to_client S'). rs_client_id r = session_client S"
  shows "session_inv S' L"
proof -
  have "filter (\<lambda>r. rs_client_id r = session_client S \<and> unat (rs_ticker_id r) = t \<and> rs_side r = s) (all_responses S') =
      filter (\<lambda>r. rs_client_id r = session_client S \<and> unat (rs_ticker_id r) = t \<and> rs_side r = s) (all_responses S)" for t s
    using arg_cong [OF assms(11), of "filter (\<lambda>r. unat (rs_ticker_id r) = t \<and> rs_side r = s)"] by (simp add: conj_commute)
  then show ?thesis
    using session_invD [OF inv] assms(2-10,12,13)
    by (auto simp: session_inv_def place_agrees_def responses_known_def client_orders_def book_spec_def
        within_limit_def exposure_def)
qed

section \<open>The trader's steps\<close>

lemma order_calls:
  "om_client_id (CancelOrder p M) = om_client_id M" "om_client_id (NewOrder p i price s qty M) = om_client_id M"
  "outgoing_ogw_requests (CancelOrder p M) = Enqueue
     \<lparr>rq_type = ClientRequestType_CANCEL, rq_client_id = om_client_id M, rq_ticker_id = om_ticker_id (om_order p M),
      rq_order_id = om_order_id (om_order p M), rq_side = om_side (om_order p M), rq_price = om_price (om_order p M),
      rq_qty = om_qty (om_order p M)\<rparr> (outgoing_ogw_requests M)"
  "outgoing_ogw_requests (NewOrder p i price s qty M) = Enqueue
     \<lparr>rq_type = ClientRequestType_NEW, rq_client_id = om_client_id M, rq_ticker_id = i,
      rq_order_id = next_order_id M, rq_side = s, rq_price = price, rq_qty = qty\<rparr> (outgoing_ogw_requests M)"
  by (simp_all add: CancelOrder_def NewOrder_def)

lemma om_action_counts:
  assumes "om_action cfg K M M'"
  shows "num_elements (outgoing_ogw_requests M') = Suc (num_elements (outgoing_ogw_requests M))"
    "q_size (outgoing_ogw_requests M') = q_size (outgoing_ogw_requests M)" "om_client_id M' = om_client_id M"
  using assms by (cases; simp add: order_calls)+

lemma om_actions_counts:
  "(om_action cfg K)\<^sup>*\<^sup>* M M' \<Longrightarrow>
    num_elements (outgoing_ogw_requests M) \<le> num_elements (outgoing_ogw_requests M') \<and>
    q_size (outgoing_ogw_requests M') = q_size (outgoing_ogw_requests M) \<and> om_client_id M' = om_client_id M"
  by (induction rule: rtranclp_induct) (auto simp: om_action_counts)

definition manager_agrees ::
  "MEClientRequest list \<Rightarrow> (nat \<Rightarrow> Side \<Rightarrow> MEClientResponse list) \<Rightarrow> (nat \<Rightarrow> Side \<Rightarrow> Qty list) \<Rightarrow> OrderManager \<Rightarrow> bool" where
  "manager_agrees pre rs qs M \<longleftrightarrow>
     q_ok (outgoing_ogw_requests M) \<and>
     (\<forall>t < ME_MAX_TICKERS. \<forall>s. trade_side s \<longrightarrow>
        agree (open_qty (om_order (side_place t s) M))
          (filter (is_new (om_client_id M) t s) (pre @ q_list (outgoing_ogw_requests M))) (rs t s) (qs t s))"

lemma om_action_agrees:
  assumes act: "om_action cfg K M M'" and room: "num_elements (outgoing_ogw_requests M) < q_size (outgoing_ogw_requests M)"
    and M: "manager_agrees pre rs qs M"
  shows "manager_agrees pre rs qs M'"
  using act
proof cases
  case (act_cancel t s)
  have q: "q_ok (outgoing_ogw_requests M)" using M by (simp add: manager_agrees_def)
  note E = Enqueue_ok [OF q room]
  show ?thesis using M act_cancel(4) unfolding manager_agrees_def act_cancel(1)
    by (auto simp: order_calls E is_new_def)
next
  case (act_new s i qty price)
  have q: "q_ok (outgoing_ogw_requests M)" using M by (simp add: manager_agrees_def)
  note E = Enqueue_ok [OF q room]
  let ?rq = "\<lparr>rq_type = ClientRequestType_NEW, rq_client_id = om_client_id M, rq_ticker_id = i,
      rq_order_id = next_order_id M, rq_side = s, rq_price = price, rq_qty = qty\<rparr>"
  show ?thesis unfolding manager_agrees_def act_new(1) order_calls E
  proof (intro conjI allI impI)
    show "q_ok (Enqueue ?rq (outgoing_ogw_requests M))" by (rule E(1))
    fix t s' assume t: "t < ME_MAX_TICKERS" and s': "trade_side s'"
    have ag: "agree (open_qty (om_order (side_place t s') M))
        (filter (is_new (om_client_id M) t s') (pre @ q_list (outgoing_ogw_requests M))) (rs t s') (qs t s')"
      using M t s' unfolding manager_agrees_def by blast
    show "agree (open_qty (om_order (side_place t s') (NewOrder (side_place (unat i) s) i price s qty M)))
        (filter (is_new (om_client_id M) t s') (pre @ q_list (outgoing_ogw_requests M) @ [?rq])) (rs t s') (qs t s')"
    proof (cases "t = unat i \<and> s' = s")
      case True
      then have "agree None (filter (is_new (om_client_id M) t s') (pre @ q_list (outgoing_ogw_requests M))) (rs t s') (qs t s')"
        using ag act_new(3) by (simp add: open_qty_def)
      from agree_new [OF this, of ?rq] show ?thesis using True by (simp add: is_new_def)
    next
      case False
      then have "side_place t s' \<noteq> side_place (unat i) s" using s' act_new(2) by auto
      then show ?thesis using ag False by (auto simp: is_new_def)
    qed
  qed
qed

lemma om_actions_agree:
  assumes "(om_action cfg K)\<^sup>*\<^sup>* M M'"
    "num_elements (outgoing_ogw_requests M') \<le> q_size (outgoing_ogw_requests M')" "manager_agrees pre rs qs M"
  shows "manager_agrees pre rs qs M'"
  using assms
proof (induction rule: converse_rtranclp_induct)
  case (step M M1)
  have "num_elements (outgoing_ogw_requests M) < q_size (outgoing_ogw_requests M)"
    using om_action_counts [OF step(1)] om_actions_counts [OF step(2)] step(4) by simp
  from step(3) [OF step(4) om_action_agrees [OF step(1) this step(5)]] show ?case .
qed simp

lemma place_agrees_manager:
  "q_ok (outgoing_ogw_requests (manager S)) \<and> (\<forall>t < ME_MAX_TICKERS. \<forall>s. trade_side s \<longrightarrow> place_agrees S L t s) \<longleftrightarrow>
   manager_agrees (q_list (incoming_requests (exchange S)) @ to_exchange S)
     (\<lambda>t s. filter (\<lambda>r. rs_client_id r = session_client S \<and> unat (rs_ticker_id r) = t \<and> rs_side r = s) (all_responses S))
     (\<lambda>t s. map o_qty (client_orders (session_client S) (exchange S) L t s)) (manager S)"
  by (simp add: manager_agrees_def place_agrees_def all_requests_def)

lemma market_update_inv:
  assumes inv: "session_inv S L" and upd: "TE_OnMarketUpdate u (trader S) = Inr E"
    and room: "num_elements (outgoing_ogw_requests (te_order_manager E)) \<le> q_size (outgoing_ogw_requests (te_order_manager E))"
  shows "session_inv (S\<lparr>trader := E\<rparr>) L"
proof -
  note D = session_invD [OF inv]
  have A: "te_cfg E = te_cfg (trader S)" "te_algo E = te_algo (trader S)"
    "\<And>t. position (position_keeper E t) = position (position_keeper (trader S) t)"
    "(om_action (te_cfg (trader S)) (position_keeper E))\<^sup>*\<^sup>* (manager S) (te_order_manager E)"
    using TE_OnMarketUpdate_actions [OF upd] by blast+
  have cid: "om_client_id (te_order_manager E) = session_client S" using om_actions_counts [OF A(4)] by simp
  have "manager_agrees (q_list (incoming_requests (exchange S)) @ to_exchange S)
     (\<lambda>t s. filter (\<lambda>r. rs_client_id r = session_client S \<and> unat (rs_ticker_id r) = t \<and> rs_side r = s) (all_responses S))
     (\<lambda>t s. map o_qty (client_orders (session_client S) (exchange S) L t s)) (te_order_manager E)"
    using om_actions_agree [OF A(4) room] place_agrees_manager [of S L] D(2,4) by blast
  then have agrees: "q_ok (outgoing_ogw_requests (te_order_manager E)) \<and>
      (\<forall>t < ME_MAX_TICKERS. \<forall>s. trade_side s \<longrightarrow> place_agrees (S\<lparr>trader := E\<rparr>) L t s)"
    using place_agrees_manager [of "S\<lparr>trader := E\<rparr>" L] cid by (simp add: all_responses_def)
  have lim: "within_limit (limit_of (te_cfg E) t) t (position_keeper E) (te_order_manager E)"
    if "cfg_ok (te_cfg E)" "t < ME_MAX_TICKERS" for t
  proof -
    have "within_limit (limit_of (te_cfg E) t) t (position_keeper E) (manager S)"
      using D(5) that A(1) within_limit_cong [of "position_keeper E" t "position_keeper (trader S)" "manager S" "manager S"]
        A(3) by simp
    then show ?thesis using om_actions_limit [OF A(4)] that A(1) by simp
  qed
  show ?thesis using D(1,3,6) A(2) agrees lim cid
    by (simp add: session_inv_def responses_known_def all_responses_def)
qed

lemma TE_OnOrderUpdate_parts:
  assumes "TE_OnOrderUpdate r E = Inr E'" "te_algo E \<in> {AlgoType_MAKER, AlgoType_TAKER}"
  shows "OnOrderUpdate r (te_order_manager E) = Inr (te_order_manager E')" "te_cfg E' = te_cfg E" "te_algo E' = te_algo E"
    "rs_type r = ClientResponseType_FILLED \<Longrightarrow> PositionKeeper_AddFill r (position_keeper E) = Inr (position_keeper E')"
    "rs_type r \<noteq> ClientResponseType_FILLED \<Longrightarrow> position_keeper E' = position_keeper E"
  using assms
  by (auto simp: TE_OnOrderUpdate_def algo_on_order_update_def elim!: rbind_eq_InrE split: if_splits)

lemma within_limit_mono:
  assumes "within_limit mx t K M" "\<And>s. trade_side s \<Longrightarrow> exposure (side_place t s) M' \<le> exposure (side_place t s) M"
  shows "within_limit mx t K M'"
  using assms(1) assms(2) [of Side_BUY] assms(2) [of Side_SELL] by (auto simp: within_limit_def)

text \<open>A response that is no fill never raises the exposure.\<close>

lemma OnOrderUpdate_exposure:
  assumes upd: "OnOrderUpdate r M = Inr M'" and ty: "rs_type r \<noteq> ClientResponseType_FILLED"
    and run: "runs (open_qty (om_order (side_place (unat (rs_ticker_id r)) (rs_side r)) M)) (r # rs) b"
  shows "exposure p M' \<le> exposure p M"
proof (cases "p = side_place (unat (rs_ticker_id r)) (rs_side r)")
  case True
  show ?thesis using upd ty run unfolding True
    by (auto simp: OnOrderUpdate_def order_place_def exposure_def open_qty_def outstanding_def
        elim!: rbind_eq_InrE split: if_splits ClientResponseType.splits)
next
  case False
  then show ?thesis using OnOrderUpdate_frame(5) [OF upd] by (simp add: exposure_def)
qed

lemma order_update_limit:
  assumes upd: "TE_OnOrderUpdate r E = Inr E'" and algo: "te_algo E \<in> {AlgoType_MAKER, AlgoType_TAKER}"
    and s: "trade_side (rs_side r)"
    and run: "runs (open_qty (om_order (side_place (unat (rs_ticker_id r)) (rs_side r)) (te_order_manager E))) (r # rs) b"
    and lim: "within_limit mx t (position_keeper E) (te_order_manager E)" and mx: "mx < 2 ^ 31"
  shows "within_limit mx t (position_keeper E') (te_order_manager E')"
proof -
  note P = TE_OnOrderUpdate_parts [OF upd algo]
  let ?t = "unat (rs_ticker_id r)"
  show ?thesis
  proof (cases "rs_type r = ClientResponseType_FILLED")
    case True
    obtain Q where Q: "AddFill r (position_keeper E ?t) = Inr Q" "position_keeper E' = (position_keeper E)(?t := Q)"
      using P(4) [OF True] by (auto simp: PositionKeeper_AddFill_def at_ticker_def elim!: rbind_eq_InrE split: if_splits)
    show ?thesis
    proof (cases "t = ?t")
      case True
      then show ?thesis
        using fill_limit [OF Q(1) s \<open>rs_type r = _\<close> P(1) run, of mx "position_keeper E" "position_keeper E'"] lim mx Q(2)
        by simp
    next
      case False
      then have "om_order (side_place t s') (te_order_manager E') = om_order (side_place t s') (te_order_manager E)" for s'
        using OnOrderUpdate_frame(5) [OF P(1)] by simp
      then show ?thesis using lim False Q(2)
          within_limit_cong [of "position_keeper E'" t "position_keeper E" "te_order_manager E'" "te_order_manager E"] by simp
    qed
  next
    case False
    then show ?thesis using within_limit_mono [OF lim] OnOrderUpdate_exposure [OF P(1) False run] P(5) by simp
  qed
qed

lemma order_update_inv:
  assumes inv: "session_inv S L" and head: "to_client S = r # rs" and upd: "TE_OnOrderUpdate r (trader S) = Inr E"
  shows "session_inv (S\<lparr>trader := E, to_client := rs\<rparr>) L"
proof -
  let ?S = "S\<lparr>trader := E, to_client := rs\<rparr>"
  note D = session_invD [OF inv]
  note algo = D(6) and P = TE_OnOrderUpdate_parts [OF upd D(6)]
  note F = OnOrderUpdate_frame [OF P(1)]
  have r: "rs_client_id r = session_client S" "trade_side (rs_side r) \<or> rs_type r = ClientResponseType_CANCEL_REJECTED"
    using D(3) head by (auto simp: responses_known_def all_responses_def)
  have known: "responses_known ?S" using D(3) head F(2) by (auto simp: responses_known_def all_responses_def)
  have reqs: "all_requests ?S = all_requests S" using F(1) by (simp add: all_requests_def)
  have resps: "all_responses S = r # all_responses ?S" using head by (simp add: all_responses_def)
  show ?thesis
  proof (cases "trade_side (rs_side r)")
    case False
    then have ty: "rs_type r = ClientResponseType_CANCEL_REJECTED" using r(2) by simp
    have M: "te_order_manager E = manager S" using OnOrderUpdate_rejected [OF P(1) ty] .
    have "place_agrees ?S L t s" if "t < ME_MAX_TICKERS" "trade_side s" for t s
      using D(4) [OF that] False that(2) reqs M by (auto simp: place_agrees_def resps)
    then show ?thesis using D(1,2,5,6) known M P(2,3,5) ty by (simp add: session_inv_def)
  next
    case True
    let ?t = "unat (rs_ticker_id r)" and ?s = "rs_side r"
    have ag: "place_agrees S L ?t ?s" by (rule D(4) [OF F(4) True])
    then obtain b where run: "runs (open_qty (om_order (side_place ?t ?s) (manager S)))
        (r # filter (\<lambda>x. rs_client_id x = session_client S \<and> unat (rs_ticker_id x) = ?t \<and> rs_side x = ?s) (all_responses ?S)) b"
      using r(1) by (auto simp: place_agrees_def agree_def resps)
    have "place_agrees ?S L t s" if "t < ME_MAX_TICKERS" "trade_side s" for t s
    proof (cases "t = ?t \<and> s = ?s")
      case True
      have "agree (open_qty (om_order (side_place ?t ?s) (te_order_manager E)))
          (filter (is_new (session_client S) ?t ?s) (all_requests S))
          (filter (\<lambda>x. rs_client_id x = session_client S \<and> unat (rs_ticker_id x) = ?t \<and> rs_side x = ?s) (all_responses ?S))
          (map o_qty (client_orders (session_client S) (exchange S) L ?t ?s))"
        by (rule agree_response [where r = r and a = "open_qty (om_order (side_place ?t ?s) (manager S))"])
          (use ag r(1) OnOrderUpdate_runs [OF P(1)] in \<open>auto simp: place_agrees_def resps\<close>)
      then show ?thesis using True F(2) reqs by (simp add: place_agrees_def)
    next
      case False
      then have "side_place t s \<noteq> side_place ?t ?s" using that(2) True by auto
      then show ?thesis using D(4) [OF that] False F(2,5) reqs by (auto simp: place_agrees_def resps)
    qed
    moreover have "within_limit (limit_of (te_cfg E) t) t (position_keeper E) (te_order_manager E)"
      if "cfg_ok (te_cfg E)" "t < ME_MAX_TICKERS" for t
      using order_update_limit [OF upd algo True run, of "limit_of (te_cfg E) t" t] D(5) that P(2)
      by (simp add: cfg_ok_def)
    ultimately show ?thesis using D(1,2,6) P(3) known F(1) by (simp add: session_inv_def)
  qed
qed

section \<open>The exchange's steps\<close>

lemma Enqueue_incoming:
  assumes "engine_ok X L" "num_elements (incoming_requests X) < q_size (incoming_requests X)"
  shows "engine_ok (X\<lparr>incoming_requests := Enqueue rq (incoming_requests X)\<rparr>) L"
    "q_list (Enqueue rq (incoming_requests X)) = q_list (incoming_requests X) @ [rq]"
  using assms Enqueue_ok [of "incoming_requests X" rq] by (simp_all add: engine_ok_def)

lemma dequeue_list:
  assumes "q_ok q" "UpdateReadIndex q = Inr q'" "GetNextToRead q = Some x"
  shows "q_ok q'" "q_list q = x # q_list q'"
  using assms lfq.front_SomeE [OF assms(1,3)] by auto

lemma exchange_turn_inv:
  assumes inv: "session_inv S L" and front: "GetNextToRead (incoming_requests (exchange S)) = Some rq"
    and can: "can_process rq (exchange S)" and run: "Run_once (exchange S) = Inr X"
    and room: "no_overrun (outgoing_ogw_responses X)" "no_overrun (outgoing_md_updates X)"
  shows "\<exists>L'. session_inv (S\<lparr>exchange := X\<rparr>) L'"
proof -
  let ?X = "exchange S" and ?c = "session_client S" and ?ms = "request_messages rq (exchange S) L"
  let ?t = "unat (rq_ticker_id rq)"
  note D = session_invD [OF inv]
  obtain X1 q1 where X1: "ProcessClientRequest rq ?X = Inr X1" "X = X1\<lparr>incoming_requests := q1\<rparr>"
    using run front by (auto simp: Run_once_def elim!: rbind_eq_InrE)
  have fit: "queues_fit ?ms ?X" by (rule Process_fits [OF D(1) can X1(1)]) (use room X1(2) in simp_all)
  have t: "?t < ME_MAX_TICKERS" using can by (simp add: can_process_def)
  obtain X' L' where X': "ProcessClientRequest rq ?X = Inr X'" "engine_ok X' L'" "incoming_requests X' = incoming_requests ?X"
    "q_list (outgoing_ogw_responses X') = q_list (outgoing_ogw_responses ?X) @ responses ?ms"
    "abs_book (ticker_order_book X' ?t) (L' ?t) = (spec_request rq (abs_book (ticker_order_book ?X ?t) (L ?t)))\<lparr>sp_sent := []\<rparr>"
    "\<And>u. u \<noteq> ?t \<Longrightarrow> ticker_order_book X' u = ticker_order_book ?X u \<and> L' u = L u"
    by (rule Process_ok [OF D(1) can fit]) blast
  have qin: "q_ok (incoming_requests ?X)" using D(1) by (simp add: engine_ok_def)
  obtain q where q: "UpdateReadIndex (incoming_requests ?X) = Inr q" "q_ok q" "q_list (incoming_requests ?X) = rq # q_list q"
    by (rule lfq.front_SomeE [OF qin front]) auto
  have X: "X = X'\<lparr>incoming_requests := q\<rparr>" using run front X'(1,3) q(1) by (simp add: Run_once_def)
  let ?S = "S\<lparr>exchange := X\<rparr>"
  have ok: "engine_ok X L'" using X'(2) q(2) by (simp add: engine_ok_def X)
  have resps: "all_responses ?S = all_responses S @ responses ?ms" using X'(4) by (simp add: all_responses_def X)
  have reqs: "all_requests S = rq # all_requests ?S" using q(3) by (simp add: all_requests_def X)
  have known: "responses_known ?S" using D(3) request_responses [OF D(1) can] resps
    by (auto simp: responses_known_def)
  have "place_agrees ?S L' u s" if u: "u < ME_MAX_TICKERS" and s: "trade_side s" for u s
  proof (cases "u = ?t")
    case False
    have "filter (\<lambda>r. rs_client_id r = ?c \<and> unat (rs_ticker_id r) = u \<and> rs_side r = s) (responses ?ms) = []"
      using request_responses [OF D(1) can] False by (auto simp: filter_empty_conv)
    then show ?thesis using D(4) [OF u s] False X'(6) [OF False] reqs resps
      by (simp add: place_agrees_def client_orders_def book_spec_def X is_new_def)
  next
    case True
    let ?qs = "map o_qty (own ?c (sp_orders (book_spec ?X L u) s))"
    let ?qs' = "map o_qty (own ?c (sp_orders (spec_request rq (book_spec ?X L u)) s))"
    let ?rs = "filter (\<lambda>r. rs_client_id r = ?c \<and> unat (rs_ticker_id r) = u \<and> rs_side r = s) (all_responses S)"
    have told: "filter (\<lambda>r. rs_client_id r = ?c \<and> unat (rs_ticker_id r) = u \<and> rs_side r = s) (responses ?ms) = told ?c s ?ms"
      using request_responses [OF D(1) can] True by (auto simp: told_def intro!: filter_cong)
    have qs': "map o_qty (client_orders ?c X L' u s) = ?qs'"
      using X'(5) True by (simp add: client_orders_def book_spec_def X)
    have ag: "agree (open_qty (om_order (side_place u s) (manager S))) (filter (is_new ?c u s) (all_requests S)) ?rs ?qs"
      using D(4) [OF u s] by (simp add: place_agrees_def client_orders_def)
    have "agree (open_qty (om_order (side_place u s) (manager S))) (filter (is_new ?c u s) (all_requests ?S))
        (?rs @ told ?c s ?ms) ?qs'"
    proof (cases "is_new ?c u s rq")
      case True
      show ?thesis
      proof (rule agree_new_request [where rq = rq and qs = ?qs])
        show "agree (open_qty (om_order (side_place u s) (manager S))) (rq # filter (is_new ?c u s) (all_requests ?S)) ?rs ?qs"
          using ag True reqs by simp
        show "\<exists>b2. runs (Some (rq_qty rq)) (told ?c s ?ms) b2 \<and> ?qs' = open_list b2" if "?qs = []"
          using request_tells [OF D(1) u _ can s, of ?c None "Some (rq_qty rq)"] True that \<open>u = ?t\<close> by simp
      qed
    next
      case False
      show ?thesis
      proof (rule agree_old_request [where qs = ?qs])
        show "agree (open_qty (om_order (side_place u s) (manager S))) (filter (is_new ?c u s) (all_requests ?S)) ?rs ?qs"
          using ag False reqs by simp
        show "\<exists>b2. runs b (told ?c s ?ms) b2 \<and> ?qs' = open_list b2" if "?qs = open_list b" for b
          using request_tells [OF D(1) u _ can s that, of b] False \<open>u = ?t\<close> by simp
      qed
    qed
    then show ?thesis by (simp add: place_agrees_def resps told qs')
  qed
  then have "session_inv ?S L'" using D(2,5,6) ok known by (simp add: session_inv_def)
  then show ?thesis by blast
qed

section \<open>Reachable sessions\<close>

lemma session_start_inv:
  assumes "session_start S"
  shows "session_inv S (\<lambda>_ _. [])"
proof -
  obtain oids slots vwaps c algo cfg reqs resps upds inc out md where
    T: "trader S = TradingEngine_new oids slots vwaps c algo cfg reqs resps upds" "algo \<in> {AlgoType_MAKER, AlgoType_TAKER}" "q_ok reqs" "q_list reqs = []"
      "to_exchange S = []" "to_client S = []"
    and X: "exchange S = MatchingEngine_new (\<lambda>_ _ _. None) (\<lambda>_ _. None) inc out md"
      "q_ok inc" "q_list inc = []" "q_ok out" "q_list out = []" "q_ok md"
    using assms unfolding session_start_def by blast
  have M: "manager S = OrderManager_new c reqs" by (simp add: T(1) TradingEngine_new_def)
  have ok: "engine_ok (exchange S) (\<lambda>_ _. [])"
    using X empty_book_inv [unfolded empty_book_def]
    by (simp add: engine_ok_def MatchingEngine_new_def) (simp add: ExchangeOrderBook_new_def)
  have none: "all_requests S = []" "all_responses S = []"
    using X T M by (simp_all add: all_requests_def all_responses_def MatchingEngine_new_def OrderManager_new_def)
  have orders: "client_orders (session_client S) (exchange S) (\<lambda>_ _. []) t s = []" for t s
    by (simp add: client_orders_def book_spec_def X(1) MatchingEngine_new_def ExchangeOrderBook_new_ok(2))
  have dead: "open_qty (om_order p (manager S)) = None" for p
    by (simp add: M OrderManager_new_def om_order_def open_qty_def outstanding_def OMOrder_default_def)
  have "position (position_keeper (trader S) t) = 0" for t
    by (simp add: T(1) TradingEngine_new_def PositionInfo_new_def)
  then show ?thesis
    using ok T(1,2,3,6) M none orders dead
    by (simp add: session_inv_def place_agrees_def agree_None responses_known_def within_limit_def exposure_def
      OrderManager_new_def TradingEngine_new_def)
qed

lemma session_step_inv:
  assumes "session_step S S'" "session_inv S L"
  shows "\<exists>L'. session_inv S' L'"
  using assms(1)
proof cases
  case (market_update u E)
  then show ?thesis using market_update_inv [OF assms(2)] by blast
next
  case (order_update r rs E)
  then show ?thesis using order_update_inv [OF assms(2)] by blast
next
  case (gateway_sends rq q)
  note D = session_invD [OF assms(2)] and Q = dequeue_list [OF session_invD(2) [OF assms(2)] gateway_sends(3,2)]
  have "session_inv S' L" unfolding gateway_sends(1)
    by (rule session_inv_move [OF assms(2)])
      (use D(1,3,6) Q in \<open>simp_all add: all_requests_def all_responses_def om_order_def responses_known_def\<close>)
  then show ?thesis by blast
next
  case (request_arrives rq rqs)
  note D = session_invD [OF assms(2)] and Q = Enqueue_incoming [OF session_invD(1) [OF assms(2)] request_arrives(3)]
  have "session_inv S' L" unfolding request_arrives(1)
    by (rule session_inv_move [OF assms(2)])
      (use D(2,3) Q request_arrives(2) in \<open>simp_all add: all_requests_def all_responses_def responses_known_def\<close>)
  then show ?thesis by blast
next
  case (other_request rq)
  note D = session_invD [OF assms(2)] and Q = Enqueue_incoming [OF session_invD(1) [OF assms(2)] other_request(3)]
  have "session_inv S' L" unfolding other_request(1)
    by (rule session_inv_move [OF assms(2)])
      (use D(2,3) Q other_request(2) in \<open>simp_all add: all_requests_def all_responses_def responses_known_def is_new_def\<close>)
  then show ?thesis by blast
next
  case (exchange_turn rq X)
  then show ?thesis using exchange_turn_inv [OF assms(2)] by blast
next
  case (response_leaves r q)
  note D = session_invD [OF assms(2)]
  have q: "q_ok (outgoing_ogw_responses (exchange S))" using D(1) by (simp add: engine_ok_def)
  note Q = dequeue_list [OF q response_leaves(3,2)]
  have ok: "engine_ok ((exchange S)\<lparr>outgoing_ogw_responses := q\<rparr>) L" using D(1) Q(1) by (simp add: engine_ok_def)
  have "session_inv S' L" unfolding response_leaves(1)
    by (rule session_inv_move [OF assms(2)])
      (use D(2,3) Q ok in \<open>auto simp: all_requests_def all_responses_def responses_known_def\<close>)
  then show ?thesis by blast
next
  case (update_leaves q)
  note D = session_invD [OF assms(2)]
  have md: "q_ok (outgoing_md_updates (exchange S))" using D(1) by (simp add: engine_ok_def)
  have "q_ok q"
  proof (cases "GetNextToRead (outgoing_md_updates (exchange S))")
    case None
    then show ?thesis using update_leaves(2) by (simp add: GetNextToRead_def Size_def UpdateReadIndex_def split: if_splits)
  next
    case (Some u)
    then show ?thesis using dequeue_list(1) [OF md update_leaves(2)] by simp
  qed
  then have ok: "engine_ok ((exchange S)\<lparr>outgoing_md_updates := q\<rparr>) L" using D(1) by (simp add: engine_ok_def)
  have "session_inv S' L" unfolding update_leaves(1)
    by (rule session_inv_move [OF assms(2)])
      (use D(2,3) ok in \<open>auto simp: all_requests_def all_responses_def responses_known_def\<close>)
  then show ?thesis by blast
qed

lemma session_reachable_inv: "session_reachable S \<Longrightarrow> \<exists>L. session_inv S L"
proof (induction rule: session_reachable.induct)
  case (session_init S)
  then show ?case using session_start_inv by blast
next
  case (session_next S S')
  then show ?case using session_step_inv by blast
qed

section \<open>Properties\<close>

text \<open>
  C5: The risk limit holds end to end for a trader that runs the market maker or the liquidity taker
  with limits below 2^31, while no queue is overrun and the exchange only gets requests it can take
  (\<open>can_process\<close>): however market data, the client's orders, the exchange, other clients' orders and
  the messages between them interleave, the position in an instrument never leaves the limit that is
  configured for it. The random algorithm sends its orders past the order manager and the risk check,
  so the property is not about it.
\<close>

theorem position_within_limit:
  assumes "session_reachable S" "cfg_ok (te_cfg (trader S))" "t < ME_MAX_TICKERS"
  shows "\<bar>sint (position (position_keeper (trader S) t))\<bar> \<le> uint (max_position (risk_cfg (te_cfg (trader S) t)))"
proof -
  obtain L where "session_inv S L" using session_reachable_inv [OF assms(1)] by blast
  from session_invD(5) [OF this assms(2,3)] show ?thesis
    using exposure_nonneg [of "side_place t Side_BUY" "manager S"] exposure_nonneg [of "side_place t Side_SELL" "manager S"]
    unfolding within_limit_def abs_le_iff by linarith
qed

text \<open>The orders of a client on one side of a book of the exchange.\<close>

definition resting :: "ClientId \<Rightarrow> Side \<Rightarrow> ExchangeOrderBook \<Rightarrow> nat set" where
  "resting c s b = {x \<in> live (order_pool b). o_client_id (ord b x) = c \<and> o_side (ord b x) = s}"

lemma resting_orders:
  assumes "engine_ok X L" "t < ME_MAX_TICKERS" "trade_side s"
  obtains xs where "resting c s (ticker_order_book X t) = set xs"
    "map o_qty (client_orders c X L t s) = map (\<lambda>x. o_qty (ord (ticker_order_book X t) x)) xs"
proof -
  let ?b = "ticker_order_book X t"
  have ok: "eob_ok ?b (L t)" using assms(1,2) by (simp add: engine_ok_def exchange_inv_def)
  let ?xs = "filter (\<lambda>x. o_client_id (ord ?b x) = c) (addrs (L t s))"
  have "resting c s ?b = set ?xs" using side_addrs [OF ok assms(3)] by (auto simp: resting_def)
  moreover have "map o_qty (client_orders c X L t s) = map (\<lambda>x. o_qty (ord ?b x)) ?xs"
    by (simp add: client_orders_def own_def book_spec_def abs_orders_def filter_map o_def)
  ultimately show thesis by (rule that)
qed

text \<open>
  C7: The client and the exchange agree, for a trader that runs the market maker or the liquidity taker,
  while no queue is overrun and the exchange only gets requests it can take (\<open>can_process\<close>; the steps of
  \<open>session_step\<close>): when no message of the client is on its way, the order manager
  holds an outstanding order on a side of an instrument exactly if the client has one order there at
  the exchange, with the same open quantity; and it never has two. (An order of quantity zero never rests.)
\<close>

theorem quiet_session_agrees:
  assumes "session_reachable S" "t < ME_MAX_TICKERS" "trade_side s"
    and "\<forall>rq\<in>set (all_requests S). rq_client_id rq \<noteq> session_client S"
    and "\<forall>r\<in>set (all_responses S). rs_client_id r \<noteq> session_client S"
  shows "if outstanding (om_order (side_place t s) (manager S)) \<and> om_qty (om_order (side_place t s) (manager S)) \<noteq> 0
    then \<exists>x. resting (session_client S) s (ticker_order_book (exchange S) t) = {x} \<and>
      o_qty (ord (ticker_order_book (exchange S) t) x) = om_qty (om_order (side_place t s) (manager S))
    else resting (session_client S) s (ticker_order_book (exchange S) t) = {}"
proof -
  obtain L where inv: "session_inv S L" using session_reachable_inv [OF assms(1)] by blast
  note D = session_invD [OF inv]
  obtain xs where xs: "resting (session_client S) s (ticker_order_book (exchange S) t) = set xs"
    "map o_qty (client_orders (session_client S) (exchange S) L t s) =
      map (\<lambda>x. o_qty (ord (ticker_order_book (exchange S) t) x)) xs"
    by (rule resting_orders [OF D(1) assms(2,3)])
  have "filter (is_new (session_client S) t s) (all_requests S) = []" using assms(4) by (auto simp: filter_empty_conv is_new_def)
  moreover have "filter (\<lambda>r. rs_client_id r = session_client S \<and> unat (rs_ticker_id r) = t \<and> rs_side r = s) (all_responses S) = []"
    using assms(5) by (auto simp: filter_empty_conv)
  ultimately have "map o_qty (client_orders (session_client S) (exchange S) L t s) =
      open_list (open_qty (om_order (side_place t s) (manager S)))"
    using D(4) [OF assms(2,3)] by (simp add: place_agrees_def agree_def)
  then show ?thesis unfolding xs by (auto simp: open_qty_def split: if_splits)
qed

section \<open>A session with a partly filled order\<close>

text \<open>
  A liquidity taker sees a bid of 5 at 100, an ask of 3 at 105 and a trade, and bids 5 at 105; another
  client sells 2 at 104. What the exchange answers leaves the taker with a position of 2 and 3 resting.
\<close>

definition sample_strategy :: TradeEngineCfgMap where
  "sample_strategy =
     (\<lambda>_. \<lparr>clip = 5, threshold = dzero, risk_cfg = \<lparr>max_order_size = 10, max_position = 50, max_loss = dzero\<rparr>\<rparr>)"

definition sample_session :: Session where
  "sample_session =
     \<lparr>trader = TradingEngine_new (\<lambda>_ _. None) (\<lambda>_ _. None) (\<lambda>_ _. dzero) 1 AlgoType_TAKER sample_strategy
        (LockFreeQueue_new 8 MEClientRequest_default) (LockFreeQueue_new 8 MEClientResponse_default)
        (LockFreeQueue_new 8 MEMarketUpdate_default),
      to_exchange = [],
      exchange = MatchingEngine_new (\<lambda>_ _ _. None) (\<lambda>_ _. None) (LockFreeQueue_new 8 MEClientRequest_default)
        (LockFreeQueue_new 8 MEClientResponse_default) (LockFreeQueue_new 8 MEMarketUpdate_default),
      to_client = []\<rparr>"

lemma sample_session_reachable: "session_reachable sample_session"
proof (rule session_init, unfold session_start_def sample_session_def Session.select_convs, intro exI conjI)
qed (rule refl | simp add: q_ok_def q_list_def LockFreeQueue_new_def)+

definition sample_market_update :: "MarketUpdateType \<Rightarrow> OrderId \<Rightarrow> Side \<Rightarrow> Price \<Rightarrow> Qty \<Rightarrow> MEMarketUpdate" where
  "sample_market_update ty i s p q =
     \<lparr>mu_type = ty, mu_order_id = i, mu_ticker_id = 0, mu_side = s, mu_price = p, mu_qty = q, mu_priority = 1\<rparr>"

definition sample_quotes :: "MEMarketUpdate list" where
  "sample_quotes =
     [sample_market_update MarketUpdateType_ADD 1 Side_BUY (I64 100) 4,
      sample_market_update MarketUpdateType_MODIFY 1 Side_BUY (I64 100) 5,
      sample_market_update MarketUpdateType_ADD 2 Side_SELL (I64 105) 4,
      sample_market_update MarketUpdateType_MODIFY 2 Side_SELL (I64 105) 3]"

definition sample_trade :: MEMarketUpdate where
  "sample_trade = sample_market_update MarketUpdateType_TRADE ORDER_ID_INVALID Side_BUY (I64 105) 3"

lemmas trading_eval = apply_update_def OnMarketUpdate_def bid_updated_def ask_updated_def UpdateBbo_def
  level_quote_def sum_ring.simps tb_AddOrder_link oid_at_def set_oid_def TradingOrderBook_new_def
  MemoryPool_new_def obj_def upd_obj_def link_order_def AddOrdersAtPrice_def GetOrdersAtPrice_def
  Allocate_def UpdateNextFreeIndex_def set_block_def ME_MAX_ORDER_IDS_def ME_MAX_PRICE_LEVELS_def
  best_by_price_def set_best_def PriceToIndex_def scan_free.simps find_target.simps BBO_default_def

lemmas quote_eval = both_quoted_def int64_def PRICE_INVALID_def i64_max_def ME_MAX_TICKERS_def

abbreviation sample_orders :: OrderManager where
  "sample_orders \<equiv> manager sample_session"

lemma sample_orders:
  "om_order p sample_orders = OMOrder_default" "next_order_id sample_orders = 1" "om_client_id sample_orders = 1"
  "outgoing_ogw_requests sample_orders = LockFreeQueue_new 8 MEClientRequest_default"
  by (simp_all add: sample_session_def TradingEngine_new_def OrderManager_new_def om_order_def)

lemma sample_quotes_run:
  "\<exists>E. rfold TE_OnMarketUpdate sample_quotes (trader sample_session) = Inr E \<and>
    bbo (te_books E 0) = \<lparr>bid_price = I64 100, ask_price = I64 105, bid_qty = 5, ask_qty = 3\<rparr> \<and>
    te_order_manager E = sample_orders \<and> te_algo E = AlgoType_TAKER \<and> te_cfg E = sample_strategy \<and>
    position (position_keeper E 0) = 0 \<and> total_pnl (position_keeper E 0) = dzero"
  by (simp add: trading_eval quote_eval sample_market_update_def sample_quotes_def sample_session_def
      TradingEngine_new_def TE_OnMarketUpdate_def TE_OnOrderBookUpdate_def FeatureEngine_OnOrderBookUpdate_def
      PositionKeeper_UpdateBbo_def PositionInfo_UpdateBbo_def at_ticker_def algo_on_order_book_update_def
      PositionInfo_new_def)

lemma sample_ratio: "dgeq (ddiv (d_of_int 3) (d_of_int 3)) dzero"
proof -
  have h: "holds_int (d_of_int 3) 3" by (rule holds_d_of_int) simp
  then have "d_of_int 3 \<noteq> NaN" by (auto simp: holds_int_def)
  then have "ddiv (d_of_int 3) (d_of_int 3) = round_rat False (of_int 1)"
    using h by (simp add: ddiv_def holds_int_def)
  then have "holds_int (ddiv (d_of_int 3) (d_of_int 3)) 1"
    using round_rat_int [of 1 False] by (simp add: holds_int_def)
  from holds_dless [OF holds_dzero this] show ?thesis by (simp add: dgeq_def)
qed

definition sample_manager_order :: OrderManager where
  "sample_manager_order = NewOrder (side_place 0 Side_BUY) 0 (I64 105) Side_BUY 5 sample_orders"

lemma sample_trade_run:
  assumes "bbo (te_books E 0) = \<lparr>bid_price = I64 100, ask_price = I64 105, bid_qty = 5, ask_qty = 3\<rparr>"
    "te_order_manager E = sample_orders" "te_algo E = AlgoType_TAKER" "te_cfg E = sample_strategy"
    "position (position_keeper E 0) = 0" "total_pnl (position_keeper E 0) = dzero"
  shows "\<exists>E'. TE_OnMarketUpdate sample_trade E = Inr E' \<and> te_algo E' = AlgoType_TAKER \<and>
    te_cfg E' = sample_strategy \<and> position_keeper E' = position_keeper E \<and> te_order_manager E' = sample_manager_order"
  using assms
  by (simp add: quote_eval sample_trade_def sample_market_update_def TE_OnMarketUpdate_def OnMarketUpdate_def
      TE_OnTradeUpdate_def FeatureEngine_OnTradeUpdate_def algo_on_trade_update_def LiquidityTaker_OnTradeUpdate_def
      MoveOrders_def order_place_def MoveOrder_def sample_strategy_def sample_ratio [unfolded dzero_def]
      FEATURE_INVALID_def sample_orders sample_manager_order_def NewOrder_def OMOrder_default_def
      CheckPreTradeRisk_def RiskInfo_CheckPreTradeRisk_def int32_def abs32_def dzero_def)

text \<open>What the exchange makes of the two requests.\<close>

definition sample_buy :: MEClientRequest where
  "sample_buy =
     \<lparr>rq_type = ClientRequestType_NEW, rq_client_id = 1, rq_ticker_id = 0, rq_order_id = 1, rq_side = Side_BUY,
      rq_price = I64 105, rq_qty = 5\<rparr>"

definition sample_sell :: MEClientRequest where
  "sample_sell =
     \<lparr>rq_type = ClientRequestType_NEW, rq_client_id = 2, rq_ticker_id = 0, rq_order_id = 1, rq_side = Side_SELL,
      rq_price = I64 104, rq_qty = 2\<rparr>"

definition sample_response :: "ClientResponseType \<Rightarrow> ClientId \<Rightarrow> OrderId \<Rightarrow> Side \<Rightarrow> Price \<Rightarrow> Qty \<Rightarrow> Qty \<Rightarrow> MEClientResponse" where
  "sample_response ty c mo s p e l =
     \<lparr>rs_type = ty, rs_client_id = c, rs_ticker_id = 0, rs_client_order_id = 1, rs_market_order_id = mo,
      rs_side = s, rs_price = p, rs_exec_qty = e, rs_leaves_qty = l\<rparr>"

lemmas engine_eval = exchange_eval Run_once_def ProcessClientRequest_def MatchingEngine_new_def
  Enqueue_def UpdateWriteIndex_def WriteNext_def LockFreeQueue_new_def UpdateReadIndex_def GetNextToRead_def Size_def
  ME_SendClientResponse_def ME_SendMarketUpdate_def ME_MAX_TICKERS_def Match_eq match_messages_def filled_def

abbreviation sample_exchange :: MatchingEngine where
  "sample_exchange \<equiv> (exchange sample_session)\<lparr>incoming_requests :=
     Enqueue sample_sell (Enqueue sample_buy (incoming_requests (exchange sample_session)))\<rparr>"

lemma sample_buy_ready:
  "can_process sample_buy sample_exchange" "GetNextToRead (incoming_requests sample_exchange) = Some sample_buy"
  using empty_book_room [of Side_BUY 1 1 "I64 105" 0]
  by (simp_all add: can_process_def sample_buy_def ME_MAX_TICKERS_def sample_session_def MatchingEngine_new_def
      empty_book_def cid_oid_in_range_def ME_MAX_NUM_CLIENTS_def ME_MAX_ORDER_IDS_def Enqueue_def UpdateWriteIndex_def
      WriteNext_def LockFreeQueue_new_def GetNextToRead_def Size_def)

lemma sample_exchange_run:
  "\<exists>X Y. Run_once sample_exchange = Inr X \<and>
    no_overrun (outgoing_ogw_responses X) \<and> no_overrun (outgoing_md_updates X) \<and>
    GetNextToRead (incoming_requests X) = Some sample_sell \<and> can_process sample_sell X \<and> Run_once X = Inr Y \<and>
    no_overrun (outgoing_ogw_responses Y) \<and> no_overrun (outgoing_md_updates Y) \<and> q_list (incoming_requests Y) = [] \<and>
    q_list (outgoing_ogw_responses Y) =
      [sample_response ClientResponseType_ACCEPTED 1 1 Side_BUY (I64 105) 0 5,
       sample_response ClientResponseType_ACCEPTED 2 2 Side_SELL (I64 104) 0 2,
       sample_response ClientResponseType_FILLED 2 2 Side_SELL (I64 105) 2 0,
       sample_response ClientResponseType_FILLED 1 1 Side_BUY (I64 105) 2 3] \<and>
    resting 1 Side_BUY (ticker_order_book Y 0) = {0} \<and> o_qty (ord (ticker_order_book Y 0) 0) = 3"
  apply (simp add: engine_eval sample_session_def sample_buy_def sample_sell_def)
  apply (simp add: can_process_def can_add_def has_room_def cid_oid_in_range_def ME_MAX_NUM_CLIENTS_def
      ME_MAX_ORDER_IDS_def ME_MAX_PRICE_LEVELS_def PriceToIndex_def obj_def ME_MAX_TICKERS_def cong: conj_cong)
  apply (simp add: q_list_def sample_response_def resting_def upt_conv_Cons obj_def)
  done

text \<open>Several steps at once: market updates in a row, and all responses of the exchange.\<close>

lemma TE_OnMarketUpdate_room:
  assumes "TE_OnMarketUpdate u E = Inr E'" "no_overrun (outgoing_ogw_requests (te_order_manager E'))"
  shows "no_overrun (outgoing_ogw_requests (te_order_manager E))"
  using TE_OnMarketUpdate_actions [OF assms(1)] assms(2) om_actions_counts by fastforce

lemma session_updates:
  assumes "session_reachable S" "rfold TE_OnMarketUpdate us (trader S) = Inr E"
    "no_overrun (outgoing_ogw_requests (te_order_manager E))"
  shows "session_reachable (S\<lparr>trader := E\<rparr>)"
  using assms
proof (induction us arbitrary: S)
  case (Cons u us)
  then obtain E1 where E1: "TE_OnMarketUpdate u (trader S) = Inr E1" "rfold TE_OnMarketUpdate us E1 = Inr E"
    by (auto elim: rbind_eq_InrE)
  have "no_overrun (outgoing_ogw_requests (te_order_manager E1))"
  proof (rule ccontr)
    assume "\<not> no_overrun (outgoing_ogw_requests (te_order_manager E1))"
    from rfold_invariant [where I = "\<lambda>E. \<not> no_overrun (outgoing_ogw_requests (te_order_manager E))", OF E1(2) this]
    show False using Cons.prems(3) TE_OnMarketUpdate_room by blast
  qed
  from session_next [OF Cons.prems(1) market_update [OF E1(1) this]] Cons.IH [of "S\<lparr>trader := E1\<rparr>"] E1(2) Cons.prems(3)
  show ?case by simp
qed auto

lemma session_drain:
  assumes "session_reachable S"
  shows "\<exists>X. session_reachable (S\<lparr>exchange := X, to_client := to_client S @
      filter (\<lambda>r. rs_client_id r = session_client S) (q_list (outgoing_ogw_responses (exchange S)))\<rparr>) \<and>
    q_list (outgoing_ogw_responses X) = [] \<and> ticker_order_book X = ticker_order_book (exchange S) \<and>
    incoming_requests X = incoming_requests (exchange S)"
  using assms
proof (induction "q_list (outgoing_ogw_responses (exchange S))" arbitrary: S)
  case Nil
  then show ?case by (intro exI [of _ "exchange S"]) simp
next
  case (Cons r rs)
  let ?q = "outgoing_ogw_responses (exchange S)"
  obtain L where "session_inv S L" using session_reachable_inv [OF Cons.prems] by blast
  then have ok: "q_ok ?q" using session_invD(1) by (simp add: engine_ok_def)
  obtain q where q: "UpdateReadIndex ?q = Inr q" "q_list q = rs"
    using lfq.deq_law [OF ok Cons.hyps(2) [symmetric]] by blast
  have "GetNextToRead ?q = Some r" using lfq.front_law [OF ok] Cons.hyps(2) [symmetric] by simp
  from session_next [OF Cons.prems response_leaves [OF this q(1)]] Cons.hyps(1) [of "S\<lparr>exchange := (exchange S)\<lparr>outgoing_ogw_responses := q\<rparr>,
      to_client := to_client S @ (if rs_client_id r = session_client S then [r] else [])\<rparr>"] q(2) Cons.hyps(2) [symmetric]
  show ?case by auto
qed

text \<open>The two responses the taker gets.\<close>

lemma sample_fill:
  assumes "position P = 0"
  obtains Q where "AddFill (sample_response ClientResponseType_FILLED 1 1 Side_BUY (I64 105) 2 3) P = Inr Q" "position Q = 2"
  by (rule AddFill_opening [of "sample_response ClientResponseType_FILLED 1 1 Side_BUY (I64 105) 2 3" P])
    (use assms in \<open>simp_all add: sample_response_def\<close>)

lemma sample_responses_run:
  assumes "te_algo E = AlgoType_TAKER" "te_order_manager E = sample_manager_order\<lparr>outgoing_ogw_requests := q\<rparr>"
    "position (position_keeper E 0) = 0"
  shows "\<exists>E1 E2. TE_OnOrderUpdate (sample_response ClientResponseType_ACCEPTED 1 1 Side_BUY (I64 105) 0 5) E = Inr E1 \<and>
    TE_OnOrderUpdate (sample_response ClientResponseType_FILLED 1 1 Side_BUY (I64 105) 2 3) E1 = Inr E2 \<and>
    te_cfg E2 = te_cfg E \<and> position (position_keeper E2 0) = 2 \<and>
    outstanding (om_order (side_place 0 Side_BUY) (te_order_manager E2)) \<and>
    om_qty (om_order (side_place 0 Side_BUY) (te_order_manager E2)) = 3 \<and>
    om_client_id (te_order_manager E2) = 1 \<and> outgoing_ogw_requests (te_order_manager E2) = q"
proof -
  obtain Q where Q: "AddFill (sample_response ClientResponseType_FILLED 1 1 Side_BUY (I64 105) 2 3) (position_keeper E 0) = Inr Q"
    "position Q = 2" by (rule sample_fill [OF assms(3)])
  have [simp]: "om_client_id sample_manager_order = 1" by (simp add: sample_manager_order_def order_calls sample_orders)
  show ?thesis using assms Q unfolding sample_response_def
    by (simp add: TE_OnOrderUpdate_def PositionKeeper_AddFill_def at_ticker_def algo_on_order_update_def OnOrderUpdate_def
        order_place_def ME_MAX_TICKERS_def outstanding_def)
qed

lemma trader_same [simp]: "trader S = E \<Longrightarrow> S\<lparr>trader := E\<rparr> = S"
  by auto

lemma sample_session_fields:
  "to_exchange sample_session = []" "to_client sample_session = []"
  "te_cfg (trader sample_session) = sample_strategy"
  "num_elements (incoming_requests (exchange sample_session)) = 0" "q_size (incoming_requests (exchange sample_session)) = 8"
  "num_elements (LockFreeQueue_new n x) = 0" "q_size (LockFreeQueue_new n x) = n"
  by (simp_all add: sample_session_def TradingEngine_new_def MatchingEngine_new_def LockFreeQueue_new_def)

lemma sample_manager_order:
  "om_client_id sample_manager_order = 1"
  "outgoing_ogw_requests sample_manager_order = Enqueue sample_buy (LockFreeQueue_new 8 MEClientRequest_default)"
  by (simp_all add: sample_manager_order_def order_calls sample_orders sample_buy_def)

text \<open>The taker's order has reached the exchange, behind it the other client's.\<close>

definition sample_ordered :: "TradingEngine \<Rightarrow> MEClientRequest LockFreeQueue \<Rightarrow> Session" where
  "sample_ordered E q =
     sample_session\<lparr>trader := E\<lparr>te_order_manager := sample_manager_order\<lparr>outgoing_ogw_requests := q\<rparr>\<rparr>,
       exchange := sample_exchange\<rparr>"

lemma ordered_session:
  obtains E q where "session_reachable (sample_ordered E q)" "te_algo E = AlgoType_TAKER" "te_cfg E = sample_strategy"
    "position (position_keeper E 0) = 0" "q_list q = []"
proof -
  let ?S0 = sample_session and ?q0 = "LockFreeQueue_new 8 MEClientRequest_default"
  obtain E0 where E0: "rfold TE_OnMarketUpdate sample_quotes (trader ?S0) = Inr E0"
    "bbo (te_books E0 0) = \<lparr>bid_price = I64 100, ask_price = I64 105, bid_qty = 5, ask_qty = 3\<rparr>"
    "te_order_manager E0 = sample_orders" "te_algo E0 = AlgoType_TAKER" "te_cfg E0 = sample_strategy"
    "position (position_keeper E0 0) = 0" "total_pnl (position_keeper E0 0) = dzero"
    using sample_quotes_run by blast
  obtain E where E: "TE_OnMarketUpdate sample_trade E0 = Inr E" "te_algo E = AlgoType_TAKER" "te_cfg E = sample_strategy"
    "position_keeper E = position_keeper E0" "te_order_manager E = sample_manager_order"
    using sample_trade_run [OF E0(2-7)] by blast
  have run: "rfold TE_OnMarketUpdate (sample_quotes @ [sample_trade]) (trader ?S0) = Inr E"
    using E0(1) E(1) by (simp add: rfold_append)
  have q0: "q_ok ?q0" "q_list ?q0 = []" by (simp_all add: q_ok_def q_list_def LockFreeQueue_new_def)
  let ?S1 = "?S0\<lparr>trader := E\<rparr>"
  have S1: "session_reachable ?S1"
    by (rule session_updates [OF sample_session_reachable run]) (simp add: E(5) sample_manager_order sample_session_fields)
  have q1: "q_ok (Enqueue sample_buy ?q0)" "q_list (Enqueue sample_buy ?q0) = [sample_buy]"
    using Enqueue_ok [OF q0(1)] q0(2) by (simp_all add: sample_session_fields)
  obtain q where q: "UpdateReadIndex (Enqueue sample_buy ?q0) = Inr q" "q_list q = []"
    using lfq.deq_law [OF q1] by blast
  let ?S2 = "?S1\<lparr>trader := E\<lparr>te_order_manager := sample_manager_order\<lparr>outgoing_ogw_requests := q\<rparr>\<rparr>, to_exchange := [sample_buy]\<rparr>"
  have "GetNextToRead (Enqueue sample_buy ?q0) = Some sample_buy" using lfq.front_law [OF q1(1)] q1(2) by simp
  from session_next [OF S1 gateway_sends, of sample_buy q] this q(1)
  have S2: "session_reachable ?S2" by (simp add: E(5) sample_manager_order sample_session_fields)
  let ?S3 = "?S2\<lparr>to_exchange := [], exchange := (exchange ?S0)\<lparr>incoming_requests := Enqueue sample_buy (incoming_requests (exchange ?S0))\<rparr>\<rparr>"
  from session_next [OF S2 request_arrives, of sample_buy "[]"]
  have S3: "session_reachable ?S3" by (simp add: sample_session_fields)
  from session_next [OF S3 other_request, of sample_sell]
  have "session_reachable (?S3\<lparr>exchange := sample_exchange\<rparr>)"
    by (simp add: sample_session_fields sample_manager_order sample_sell_def)
  moreover have "?S3\<lparr>exchange := sample_exchange\<rparr> = sample_ordered E q"
    by (simp add: sample_ordered_def sample_session_def)
  ultimately show thesis using that E(2-4) E0(6) q(2) by simp
qed

text \<open>The exchange has answered both requests, and the taker's two responses have reached it.\<close>

lemma answered_session:
  assumes "session_reachable (sample_ordered E q)"
  obtains X where "session_reachable ((sample_ordered E q)\<lparr>exchange := X, to_client :=
      [sample_response ClientResponseType_ACCEPTED 1 1 Side_BUY (I64 105) 0 5,
       sample_response ClientResponseType_FILLED 1 1 Side_BUY (I64 105) 2 3]\<rparr>)"
    "q_list (outgoing_ogw_responses X) = []" "q_list (incoming_requests X) = []"
    "resting 1 Side_BUY (ticker_order_book X 0) = {0}"
proof -
  let ?S = "sample_ordered E q"
  obtain X Y where X: "Run_once sample_exchange = Inr X"
    "no_overrun (outgoing_ogw_responses X)" "no_overrun (outgoing_md_updates X)"
    "GetNextToRead (incoming_requests X) = Some sample_sell" "can_process sample_sell X"
    and Y: "Run_once X = Inr Y" "no_overrun (outgoing_ogw_responses Y)" "no_overrun (outgoing_md_updates Y)"
    "q_list (incoming_requests Y) = []"
    "q_list (outgoing_ogw_responses Y) =
      [sample_response ClientResponseType_ACCEPTED 1 1 Side_BUY (I64 105) 0 5,
       sample_response ClientResponseType_ACCEPTED 2 2 Side_SELL (I64 104) 0 2,
       sample_response ClientResponseType_FILLED 2 2 Side_SELL (I64 105) 2 0,
       sample_response ClientResponseType_FILLED 1 1 Side_BUY (I64 105) 2 3]"
    "resting 1 Side_BUY (ticker_order_book Y 0) = {0}"
    using sample_exchange_run by blast
  from session_next [OF assms exchange_turn, of sample_buy X]
  have "session_reachable (?S\<lparr>exchange := X\<rparr>)" using sample_buy_ready X(1-3) by (simp add: sample_ordered_def)
  from session_next [OF this exchange_turn, of sample_sell Y]
  have S6: "session_reachable (?S\<lparr>exchange := Y\<rparr>)" using X(4,5) Y(1-3) by simp
  have "filter (\<lambda>r. rs_client_id r = session_client (?S\<lparr>exchange := Y\<rparr>)) (q_list (outgoing_ogw_responses Y)) =
      [sample_response ClientResponseType_ACCEPTED 1 1 Side_BUY (I64 105) 0 5,
       sample_response ClientResponseType_FILLED 1 1 Side_BUY (I64 105) 2 3]"
    unfolding Y(5) by (simp add: sample_response_def sample_manager_order sample_ordered_def)
  moreover have "to_client ?S = []" by (simp add: sample_ordered_def sample_session_fields)
  ultimately show thesis using that session_drain [OF S6] Y(4,6) by auto
qed

lemma traded_session:
  obtains S where "session_reachable S" "te_cfg (trader S) = sample_strategy" "session_client S = 1"
    "all_requests S = []" "all_responses S = []" "position (position_keeper (trader S) 0) = 2"
    "outstanding (om_order (side_place 0 Side_BUY) (manager S))" "om_qty (om_order (side_place 0 Side_BUY) (manager S)) = 3"
    "resting 1 Side_BUY (ticker_order_book (exchange S) 0) = {0}"
proof -
  let ?r1 = "sample_response ClientResponseType_ACCEPTED 1 1 Side_BUY (I64 105) 0 5"
  let ?r2 = "sample_response ClientResponseType_FILLED 1 1 Side_BUY (I64 105) 2 3"
  obtain E q where E: "session_reachable (sample_ordered E q)" "te_algo E = AlgoType_TAKER" "te_cfg E = sample_strategy"
    "position (position_keeper E 0) = 0" "q_list q = []" by (rule ordered_session)
  obtain X where S7: "session_reachable ((sample_ordered E q)\<lparr>exchange := X, to_client := [?r1, ?r2]\<rparr>)"
      (is "session_reachable ?S7")
    and X: "q_list (outgoing_ogw_responses X) = []" "q_list (incoming_requests X) = []"
      "resting 1 Side_BUY (ticker_order_book X 0) = {0}"
    by (rule answered_session [OF E(1)])
  obtain F1 F2 where F: "TE_OnOrderUpdate ?r1 (trader ?S7) = Inr F1" "TE_OnOrderUpdate ?r2 F1 = Inr F2"
    "te_cfg F2 = sample_strategy" "position (position_keeper F2 0) = 2"
    "outstanding (om_order (side_place 0 Side_BUY) (te_order_manager F2))"
    "om_qty (om_order (side_place 0 Side_BUY) (te_order_manager F2)) = 3"
    "om_client_id (te_order_manager F2) = 1" "outgoing_ogw_requests (te_order_manager F2) = q"
    using sample_responses_run [of "trader ?S7" q] E(2-4) by (auto simp: sample_ordered_def)
  have S8: "session_reachable (?S7\<lparr>trader := F1, to_client := [?r2]\<rparr>)" (is "session_reachable ?S8")
    by (rule session_next [OF S7 order_update]) (use F(1) in simp_all)
  have S9: "session_reachable (?S8\<lparr>trader := F2, to_client := []\<rparr>)"
    by (rule session_next [OF S8 order_update]) (use F(2) in simp_all)
  show thesis
    by (rule that [OF S9])
      (use F(3-8) X E(5) in \<open>simp_all add: all_requests_def all_responses_def sample_ordered_def sample_session_fields\<close>)
qed

theorem position_within_limit_witness:
  "\<exists>S. session_reachable S \<and> sint (position (position_keeper (trader S) 0)) = 2 \<and>
    \<bar>sint (position (position_keeper (trader S) 0))\<bar> \<le> 50"
proof -
  obtain S where S: "session_reachable S" "te_cfg (trader S) = sample_strategy" "position (position_keeper (trader S) 0) = 2"
    by (rule traded_session)
  have "cfg_ok (te_cfg (trader S))" by (simp add: S(2) cfg_ok_def sample_strategy_def)
  from position_within_limit [OF S(1) this, of 0] S show ?thesis
    by (intro exI [of _ S]) (simp add: ME_MAX_TICKERS_def sample_strategy_def)
qed

theorem quiet_session_agrees_witness:
  "\<exists>S x. session_reachable S \<and> outstanding (om_order (side_place 0 Side_BUY) (manager S)) \<and>
    om_qty (om_order (side_place 0 Side_BUY) (manager S)) = 3 \<and>
    resting (session_client S) Side_BUY (ticker_order_book (exchange S) 0) = {x} \<and>
    o_qty (ord (ticker_order_book (exchange S) 0) x) = 3"
proof -
  obtain S where S: "session_reachable S" "all_requests S = []" "all_responses S = []"
    "outstanding (om_order (side_place 0 Side_BUY) (manager S))" "om_qty (om_order (side_place 0 Side_BUY) (manager S)) = 3"
    by (rule traded_session)
  from quiet_session_agrees [OF S(1), of 0 Side_BUY] S show ?thesis
    by (intro exI [of _ S]) (simp add: ME_MAX_TICKERS_def)
qed

end
