(* ===== verification/Book_Replication.thy ===== *)
theory Book_Replication
  imports Client_View
begin

text \<open>
  The market data feed replicates the book: the updates the exchange sends for a request, applied by
  the order book of a trading engine, turn a copy of the exchange's book before the request into a copy
  of the book after it. A copy has the same orders in the same priority, without the clients' fields.
\<close>

section \<open>The public part of a book\<close>

definition public :: "ExchangeOrder \<Rightarrow> TradingOrder" where
  "public q =
     \<lparr>o_order_id = o_order_id q, o_side = o_side q, o_price = o_price q, o_qty = o_qty q,
      o_priority = o_priority q, o_prev_order = None, o_next_order = None\<rparr>"

definition public_lists :: "ExchangeSpec \<Rightarrow> order_lists" where
  "public_lists S s = map public (sp_orders S s)"

lemma public_fields [simp]:
  "o_order_id (public q) = o_order_id q" "o_side (public q) = o_side q" "o_price (public q) = o_price q"
  "o_qty (public q) = o_qty q" "o_priority (public q) = o_priority q"
  by (simp_all add: public_def)

lemma public_qty: "public (q\<lparr>o_qty := n\<rparr>) = (public q)\<lparr>o_qty := n\<rparr>"
  by (simp add: public_def)

lemma public_insert: "spec_insert s (public q) (map public qs) = map public (spec_insert s q qs)"
  by (simp add: spec_insert_def takeWhile_map dropWhile_map o_def)

text \<open>A sequence of updates a book can take, one after the other.\<close>

fun fits_all :: "MEMarketUpdate list \<Rightarrow> order_lists \<Rightarrow> bool" where
  "fits_all [] F \<longleftrightarrow> True"
| "fits_all (u # us) F \<longleftrightarrow> tb_fits u F \<and> fits_all us (book_apply u F)"

lemma fits_all_append: "fits_all (us @ vs) F \<longleftrightarrow> fits_all us F \<and> fits_all vs (fold book_apply us F)"
  by (induction us arbitrary: F) auto

section \<open>The updates of a request\<close>

lemma match_updates:
  assumes "spec_match t c s co mo p l qs = (l', qs', gone, ms)" "F z = map public qs" "trade_side z"
    and "\<forall>q\<in>set qs. o_side q = z" "distinct (map o_order_id qs)"
    and "\<forall>s'. s' \<noteq> z \<longrightarrow> (\<forall>r\<in>set (F s'). o_order_id r \<notin> o_order_id ` set qs)"
  shows "fits_all (updates ms) F \<and> fold book_apply (updates ms) F = F(z := map public qs')"
  using assms
proof (induction t c s co mo p l qs arbitrary: l' qs' gone ms F rule: spec_match.induct)
  case (1 t c s co mo p l)
  then show ?case by (auto simp: fun_eq_iff)
next
  case (2 t c s co mo p l q qs)
  obtain l2 qs2 gone2 ms2 where r:
    "spec_match t c s co mo p (l - min l (o_qty q)) qs = (l2, qs2, gone2, ms2)" by (metis prod_cases4)
  have F: "F z = public q # map public qs" using "2.prems"(2) by simp
  have q: "o_side q = z" using "2.prems"(4) by simp
  have rest: "\<forall>r\<in>set qs. o_order_id r \<noteq> o_order_id q" using "2.prems"(5) by (simp add: image_iff) metis
  have others: "\<forall>r\<in>set (F s'). o_order_id r \<noteq> o_order_id q" if "s' \<noteq> z" for s' using "2.prems"(6) that by auto
  consider (stop) "l = 0 \<or> not_crossed s p (o_price q)"
    | (gone) "\<not> (l = 0 \<or> not_crossed s p (o_price q))" "o_qty q - min l (o_qty q) = 0"
    | (part) "\<not> (l = 0 \<or> not_crossed s p (o_price q))" "o_qty q - min l (o_qty q) \<noteq> 0" by blast
  then show ?case
  proof cases
    case stop
    with "2.prems"(1) F show ?thesis by (auto simp: fun_eq_iff)
  next
    case gone
    let ?u = "\<lparr>mu_type = MarketUpdateType_CANCEL, mu_order_id = o_order_id q, mu_ticker_id = t, mu_side = o_side q,
      mu_price = o_price q, mu_qty = o_qty q, mu_priority = PRIORITY_INVALID\<rparr>"
    let ?tr = "\<lparr>mu_type = MarketUpdateType_TRADE, mu_order_id = ORDER_ID_INVALID, mu_ticker_id = t, mu_side = s,
      mu_price = o_price q, mu_qty = min l (o_qty q), mu_priority = PRIORITY_INVALID\<rparr>"
    have us: "updates ms = ?tr # ?u # updates ms2" and qs': "qs' = qs2"
      using "2.prems"(1) gone r by (auto simp: match_messages_def)
    have tr: "tb_fits ?tr F" "book_apply ?tr F = F" by (simp_all add: tb_fits_def book_apply_def)
    have fits: "tb_fits ?u F" using q F "2.prems"(3) by (auto simp: tb_fits_def)
    have "filter (\<lambda>r. o_order_id r \<noteq> o_order_id q) (F s') = (F(z := map public qs)) s'" for s'
      using others [of s'] rest F by (cases "s' = z") (auto simp: filter_id_conv)
    then have ap: "book_apply ?u F = F(z := map public qs)" by (simp add: book_apply_def fun_eq_iff)
    have "fits_all (updates ms2) (F(z := map public qs)) \<and>
        fold book_apply (updates ms2) (F(z := map public qs)) = (F(z := map public qs))(z := map public qs2)"
      by (rule "2.IH" [OF gone r]) (use "2.prems"(3-6) in auto)
    then show ?thesis using fits ap tr by (simp add: us qs')
  next
    case part
    let ?n = "o_qty q - min l (o_qty q)"
    let ?u = "\<lparr>mu_type = MarketUpdateType_MODIFY, mu_order_id = o_order_id q, mu_ticker_id = t, mu_side = o_side q,
      mu_price = o_price q, mu_qty = ?n, mu_priority = o_priority q\<rparr>"
    let ?tr = "\<lparr>mu_type = MarketUpdateType_TRADE, mu_order_id = ORDER_ID_INVALID, mu_ticker_id = t, mu_side = s,
      mu_price = o_price q, mu_qty = min l (o_qty q), mu_priority = PRIORITY_INVALID\<rparr>"
    have us: "updates ms = [?tr, ?u]" and qs': "qs' = q\<lparr>o_qty := ?n\<rparr> # qs"
      using "2.prems"(1) part by (auto simp: match_messages_def)
    have tr: "tb_fits ?tr F" "book_apply ?tr F = F" by (simp_all add: tb_fits_def book_apply_def)
    have fits: "tb_fits ?u F" using q F "2.prems"(3) by (auto simp: tb_fits_def)
    have "map (\<lambda>r. if o_order_id r = o_order_id q then r\<lparr>o_qty := ?n\<rparr> else r) (F s') = (F(z := map public qs')) s'" for s'
      using others [of s'] rest F by (cases "s' = z") (auto simp: qs' public_qty intro!: map_idI)
    moreover have sel: "mu_type ?u = MarketUpdateType_MODIFY" "mu_order_id ?u = o_order_id q" "mu_qty ?u = ?n" by simp_all
    ultimately have "book_apply ?u F = F(z := map public qs')"
      unfolding book_apply_def sel MarketUpdateType.case by (intro ext)
    then show ?thesis using fits tr by (simp add: us)
  qed
qed

text \<open>What the trading engine's arrays must have room for.\<close>

definition copy_room :: "OrderId \<Rightarrow> order_lists \<Rightarrow> bool" where
  "copy_room n F \<longleftrightarrow>
     unat n < ME_MAX_ORDER_IDS \<and> length (order_list F) + 1 < ME_MAX_ORDER_IDS \<and>
     card (o_price ` set (order_list F)) + 1 < ME_MAX_PRICE_LEVELS"

definition only_sides :: "ExchangeSpec \<Rightarrow> bool" where
  "only_sides S \<longleftrightarrow> (\<forall>s. \<not> trade_side s \<longrightarrow> sp_orders S s = [])"

lemma market_side: "market_ok S \<Longrightarrow> trade_side s \<Longrightarrow> side_wf s (sp_next S) (sp_orders S s)"
  by (auto simp: market_ok_def)

lemma market_below: "market_ok S \<Longrightarrow> trade_side s \<Longrightarrow> q \<in> set (sp_orders S s) \<Longrightarrow> o_side q = s \<and> o_order_id q < sp_next S"
  using market_side [of S s] by (simp add: side_wf_def)

lemma ids_apart:
  assumes "view_ok S" "trade_side s" "q \<in> set (sp_orders S s)" "r \<in> set (sp_orders S (other_side s))"
  shows "o_order_id q \<noteq> o_order_id r"
proof -
  have "o_order_id ` set (sp_orders S Side_BUY) \<inter> o_order_id ` set (sp_orders S Side_SELL) = {}"
    using assms(1) by (simp add: view_ok_def spec_orders_def)
  then show ?thesis using assms(2-4) unfolding other_side_def disjoint_iff
    by (cases "s = Side_BUY") (simp_all, metis image_eqI, metis image_eqI)
qed

lemma sides_apart:
  assumes "market_ok S" "trade_side s" "q \<in> set (sp_orders S s)" "r \<in> set (sp_orders S (other_side s))"
  shows "o_price r \<noteq> o_price q"
proof -
  have uncrossed: "\<And>q r. q \<in> set (sp_orders S Side_BUY) \<Longrightarrow> r \<in> set (sp_orders S Side_SELL) \<Longrightarrow> o_price q < o_price r"
    using assms(1) by (auto simp: market_ok_def)
  show ?thesis using assms(2-4) uncrossed [of q r] uncrossed [of r q] by (auto simp: other_side_def)
qed

text \<open>What is left of a new order fits the copy that has seen the trades.\<close>

lemma rest_fits:
  assumes O: "only_sides S" and M: "market_ok S" and s: "trade_side s" and empty: "sp_sent S = []"
    and n: "sp_next S \<noteq> - 1"
    and slots: "\<forall>q\<in>set (spec_orders S). PriceToIndex (o_price q) = PriceToIndex p \<longrightarrow> o_price q = p"
    and room: "copy_room (sp_next S) (public_lists S)"
    and m: "spec_match t c s co (fill_id (sp_next S)) p qty (sp_orders S (other_side s)) = (l, opp, gone, ms)"
    and left: "l \<noteq> 0"
  defines "q \<equiv> spec_order c co t s p l (sp_next S) (spec_priority p (sp_orders S s))"
  shows "tb_fits (add_update q) ((public_lists S)(other_side s := map public opp))"
proof -
  let ?z = "other_side s" and ?F = "public_lists S" and ?S = "spec_add c co t s p qty S"
  let ?q = "spec_order c co t s p l (sp_next S) (spec_priority p (sp_orders S s))"
  let ?F1 = "?F(?z := map public opp)"
  have z: "trade_side ?z" by simp
  have sel: "mu_type (add_update ?q) = MarketUpdateType_ADD" "mu_side (add_update ?q) = s"
    "mu_order_id (add_update ?q) = sp_next S" "mu_price (add_update ?q) = p"
    by (simp_all add: add_update_def spec_order_def)
  have sub: "o_price ` set opp \<subseteq> o_price ` set (sp_orders S ?z)" "o_order_id ` set opp \<subseteq> o_order_id ` set (sp_orders S ?z)"
    using spec_match_subset [OF m] by blast+
  have len: "length opp \<le> length (sp_orders S ?z)" using spec_match_shape [OF m] by auto
  have lists: "set (order_list ?F1) = public ` (set (sp_orders S s) \<union> set opp)"
    "length (order_list ?F1) = length (sp_orders S s) + length opp"
    "set (order_list ?F) = public ` (set (sp_orders S s) \<union> set (sp_orders S ?z))"
    "length (order_list ?F) = length (sp_orders S s) + length (sp_orders S ?z)"
    "set (spec_orders S) = set (sp_orders S s) \<union> set (sp_orders S ?z)"
    using s by (auto simp: public_lists_def other_side_def spec_orders_def)
  have "sp_orders ?S ?z = opp" "?q \<in> set (sp_orders ?S s)"
    using add_parts [OF m s empty] left by (simp_all add: spec_insert_def)
  then have apart: "\<forall>r\<in>set opp. o_price r \<noteq> p"
    using sides_apart [OF market_ok_add [OF M s n] s, of ?q] by (simp add: spec_order_def)
  have ids: "o_order_id r \<noteq> sp_next S" if "r \<in> set (sp_orders S s) \<union> set opp" for r
  proof -
    have "o_order_id r \<in> o_order_id ` set (sp_orders S s) \<union> o_order_id ` set (sp_orders S ?z)" using that sub(2) by auto
    then show ?thesis by (auto dest: market_below [OF M s] market_below [OF M z])
  qed
  have slot: "o_price r = p \<and> o_side r = s" if "r \<in> set (sp_orders S s) \<union> set opp" "PriceToIndex (o_price r) = PriceToIndex p" for r
  proof -
    have "o_price r \<in> o_price ` set (spec_orders S)" using that(1) sub(1) lists(5) by auto
    then have "o_price r = p" using slots that(2) by (metis (no_types, lifting) imageE)
    then show ?thesis using that(1) apart market_below [OF M s] by blast
  qed
  have prices: "o_price ` set (order_list ?F1) \<subseteq> o_price ` set (order_list ?F)"
    unfolding lists(1,3) using sub(1) by (auto simp: image_Un image_image)
  have "card (o_price ` set (order_list ?F1)) \<le> card (o_price ` set (order_list ?F))"
    by (rule card_mono [OF _ prices]) simp
  then have room': "length (order_list ?F1) + 1 < ME_MAX_ORDER_IDS"
    "card (o_price ` set (order_list ?F1)) + 1 < ME_MAX_PRICE_LEVELS" "unat (sp_next S) < ME_MAX_ORDER_IDS"
    using room len unfolding copy_room_def lists(2,4) by simp_all
  have "\<forall>r\<in>set (order_list ?F1). o_order_id r \<noteq> sp_next S" unfolding lists(1) using ids by auto
  moreover have "\<forall>r\<in>set (order_list ?F1). PriceToIndex (o_price r) = PriceToIndex p \<longrightarrow> o_price r = p \<and> o_side r = s"
    unfolding lists(1) using slot by auto
  ultimately show ?thesis using room' s
    unfolding q_def by (simp only: tb_fits_def sel MarketUpdateType.case)
qed

lemma add_updates:
  assumes V: "view_ok S" and O: "only_sides S" and M: "market_ok S" and s: "trade_side s" and empty: "sp_sent S = []"
    and n: "sp_next S \<noteq> - 1"
    and slots: "\<forall>q\<in>set (spec_orders S). PriceToIndex (o_price q) = PriceToIndex p \<longrightarrow> o_price q = p"
    and room: "copy_room (sp_next S) (public_lists S)"
  shows "fits_all (updates (sp_sent (spec_add c co t s p qty S))) (public_lists S) \<and>
    fold book_apply (updates (sp_sent (spec_add c co t s p qty S))) (public_lists S) = public_lists (spec_add c co t s p qty S)"
proof -
  let ?z = "other_side s" and ?F = "public_lists S" and ?S = "spec_add c co t s p qty S"
  obtain l opp gone ms where m:
    "spec_match t c s co (fill_id (sp_next S)) p qty (sp_orders S ?z) = (l, opp, gone, ms)" by (metis prod_cases4)
  have z: "trade_side ?z" by simp
  have "\<forall>r\<in>set (?F s'). o_order_id r \<notin> o_order_id ` set (sp_orders S ?z)" if "s' \<noteq> ?z" for s'
  proof (cases "trade_side s'")
    case True
    then have "s' = s" using that s by (auto simp: other_side_def)
    then show ?thesis using ids_apart [OF V s] by (auto simp: public_lists_def)
  next
    case False
    then show ?thesis using O by (auto simp: public_lists_def only_sides_def)
  qed
  moreover have "distinct (map o_order_id (sp_orders S ?z))"
    using V s by (auto simp: view_ok_def spec_orders_def other_side_def)
  ultimately have mu: "fits_all (updates ms) ?F" "fold book_apply (updates ms) ?F = ?F(?z := map public opp)"
    using match_updates [OF m _ z, of ?F] view_okD(1) [OF V z] by (simp_all add: public_lists_def)
  let ?q = "spec_order c co t s p l (sp_next S) (spec_priority p (sp_orders S s))"
  let ?F1 = "?F(?z := map public opp)"
  note parts = add_parts [OF m s empty]
  show ?thesis
  proof (cases "l = 0")
    case True
    have "updates (sp_sent ?S) = updates ms" using True m empty by (simp add: spec_add_def)
    moreover have "public_lists ?S = ?F1"
    proof
      fix s' show "public_lists ?S s' = ?F1 s'" using parts(1,2) True m by (auto simp: public_lists_def spec_add_def)
    qed
    ultimately show ?thesis using mu by simp
  next
    case False
    have us: "updates (sp_sent ?S) = updates ms @ [add_update ?q]" using False m empty by (simp add: spec_add_def)
    have q: "as_order (add_update ?q) = public ?q" by (simp add: as_order_def add_update_def public_def)
    have sel: "mu_type (add_update ?q) = MarketUpdateType_ADD" "mu_side (add_update ?q) = s"
      "mu_order_id (add_update ?q) = sp_next S" "mu_price (add_update ?q) = p"
      by (simp_all add: add_update_def spec_order_def)
    have frame: "sp_orders ?S s' = sp_orders S s'" if "s' \<noteq> s" "s' \<noteq> ?z" for s'
      using that m by (simp add: spec_add_def)
    have ap: "book_apply (add_update ?q) ?F1 = public_lists ?S"
    proof
      fix s'
      have "book_apply (add_update ?q) ?F1 = ?F1(s := spec_insert s (public ?q) (?F1 s))"
        by (simp only: book_apply_def sel q MarketUpdateType.case)
      then show "book_apply (add_update ?q) ?F1 s' = public_lists ?S s'"
        using False parts(1,2) frame [of s'] public_insert [of s ?q "sp_orders S s"] by (auto simp: public_lists_def)
    qed
    have fit: "tb_fits (add_update ?q) ?F1" by (rule rest_fits [OF O M s empty n slots room m False])
    show ?thesis using mu ap fit by (simp add: us fits_all_append)
  qed
qed

lemma cancel_updates:
  assumes V: "view_ok S" and O: "only_sides S" and empty: "sp_sent S = []"
  shows "fits_all (updates (sp_sent (spec_cancel c co t S))) (public_lists S) \<and>
    fold book_apply (updates (sp_sent (spec_cancel c co t S))) (public_lists S) = public_lists (spec_cancel c co t S)"
proof (cases "sp_index S (c, co)")
  case None
  then show ?thesis using empty by (simp add: spec_cancel_def public_lists_def fun_eq_iff)
next
  case (Some mo)
  then obtain q where q: "q \<in> set (spec_orders S)" "o_order_id q = mo" "o_client_id q = c"
    and uniq: "\<And>r. r \<in> set (spec_orders S) \<Longrightarrow> o_order_id r = mo \<Longrightarrow> r = q"
    and hd: "hd (filter (\<lambda>r. o_order_id r = mo) (spec_orders S)) = q"
    and side: "q \<in> set (sp_orders S (o_side q))" "trade_side (o_side q)"
    by (rule indexed_order [OF V]) blast
  let ?u = "\<lparr>mu_type = MarketUpdateType_CANCEL, mu_order_id = mo, mu_ticker_id = t, mu_side = o_side q,
    mu_price = o_price q, mu_qty = 0, mu_priority = o_priority q\<rparr>"
  have us: "updates (sp_sent (spec_cancel c co t S)) = [?u]" using Some hd empty by (simp add: spec_cancel_def)
  have fit: "tb_fits ?u (public_lists S)" using side q(2) by (auto simp: tb_fits_def public_lists_def)
  have "filter (\<lambda>r. o_order_id r \<noteq> mo) (sp_orders S s) = sp_orders S s" if "s \<noteq> o_side q" for s
  proof (cases "trade_side s")
    case True
    have "o_order_id r \<noteq> mo" if r: "r \<in> set (sp_orders S s)" for r
    proof
      assume "o_order_id r = mo"
      then have "r = q" using uniq r True by (auto simp: spec_orders_def)
      then show False using view_okD(1) [OF V True r] \<open>s \<noteq> o_side q\<close> by simp
    qed
    then show ?thesis by (simp add: filter_id_conv)
  next
    case False
    then show ?thesis using O by (simp add: only_sides_def)
  qed
  then have "book_apply ?u (public_lists S) = public_lists (spec_cancel c co t S)"
    using Some hd by (auto simp: book_apply_def public_lists_def spec_cancel_def fun_eq_iff filter_map o_def)
  then show ?thesis using fit by (simp add: us)
qed

section \<open>Applying them\<close>

text \<open>The order book of the trading engine takes updates one by one.\<close>

definition take_update :: "MEMarketUpdate \<Rightarrow> TradingOrderBook \<Rightarrow> TradingOrderBook result" where
  "take_update u b = rbind (OnMarketUpdate u b) (\<lambda>(b, call). Inr b)"

lemma take_updates_ok:
  assumes "tb_ok b L" "fits_all us (tb_orders b L)"
  shows "\<exists>b' L'. rfold take_update us b = Inr b' \<and> tb_ok b' L' \<and> tb_orders b' L' = fold book_apply us (tb_orders b L)"
  using assms
proof (induction us arbitrary: b L)
  case (Cons u us)
  obtain b1 c L1 where b1: "OnMarketUpdate u b = Inr (b1, c)" "tb_ok b1 L1" "tb_orders b1 L1 = book_apply u (tb_orders b L)"
    using OnMarketUpdate_ok [OF Cons.prems(1)] Cons.prems(2) by (metis fits_all.simps(2))
  have "fits_all us (tb_orders b1 L1)" using Cons.prems(2) b1(3) by simp
  from Cons.IH [OF b1(2) this] show ?case using b1(1,3) by (simp add: take_update_def)
qed auto

lemma engine_sides: "engine_ok X L \<Longrightarrow> t < ME_MAX_TICKERS \<Longrightarrow> only_sides (book_spec X L t) \<and> market_ok (book_spec X L t)"
  using eob_okD(7) [of "ticker_order_book X t" "L t"]
  by (auto simp: engine_ok_def exchange_inv_def only_sides_def book_spec_def abs_orders_def)

lemma can_add_slots:
  assumes "engine_ok X L" "t < ME_MAX_TICKERS" "can_add c co s p (ticker_order_book X t)"
  shows "\<forall>q\<in>set (spec_orders (book_spec X L t)). PriceToIndex (o_price q) = PriceToIndex p \<longrightarrow> o_price q = p"
    "sp_next (book_spec X L t) \<noteq> - 1"
proof -
  let ?b = "ticker_order_book X t"
  have ok: "eob_ok ?b (L t)" using assms(1,2) by (simp add: engine_ok_def exchange_inv_def)
  show "\<forall>q\<in>set (spec_orders (book_spec X L t)). PriceToIndex (o_price q) = PriceToIndex p \<longrightarrow> o_price q = p"
    using assms(3) eob_okD(3) [OF ok]
    by (auto simp: book_spec_def spec_orders_abs can_add_def simp del: addrs_simps)
  show "sp_next (book_spec X L t) \<noteq> - 1" using assms(3) by (simp add: book_spec_def can_add_def)
qed

section \<open>Property\<close>

text \<open>
  C6: The feed replicates the book across the whole system. If the order book of a trading engine is a
  copy of the exchange's book, the exchange handles a request, and the trading engine applies the
  updates the exchange appends to its market data queue, then it again holds a copy of the exchange's
  book: the same orders in the same priority. (The copy needs room, and market order ids below its
  array's size.)
\<close>

theorem feed_replicates_book:
  assumes "engine_ok X L" "can_process rq X" "queues_fit (request_messages rq X L) X" "unat (rq_ticker_id rq) = t"
    and "tb_ok B LB" "tb_orders B LB = public_lists (book_spec X L t)"
    and "copy_room (next_market_order_id (ticker_order_book X t)) (tb_orders B LB)"
  shows "\<exists>X' L' us B' LB'. ProcessClientRequest rq X = Inr X' \<and> engine_ok X' L' \<and>
    q_list (outgoing_md_updates X') = q_list (outgoing_md_updates X) @ us \<and>
    rfold take_update us B = Inr B' \<and> tb_ok B' LB' \<and> tb_orders B' LB' = public_lists (book_spec X' L' t)"
proof -
  let ?S = "book_spec X L t"
  have t: "t < ME_MAX_TICKERS" using assms(2,4) by (simp add: can_process_def)
  note V = engine_view [OF assms(1) t] and O = engine_sides [OF assms(1) t]
  obtain X' L' where X': "ProcessClientRequest rq X = Inr X'" "engine_ok X' L'"
    "q_list (outgoing_md_updates X') = q_list (outgoing_md_updates X) @ updates (request_messages rq X L)"
    "book_spec X' L' t = (spec_request rq ?S)\<lparr>sp_sent := []\<rparr>"
    by (rule Process_ok [OF assms(1-3)]) (use assms(4) in \<open>auto simp: book_spec_def\<close>)
  have ms: "request_messages rq X L = sp_sent (spec_request rq ?S)"
    by (simp add: request_messages_def book_spec_def assms(4))
  have "fits_all (updates (sp_sent (spec_request rq ?S))) (public_lists ?S) \<and>
      fold book_apply (updates (sp_sent (spec_request rq ?S))) (public_lists ?S) = public_lists (spec_request rq ?S)"
  proof (cases "rq_type rq = ClientRequestType_NEW")
    case True
    then have can: "can_add (rq_client_id rq) (rq_order_id rq) (rq_side rq) (rq_price rq) (ticker_order_book X t)"
      using assms(2,4) by (auto simp: can_process_def)
    then have s: "trade_side (rq_side rq)" by (simp add: can_add_def)
    have "copy_room (sp_next ?S) (public_lists ?S)" using assms(6,7) by (simp add: book_spec_def)
    from add_updates [OF V(1) _ _ s V(2) can_add_slots(2) [OF assms(1) t can] can_add_slots(1) [OF assms(1) t can] this]
    show ?thesis using True O by (simp add: spec_request_def)
  next
    case False
    then show ?thesis using cancel_updates [OF V(1) _ V(2)] O by (simp add: spec_request_def)
  qed
  then obtain B' LB' where "rfold take_update (updates (request_messages rq X L)) B = Inr B'" "tb_ok B' LB'"
    "tb_orders B' LB' = public_lists (spec_request rq ?S)"
    using take_updates_ok [OF assms(5)] unfolding assms(6) ms by metis
  moreover have "public_lists (book_spec X' L' t) = public_lists (spec_request rq ?S)"
    unfolding X'(4) by (simp add: public_lists_def fun_eq_iff)
  ultimately show ?thesis using X'(1-3) by metis
qed

definition sample_new :: MEClientRequest where
  "sample_new =
     \<lparr>rq_type = ClientRequestType_NEW, rq_client_id = 3, rq_ticker_id = 2, rq_order_id = 7,
      rq_side = Side_BUY, rq_price = I64 100, rq_qty = 5\<rparr>"

theorem feed_replicates_book_witness:
  "\<exists>X' us B' LB'. ProcessClientRequest sample_new (empty_engine []) = Inr X' \<and> q_list (outgoing_md_updates X') = us \<and>
    rfold take_update us (TradingOrderBook_new 2 (\<lambda>_. None) (\<lambda>_. None)) = Inr B' \<and> tb_ok B' LB'"
proof -
  let ?X = "empty_engine []" and ?B = "TradingOrderBook_new 2 (\<lambda>_. None) (\<lambda>_. None)"
  have book: "ticker_order_book ?X 2 = empty_book 2"
    by (simp add: empty_engine_def MatchingEngine_new_def empty_book_def)
  have spec: "book_spec ?X (\<lambda>_ _. []) 2 = \<lparr>sp_orders = (\<lambda>_. []), sp_index = (\<lambda>_. None), sp_next = 1, sp_sent = []\<rparr>"
    by (simp add: book_spec_def book empty_book_def ExchangeOrderBook_new_ok(2))
  have can: "can_process sample_new ?X"
    using empty_book_room [of Side_BUY 3 7 "I64 100" 2]
    by (simp add: can_process_def sample_new_def book ME_MAX_TICKERS_def cid_oid_in_range_def ME_MAX_NUM_CLIENTS_def ME_MAX_ORDER_IDS_def)
  have fit: "queues_fit (request_messages sample_new ?X (\<lambda>_ _. [])) ?X"
    using spec by (simp add: queues_fit_def request_messages_def sample_new_def spec_request_def spec_add_def
        book_spec_def empty_engine_def MatchingEngine_new_def LockFreeQueue_new_def q_list_def)
  have copy: "tb_orders ?B (\<lambda>_. []) = public_lists (book_spec ?X (\<lambda>_ _. []) 2)"
    by (simp add: spec tb_orders_def public_lists_def fun_eq_iff)
  have room: "copy_room (next_market_order_id (ticker_order_book ?X 2)) (tb_orders ?B (\<lambda>_. []))"
    by (simp add: book copy_room_def tb_orders_def empty_book_def ExchangeOrderBook_new_def ME_MAX_ORDER_IDS_def ME_MAX_PRICE_LEVELS_def)
  have "q_list (outgoing_md_updates ?X) = []" by (simp add: empty_engine_def MatchingEngine_new_def LockFreeQueue_new_def q_list_def)
  then show ?thesis
    using feed_replicates_book [OF empty_engine_ok(1) can fit _ tb_ok_new copy room] by (auto simp: sample_new_def)
qed

end
