(* ===== verification/Order_Ids.thy ===== *)
theory Order_Ids
  imports Position_Limit
begin

text \<open>
  The order ids of a trading engine: the exchange keys a client's orders by the ids the order manager
  gives out, so they must not repeat, and a cancel must name an order that was sent.
\<close>

section \<open>Runs of an order manager\<close>

text \<open>
  All requests sent so far, oldest first. A response belongs to an order that was sent, which is what
  the exchange's responses do.
\<close>

inductive om_run :: "TradeEngineCfgMap \<Rightarrow> OrderManager \<Rightarrow> MEClientRequest list \<Rightarrow> bool"
  for cfg :: TradeEngineCfgMap where
  run_start: "om_run cfg (OrderManager_new c q) []"
| run_action: "om_run cfg M rqs \<Longrightarrow> om_action cfg K M M' \<Longrightarrow>
    outgoing_ogw_requests M' = Enqueue rq (outgoing_ogw_requests M) \<Longrightarrow> om_run cfg M' (rqs @ [rq])"
| run_response: "om_run cfg M rqs \<Longrightarrow> OnOrderUpdate r M = Inr M' \<Longrightarrow>
    om_state (om_order (side_place (unat (rs_ticker_id r)) (rs_side r)) M) \<noteq> OM_INVALID \<Longrightarrow> om_run cfg M' rqs"

abbreviation news :: "MEClientRequest list \<Rightarrow> MEClientRequest list" where
  "news rqs \<equiv> filter (\<lambda>rq. rq_type rq = ClientRequestType_NEW) rqs"

definition announced :: "MEClientRequest list \<Rightarrow> OrderId \<Rightarrow> TickerId \<Rightarrow> Side \<Rightarrow> bool" where
  "announced rqs i t s \<longleftrightarrow>
     (\<exists>rq\<in>set rqs. rq_type rq = ClientRequestType_NEW \<and> rq_order_id rq = i \<and> rq_ticker_id rq = t \<and> rq_side rq = s)"

text \<open>Every cancel names an order announced before it.\<close>

definition cancels_known :: "MEClientRequest list \<Rightarrow> bool" where
  "cancels_known rqs \<longleftrightarrow>
     (\<forall>i < length rqs. rq_type (rqs ! i) = ClientRequestType_CANCEL \<longrightarrow>
        announced (take i rqs) (rq_order_id (rqs ! i)) (rq_ticker_id (rqs ! i)) (rq_side (rqs ! i)))"

lemma cancels_known_append [simp]:
  "cancels_known (rqs @ [rq]) \<longleftrightarrow> cancels_known rqs \<and>
     (rq_type rq = ClientRequestType_CANCEL \<longrightarrow> announced rqs (rq_order_id rq) (rq_ticker_id rq) (rq_side rq))"
  by (auto simp: cancels_known_def nth_append less_Suc_eq)

definition ids_inv :: "OrderManager \<Rightarrow> MEClientRequest list \<Rightarrow> bool" where
  "ids_inv M rqs \<longleftrightarrow>
     map rq_order_id (news rqs) = map of_nat [1..<length (news rqs) + 1] \<and>
     next_order_id M = of_nat (length (news rqs) + 1) \<and>
     cancels_known rqs \<and>
     (\<forall>p. om_state (om_order p M) \<noteq> OM_INVALID \<longrightarrow>
        announced rqs (om_order_id (om_order p M)) (om_ticker_id (om_order p M)) (om_side (om_order p M)))"

lemma announced_append [simp]: "announced rqs i t s \<Longrightarrow> announced (rqs @ vs) i t s"
  by (auto simp: announced_def)

lemma Enqueue_inj: "Enqueue x q = Enqueue y q \<Longrightarrow> x = y"
  by (drule arg_cong [of _ _ "\<lambda>q'. q_store q' (next_write_index q)"])
    (simp add: Enqueue_def UpdateWriteIndex_def WriteNext_def)

lemma ids_action:
  assumes inv: "ids_inv M rqs" and act: "om_action cfg K M M'"
    and rq: "outgoing_ogw_requests M' = Enqueue rq (outgoing_ogw_requests M)"
  shows "ids_inv M' (rqs @ [rq])"
  using act
proof cases
  case (act_cancel t s)
  let ?o = "om_order (side_place t s) M"
  have rq': "rq_type rq = ClientRequestType_CANCEL" "rq_order_id rq = om_order_id ?o" "rq_ticker_id rq = om_ticker_id ?o"
    "rq_side rq = om_side ?o"
    using rq unfolding act_cancel(1) by (auto simp: CancelOrder_def dest!: Enqueue_inj)
  have old: "announced rqs (om_order_id ?o) (om_ticker_id ?o) (om_side ?o)"
    using inv act_cancel(4) by (simp add: ids_inv_def)
  have "om_order_id (om_order p M') = om_order_id (om_order p M) \<and> om_ticker_id (om_order p M') = om_ticker_id (om_order p M) \<and>
      om_side (om_order p M') = om_side (om_order p M) \<and> (om_state (om_order p M') \<noteq> OM_INVALID \<longrightarrow> om_state (om_order p M) \<noteq> OM_INVALID)"
    "next_order_id M' = next_order_id M" for p
    using act_cancel(1,4) by (auto simp: CancelOrder_def)
  then show ?thesis using inv rq' old
    unfolding ids_inv_def by simp
next
  case (act_new s i qty price)
  have rq': "rq_type rq = ClientRequestType_NEW" "rq_order_id rq = next_order_id M" "rq_ticker_id rq = i" "rq_side rq = s"
    using rq unfolding act_new(1) by (auto simp: NewOrder_def dest!: Enqueue_inj)
  have new: "announced (rqs @ [rq]) (next_order_id M) i s" using rq' by (auto simp: announced_def)
  have "om_order p M' = (if p = side_place (unat i) s then
        \<lparr>om_ticker_id = i, om_order_id = next_order_id M, om_side = s, om_price = price, om_qty = qty,
         om_state = OM_PENDING_NEW\<rparr> else om_order p M)" "next_order_id M' = next_order_id M + 1" for p
    unfolding act_new(1) by (auto simp: NewOrder_def)
  then show ?thesis using inv rq' new
    unfolding ids_inv_def by (simp add: add.commute)
qed

lemma ids_response:
  assumes inv: "ids_inv M rqs" and upd: "OnOrderUpdate r M = Inr M'"
    and sent: "om_state (om_order (side_place (unat (rs_ticker_id r)) (rs_side r)) M) \<noteq> OM_INVALID"
  shows "ids_inv M' rqs"
proof -
  let ?p = "side_place (unat (rs_ticker_id r)) (rs_side r)"
  have "om_order_id (om_order p M') = om_order_id (om_order p M) \<and> om_ticker_id (om_order p M') = om_ticker_id (om_order p M) \<and>
      om_side (om_order p M') = om_side (om_order p M) \<and> (om_state (om_order p M') \<noteq> OM_INVALID \<longrightarrow> om_state (om_order p M) \<noteq> OM_INVALID)" for p
    using upd sent by (auto simp: OnOrderUpdate_def order_place_def elim!: rbind_eq_InrE split: if_splits ClientResponseType.splits)
  then show ?thesis using inv OnOrderUpdate_frame(3) [OF upd] by (simp add: ids_inv_def)
qed

lemma om_run_ids: "om_run cfg M rqs \<Longrightarrow> ids_inv M rqs"
proof (induction rule: om_run.induct)
  case (run_start c q)
  show ?case by (simp add: ids_inv_def cancels_known_def OrderManager_new_def om_order_def OMOrder_default_def)
qed (use ids_action ids_response in blast)+

section \<open>Property\<close>

text \<open>
  C25: Order ids never repeat and cancels are meaningful: whatever the strategy asks for and the exchange
  answers, the new orders of an order manager carry the ids 1, 2, 3, ... in the order they are sent, and
  every cancel names an order that was sent before, with its instrument and its side.
\<close>

theorem order_ids_consecutive:
  assumes "om_run cfg M rqs"
  shows "map rq_order_id (news rqs) = map of_nat [1..<length (news rqs) + 1] \<and>
    cancels_known rqs"
  using om_run_ids [OF assms] by (simp add: ids_inv_def)

text \<open>A new order of 5, accepted, and cancelled again.\<close>

definition sample_cfg :: TradeEngineCfgMap where
  "sample_cfg = (\<lambda>_. TradeEngineCfg_default\<lparr>risk_cfg := RiskCfg_default\<lparr>max_order_size := 10, max_position := 50\<rparr>\<rparr>)"

definition sample_manager :: OrderManager where
  "sample_manager = OrderManager_new 1 (LockFreeQueue_new 8 MEClientRequest_default)"

lemma cancelled_order_run:
  "\<exists>M rqs. om_run sample_cfg M rqs \<and> map rq_type rqs = [ClientRequestType_NEW, ClientRequestType_CANCEL]"
proof -
  let ?K = "\<lambda>_. PositionInfo_new (\<lambda>_. dzero)"
  let ?p = "side_place 2 Side_BUY"
  let ?M1 = "NewOrder ?p 2 (I64 100) Side_BUY 5 sample_manager"
  let ?r = "MEClientResponse_default\<lparr>rs_type := ClientResponseType_ACCEPTED, rs_ticker_id := 2, rs_side := Side_BUY\<rparr>"
  let ?M2 = "set_om_order ?p ((om_order ?p ?M1)\<lparr>om_state := OM_LIVE\<rparr>) ?M1"
  have start: "om_run sample_cfg sample_manager []" unfolding sample_manager_def by (rule run_start)
  have "\<not> outstanding (om_order ?p sample_manager)"
    by (simp add: sample_manager_def OrderManager_new_def om_order_def outstanding_def OMOrder_default_def)
  moreover have "CheckPreTradeRisk sample_cfg ?K 2 Side_BUY 5 = Inr Risk_ALLOWED"
    by (simp add: CheckPreTradeRisk_def RiskInfo_CheckPreTradeRisk_def sample_cfg_def TradeEngineCfg_default_def
        RiskCfg_default_def PositionInfo_new_def int32_def abs32_def ME_MAX_TICKERS_def dzero_def)
  ultimately have "om_action sample_cfg ?K sample_manager ?M1"
    using act_new [of Side_BUY 2 sample_manager sample_cfg ?K 5 "I64 100"] by simp
  then have "om_run sample_cfg ?M1 ([] @ [\<lparr>rq_type = ClientRequestType_NEW, rq_client_id = 1, rq_ticker_id = 2,
      rq_order_id = 1, rq_side = Side_BUY, rq_price = I64 100, rq_qty = 5\<rparr>])"
    by (rule run_action [OF start]) (simp add: NewOrder_def sample_manager_def OrderManager_new_def)
  then have "om_run sample_cfg ?M2 ([] @ [\<lparr>rq_type = ClientRequestType_NEW, rq_client_id = 1, rq_ticker_id = 2,
      rq_order_id = 1, rq_side = Side_BUY, rq_price = I64 100, rq_qty = 5\<rparr>])"
    by (rule run_response [where r = ?r]) (simp_all add: OnOrderUpdate_def order_place_def ME_MAX_TICKERS_def NewOrder_def)
  then have "om_run sample_cfg (CancelOrder ?p ?M2) (([] @ [\<lparr>rq_type = ClientRequestType_NEW, rq_client_id = 1, rq_ticker_id = 2,
      rq_order_id = 1, rq_side = Side_BUY, rq_price = I64 100, rq_qty = 5\<rparr>]) @
      [\<lparr>rq_type = ClientRequestType_CANCEL, rq_client_id = om_client_id ?M2, rq_ticker_id = 2,
        rq_order_id = 1, rq_side = Side_BUY, rq_price = I64 100, rq_qty = 5\<rparr>])"
    by (rule run_action [OF _ act_cancel [of 2 Side_BUY ?M2 sample_cfg ?K]])
      (simp_all add: CancelOrder_def NewOrder_def ME_MAX_TICKERS_def sample_manager_def OrderManager_new_def)
  then show ?thesis by force
qed

theorem order_ids_consecutive_witness:
  "\<exists>M rqs. om_run sample_cfg M rqs \<and> length (news rqs) = 1 \<and> map rq_order_id (news rqs) = [1] \<and> cancels_known rqs \<and>
    (\<exists>rq\<in>set rqs. rq_type rq = ClientRequestType_CANCEL)"
proof -
  obtain M rqs where r: "om_run sample_cfg M rqs" "map rq_type rqs = [ClientRequestType_NEW, ClientRequestType_CANCEL]"
    using cancelled_order_run by (elim exE conjE)
  then have len: "length (news rqs) = 1" and cancel: "\<exists>rq\<in>set rqs. rq_type rq = ClientRequestType_CANCEL" by auto
  have "map rq_order_id (news rqs) = [1]" "cancels_known rqs"
    using order_ids_consecutive [OF r(1)] by (simp_all add: len upt_rec)
  with r(1) len cancel show ?thesis by (intro exI [of _ M] exI [of _ rqs]) simp
qed

end
