(* ===== verification/Double_Print.thy ===== *)
theory Double_Print
  imports Double Types
begin

text \<open>
  \<open>std::ostream << double\<close> with the default format, which the printers and the logger use: that of
  \<open>printf("%g")\<close>. The exact value is rounded to six significant decimal digits, ties to even;
  trailing zeros are dropped; numbers below \<open>10\<^sup>-\<^sup>4\<close> or from \<open>10\<^sup>6\<close> on have an exponent of at least two
  digits. A NaN has no sign in the model and prints as \<open>nan\<close>.
\<close>

definition ten_to :: "int \<Rightarrow> rat" where
  "ten_to e = (if 0 \<le> e then 10 ^ nat e else 1 / 10 ^ nat (- e))"

text \<open>The exponent of the first decimal digit of a positive finite double.\<close>

definition dec_exponent :: "rat \<Rightarrow> int" where
  "dec_exponent x = (case find (\<lambda>e. x < ten_to (e + 1)) [- 324..308] of None \<Rightarrow> 308 | Some e \<Rightarrow> e)"

text \<open>Six digits and the exponent of the first one.\<close>

definition six_digits :: "rat \<Rightarrow> nat \<times> int" where
  "six_digits x =
     (let e = dec_exponent x; m = round_even (x / ten_to (e - 5))
      in if m = 10 ^ 6 then (10 ^ 5, e + 1) else (m, e))"

definition strip_zeros :: "string \<Rightarrow> string" where
  "strip_zeros ds = rev (dropWhile (\<lambda>c. c = CHR ''0'') (rev ds))"

definition with_point :: "string \<Rightarrow> string \<Rightarrow> string" where
  "with_point ip fp = (let fp = strip_zeros fp in if fp = [] then ip else ip @ ''.'' @ fp)"

definition exponent_string :: "int \<Rightarrow> string" where
  "exponent_string e =
     (let ds = dec_string (nat \<bar>e\<bar>)
      in ''e'' @ (if e < 0 then ''-'' else ''+'') @ (if length ds < 2 then ''0'' @ ds else ds))"

definition show_positive :: "rat \<Rightarrow> string" where
  "show_positive x =
     (let (m, e) = six_digits x; ds = dec_string m
      in if e < - 4 \<or> 6 \<le> e then with_point (take 1 ds) (drop 1 ds) @ exponent_string e
         else if e < 0 then with_point ''0'' (replicate (nat (- e) - 1) CHR ''0'' @ ds)
         else with_point (take (nat e + 1) ds) (drop (nat e + 1) ds))"

fun show_double :: "double \<Rightarrow> string" where
  "show_double NaN = ''nan''"
| "show_double (Infinity s) = (if s then ''-'' else '''') @ ''inf''"
| "show_double (Finite s m e) =
     (if s then ''-'' else '''') @ (if m = 0 then ''0'' else show_positive (of_nat m * two_to e))"

end
