(* ===== verification/Logger.thy ===== *)
theory Logger
  imports Double_Print Lock_Free_Queue
begin

text \<open>
  The asynchronous logger (\<open>src/src/include/logging/logger.hpp\<close>, \<open>log_type.hpp\<close>): \<open>Log\<close> takes a format
  apart on the thread that logs and queues one element per character or argument; a background thread
  turns elements into text (\<open>FlushQueue\<close>). The file is the text written to it.
\<close>

section \<open>Elements\<close>

datatype LogType =
    Log_CHAR | Log_INTEGER | Log_LONG_INTEGER | Log_LONG_LONG_INTEGER | Log_UNSIGNED_INTEGER
  | Log_UNSIGNED_LONG_INTEGER | Log_UNSIGNED_LONG_LONG_INTEGER | Log_FLOAT | Log_DOUBLE | Log_STRING

text \<open>
  The union, one constructor per member. A \<open>float\<close> is held as the equal double, which is what it is
  converted to when it is printed.
\<close>

datatype log_union =
    u_c char | u_i "32 word" | u_l "64 word" | u_ll "64 word" | u_u "32 word" | u_ul "64 word"
  | u_ull "64 word" | u_f double | u_d double | u_s string

record LogElement =
  le_type :: LogType
  le_u :: log_union

text \<open>The first contents of the queue: a CHAR, whose value nobody reads.\<close>

definition LogElement_default :: LogElement where
  "LogElement_default = \<lparr>le_type = Log_CHAR, le_u = u_c (CHR 0x00)\<rparr>"

definition LOG_QUEUE_SIZE :: nat where
  "LOG_QUEUE_SIZE = 8 * 1024 * 1024"

record Logger =
  log_file :: string
  log_queue :: "LogElement LockFreeQueue"

definition Logger_new :: Logger where
  "Logger_new = \<lparr>log_file = [], log_queue = LockFreeQueue_new LOG_QUEUE_SIZE LogElement_default\<rparr>"

section \<open>Writing\<close>

text \<open>The arguments \<open>Log\<close> accepts; a \<open>std::string\<close> is logged through its \<open>c_str()\<close>.\<close>

datatype log_value =
    V_char char | V_int "32 word" | V_long "64 word" | V_long_long "64 word" | V_unsigned "32 word"
  | V_unsigned_long "64 word" | V_unsigned_long_long "64 word" | V_float double | V_double double
  | V_cstr string

definition c_str :: "string \<Rightarrow> string" where
  "c_str s = takeWhile (\<lambda>c. c \<noteq> CHR 0x00) s"

text \<open>\<open>strncpy\<close> into 256 characters of which the last stays zero.\<close>

fun element_of :: "log_value \<Rightarrow> LogElement" where
  "element_of (V_char c) = \<lparr>le_type = Log_CHAR, le_u = u_c c\<rparr>"
| "element_of (V_int i) = \<lparr>le_type = Log_INTEGER, le_u = u_i i\<rparr>"
| "element_of (V_long i) = \<lparr>le_type = Log_LONG_INTEGER, le_u = u_l i\<rparr>"
| "element_of (V_long_long i) = \<lparr>le_type = Log_LONG_LONG_INTEGER, le_u = u_ll i\<rparr>"
| "element_of (V_unsigned i) = \<lparr>le_type = Log_UNSIGNED_INTEGER, le_u = u_u i\<rparr>"
| "element_of (V_unsigned_long i) = \<lparr>le_type = Log_UNSIGNED_LONG_INTEGER, le_u = u_ul i\<rparr>"
| "element_of (V_unsigned_long_long i) = \<lparr>le_type = Log_UNSIGNED_LONG_LONG_INTEGER, le_u = u_ull i\<rparr>"
| "element_of (V_float d) = \<lparr>le_type = Log_FLOAT, le_u = u_f d\<rparr>"
| "element_of (V_double d) = \<lparr>le_type = Log_DOUBLE, le_u = u_d d\<rparr>"
| "element_of (V_cstr s) = \<lparr>le_type = Log_STRING, le_u = u_s (take 255 (c_str s))\<rparr>"

definition PushElement :: "LogElement \<Rightarrow> Logger \<Rightarrow> Logger" where
  "PushElement e L = L\<lparr>log_queue := Enqueue e (log_queue L)\<rparr>"

definition PushValue :: "log_value \<Rightarrow> Logger \<Rightarrow> Logger" where
  "PushValue v = PushElement (element_of v)"

text \<open>
  Both overloads of \<open>Log\<close>: with arguments left, a \<open>%\<close> takes the next one and the end of the format is
  fatal; without, a \<open>%\<close> is fatal. \<open>%%\<close> is a percent sign.
\<close>

fun Log :: "string \<Rightarrow> log_value list \<Rightarrow> Logger \<Rightarrow> Logger result" where
  "Log [] [] L = Inr L"
| "Log [] (v # args) L = FATAL ''extra arguments provided to log()''"
| "Log (c # s) args L =
     (if c = CHR 0x25 then
        (if s \<noteq> [] \<and> hd s = CHR 0x25 then Log (tl s) args (PushValue (V_char (hd s)) L)
         else
           (case args of
              [] \<Rightarrow> FATAL ''missing arguments to log()''
            | v # args \<Rightarrow> Log s args (PushValue v L)))
      else Log s args (PushValue (V_char c) L))"

section \<open>Flushing\<close>

text \<open>\<open>file_ << ...\<close> for the member the type names; reading another member of the union is undefined.\<close>

definition write_element :: "LogElement \<Rightarrow> string result" where
  "write_element e =
     (case (le_type e, le_u e) of
        (Log_CHAR, u_c c) \<Rightarrow> Inr [c]
      | (Log_INTEGER, u_i i) \<Rightarrow> Inr (int_string (sint i))
      | (Log_LONG_INTEGER, u_l i) \<Rightarrow> Inr (int_string (sint i))
      | (Log_LONG_LONG_INTEGER, u_ll i) \<Rightarrow> Inr (int_string (sint i))
      | (Log_UNSIGNED_INTEGER, u_u i) \<Rightarrow> Inr (dec_string (unat i))
      | (Log_UNSIGNED_LONG_INTEGER, u_ul i) \<Rightarrow> Inr (dec_string (unat i))
      | (Log_UNSIGNED_LONG_LONG_INTEGER, u_ull i) \<Rightarrow> Inr (dec_string (unat i))
      | (Log_FLOAT, u_f d) \<Rightarrow> Inr (show_double d)
      | (Log_DOUBLE, u_d d) \<Rightarrow> Inr (show_double d)
      | (Log_STRING, u_s s) \<Rightarrow> Inr (c_str s)
      | _ \<Rightarrow> Inl Wrong_member)"

text \<open>The inner loop of \<open>FlushQueue\<close>.\<close>

function FlushQueue :: "Logger \<Rightarrow> Logger result" where
  "FlushQueue L =
     (case GetNextToRead (log_queue L) of
        None \<Rightarrow> Inr L
      | Some e \<Rightarrow>
          (case write_element e of
             Inl x \<Rightarrow> Inl x
           | Inr s \<Rightarrow>
               (case UpdateReadIndex (log_queue L) of
                  Inl x \<Rightarrow> Inl x
                | Inr q \<Rightarrow> FlushQueue (L\<lparr>log_file := log_file L @ s, log_queue := q\<rparr>))))"
  by pat_completeness auto
termination
  by (relation "measure (\<lambda>L. num_elements (log_queue L))") (auto simp: UpdateReadIndex_def result_simps)

declare FlushQueue.simps [simp del]

section \<open>The text of a line\<close>

text \<open>
  What a format means: its characters with holes for the arguments. The value of an argument is its
  decimal text, strings cut off after 255 characters.
\<close>

fun parts :: "string \<Rightarrow> char option list" where
  "parts [] = []"
| "parts (c # s) =
     (if c \<noteq> CHR 0x25 then Some c # parts s
      else if s \<noteq> [] \<and> hd s = CHR 0x25 then Some (CHR 0x25) # parts (tl s)
      else None # parts s)"

fun value_text :: "log_value \<Rightarrow> string" where
  "value_text (V_char c) = [c]"
| "value_text (V_int i) = int_string (sint i)"
| "value_text (V_long i) = int_string (sint i)"
| "value_text (V_long_long i) = int_string (sint i)"
| "value_text (V_unsigned i) = dec_string (unat i)"
| "value_text (V_unsigned_long i) = dec_string (unat i)"
| "value_text (V_unsigned_long_long i) = dec_string (unat i)"
| "value_text (V_float d) = show_double d"
| "value_text (V_double d) = show_double d"
| "value_text (V_cstr s) = take 255 (c_str s)"

fun fill :: "char option list \<Rightarrow> log_value list \<Rightarrow> log_value list" where
  "fill [] args = []"
| "fill (Some c # ps) args = V_char c # fill ps args"
| "fill (None # ps) [] = fill ps []"
| "fill (None # ps) (v # args) = v # fill ps args"

definition holes :: "string \<Rightarrow> nat" where
  "holes s = length (filter (\<lambda>p. p = None) (parts s))"

definition line_text :: "string \<Rightarrow> log_value list \<Rightarrow> string" where
  "line_text s args = concat (map value_text (fill (parts s) args))"

section \<open>Log\<close>

lemma length_fill: "length (fill ps args) \<le> length ps"
  by (induction ps args rule: fill.induct) auto

lemma parts_steps [simp]:
  "c \<noteq> CHR 0x25 \<Longrightarrow> parts (c # s) = Some c # parts s"
  "parts (CHR 0x25 # CHR 0x25 # s) = Some (CHR 0x25) # parts s"
  "\<not> (s \<noteq> [] \<and> hd s = CHR 0x25) \<Longrightarrow> parts (CHR 0x25 # s) = None # parts s"
  by auto

declare parts.simps(2) [simp del]

lemma holes_steps [simp]:
  "holes [] = 0"
  "c \<noteq> CHR 0x25 \<Longrightarrow> holes (c # s) = holes s"
  "holes (CHR 0x25 # CHR 0x25 # s) = holes s"
  "\<not> (s \<noteq> [] \<and> hd s = CHR 0x25) \<Longrightarrow> holes (CHR 0x25 # s) = Suc (holes s)"
  by (simp_all add: holes_def)

lemma Log_steps [simp]:
  "c \<noteq> CHR 0x25 \<Longrightarrow> Log (c # s) args L = Log s args (PushValue (V_char c) L)"
  "Log (CHR 0x25 # CHR 0x25 # s) args L = Log s args (PushValue (V_char (CHR 0x25)) L)"
  "\<not> (s \<noteq> [] \<and> hd s = CHR 0x25) \<Longrightarrow> Log (CHR 0x25 # s) [] L = FATAL ''missing arguments to log()''"
  "\<not> (s \<noteq> [] \<and> hd s = CHR 0x25) \<Longrightarrow> Log (CHR 0x25 # s) (v # vs) L = Log s vs (PushValue v L)"
  by auto

declare Log.simps(3) [simp del]

lemma Log_cases:
  "Log s args L =
     (if length args = holes s then Inr (fold PushValue (fill (parts s) args) L)
      else FATAL (if length args < holes s then ''missing arguments to log()'' else ''extra arguments provided to log()''))"
proof (induction s args L rule: Log.induct)
  case (3 c s args L)
  consider (text_char) "c \<noteq> CHR 0x25" | (percent) t where "c = CHR 0x25" "s = CHR 0x25 # t"
    | (hole) "c = CHR 0x25" "\<not> (s \<noteq> [] \<and> hd s = CHR 0x25)" by (cases s) auto
  then show ?case
  proof cases
    case text_char
    then show ?thesis using "3.IH"(3) by simp
  next
    case percent
    then show ?thesis using "3.IH"(1) by simp
  next
    case hole
    show ?thesis
    proof (cases args)
      case Nil
      then show ?thesis using hole by simp
    next
      case (Cons v vs)
      then show ?thesis using hole "3.IH"(2) [OF hole Cons] by simp
    qed
  qed
qed simp_all

lemma fold_PushValue: "fold PushValue vs L = L\<lparr>log_queue := fold Enqueue (map element_of vs) (log_queue L)\<rparr>"
  by (induction vs arbitrary: L) (simp_all add: PushValue_def PushElement_def)

section \<open>Flush\<close>

lemma c_str_take [simp]: "c_str (take n (c_str s)) = take n (c_str s)"
  unfolding c_str_def
proof (subst takeWhile_eq_all_conv, rule ballI)
  fix c assume "c \<in> set (take n (takeWhile (\<lambda>c. c \<noteq> CHR 0x00) s))"
  from set_takeWhileD [OF in_set_takeD [OF this]] show "c \<noteq> CHR 0x00" by blast
qed

lemma write_element_of [simp]: "write_element (element_of v) = Inr (value_text v)"
  by (cases v) (simp_all add: write_element_def)

lemma FlushQueue_text:
  assumes "q_ok (log_queue L)" "q_list (log_queue L) = map element_of vs"
  shows "\<exists>L'. FlushQueue L = Inr L' \<and> log_file L' = log_file L @ concat (map value_text vs) \<and>
    q_ok (log_queue L') \<and> q_list (log_queue L') = []"
  using assms
proof (induction vs arbitrary: L)
  case Nil
  then have "GetNextToRead (log_queue L) = None" using lfq.front_None [OF Nil(1)] by simp
  then show ?case using Nil by (subst FlushQueue.simps) simp
next
  case (Cons v vs)
  have "GetNextToRead (log_queue L) = Some (element_of v)" using lfq.front_law [OF Cons.prems(1)] Cons.prems(2) by simp
  moreover obtain q where q: "UpdateReadIndex (log_queue L) = Inr q" "q_ok q" "q_list q = map element_of vs"
    using lfq.deq_law [OF Cons.prems(1), of "element_of v" "map element_of vs"] Cons.prems(2) by auto
  moreover obtain L' where "FlushQueue (L\<lparr>log_file := log_file L @ value_text v, log_queue := q\<rparr>) = Inr L'"
    "log_file L' = log_file L @ concat (map value_text (v # vs))" "q_ok (log_queue L')" "q_list (log_queue L') = []"
    using Cons.IH [of "L\<lparr>log_file := log_file L @ value_text v, log_queue := q\<rparr>"] q(2,3) by auto
  ultimately show ?case by (subst FlushQueue.simps) simp
qed

section \<open>Property\<close>

text \<open>
  C27: Logging writes the formatted line. If a format has as many holes as there are arguments, and the
  queue has room, then after \<open>Log\<close> and a flush the file holds what was pending before and then the text of
  the line; with too few or too many arguments \<open>Log\<close> ends the process.
\<close>

theorem logged_line_written:
  assumes "q_ok (log_queue L)" "q_list (log_queue L) = map element_of pending"
    and "length pending + length (parts s) \<le> q_size (log_queue L)"
  shows "if length args = holes s
    then \<exists>L' L''. Log s args L = Inr L' \<and> FlushQueue L' = Inr L'' \<and> q_list (log_queue L'') = [] \<and>
      log_file L'' = log_file L @ concat (map value_text pending) @ line_text s args
    else \<exists>msg. Log s args L = Inl (Fatal msg)"
proof (cases "length args = holes s")
  case True
  let ?vs = "fill (parts s) args"
  let ?L = "fold PushValue ?vs L"
  have "length (q_list (log_queue L)) + length (map element_of ?vs) \<le> q_size (log_queue L)"
    using assms(2,3) order_trans [OF add_left_mono [OF length_fill] assms(3)] by simp
  from lfq.enq_all [OF assms(1) this] assms(2) have "q_ok (log_queue ?L)" "q_list (log_queue ?L) = map element_of (pending @ ?vs)"
    by (simp_all add: fold_PushValue)
  from FlushQueue_text [OF this] True show ?thesis
    by (auto simp: Log_cases fold_PushValue line_text_def)
qed (simp add: Log_cases FATAL_def)

theorem logged_line_written_witness:
  "\<exists>L' L''. Log ''% is 50%%'' [V_cstr ''load''] Logger_new = Inr L' \<and> FlushQueue L' = Inr L'' \<and>
    log_file L'' = ''load is 50%''"
proof -
  have q: "q_ok (log_queue Logger_new)" "q_list (log_queue Logger_new) = map element_of []"
    "q_size (log_queue Logger_new) = LOG_QUEUE_SIZE"
    by (simp_all add: Logger_new_def q_ok_def q_list_def LockFreeQueue_new_def LOG_QUEUE_SIZE_def)
  have "length [V_cstr ''load''] = holes ''% is 50%%''" by (simp add: holes_def)
  moreover have "line_text ''% is 50%%'' [V_cstr ''load''] = ''load is 50%''" by (simp add: line_text_def c_str_def)
  ultimately show ?thesis
    using logged_line_written [OF q(1,2), of "''% is 50%%''" "[V_cstr ''load'']"] q(3)
    by (simp add: LOG_QUEUE_SIZE_def Logger_new_def) blast
qed

end
