(* ===== verification/Clock.thy ===== *)
theory Clock
  imports Logger
begin

text \<open>
  Time in log lines: \<open>src/src/include/common/time_utils.hpp\<close> and the macros of \<open>perf_utils.hpp\<close>. The clock
  of the system is the number of nanoseconds since the epoch, \<open>utc_offset\<close> the seconds the local time zone is
  ahead at a moment.
\<close>

section \<open>Units and the clock\<close>

definition NANOS_TO_MICROS :: int where
  "NANOS_TO_MICROS = 1000"

definition MICROS_TO_MILLIS :: int where
  "MICROS_TO_MILLIS = 1000"

definition MILLIS_TO_SECS :: int where
  "MILLIS_TO_SECS = 1000"

definition NANOS_TO_MILLIS :: int where
  "NANOS_TO_MILLIS = NANOS_TO_MICROS * MICROS_TO_MILLIS"

definition NANOS_TO_SECS :: int where
  "NANOS_TO_SECS = NANOS_TO_MILLIS * MILLIS_TO_SECS"

lemma NANOS_TO_SECS_value: "NANOS_TO_SECS = 1000000000"
  by (simp add: NANOS_TO_SECS_def NANOS_TO_MILLIS_def NANOS_TO_MICROS_def MICROS_TO_MILLIS_def MILLIS_TO_SECS_def)

definition GetCurrentNanos :: "int \<Rightarrow> i64" where
  "GetCurrentNanos clock = I64 (of_int clock)"

text \<open>\<open>%0nd\<close>, for numbers of either sign, and the text \<open>hh:mm:ss\<close> that \<open>ctime\<close> has in its columns 11 to 18.\<close>

definition zero_padded :: "nat \<Rightarrow> int \<Rightarrow> string" where
  "zero_padded n i =
     (let ds = dec_string (nat \<bar>i\<bar>)
      in if i < 0 then ''-'' @ replicate (n - 1 - length ds) CHR ''0'' @ ds
         else replicate (n - length ds) CHR ''0'' @ ds)"

definition ctime_clock :: "(int \<Rightarrow> int) \<Rightarrow> int \<Rightarrow> string" where
  "ctime_clock utc_offset time =
     (let s = (time + utc_offset time) mod 86400
      in zero_padded 2 (s div 3600) @ '':'' @ zero_padded 2 (s div 60 mod 60) @ '':'' @ zero_padded 2 (s mod 60))"

text \<open>Conversions and the remainder of C++ round towards zero. \<open>sprintf\<close> writes into 24 characters.\<close>

definition GetCurrentTimeStr :: "(int \<Rightarrow> int) \<Rightarrow> int \<Rightarrow> string result" where
  "GetCurrentTimeStr utc_offset clock =
     (let time = sgn clock * (\<bar>clock\<bar> div NANOS_TO_SECS);
          nanos = sgn clock * (\<bar>clock\<bar> mod NANOS_TO_SECS);
          s = take 8 (ctime_clock utc_offset time) @ ''.'' @ zero_padded 9 nanos
      in if length s < 24 then Inr s else Inl Out_of_bounds)"

section \<open>Measurements\<close>

text \<open>
  The two macros that log a measurement, with the name of the variable in the format. The counter is
  unsigned, so its difference wraps around with it.
\<close>

definition END_MEASURE :: "string \<Rightarrow> string \<Rightarrow> 64 word \<Rightarrow> 64 word \<Rightarrow> Logger \<Rightarrow> Logger result" where
  "END_MEASURE time_str tag start end_count =
     Log (''% Cycle Count '' @ tag @ '' %'' @ [CHR 0x0A]) [V_cstr time_str, V_unsigned_long (end_count - start)]"

definition TTT_MEASURE :: "string \<Rightarrow> string \<Rightarrow> i64 \<Rightarrow> Logger \<Rightarrow> Logger result" where
  "TTT_MEASURE time_str tag nanos =
     Log (''% TTT '' @ tag @ '' %'' @ [CHR 0x0A]) [V_cstr time_str, V_long (bits64 nanos)]"

section \<open>Time strings\<close>

lemma length_zero_padded:
  assumes "0 \<le> i" "i < 10 ^ n" "0 < n"
  shows "length (zero_padded n i) = n"
proof -
  have "length (dec_string (nat i)) \<le> n" using assms by (intro length_dec_string) (simp_all add: nat_less_iff)
  then show ?thesis using assms(1) by (simp add: zero_padded_def)
qed

lemma clock_parts:
  assumes "0 \<le> s" "s < (86400 :: int)"
  shows "0 \<le> s div 3600 \<and> s div 3600 < 10 ^ 2" "0 \<le> s div 60 mod 60 \<and> s div 60 mod 60 < 10 ^ 2"
    "0 \<le> s mod 60 \<and> s mod 60 < 10 ^ 2" "(s div 3600 * 60 + s div 60 mod 60) * 60 + s mod 60 = s"
proof -
  have m: "0 \<le> x mod 60" "x mod 60 < 60" for x :: int by simp_all
  have h: "s div 3600 = s div 60 div 60" using zdiv_zmult2_eq [of 60 s 60] by simp
  have "s div 3600 < 100"
  proof (rule ccontr)
    assume "\<not> ?thesis"
    then have "100 * 3600 \<le> s div 3600 * 3600" by simp
    also have "\<dots> \<le> s" using div_mult_mod_eq [of s 3600] pos_mod_sign [of 3600 s] by linarith
    finally show False using assms(2) by simp
  qed
  moreover have "0 \<le> s div 3600" using assms(1) by (simp add: pos_imp_zdiv_nonneg_iff)
  ultimately show "0 \<le> s div 3600 \<and> s div 3600 < 10 ^ 2" by simp
  show "0 \<le> s div 60 mod 60 \<and> s div 60 mod 60 < 10 ^ 2" "0 \<le> s mod 60 \<and> s mod 60 < 10 ^ 2"
    using m [of "s div 60"] m [of s] by simp_all
  have "s div 60 div 60 * 60 + s div 60 mod 60 = s div 60" by (rule div_mult_mod_eq)
  moreover have "s div 60 * 60 + s mod 60 = s" by (rule div_mult_mod_eq)
  ultimately show "(s div 3600 * 60 + s div 60 mod 60) * 60 + s mod 60 = s" unfolding h by simp
qed

lemma digits_value_zeros: "digits_value 0 (replicate n CHR ''0'' @ ds) = digits_value 0 ds"
  by (induction n) simp_all

lemma zero_padded_value: "0 \<le> i \<Longrightarrow> int (digits_value 0 (zero_padded n i)) = i"
  by (simp add: zero_padded_def digits_value_zeros digits_value_dec_string)

lemma clock_text:
  assumes "0 \<le> s" "s < (86400 :: int)"
  shows "length (zero_padded 2 (s div 3600)) = 2" "length (zero_padded 2 (s div 60 mod 60)) = 2"
    "length (zero_padded 2 (s mod 60)) = 2"
    "int (digits_value 0 (zero_padded 2 (s div 3600))) = s div 3600"
    "int (digits_value 0 (zero_padded 2 (s div 60 mod 60))) = s div 60 mod 60"
    "int (digits_value 0 (zero_padded 2 (s mod 60))) = s mod 60"
proof -
  note part = clock_parts(1-3) [OF assms]
  show "length (zero_padded 2 (s div 3600)) = 2" using part(1) by (metis length_zero_padded zero_less_numeral)
  show "length (zero_padded 2 (s div 60 mod 60)) = 2" using part(2) by (metis length_zero_padded zero_less_numeral)
  show "length (zero_padded 2 (s mod 60)) = 2" using part(3) by (metis length_zero_padded zero_less_numeral)
qed (use clock_parts(1-3) [OF assms] zero_padded_value in metis)+

lemma day_second: "0 \<le> t mod 86400" "t mod 86400 < (86400 :: int)"
  by simp_all

lemma length_ctime_clock: "length (ctime_clock utc_offset time) = 8"
  by (simp only: ctime_clock_def Let_def length_append clock_text [OF day_second]) simp

text \<open>The nanoseconds since midnight that a time string says.\<close>

definition nanos_of_day :: "string \<Rightarrow> int" where
  "nanos_of_day s =
     (let part = (\<lambda>i n. int (digits_value 0 (take n (drop i s))))
      in ((part 0 2 * 60 + part 3 2) * 60 + part 6 2) * 1000000000 + part 9 9)"

lemma mod_of_parts:
  assumes "0 \<le> n" "n < k" "0 < (d :: int)"
  shows "(t * k + n) mod (d * k) = (t mod d) * k + n"
proof -
  have "(t * k + n) div k = t" "(t * k + n) mod k = n" using assms by simp_all
  then show ?thesis using zmod_zmult2_eq [of d "t * k + n" k] assms by (simp add: mult.commute)
qed

lemma nanos_of_day_text:
  assumes "length hs = 2" "length ms = 2" "length ss = 2" "length ns = 9"
    and "int (digits_value 0 hs) = h" "int (digits_value 0 ms) = m" "int (digits_value 0 ss) = s" "int (digits_value 0 ns) = n"
  shows "nanos_of_day ((hs @ '':'' @ ms @ '':'' @ ss) @ ''.'' @ ns) = ((h * 60 + m) * 60 + s) * 1000000000 + n"
  using assms by (simp add: nanos_of_day_def)

text \<open>
  C34: From the epoch on \<open>GetCurrentTimeStr\<close> stays inside its buffer of 24 characters, and the 18 characters
  it gives, \<open>hh:mm:ss.nnnnnnnnn\<close>, say the local time of day to the nanosecond: read back, they are the
  nanoseconds since local midnight, whatever the offset of the time zone.
\<close>

theorem time_string_read_back:
  assumes "0 \<le> clock"
  shows "\<exists>s. GetCurrentTimeStr utc_offset clock = Inr s \<and> length s = 18 \<and>
    nanos_of_day s = (clock + utc_offset (clock div NANOS_TO_SECS) * NANOS_TO_SECS) mod (86400 * NANOS_TO_SECS)"
proof -
  let ?t = "clock div 1000000000" and ?n = "clock mod 1000000000"
  let ?s = "(?t + utc_offset ?t) mod 86400"
  let ?h = "?s div 3600" and ?m = "?s div 60 mod 60" and ?c = "?s mod 60"
  let ?str = "ctime_clock utc_offset ?t @ ''.'' @ zero_padded 9 ?n"
  note shown = clock_text [OF day_second, of "?t + utc_offset ?t"]
  have nano: "0 \<le> ?n" "?n < 10 ^ 9" by simp_all
  note nano_text = length_zero_padded [OF nano] zero_padded_value [OF nano(1), of 9]
  have "sgn clock * (\<bar>clock\<bar> div 1000000000) = ?t" "sgn clock * (\<bar>clock\<bar> mod 1000000000) = ?n"
    using assms by (cases "clock = 0"; simp)+
  then have "GetCurrentTimeStr utc_offset clock = Inr ?str"
    by (simp add: GetCurrentTimeStr_def NANOS_TO_SECS_value length_ctime_clock nano_text)
  moreover have "length ?str = 18" by (simp add: length_ctime_clock nano_text)
  moreover have "nanos_of_day ?str = ((?h * 60 + ?m) * 60 + ?c) * 1000000000 + ?n"
    unfolding ctime_clock_def Let_def by (rule nanos_of_day_text) (simp_all add: shown nano_text)
  moreover have "(?h * 60 + ?m) * 60 + ?c = ?s" by (rule clock_parts(4) [OF day_second])
  moreover have "?s * 1000000000 + ?n = (clock + utc_offset ?t * 1000000000) mod (86400 * 1000000000)"
  proof -
    have "clock + utc_offset ?t * 1000000000 = (?t + utc_offset ?t) * 1000000000 + ?n"
      by (simp add: algebra_simps)
    also have "\<dots> mod (86400 * 1000000000) = ?s * 1000000000 + ?n"
      by (rule mod_of_parts) simp_all
    finally show ?thesis by simp
  qed
  ultimately have "GetCurrentTimeStr utc_offset clock = Inr ?str \<and> length ?str = 18 \<and>
      nanos_of_day ?str = (clock + utc_offset ?t * 1000000000) mod (86400 * 1000000000)"
    by (simp only: simp_thms)
  then show ?thesis unfolding NANOS_TO_SECS_value by (rule exI)
qed

text \<open>5 nanoseconds after 23:30 in a time zone one hour ahead: half past midnight of the next day.\<close>

theorem time_string_read_back_witness:
  "GetCurrentTimeStr (\<lambda>_. 3600) 84600000000005 = Inr ''00:30:00.000000005'' \<and>
    nanos_of_day ''00:30:00.000000005'' = (84600000000005 + 3600 * NANOS_TO_SECS) mod (86400 * NANOS_TO_SECS)"
proof -
  have run: "GetCurrentTimeStr (\<lambda>_. 3600) 84600000000005 = Inr ''00:30:00.000000005''"
    by code_simp
  with time_string_read_back [of 84600000000005 "\<lambda>_. 3600"] show ?thesis by simp
qed

section \<open>The text of a measurement\<close>

text \<open>A format that is a hole, text without percent signs, a hole and a newline.\<close>

lemma parts_plain: "CHR 0x25 \<notin> set s \<Longrightarrow> parts (s @ t) = map Some s @ parts t"
  by (induction s) (auto simp: parts.simps)

lemma fill_plain: "fill (map Some s @ ps) args = map V_char s @ fill ps args"
  by (induction s) simp_all

lemma concat_value_text_chars: "concat (map value_text (map V_char s)) = s"
  by (induction s) simp_all

lemma measurement_format:
  assumes "CHR 0x25 \<notin> set s"
  shows "holes (CHR 0x25 # CHR '' '' # s @ [CHR 0x25, CHR 0x0A]) = 2"
    "line_text (CHR 0x25 # CHR '' '' # s @ [CHR 0x25, CHR 0x0A]) [v, w] =
      value_text v @ '' '' @ s @ value_text w @ [CHR 0x0A]"
proof -
  have tail: "parts [CHR 0x25, CHR 0x0A] = [None, Some CHR 0x0A]" by (simp add: parts.simps)
  have p: "parts (CHR 0x25 # CHR '' '' # s @ [CHR 0x25, CHR 0x0A]) =
      None # Some CHR '' '' # map Some s @ [None, Some CHR 0x0A]"
    using parts_plain [OF assms, of "[CHR 0x25, CHR 0x0A]"] by (simp add: tail)
  then show "holes (CHR 0x25 # CHR '' '' # s @ [CHR 0x25, CHR 0x0A]) = 2" by (simp add: holes_def comp_def)
  show "line_text (CHR 0x25 # CHR '' '' # s @ [CHR 0x25, CHR 0x0A]) [v, w] =
      value_text v @ '' '' @ s @ value_text w @ [CHR 0x0A]"
    using concat_value_text_chars [of s] by (simp add: line_text_def p fill_plain comp_def)
qed

text \<open>
  For a variable name as tag a measurement is logged as the time, the name and the elapsed cycles, the
  difference of the counts modulo the size of the counter.
\<close>

lemma END_MEASURE_logs:
  assumes "CHR 0x25 \<notin> set tag"
  shows "\<exists>vs. END_MEASURE time_str tag start end_count L = Inr (fold PushValue vs L) \<and>
    concat (map value_text vs) = take 255 (c_str time_str) @ '' Cycle Count '' @ tag @ '' '' @
      dec_string (nat ((uint end_count - uint start) mod 2 ^ 64)) @ [CHR 0x0A]"
proof -
  let ?f = "CHR 0x25 # CHR '' '' # (''Cycle Count '' @ tag @ '' '') @ [CHR 0x25, CHR 0x0A]"
  let ?args = "[V_cstr time_str, V_unsigned_long (end_count - start)]"
  have m: "CHR 0x25 \<notin> set (''Cycle Count '' @ tag @ '' '')" using assms by simp
  have "END_MEASURE time_str tag start end_count L = Log ?f ?args L" by (simp add: END_MEASURE_def)
  also have "\<dots> = Inr (fold PushValue (fill (parts ?f) ?args) L)"
    using measurement_format(1) [OF m] by (simp add: Log_cases)
  finally have log: "END_MEASURE time_str tag start end_count L = Inr (fold PushValue (fill (parts ?f) ?args) L)" .
  have "unat (end_count - start) = nat ((uint end_count - uint start) mod 2 ^ 64)"
    by (simp add: unat_eq_nat_uint uint_word_ariths(2))
  then have "line_text ?f ?args = take 255 (c_str time_str) @ '' Cycle Count '' @ tag @ '' '' @
      dec_string (nat ((uint end_count - uint start) mod 2 ^ 64)) @ [CHR 0x0A]"
    using measurement_format(2) [OF m] by simp
  with log show ?thesis unfolding line_text_def by blast
qed

end
