(* ===== verification/Trading_Main.thy ===== *)
theory Trading_Main
  imports Order_Ids Trading_Engine Exchange_Properties Gateway_Client Market_Data_Consumer Clock
begin

text \<open>
  The main program of the trader (\<open>src/src/trading_main.cpp\<close>): its arguments, the components it builds, and
  the random algorithm, which has no class of its own and runs in \<open>main\<close>. What \<open>rand()\<close> returns at its
  n-th call is \<open>rnd n\<close>, what \<open>SilentSeconds()\<close> returns in turn i is \<open>silent i\<close>. The requests are those
  given to \<open>SendClientRequest\<close>, in order. At the end it is shown that the exchange takes all of them.
\<close>

section \<open>Numbers in arguments\<close>

definition is_space :: "char \<Rightarrow> bool" where
  "is_space c \<longleftrightarrow> c \<in> {CHR '' '', CHR 0x09, CHR 0x0A, CHR 0x0B, CHR 0x0C, CHR 0x0D}"

definition is_digit :: "char \<Rightarrow> bool" where
  "is_digit c \<longleftrightarrow> 48 \<le> (of_char c :: nat) \<and> (of_char c :: nat) \<le> 57"

text \<open>The sign in front of a number, after white space.\<close>

definition take_sign :: "string \<Rightarrow> bool \<times> string" where
  "take_sign s =
     (let s = dropWhile is_space s
      in if s \<noteq> [] \<and> hd s = CHR ''-'' then (True, tl s)
         else if s \<noteq> [] \<and> hd s = CHR ''+'' then (False, tl s)
         else (False, s))"

text \<open>\<open>std::atoi\<close>; a value outside \<open>int\<close> is undefined.\<close>

definition atoi :: "string \<Rightarrow> int result" where
  "atoi s =
     (let (neg, s) = take_sign s; n = int (digits_value 0 (takeWhile is_digit s))
      in int32 (if neg then - n else n))"

text \<open>\<open>std::atof\<close>: decimal and hexadecimal numbers, infinities and NaNs; anything else is zero.\<close>

definition lower :: "char \<Rightarrow> char" where
  "lower c = (if 65 \<le> (of_char c :: nat) \<and> (of_char c :: nat) \<le> 90 then char_of (of_char c + 32 :: nat) else c)"

definition is_xdigit :: "char \<Rightarrow> bool" where
  "is_xdigit c \<longleftrightarrow> is_digit c \<or> (97 \<le> (of_char (lower c) :: nat) \<and> (of_char (lower c) :: nat) \<le> 102)"

definition xdigit_value :: "char \<Rightarrow> nat" where
  "xdigit_value c = (if is_digit c then of_char c - 48 else of_char (lower c) - 87)"

definition number_value :: "nat \<Rightarrow> string \<Rightarrow> nat" where
  "number_value base ds = foldl (\<lambda>n c. base * n + xdigit_value c) 0 ds"

text \<open>The digits before and after a point, and what follows them.\<close>

definition split_number :: "(char \<Rightarrow> bool) \<Rightarrow> string \<Rightarrow> string \<times> string \<times> string" where
  "split_number digit s =
     (let ip = takeWhile digit s; s = dropWhile digit s
      in if s \<noteq> [] \<and> hd s = CHR ''.'' then (ip, takeWhile digit (tl s), dropWhile digit (tl s)) else (ip, [], s))"

text \<open>An exponent after the letter \<open>e\<close>, or zero.\<close>

definition exponent_of :: "char \<Rightarrow> string \<Rightarrow> int" where
  "exponent_of e s =
     (if s \<noteq> [] \<and> lower (hd s) = e then
        (let s = tl s; neg = (s \<noteq> [] \<and> hd s = CHR ''-'');
             s = (if s \<noteq> [] \<and> (hd s = CHR ''-'' \<or> hd s = CHR ''+'') then tl s else s);
             n = int (digits_value 0 (takeWhile is_digit s))
         in if neg then - n else n)
      else 0)"

definition decimal :: "string \<Rightarrow> rat" where
  "decimal s =
     (let (ip, fp, s) = split_number is_digit s
      in if ip = [] \<and> fp = [] then 0
         else of_nat (number_value 10 (ip @ fp)) * ten_to (exponent_of CHR ''e'' s - int (length fp)))"

definition hexadecimal :: "string \<Rightarrow> rat" where
  "hexadecimal s =
     (let (ip, fp, s) = split_number is_xdigit s
      in if ip = [] \<and> fp = [] then 0
         else of_nat (number_value 16 (ip @ fp)) * two_to (exponent_of CHR ''p'' s - 4 * int (length fp)))"

definition atof :: "string \<Rightarrow> double" where
  "atof s =
     (let (neg, r) = take_sign s; l = map lower r
      in if take 3 l = ''inf'' then Infinity neg
         else if take 3 l = ''nan'' then NaN
         else (let v = (if take 2 l = ''0x'' then hexadecimal (drop 2 r) else decimal r);
                   found = (take 1 l = ''.'' \<and> length l > 1 \<and> is_digit (l ! 1)) \<or> (l \<noteq> [] \<and> is_digit (hd l))
               in round_rat (neg \<and> found) (if neg then - v else v)))"

section \<open>Configuration and construction\<close>

text \<open>
  The loop over groups of five arguments. Behind the last argument \<open>argv\<close> has a null pointer, which
  \<open>atoi\<close> and \<open>atof\<close> dereference when the last group is incomplete; \<open>ticker_cfg.at\<close> throws behind the
  last instrument. The right side of an assignment is evaluated first.
\<close>

fun parse_cfg :: "string list \<Rightarrow> nat \<Rightarrow> TradeEngineCfgMap \<Rightarrow> TradeEngineCfgMap result" where
  "parse_cfg [] next_ticker_id ticker_cfg = Inr ticker_cfg"
| "parse_cfg (a # b # c # d # e # args) next_ticker_id ticker_cfg =
     rbind (atoi a) (\<lambda>clip_arg.
     rbind (atoi c) (\<lambda>size_arg.
     rbind (atoi d) (\<lambda>position_arg.
     if next_ticker_id < ME_MAX_TICKERS
     then parse_cfg args (next_ticker_id + 1)
            (ticker_cfg(next_ticker_id :=
               \<lparr>clip = of_int clip_arg, threshold = atof b,
                risk_cfg = \<lparr>max_order_size = of_int size_arg, max_position = of_int position_arg, max_loss = atof e\<rparr>\<rparr>))
     else Inl Out_of_range)))"
| "parse_cfg (a # args) next_ticker_id ticker_cfg =
     rbind (atoi a) (\<lambda>_.
     rbind (if 2 \<le> length args then atoi (args ! 1) else Inl Null_deref) (\<lambda>_.
     rbind (if 3 \<le> length args then atoi (args ! 2) else Inl Null_deref) (\<lambda>_.
     Inl Null_deref)))"

text \<open>
  The components \<open>main\<close> builds, with queues of the same size. \<open>oids\<close>, \<open>slots\<close> and \<open>vwaps\<close> are the
  first contents of arrays without initialiser, \<open>env\<close> what the system returns for the subscription.
\<close>

definition trading_main_start ::
  "(nat \<Rightarrow> nat \<Rightarrow> ptr) \<Rightarrow> (nat \<Rightarrow> nat \<Rightarrow> ptr) \<Rightarrow> (nat \<Rightarrow> nat \<Rightarrow> double) \<Rightarrow> subscription \<Rightarrow> string list \<Rightarrow>
   (ClientId \<times> AlgoType \<times> TradingEngine \<times> GatewayClient \<times> MarketDataConsumer) result" where
  "trading_main_start oids slots vwaps env argv =
     (if length argv < 3
      then FATAL (''USAGE trading_main CLIENT_ID ALGO_TYPE [CLIP_1 THRESH_1 MAX_ORDER_SIZE_1 MAX_POS_1 MAX_LOSS_1] '' @
        ''[CLIP_2 THRESH_2 MAX_ORDER_SIZE_2 MAX_POS_2 MAX_LOSS_2] ...'')
      else
        rbind (atoi (argv ! 1)) (\<lambda>i.
        let client_id = of_int i; algo_type = StringToAlgoType (argv ! 2);
            client_requests = LockFreeQueue_new ME_MAX_CLIENT_UPDATES MEClientRequest_default;
            client_responses = LockFreeQueue_new ME_MAX_CLIENT_UPDATES MEClientResponse_default;
            market_updates = LockFreeQueue_new ME_MAX_MARKET_UPDATES MEMarketUpdate_default
        in rbind (parse_cfg (drop 3 argv) 0 (\<lambda>_. TradeEngineCfg_default)) (\<lambda>ticker_cfg.
           rbind (MarketDataConsumer_new env market_updates) (\<lambda>consumer.
           Inr (client_id, algo_type,
                TradingEngine_new oids slots vwaps client_id algo_type ticker_cfg client_requests
                  client_responses market_updates,
                GatewayClient_new client_id client_requests client_responses, consumer)))))"

section \<open>The random algorithm\<close>

text \<open>\<open>ticker_base_price[i]\<close>, from the first calls of \<open>rand\<close>.\<close>

definition ticker_base_price :: "(nat \<Rightarrow> nat) \<Rightarrow> nat \<Rightarrow> nat" where
  "ticker_base_price rnd i = (rnd i mod 100) + 100"

text \<open>The new order of a turn whose first call of \<open>rand\<close> is number \<open>k\<close>.\<close>

definition random_order :: "(nat \<Rightarrow> nat) \<Rightarrow> ClientId \<Rightarrow> nat \<Rightarrow> OrderId \<Rightarrow> MEClientRequest" where
  "random_order rnd client_id k order_id =
     (let ticker_id = rnd k mod ME_MAX_TICKERS;
          price = ticker_base_price rnd ticker_id + (rnd (k + 1) mod 10) + 1;
          qty = 1 + (rnd (k + 2) mod 100) + 1;
          side = (if rnd (k + 3) mod 2 \<noteq> 0 then Side_BUY else Side_SELL)
      in \<lparr>rq_type = ClientRequestType_NEW, rq_client_id = client_id, rq_ticker_id = of_nat ticker_id,
          rq_order_id = order_id, rq_side = side, rq_price = I64 (of_nat price), rq_qty = of_nat qty\<rparr>)"

text \<open>Turn \<open>i\<close> of the loop and the \<open>n\<close> turns it may still make; \<open>vec\<close> is \<open>client_requests_vec\<close>.\<close>

fun random_loop ::
  "(nat \<Rightarrow> nat) \<Rightarrow> (nat \<Rightarrow> int) \<Rightarrow> ClientId \<Rightarrow> nat \<Rightarrow> nat \<Rightarrow> OrderId \<Rightarrow> MEClientRequest list \<Rightarrow> MEClientRequest list" where
  "random_loop rnd silent client_id 0 i order_id vec = []"
| "random_loop rnd silent client_id (Suc n) i order_id vec =
     (let k = ME_MAX_TICKERS + 5 * i;
          new_request = random_order rnd client_id k order_id;
          vec = vec @ [new_request];
          cxl_request = (vec ! (rnd (k + 4) mod length vec))\<lparr>rq_type := ClientRequestType_CANCEL\<rparr>
      in new_request # cxl_request #
         (if silent i \<ge> 60 then []
          else random_loop rnd silent client_id n (i + 1) (order_id + 1) vec))"

definition RANDOM_TURNS :: nat where
  "RANDOM_TURNS = 10000"

text \<open>\<open>client_id * 1000\<close> is computed in 32 bits.\<close>

definition random_algorithm :: "(nat \<Rightarrow> nat) \<Rightarrow> (nat \<Rightarrow> int) \<Rightarrow> ClientId \<Rightarrow> MEClientRequest list" where
  "random_algorithm rnd silent client_id =
     random_loop rnd silent client_id RANDOM_TURNS 0 (ucast (client_id * 1000)) []"


section \<open>What the random algorithm sends\<close>

definition random_price :: "Price \<Rightarrow> bool" where
  "random_price p \<longleftrightarrow> (\<exists>n. p = I64 (of_nat n) \<and> 101 \<le> n \<and> n \<le> 209)"

text \<open>A request of a trader whose ids start at \<open>base\<close> after at most \<open>n\<close> new orders.\<close>

definition random_request :: "ClientId \<Rightarrow> OrderId \<Rightarrow> nat \<Rightarrow> MEClientRequest \<Rightarrow> bool" where
  "random_request client_id base n rq \<longleftrightarrow>
     rq_client_id rq = client_id \<and> unat (rq_ticker_id rq) < ME_MAX_TICKERS \<and>
     (rq_side rq = Side_BUY \<or> rq_side rq = Side_SELL) \<and> random_price (rq_price rq) \<and>
     2 \<le> unat (rq_qty rq) \<and> unat (rq_qty rq) \<le> 101 \<and>
     (\<exists>j<n. rq_order_id rq = base + of_nat j) \<and>
     (rq_type rq = ClientRequestType_NEW \<or> rq_type rq = ClientRequestType_CANCEL)"

lemma random_request_mono: "random_request c base n rq \<Longrightarrow> n \<le> m \<Longrightarrow> random_request c base m rq"
  unfolding random_request_def by (meson less_le_trans)

lemma ticker_base_price_bounds: "100 \<le> ticker_base_price rnd i" "ticker_base_price rnd i \<le> 199"
proof -
  have "rnd i mod 100 < 100" by simp
  then show "100 \<le> ticker_base_price rnd i" "ticker_base_price rnd i \<le> 199"
    unfolding ticker_base_price_def by linarith+
qed

lemma random_order_ok: "random_request c base (Suc j) (random_order rnd c k (base + of_nat j))"
proof -
  let ?t = "rnd k mod ME_MAX_TICKERS"
  have t: "?t < 8" by (simp add: ME_MAX_TICKERS_def)
  have "unat (of_nat ?t :: 32 word) = ?t" using t by (simp add: unat_of_nat take_bit_nat_eq_self)
  moreover have "random_price (I64 (of_nat (ticker_base_price rnd ?t + rnd (k + 1) mod 10 + 1)))"
    unfolding random_price_def
  proof (intro exI conjI)
    have "rnd (k + 1) mod 10 < 10" by simp
    then show "101 \<le> ticker_base_price rnd ?t + rnd (k + 1) mod 10 + 1"
      "ticker_base_price rnd ?t + rnd (k + 1) mod 10 + 1 \<le> 209"
      using ticker_base_price_bounds [of rnd ?t] by linarith+
  qed (rule refl)
  moreover have "unat (of_nat (1 + rnd (k + 2) mod 100 + 1) :: 32 word) = 1 + rnd (k + 2) mod 100 + 1"
  proof -
    have "rnd (k + 2) mod 100 < 100" by simp
    then show ?thesis unfolding unat_of_nat by (intro mod_less) simp
  qed
  moreover have "rnd (k + 2) mod 100 < 100" by simp
  ultimately show ?thesis
    using t by (auto simp: random_order_def random_request_def Let_def ME_MAX_TICKERS_def simp del: of_nat_add)
qed

lemma random_loop_requests:
  assumes "\<forall>rq\<in>set vec. random_request c base i rq \<and> rq_type rq = ClientRequestType_NEW"
  shows "\<forall>rq\<in>set (random_loop rnd silent c n i (base + of_nat i) vec). random_request c base (i + n) rq"
  using assms
proof (induction n arbitrary: i vec)
  case (Suc n)
  let ?new = "random_order rnd c (ME_MAX_TICKERS + 5 * i) (base + of_nat i)"
  let ?vec = "vec @ [?new]"
  let ?old = "?vec ! (rnd (ME_MAX_TICKERS + 5 * i + 4) mod length ?vec)"
  have new: "random_request c base (Suc i) ?new" by (rule random_order_ok)
  have vec: "\<forall>rq\<in>set ?vec. random_request c base (Suc i) rq \<and> rq_type rq = ClientRequestType_NEW"
    using Suc.prems new by (auto intro: random_request_mono [of c base i] simp: random_order_def Let_def)
  have "?old \<in> set ?vec" by (intro nth_mem mod_less_divisor) simp
  with vec have old: "random_request c base (Suc i) ?old" by blast
  then have "random_request c base (Suc i) (?old\<lparr>rq_type := ClientRequestType_CANCEL\<rparr>)"
    by (simp add: random_request_def)
  with new Suc.IH [OF vec] show ?case
    by (auto simp: Let_def ac_simps simp del: nth_append intro: random_request_mono [of c base "Suc i"])
qed simp

lemma random_algorithm_requests:
  assumes "rq \<in> set (random_algorithm rnd silent c)"
  shows "random_request c (ucast (c * 1000)) RANDOM_TURNS rq"
  using random_loop_requests [of "[]" c "ucast (c * 1000)" 0 rnd silent RANDOM_TURNS] assms
  by (simp add: random_algorithm_def)


section \<open>Arguments\<close>

text \<open>
  Arguments that are numbers are accepted in groups of five for at most eight instruments. An
  incomplete group reads behind the last argument, a ninth group throws.
\<close>

theorem parse_cfg_accepts:
  assumes "\<forall>s\<in>set args. succeeds (atoi s)" "t \<le> ME_MAX_TICKERS"
  shows "succeeds (parse_cfg args t m) \<longleftrightarrow> 5 dvd length args \<and> t + length args div 5 \<le> ME_MAX_TICKERS"
  using assms
proof (induction args t m rule: parse_cfg.induct)
  case (2 a b c d e args t m)
  obtain i j k where ijk: "atoi a = Inr i" "atoi c = Inr j" "atoi d = Inr k"
    using "2.prems"(1) by (auto simp: succeeds_iff)
  show ?case
  proof (cases "t < ME_MAX_TICKERS")
    case True
    have "succeeds (parse_cfg args (t + 1) m') \<longleftrightarrow> 5 dvd length args \<and> t + 1 + length args div 5 \<le> ME_MAX_TICKERS"
      if "m' = m(t := \<lparr>clip = of_int i, threshold = atof b,
        risk_cfg = \<lparr>max_order_size = of_int j, max_position = of_int k, max_loss = atof e\<rparr>\<rparr>)" for m'
      using "2.IH" [OF ijk True] "2.prems"(1) True that by (simp add: fun_upd_def)
    then have r: "succeeds (parse_cfg (a # b # c # d # e # args) t m) \<longleftrightarrow>
        5 dvd length args \<and> t + 1 + length args div 5 \<le> ME_MAX_TICKERS" using ijk True by simp
    have len: "length (a # b # c # d # e # args) = length args + 5" by simp
    show ?thesis unfolding r len by simp
  next
    case False
    have "t + length (a # b # c # d # e # args) div 5 > t" by simp
    with False show ?thesis using ijk "2.prems"(2) by simp
  qed
qed (auto simp: succeeds_iff dest: dvd_imp_le)


section \<open>The idle timer\<close>

text \<open>\<open>InitLastEventTime\<close> and \<open>SilentSeconds\<close> of the trading engine; \<open>now\<close> is \<open>GetCurrentNanos()\<close>.\<close>

definition InitLastEventTime :: "i64 \<Rightarrow> TradingEngine \<Rightarrow> TradingEngine" where
  "InitLastEventTime now E = E\<lparr>last_event_time := now\<rparr>"

definition SilentSeconds :: "i64 \<Rightarrow> TradingEngine \<Rightarrow> int result" where
  "SilentSeconds now E =
     rbind (int64 (sint (bits64 now) - sint (bits64 (last_event_time E)))) (\<lambda>nanos.
     Inr (sgn nanos * (\<bar>nanos\<bar> div NANOS_TO_SECS)))"

text \<open>An engine without events is silent for the whole seconds since its timer was started.\<close>

theorem SilentSeconds_since_init:
  assumes "0 \<le> sint (bits64 now)" "sint (bits64 now) \<le> sint (bits64 later)"
  shows "SilentSeconds later (InitLastEventTime now E) =
    Inr ((sint (bits64 later) - sint (bits64 now)) div NANOS_TO_SECS)"
proof -
  have "sint (bits64 later) < 2 ^ 63" using sint_lt [of "bits64 later"] by simp
  then have "int64 (sint (bits64 later) - sint (bits64 now)) = Inr (sint (bits64 later) - sint (bits64 now))"
    using assms by (simp add: int64_def)
  then show ?thesis using assms(2)
    by (cases "sint (bits64 later) = sint (bits64 now)") (simp_all add: SilentSeconds_def InitLastEventTime_def)
qed

end
