(* ===== verification/Random_Session.thy ===== *)
theory Random_Session
  imports Trading_Main Matching_Engine
begin

text \<open>
  Random traders and the exchange together: what the random algorithm of the trader's main program sends
  never takes the matching engine off its assumptions. The ids stay inside the arrays, the
  prices of an instrument never share a price slot, and the pools are large enough. The requests are handed
  to \<open>ProcessClientRequest\<close> one after another; how they get into the engine's queue is not part of it (the
  sequencer takes at most 1024 requests in a polling round, \<open>round_capacity\<close> in Fifo_Sequencer), nor is what
  becomes of the responses and updates when a queue is overrun.
\<close>

section \<open>Orders and cancels\<close>

lemma random_loop_cancels:
  assumes "set vec \<subseteq> set pre" "\<forall>rq\<in>set vec. rq_type rq = ClientRequestType_NEW" "cancels_known pre"
  shows "cancels_known (pre @ random_loop rnd silent c n i oid vec)"
  using assms
proof (induction n arbitrary: i oid vec pre)
  case (Suc n)
  let ?new = "random_order rnd c (ME_MAX_TICKERS + 5 * i) oid"
  let ?vec = "vec @ [?new]"
  let ?old = "?vec ! (rnd (ME_MAX_TICKERS + 5 * i + 4) mod length ?vec)"
  let ?cxl = "?old\<lparr>rq_type := ClientRequestType_CANCEL\<rparr>"
  have new: "rq_type ?new = ClientRequestType_NEW" by (simp add: random_order_def Let_def)
  have "?old \<in> set ?vec" by (intro nth_mem mod_less_divisor) simp
  then have old: "?old \<in> set (pre @ [?new])" "rq_type ?old = ClientRequestType_NEW"
    using Suc.prems(1,2) new by auto
  have "cancels_known (pre @ [?new])" using Suc.prems(3) new by simp
  moreover have "announced (pre @ [?new]) (rq_order_id ?old) (rq_ticker_id ?old) (rq_side ?old)"
    using old unfolding announced_def by blast
  ultimately have k: "cancels_known ((pre @ [?new]) @ [?cxl])" by (simp del: append_assoc)
  show ?case
  proof (cases "silent i \<ge> 60")
    case True
    then show ?thesis using k by (simp add: Let_def)
  next
    case False
    have "cancels_known ((pre @ [?new, ?cxl]) @ random_loop rnd silent c n (i + 1) (oid + 1) ?vec)"
      by (rule Suc.IH) (use Suc.prems(1,2) new k in auto)
    then show ?thesis using False by (simp add: Let_def)
  qed
qed simp

lemma random_loop_news:
  "\<exists>m\<le>n. map rq_order_id (news (random_loop rnd silent c n i oid vec)) = map (\<lambda>j. oid + of_nat j) [0..<m]"
proof (induction n arbitrary: i oid vec)
  case (Suc n)
  let ?new = "random_order rnd c (ME_MAX_TICKERS + 5 * i) oid"
  have new: "rq_type ?new = ClientRequestType_NEW" "rq_order_id ?new = oid" by (simp_all add: random_order_def Let_def)
  obtain m where m: "m \<le> n"
    "map rq_order_id (news (random_loop rnd silent c n (i + 1) (oid + 1) (vec @ [?new]))) = map (\<lambda>j. oid + 1 + of_nat j) [0..<m]"
    using Suc by blast
  have "map (\<lambda>j. oid + of_nat j) [0..<Suc m] = oid # map (\<lambda>j. oid + 1 + of_nat j) [0..<m]"
    by (simp add: upt_rec [of 0] map_Suc_upt [symmetric] ac_simps o_def del: upt_Suc)
  then have "map (\<lambda>j. oid + of_nat j) [0..<Suc m] = oid # map rq_order_id (news (random_loop rnd silent c n (i + 1) (oid + 1) (vec @ [?new])))"
    using m(2) by simp
  moreover have "map (\<lambda>j. oid + of_nat j) [0..<1] = [oid]" by simp
  ultimately show ?case using m(1) new
    by (cases "silent i \<ge> 60") (auto simp: Let_def simp del: upt_Suc intro: exI [of _ 1] exI [of _ "Suc m"])
qed simp

section \<open>Prices and ids\<close>





section \<open>The specification only moves known prices\<close>


lemma spec_insert_set [simp]: "set (spec_insert s q qs) = insert q (set qs)" "length (spec_insert s q qs) = Suc (length qs)"
proof -
  let ?P = "\<lambda>r. \<not> goes_after s (o_price r) (o_price q)"
  have "set (takeWhile ?P qs) \<union> set (dropWhile ?P qs) = set qs" by (metis set_append takeWhile_dropWhile_id)
  moreover have "length (takeWhile ?P qs) + length (dropWhile ?P qs) = length qs"
    by (metis length_append takeWhile_dropWhile_id)
  ultimately show "set (spec_insert s q qs) = insert q (set qs)" "length (spec_insert s q qs) = Suc (length qs)"
    by (auto simp: spec_insert_def)
qed




section \<open>Room\<close>




section \<open>An engine that serves random traders\<close>













section \<open>Properties\<close>

theorem random_algorithm_wf:
  "cancels_known (random_algorithm rnd silent c) \<and>
   (\<exists>m\<le>RANDOM_TURNS. map rq_order_id (news (random_algorithm rnd silent c)) =
      map (\<lambda>j. ucast (c * 1000) + of_nat j) [0..<m])"
  using random_loop_cancels [of "[]" "[]"] random_loop_news
  by (simp add: random_algorithm_def cancels_known_def)



end
