(* ===== verification/Threads.thy ===== *)
theory Threads
  imports Prelude
begin

text \<open>
  Starting a thread (\<open>src/src/include/runtime/threads.hpp\<close>): \<open>CreateAndStartThread\<close> runs a lambda in a new
  thread, which pins itself to a core, says so through two atomic flags and calls the function it was
  given; the caller polls the flags. Every access to a flag is a step, in every interleaving. The thread itself is
  always created: that \<open>std::thread\<close>'s constructor may fail is not modelled.
\<close>

section \<open>Steps\<close>

text \<open>
  \<open>CPU_ZERO\<close> and \<open>CPU_SET\<close> make the set of one core, or an empty one for a core beyond the mask;
  \<open>setaffinity\<close> is what \<open>pthread_setaffinity_np\<close> returns for a set of cores.
\<close>

definition CPU_SETSIZE :: int where
  "CPU_SETSIZE = 1024"

definition SetThreadCore :: "(int set \<Rightarrow> int) \<Rightarrow> int \<Rightarrow> bool" where
  "SetThreadCore setaffinity core_id =
     (let cpuset = (if 0 \<le> core_id \<and> core_id < CPU_SETSIZE then {core_id} else {})
      in setaffinity cpuset = 0)"

text \<open>Where the new thread is in \<open>thread_body\<close>, and where the caller is.\<close>

datatype body_at = B_begin | B_fails | B_starts | B_calls | B_in_func | B_returned

datatype caller_at =
    W_running     \<comment> \<open>about to read \<open>running\<close>\<close>
  | W_failed      \<comment> \<open>\<open>running\<close> was false: about to read \<open>failed\<close>\<close>
  | W_sleeping    \<comment> \<open>\<open>sleep_for(1s)\<close>\<close>
  | W_decides     \<comment> \<open>the loop is over: about to test \<open>failed\<close>\<close>
  | W_joins
  | W_returned bool   \<comment> \<open>whether the pointer it returned is not null\<close>

text \<open>
  \<open>func_called\<close> records that the function has been called, \<open>func_dangling\<close> that the caller had returned
  by then: \<open>thread_body\<close> refers to the caller's temporary function object, which the caller's return ends.
\<close>

record Starting =
  running :: bool
  failed :: bool
  body_pc :: body_at
  caller_pc :: caller_at
  func_called :: bool
  func_dangling :: bool

definition Starting_init :: Starting where
  "Starting_init =
     \<lparr>running = False, failed = False, body_pc = B_begin, caller_pc = W_running,
      func_called = False, func_dangling = False\<rparr>"

definition caller_gone :: "Starting \<Rightarrow> bool" where
  "caller_gone S = (case caller_pc S of W_returned _ \<Rightarrow> True | _ \<Rightarrow> False)"

inductive CreateAndStartThread_step :: "(int set \<Rightarrow> int) \<Rightarrow> int \<Rightarrow> Starting \<Rightarrow> Starting \<Rightarrow> bool"
  for setaffinity :: "int set \<Rightarrow> int" and core_id :: int where
  not_pinned: "body_pc S = B_begin \<Longrightarrow> core_id \<ge> 0 \<Longrightarrow> \<not> SetThreadCore setaffinity core_id \<Longrightarrow>
     CreateAndStartThread_step setaffinity core_id S (S\<lparr>body_pc := B_fails\<rparr>)"
| pinned: "body_pc S = B_begin \<Longrightarrow> \<not> (core_id \<ge> 0 \<and> \<not> SetThreadCore setaffinity core_id) \<Longrightarrow>
     CreateAndStartThread_step setaffinity core_id S (S\<lparr>body_pc := B_starts\<rparr>)"
| sets_failed: "body_pc S = B_fails \<Longrightarrow>
     CreateAndStartThread_step setaffinity core_id S (S\<lparr>failed := True, body_pc := B_returned\<rparr>)"
| sets_running: "body_pc S = B_starts \<Longrightarrow>
     CreateAndStartThread_step setaffinity core_id S (S\<lparr>running := True, body_pc := B_calls\<rparr>)"
| calls_func: "body_pc S = B_calls \<Longrightarrow>
     CreateAndStartThread_step setaffinity core_id S
       (S\<lparr>func_called := True, func_dangling := caller_gone S, body_pc := B_in_func\<rparr>)"
| func_returns: "body_pc S = B_in_func \<Longrightarrow>
     CreateAndStartThread_step setaffinity core_id S (S\<lparr>body_pc := B_returned\<rparr>)"
| reads_running: "caller_pc S = W_running \<Longrightarrow>
     CreateAndStartThread_step setaffinity core_id S
       (S\<lparr>caller_pc := (if running S then W_decides else W_failed)\<rparr>)"
| reads_failed: "caller_pc S = W_failed \<Longrightarrow>
     CreateAndStartThread_step setaffinity core_id S
       (S\<lparr>caller_pc := (if failed S then W_decides else W_sleeping)\<rparr>)"
| wakes_up: "caller_pc S = W_sleeping \<Longrightarrow>
     CreateAndStartThread_step setaffinity core_id S (S\<lparr>caller_pc := W_running\<rparr>)"
| decides: "caller_pc S = W_decides \<Longrightarrow>
     CreateAndStartThread_step setaffinity core_id S
       (S\<lparr>caller_pc := (if failed S then W_joins else W_returned True)\<rparr>)"
| joined: "caller_pc S = W_joins \<Longrightarrow> body_pc S = B_returned \<Longrightarrow>
     CreateAndStartThread_step setaffinity core_id S (S\<lparr>caller_pc := W_returned False\<rparr>)"

section \<open>Invariant\<close>

definition pinning_fails :: "(int set \<Rightarrow> int) \<Rightarrow> int \<Rightarrow> bool" where
  "pinning_fails setaffinity core_id \<longleftrightarrow> core_id \<ge> 0 \<and> \<not> SetThreadCore setaffinity core_id"

text \<open>A thread takes one of two ways, and the caller leaves its loop by the flag of that way.\<close>

definition starting_ok :: "bool \<Rightarrow> Starting \<Rightarrow> bool" where
  "starting_ok fails S \<longleftrightarrow>
     (if fails
      then body_pc S \<in> {B_begin, B_fails, B_returned} \<and> \<not> running S \<and> (failed S \<longleftrightarrow> body_pc S = B_returned) \<and>
        \<not> func_called S \<and> (caller_pc S \<in> {W_decides, W_joins} \<or> caller_gone S \<longrightarrow> failed S) \<and>
        caller_pc S \<noteq> W_returned True
      else body_pc S \<noteq> B_fails \<and> \<not> failed S \<and> (running S \<longleftrightarrow> body_pc S \<notin> {B_begin, B_starts}) \<and>
        (func_called S \<longleftrightarrow> body_pc S \<in> {B_in_func, B_returned}) \<and>
        (caller_pc S = W_decides \<or> caller_gone S \<longrightarrow> running S) \<and>
        caller_pc S \<noteq> W_joins \<and> caller_pc S \<noteq> W_returned False)"

lemma starting_ok_init: "starting_ok fails Starting_init"
  by (simp add: starting_ok_def Starting_init_def caller_gone_def)

lemma starting_ok_step:
  assumes "CreateAndStartThread_step setaffinity core_id S S'"
    and "starting_ok (pinning_fails setaffinity core_id) S"
  shows "starting_ok (pinning_fails setaffinity core_id) S'"
  using assms
  by cases (auto simp: starting_ok_def pinning_fails_def caller_gone_def split: if_splits caller_at.splits)

lemma starting_ok_reachable:
  assumes "(CreateAndStartThread_step setaffinity core_id)\<^sup>*\<^sup>* Starting_init S"
  shows "starting_ok (pinning_fails setaffinity core_id) S"
  using assms by (induction rule: rtranclp_induct) (auto intro: starting_ok_init starting_ok_step)

section \<open>The caller gets its answer\<close>

lemma one_step: "r S S' \<Longrightarrow> P S' \<Longrightarrow> \<exists>S'. r\<^sup>*\<^sup>* S S' \<and> P S'"
  by blast

lemma caller_returns_from_decides:
  assumes "caller_pc S = W_decides" "failed S \<longrightarrow> body_pc S = B_returned"
  shows "\<exists>S'. (CreateAndStartThread_step setaffinity core_id)\<^sup>*\<^sup>* S S' \<and> caller_gone S'"
proof (cases "failed S")
  case True
  let ?S = "S\<lparr>caller_pc := W_joins\<rparr>"
  have "CreateAndStartThread_step setaffinity core_id S ?S" using decides [OF assms(1)] True by simp
  moreover have "CreateAndStartThread_step setaffinity core_id ?S (?S\<lparr>caller_pc := W_returned False\<rparr>)"
    using assms(2) True by (intro joined) simp_all
  ultimately show ?thesis by (intro exI [of _ "?S\<lparr>caller_pc := W_returned False\<rparr>"]) (simp add: caller_gone_def)
next
  case False
  then have "CreateAndStartThread_step setaffinity core_id S (S\<lparr>caller_pc := W_returned True\<rparr>)"
    using decides [OF assms(1)] by simp
  then show ?thesis by (intro exI [of _ "S\<lparr>caller_pc := W_returned True\<rparr>"]) (auto simp: caller_gone_def)
qed

lemma caller_leaves_loop:
  assumes "running S \<or> failed S"
  shows "\<exists>S'. (CreateAndStartThread_step setaffinity core_id)\<^sup>*\<^sup>* S S' \<and> caller_pc S' \<notin> {W_running, W_failed, W_sleeping} \<and>
    failed S' = failed S \<and> body_pc S' = body_pc S"
proof -
  let ?step = "CreateAndStartThread_step setaffinity core_id"
  let ?out = "\<lambda>S. S\<lparr>caller_pc := W_decides\<rparr>"
  have again: "\<exists>S'. ?step\<^sup>*\<^sup>* S S' \<and> caller_pc S' \<notin> {W_running, W_failed, W_sleeping} \<and>
      failed S' = failed S \<and> body_pc S' = body_pc S"
    if pc: "caller_pc S = W_running" and flag: "running S \<or> failed S" for S
  proof (cases "running S")
    case True
    then show ?thesis using reads_running [OF pc] by (intro exI [of _ "?out S"]) auto
  next
    case False
    let ?S = "S\<lparr>caller_pc := W_failed\<rparr>"
    have "?step S ?S" "?step ?S (?out ?S)" using reads_running [OF pc] reads_failed [of ?S] False flag by simp_all
    then have "?step\<^sup>*\<^sup>* S (?out ?S)" by simp
    then show ?thesis by (intro exI [of _ "?out ?S"]) simp
  qed
  let ?W = "\<lambda>S. S\<lparr>caller_pc := W_running\<rparr>"
  have woken: "?step\<^sup>*\<^sup>* S (?W S)" if "caller_pc S = W_sleeping" for S
    using wakes_up [OF that] by (rule r_into_rtranclp)
  consider (r) "caller_pc S = W_running" | (f) "caller_pc S = W_failed" "failed S"
    | (n) "caller_pc S = W_failed" "\<not> failed S" | (s) "caller_pc S = W_sleeping"
    | (out) "caller_pc S \<notin> {W_running, W_failed, W_sleeping}" by auto
  then show ?thesis
  proof cases
    case r
    then show ?thesis using again assms by blast
  next
    case f
    then show ?thesis using reads_failed [of S] by (intro exI [of _ "?out S"]) auto
  next
    case n
    let ?S = "S\<lparr>caller_pc := W_sleeping\<rparr>"
    have "?step S ?S" using reads_failed [OF n(1)] n(2) by simp
    then have "?step\<^sup>*\<^sup>* S (?W ?S)" using woken [of ?S] by simp
    moreover obtain S' where "?step\<^sup>*\<^sup>* (?W ?S) S'" "caller_pc S' \<notin> {W_running, W_failed, W_sleeping}"
      "failed S' = failed S" "body_pc S' = body_pc S" using again [of "?W ?S"] assms by auto
    ultimately show ?thesis by (meson rtranclp_trans)
  next
    case s
    obtain S' where "?step\<^sup>*\<^sup>* (?W S) S'" "caller_pc S' \<notin> {W_running, W_failed, W_sleeping}"
      "failed S' = failed S" "body_pc S' = body_pc S" using again [of "?W S"] assms by auto
    with woken [OF s] show ?thesis by (meson rtranclp_trans)
  next
    case out
    then show ?thesis by blast
  qed
qed

lemma body_settles:
  assumes "starting_ok fails S" "fails = pinning_fails setaffinity core_id"
  shows "\<exists>S'. (CreateAndStartThread_step setaffinity core_id)\<^sup>*\<^sup>* S S' \<and> (running S' \<or> failed S')"
proof -
  let ?step = "CreateAndStartThread_step setaffinity core_id"
  have fails: "\<exists>S'. ?step\<^sup>*\<^sup>* S S' \<and> failed S'" if "body_pc S = B_fails" for S
    by (rule one_step [where r = ?step, OF sets_failed [OF that]]) simp
  have starts: "\<exists>S'. ?step\<^sup>*\<^sup>* S S' \<and> running S'" if "body_pc S = B_starts" for S
    by (rule one_step [where r = ?step, OF sets_running [OF that]]) simp
  consider (b) "body_pc S = B_begin" | (f) "body_pc S = B_fails" | (s) "body_pc S = B_starts" | (settled) "running S \<or> failed S"
    using assms(1) by (auto simp: starting_ok_def split: if_splits)
  then show ?thesis
  proof cases
    case b
    show ?thesis
    proof (cases fails)
      case True
      then have "?step S (S\<lparr>body_pc := B_fails\<rparr>)" using b assms(2) by (intro not_pinned) (simp_all add: pinning_fails_def)
      with fails [of "S\<lparr>body_pc := B_fails\<rparr>"] show ?thesis by (auto intro: converse_rtranclp_into_rtranclp)
    next
      case False
      then have "?step S (S\<lparr>body_pc := B_starts\<rparr>)" using b assms(2) by (intro pinned) (simp_all add: pinning_fails_def)
      with starts [of "S\<lparr>body_pc := B_starts\<rparr>"] show ?thesis by (auto intro: converse_rtranclp_into_rtranclp)
    qed
  qed (use fails starts in blast)+
qed

lemma caller_can_return:
  assumes reach: "(CreateAndStartThread_step setaffinity core_id)\<^sup>*\<^sup>* Starting_init S"
  shows "\<exists>S'. (CreateAndStartThread_step setaffinity core_id)\<^sup>*\<^sup>* S S' \<and> caller_gone S'"
proof -
  let ?step = "CreateAndStartThread_step setaffinity core_id"
  obtain S1 where 1: "?step\<^sup>*\<^sup>* S S1" "running S1 \<or> failed S1"
    using body_settles [OF starting_ok_reachable [OF reach] refl] by blast
  obtain S2 where 2: "?step\<^sup>*\<^sup>* S1 S2" "caller_pc S2 \<notin> {W_running, W_failed, W_sleeping}"
    using caller_leaves_loop [OF 1(2)] by blast
  have "?step\<^sup>*\<^sup>* Starting_init S2" using reach 1(1) 2(1) by (meson rtranclp_trans)
  from starting_ok_reachable [OF this] have ok: "starting_ok (pinning_fails setaffinity core_id) S2" .
  then have ret: "failed S2 \<longrightarrow> body_pc S2 = B_returned" by (auto simp: starting_ok_def split: if_splits)
  have "\<exists>S'. ?step\<^sup>*\<^sup>* S2 S' \<and> caller_gone S'"
  proof (cases "caller_pc S2")
    case W_decides
    then show ?thesis using caller_returns_from_decides ret by blast
  next
    case W_joins
    then have "body_pc S2 = B_returned" using ok ret by (auto simp: starting_ok_def split: if_splits)
    then have "?step S2 (S2\<lparr>caller_pc := W_returned False\<rparr>)" using W_joins by (intro joined)
    then show ?thesis by (intro exI [of _ "S2\<lparr>caller_pc := W_returned False\<rparr>"]) (simp add: caller_gone_def)
  next
    case (W_returned b)
    then show ?thesis by (intro exI [of _ S2]) (simp add: caller_gone_def)
  qed (use 2(2) in auto)
  with 1(1) 2(1) show ?thesis by (meson rtranclp_trans)
qed

section \<open>Properties\<close>

text \<open>
  C31: Starting a thread tells the truth and gets stuck nowhere. When \<open>CreateAndStartThread\<close> has returned a
  thread, that thread has passed the pinning and is about to call the function or has called it; when it
  has returned \<open>nullptr\<close>, pinning was asked for and failed, the function was never called and the thread has
  ended. From every state it can still return.
\<close>

theorem thread_started:
  assumes "(CreateAndStartThread_step setaffinity core_id)\<^sup>*\<^sup>* Starting_init S"
  shows "(caller_pc S = W_returned True \<longrightarrow>
      \<not> (core_id \<ge> 0 \<and> \<not> SetThreadCore setaffinity core_id) \<and> body_pc S \<in> {B_calls, B_in_func, B_returned}) \<and>
    (caller_pc S = W_returned False \<longrightarrow>
      core_id \<ge> 0 \<and> \<not> SetThreadCore setaffinity core_id \<and> \<not> func_called S \<and> body_pc S = B_returned) \<and>
    (\<exists>S'. (CreateAndStartThread_step setaffinity core_id)\<^sup>*\<^sup>* S S' \<and> caller_gone S')"
  using starting_ok_reachable [OF assms] caller_can_return [OF assms]
  by (cases "body_pc S") (auto simp: starting_ok_def pinning_fails_def caller_gone_def split: if_splits)

text \<open>
  The components start their threads without a core (\<open>core_id\<close> is -1). Then the null pointer their
  assertions test for is never returned.
\<close>

lemma unpinned_thread_starts:
  assumes "(CreateAndStartThread_step setaffinity (- 1))\<^sup>*\<^sup>* Starting_init S"
  shows "caller_pc S \<noteq> W_returned False"
  using starting_ok_reachable [OF assms] by (auto simp: starting_ok_def pinning_fails_def)

text \<open>
  The thread sets \<open>running\<close> before it calls the function. A caller that looks in between returns, and the
  function object the thread then calls is gone.
\<close>

lemma function_object_may_be_gone:
  assumes "core_id < 0"
  shows "\<exists>S. (CreateAndStartThread_step setaffinity core_id)\<^sup>*\<^sup>* Starting_init S \<and> func_called S \<and> func_dangling S"
proof -
  let ?step = "CreateAndStartThread_step setaffinity core_id" and ?S = Starting_init
  let ?S1 = "?S\<lparr>body_pc := B_starts\<rparr>"
  let ?S2 = "?S1\<lparr>running := True, body_pc := B_calls\<rparr>"
  let ?S3 = "?S2\<lparr>caller_pc := W_decides\<rparr>"
  let ?S4 = "?S3\<lparr>caller_pc := W_returned True\<rparr>"
  let ?S5 = "?S4\<lparr>func_called := True, func_dangling := True, body_pc := B_in_func\<rparr>"
  have "?step ?S ?S1" using pinned [of ?S core_id] assms by (simp add: Starting_init_def)
  moreover have "?step ?S1 ?S2" by (rule sets_running) simp
  moreover have "?step ?S2 ?S3" using reads_running [of ?S2] by (simp add: Starting_init_def)
  moreover have "?step ?S3 ?S4" using decides [of ?S3] by (simp add: Starting_init_def)
  moreover have "?step ?S4 ?S5" using calls_func [of ?S4] by (simp add: caller_gone_def)
  ultimately have "?step\<^sup>*\<^sup>* ?S ?S5" by (meson converse_rtranclp_into_rtranclp rtranclp.rtrancl_refl)
  then show ?thesis by (intro exI [of _ ?S5]) simp
qed

theorem thread_started_witness:
  "\<exists>S. (CreateAndStartThread_step (\<lambda>_. 22) 2)\<^sup>*\<^sup>* Starting_init S \<and> caller_pc S = W_returned False \<and>
    \<not> SetThreadCore (\<lambda>_. 22) 2 \<and> \<not> func_called S"
proof -
  obtain S where S: "(CreateAndStartThread_step (\<lambda>_. 22) 2)\<^sup>*\<^sup>* Starting_init S" "caller_gone S"
    using caller_can_return [of "\<lambda>_. 22" 2 Starting_init] by auto
  have "\<not> SetThreadCore (\<lambda>_. 22) 2" by (simp add: SetThreadCore_def)
  with thread_started [OF S(1)] S(2) have "caller_pc S = W_returned False" "\<not> func_called S"
    by (auto simp: caller_gone_def split: caller_at.splits)
  with S(1) \<open>\<not> SetThreadCore (\<lambda>_. 22) 2\<close> show ?thesis by blast
qed

end
