(* ===== verification/Logger_Shutdown.thy ===== *)
theory Logger_Shutdown
  imports Logger Threads
begin

text \<open>
  The two threads of a logger (\<open>src/src/include/logging/logger.hpp\<close>): one that logs and at the end runs
  the destructor, and the one that runs \<open>FlushQueue\<close> until \<open>running_\<close> is cleared. The calls on the queue
  are steps, in every interleaving; that a call on the queue takes effect as a whole is what
  \<open>Lock_Free_Queue\<close> shows. The file has a buffer: \<open>log_file\<close> is what was written, \<open>on_disk\<close> what was flushed.
\<close>

section \<open>Steps\<close>

datatype flusher_at = F_tests | F_reads | F_wrote | F_flushes | F_sleeps | F_done

datatype closer_at = D_logging | D_waits | D_stops | D_joins | D_closes | D_closed

record Logging =
  logger :: Logger
  on_disk :: string
  log_running :: bool
  flusher_pc :: flusher_at
  closer_pc :: closer_at
  logged :: "log_value list"

text \<open>After the constructor.\<close>

definition Logging_init :: Logging where
  "Logging_init =
     \<lparr>logger = Logger_new, on_disk = [], log_running = True, flusher_pc = F_tests, closer_pc = D_logging, logged = []\<rparr>"

text \<open>A push does not look whether the queue has room.\<close>

inductive logging_step :: "Logging \<Rightarrow> Logging \<Rightarrow> bool" where
  pushes: "closer_pc S = D_logging \<Longrightarrow>
     logging_step S (S\<lparr>logger := PushValue v (logger S), logged := logged S @ [v]\<rparr>)"
| tests_running: "flusher_pc S = F_tests \<Longrightarrow>
     logging_step S (S\<lparr>flusher_pc := (if log_running S then F_reads else F_done)\<rparr>)"
| writes: "flusher_pc S = F_reads \<Longrightarrow> GetNextToRead (log_queue (logger S)) = Some e \<Longrightarrow> write_element e = Inr s \<Longrightarrow>
     logging_step S (S\<lparr>logger := (logger S)\<lparr>log_file := log_file (logger S) @ s\<rparr>, flusher_pc := F_wrote\<rparr>)"
| updates_index: "flusher_pc S = F_wrote \<Longrightarrow> UpdateReadIndex (log_queue (logger S)) = Inr q \<Longrightarrow>
     logging_step S (S\<lparr>logger := (logger S)\<lparr>log_queue := q\<rparr>, flusher_pc := F_reads\<rparr>)"
| sees_empty: "flusher_pc S = F_reads \<Longrightarrow> GetNextToRead (log_queue (logger S)) = None \<Longrightarrow>
     logging_step S (S\<lparr>flusher_pc := F_flushes\<rparr>)"
| flushes: "flusher_pc S = F_flushes \<Longrightarrow>
     logging_step S (S\<lparr>on_disk := log_file (logger S), flusher_pc := F_sleeps\<rparr>)"
| sleeps: "flusher_pc S = F_sleeps \<Longrightarrow> logging_step S (S\<lparr>flusher_pc := F_tests\<rparr>)"
| destructor: "closer_pc S = D_logging \<Longrightarrow> logging_step S (S\<lparr>closer_pc := D_waits\<rparr>)"
| queue_empty: "closer_pc S = D_waits \<Longrightarrow> Size (log_queue (logger S)) = 0 \<Longrightarrow>
     logging_step S (S\<lparr>closer_pc := D_stops\<rparr>)"
| stops: "closer_pc S = D_stops \<Longrightarrow> logging_step S (S\<lparr>log_running := False, closer_pc := D_joins\<rparr>)"
| joins: "closer_pc S = D_joins \<Longrightarrow> flusher_pc S = F_done \<Longrightarrow> logging_step S (S\<lparr>closer_pc := D_closes\<rparr>)"
| closes: "closer_pc S = D_closes \<Longrightarrow>
     logging_step S (S\<lparr>on_disk := log_file (logger S), closer_pc := D_closed\<rparr>)"

text \<open>
  The runs in which the logging thread stays within the capacity of the queue, which is meant to be large
  enough (8 * 1024 * 1024 elements) and is not checked.
\<close>

definition log_fits :: "Logging \<Rightarrow> bool" where
  "log_fits S \<longleftrightarrow> num_elements (log_queue (logger S)) \<le> q_size (log_queue (logger S))"

definition fitting_step :: "Logging \<Rightarrow> Logging \<Rightarrow> bool" where
  "fitting_step S S' \<longleftrightarrow> logging_step S S' \<and> log_fits S'"

section \<open>Invariant\<close>

text \<open>
  What was logged is what was written and what is pending; between the write of an element and the update
  of the index the first pending element is in the file already.
\<close>

definition log_texts :: "log_value list \<Rightarrow> string" where
  "log_texts vs = concat (map value_text vs)"

definition written_ok :: "Logging \<Rightarrow> bool" where
  "written_ok S \<longleftrightarrow>
     (\<exists>written pending. logged S = written @ pending \<and> q_list (log_queue (logger S)) = map element_of pending \<and>
        (flusher_pc S = F_wrote \<longrightarrow> pending \<noteq> []) \<and>
        log_file (logger S) = log_texts written @ (if flusher_pc S = F_wrote then value_text (hd pending) else []))"

definition logging_ok :: "Logging \<Rightarrow> bool" where
  "logging_ok S \<longleftrightarrow>
     q_ok (log_queue (logger S)) \<and> written_ok S \<and>
     (closer_pc S \<notin> {D_logging, D_waits} \<longrightarrow> q_list (log_queue (logger S)) = []) \<and>
     (log_running S \<longleftrightarrow> closer_pc S \<in> {D_logging, D_waits, D_stops}) \<and>
     (flusher_pc S = F_done \<longrightarrow> \<not> log_running S) \<and>
     (closer_pc S \<in> {D_closes, D_closed} \<longrightarrow> flusher_pc S = F_done) \<and>
     (closer_pc S = D_closed \<longrightarrow> on_disk S = log_file (logger S))"

lemma log_texts_simps [simp]:
  "log_texts [] = []" "log_texts (v # vs) = value_text v @ log_texts vs" "log_texts (vs @ ws) = log_texts vs @ log_texts ws"
  by (simp_all add: log_texts_def)

lemma logging_ok_init: "logging_ok Logging_init"
  by (simp add: logging_ok_def written_ok_def Logging_init_def Logger_new_def q_ok_def q_list_def LockFreeQueue_new_def
      LOG_QUEUE_SIZE_def)

lemma push_ok:
  assumes "logging_ok S" "closer_pc S = D_logging"
    and "log_fits (S\<lparr>logger := PushValue v (logger S), logged := logged S @ [v]\<rparr>)"
  shows "logging_ok (S\<lparr>logger := PushValue v (logger S), logged := logged S @ [v]\<rparr>)"
proof -
  let ?q = "log_queue (logger S)"
  have q: "q_ok (Enqueue (element_of v) ?q)" "q_list (Enqueue (element_of v) ?q) = q_list ?q @ [element_of v]"
    using Enqueue_ok [of ?q "element_of v"] assms by (simp_all add: logging_ok_def log_fits_def PushValue_def PushElement_def)
  obtain ws ps where ps: "logged S = ws @ ps" "q_list ?q = map element_of ps"
      "flusher_pc S = F_wrote \<longrightarrow> ps \<noteq> []"
      "log_file (logger S) = log_texts ws @ (if flusher_pc S = F_wrote then value_text (hd ps) else [])"
    using assms(1) by (auto simp: logging_ok_def written_ok_def)
  have "written_ok (S\<lparr>logger := PushValue v (logger S), logged := logged S @ [v]\<rparr>)"
    unfolding written_ok_def
    by (rule exI [of _ ws], rule exI [of _ "ps @ [v]"])
      (use ps q(2) in \<open>auto simp: PushValue_def PushElement_def hd_append\<close>)
  with assms q show ?thesis by (auto simp: logging_ok_def PushValue_def PushElement_def)
qed

lemma write_ok:
  assumes "logging_ok S" "flusher_pc S = F_reads" "GetNextToRead (log_queue (logger S)) = Some e"
    and "write_element e = Inr s"
  shows "logging_ok (S\<lparr>logger := (logger S)\<lparr>log_file := log_file (logger S) @ s\<rparr>, flusher_pc := F_wrote\<rparr>)"
proof -
  obtain ws ps where ps: "logged S = ws @ ps" "q_list (log_queue (logger S)) = map element_of ps"
      "log_file (logger S) = log_texts ws"
    using assms(1,2) by (auto simp: logging_ok_def written_ok_def)
  have "ps \<noteq> [] \<and> e = element_of (hd ps)"
    using assms(1,3) ps(2) lfq.front_law [of "log_queue (logger S)"] by (cases ps) (auto simp: logging_ok_def)
  then have "written_ok (S\<lparr>logger := (logger S)\<lparr>log_file := log_file (logger S) @ s\<rparr>, flusher_pc := F_wrote\<rparr>)"
    unfolding written_ok_def
    by (intro exI [of _ ws] exI [of _ ps]) (use ps assms(4) in auto)
  with assms show ?thesis by (auto simp: logging_ok_def)
qed

lemma update_ok:
  assumes "logging_ok S" "flusher_pc S = F_wrote" "UpdateReadIndex (log_queue (logger S)) = Inr q"
  shows "logging_ok (S\<lparr>logger := (logger S)\<lparr>log_queue := q\<rparr>, flusher_pc := F_reads\<rparr>)"
proof -
  obtain ws v ps where ps: "logged S = ws @ v # ps" "q_list (log_queue (logger S)) = element_of v # map element_of ps"
      "log_file (logger S) = log_texts ws @ value_text v"
  proof -
    obtain ws ps where "logged S = ws @ ps" "q_list (log_queue (logger S)) = map element_of ps" "ps \<noteq> []"
        "log_file (logger S) = log_texts ws @ value_text (hd ps)"
      using assms(1,2) by (auto simp: logging_ok_def written_ok_def)
    then show thesis by (cases ps) (auto intro: that)
  qed
  have "q_ok q" "q_list q = map element_of ps"
    using assms lfq.deq_law [OF _ ps(2)] by (auto simp: logging_ok_def)
  moreover from this have "written_ok (S\<lparr>logger := (logger S)\<lparr>log_queue := q\<rparr>, flusher_pc := F_reads\<rparr>)"
    unfolding written_ok_def
    by (intro exI [of _ "ws @ [v]"] exI [of _ ps]) (use ps in auto)
  ultimately show ?thesis using assms ps(2) by (auto simp: logging_ok_def)
qed

lemma logging_step_ok:
  assumes "logging_step S S'" "logging_ok S" "log_fits S'"
  shows "logging_ok S'"
  using assms(1)
proof cases
  case (pushes v)
  then show ?thesis using push_ok assms(2,3) by blast
next
  case (writes e s)
  then show ?thesis using write_ok assms(2) by blast
next
  case (updates_index q)
  then show ?thesis using update_ok assms(2) by blast
next
  case queue_empty
  then have "q_list (log_queue (logger S)) = []" by (simp add: Size_def flip: length_0_conv)
  with queue_empty assms(2) show ?thesis by (auto simp: logging_ok_def written_ok_def)
qed (use assms(2) in \<open>auto simp: logging_ok_def written_ok_def split: if_splits\<close>)

lemma logging_ok_fits [simp]: "logging_ok S \<Longrightarrow> log_fits S"
  by (simp add: logging_ok_def log_fits_def q_ok_def)

lemma logging_reachable_ok:
  assumes "fitting_step\<^sup>*\<^sup>* Logging_init S"
  shows "logging_ok S"
  using assms by (induction rule: rtranclp_induct) (auto simp: fitting_step_def intro: logging_ok_init logging_step_ok)

section \<open>The destructor comes to an end\<close>

text \<open>Steps of the flusher alone leave the closer and the flag as they are.\<close>

definition flusher_runs :: "Logging \<Rightarrow> Logging \<Rightarrow> bool" where
  "flusher_runs S S' \<longleftrightarrow>
     (log_fits S \<longrightarrow> fitting_step\<^sup>*\<^sup>* S S' \<and> log_fits S') \<and> closer_pc S' = closer_pc S \<and>
     log_running S' = log_running S \<and> (logging_ok S \<longrightarrow> logging_ok S')"

lemma flusher_runs_refl [simp]: "flusher_runs S S"
  by (simp add: flusher_runs_def)

lemma flusher_runs_trans: "flusher_runs S T \<Longrightarrow> flusher_runs T U \<Longrightarrow> flusher_runs S U"
  by (auto simp: flusher_runs_def)

lemma flusher_runs_step:
  assumes "logging_step S S'" "closer_pc S' = closer_pc S" "log_running S' = log_running S" "log_fits S \<Longrightarrow> log_fits S'"
  shows "flusher_runs S S'"
  using assms logging_step_ok [OF assms(1)] by (auto simp: flusher_runs_def fitting_step_def)

lemma log_fits_simps [simp]:
  "log_fits (S\<lparr>flusher_pc := f\<rparr>) = log_fits S" "log_fits (S\<lparr>on_disk := d\<rparr>) = log_fits S"
  "log_fits (S\<lparr>closer_pc := c\<rparr>) = log_fits S" "log_fits (S\<lparr>log_running := r\<rparr>) = log_fits S"
  "log_fits (S\<lparr>logger := (logger S)\<lparr>log_file := t\<rparr>\<rparr>) = log_fits S"
  by (simp_all add: log_fits_def)

lemma log_fits_dequeue [simp]:
  "UpdateReadIndex (log_queue (logger S)) = Inr q \<Longrightarrow> log_fits S \<Longrightarrow>
    log_fits (S\<lparr>logger := (logger S)\<lparr>log_queue := q\<rparr>\<rparr>)"
  "UpdateReadIndex (log_queue (logger S)) = Inr q \<Longrightarrow> log_fits S \<Longrightarrow>
    log_fits (S\<lparr>logger := (logger S)\<lparr>log_file := t, log_queue := q\<rparr>\<rparr>)"
  by (auto simp: log_fits_def UpdateReadIndex_def result_simps)

lemma flusher_to_test:
  assumes "flusher_pc S \<in> {F_flushes, F_sleeps, F_tests}"
  shows "\<exists>S'. flusher_runs S S' \<and> flusher_pc S' = F_tests \<and> logger S' = logger S"
proof -
  have sleep: "\<exists>S'. flusher_runs S S' \<and> flusher_pc S' = F_tests \<and> logger S' = logger S" if "flusher_pc S = F_sleeps" for S
    using flusher_runs_step [OF sleeps [OF that]] by fastforce
  let ?S = "S\<lparr>on_disk := log_file (logger S), flusher_pc := F_sleeps\<rparr>"
  consider "flusher_pc S = F_flushes" | "flusher_pc S = F_sleeps" | "flusher_pc S = F_tests" using assms by auto
  then show ?thesis
  proof cases
    case 1
    then have "flusher_runs S ?S" by (intro flusher_runs_step) (simp_all add: flushes)
    with sleep [of ?S] show ?thesis by (auto intro: flusher_runs_trans)
  next
    case 2
    then show ?thesis by (rule sleep)
  next
    case 3
    then show ?thesis by (intro exI [of _ S]) simp
  qed
qed

lemma flusher_to_read:
  assumes "logging_ok S" "log_running S"
  shows "\<exists>S'. flusher_runs S S' \<and> flusher_pc S' = F_reads"
proof -
  have later: "\<exists>S'. flusher_runs S S' \<and> flusher_pc S' = F_reads" if at: "flusher_pc S \<in> {F_flushes, F_sleeps, F_tests}"
  proof -
    obtain T where T: "flusher_runs S T" "flusher_pc T = F_tests" using flusher_to_test [OF at] by blast
    have "flusher_runs T (T\<lparr>flusher_pc := F_reads\<rparr>)"
      using tests_running [OF T(2)] T(1) assms(2) by (intro flusher_runs_step) (simp_all add: flusher_runs_def)
    with T(1) show ?thesis by (intro exI [of _ "T\<lparr>flusher_pc := F_reads\<rparr>"]) (auto intro: flusher_runs_trans)
  qed
  show ?thesis
  proof (cases "flusher_pc S")
    case F_wrote
    then have "q_list (log_queue (logger S)) \<noteq> []" using assms(1) by (auto simp: logging_ok_def written_ok_def)
    then obtain v ps where "q_list (log_queue (logger S)) = v # ps" by (auto simp: neq_Nil_conv)
    then obtain q where "UpdateReadIndex (log_queue (logger S)) = Inr q"
      using assms(1) lfq.deq_law [of "log_queue (logger S)"] by (auto simp: logging_ok_def)
    from flusher_runs_step [OF updates_index [OF F_wrote this]] this show ?thesis by fastforce
  next
    case F_done
    then show ?thesis using assms by (simp add: logging_ok_def)
  next
    case F_reads
    then show ?thesis by (intro exI [of _ S]) simp
  qed (use later in simp_all)
qed

lemma flusher_drains:
  assumes "logging_ok S" "flusher_pc S = F_reads"
  shows "\<exists>S'. flusher_runs S S' \<and> flusher_pc S' = F_reads \<and> q_list (log_queue (logger S')) = []"
  using assms
proof (induction "length (q_list (log_queue (logger S)))" arbitrary: S)
  case 0
  then have "q_list (log_queue (logger S)) = []" by (simp flip: length_0_conv)
  with 0 show ?case by (intro exI [of _ S]) simp
next
  case (Suc n)
  have q: "q_ok (log_queue (logger S))" using Suc.prems(1) by (simp add: logging_ok_def)
  obtain v vs where v: "q_list (log_queue (logger S)) = element_of v # map element_of vs"
  proof -
    obtain ps where ps: "q_list (log_queue (logger S)) = map element_of ps"
      using Suc.prems(1) by (auto simp: logging_ok_def written_ok_def)
    with Suc.hyps(2) have "ps \<noteq> []" by auto
    with ps show thesis by (auto simp: neq_Nil_conv intro: that)
  qed
  let ?S = "S\<lparr>logger := (logger S)\<lparr>log_file := log_file (logger S) @ value_text v\<rparr>, flusher_pc := F_wrote\<rparr>"
  have "GetNextToRead (log_queue (logger S)) = Some (element_of v)" using lfq.front_law [OF q] v by simp
  then have 1: "flusher_runs S ?S" by (intro flusher_runs_step writes [OF Suc.prems(2), of "element_of v"]) simp_all
  obtain r where r: "UpdateReadIndex (log_queue (logger S)) = Inr r" "q_list r = map element_of vs"
    using lfq.deq_law [OF q v] by auto
  let ?T = "?S\<lparr>logger := (logger ?S)\<lparr>log_queue := r\<rparr>, flusher_pc := F_reads\<rparr>"
  have 2: "flusher_runs ?S ?T" using r(1) by (intro flusher_runs_step updates_index) simp_all
  have "logging_ok ?T" using flusher_runs_trans [OF 1 2] Suc.prems(1) by (simp add: flusher_runs_def)
  moreover have "n = length (q_list (log_queue (logger ?T)))" using Suc.hyps(2) v r(2) by simp
  ultimately obtain S' where "flusher_runs ?T S'" "flusher_pc S' = F_reads" "q_list (log_queue (logger S')) = []"
    using Suc.hyps(1) [of ?T] by auto
  then show ?case using flusher_runs_trans [OF 1 flusher_runs_trans [OF 2]] by blast
qed

lemma flusher_ends:
  assumes "logging_ok S" "\<not> log_running S" "closer_pc S \<noteq> D_waits"
  shows "\<exists>S'. flusher_runs S S' \<and> flusher_pc S' = F_done"
proof -
  have test: "\<exists>S'. flusher_runs S S' \<and> flusher_pc S' = F_done" if "flusher_pc S = F_tests" "\<not> log_running S" for S
    using flusher_runs_step [OF tests_running [OF that(1)]] that(2) by fastforce
  have later: "\<exists>S'. flusher_runs S S' \<and> flusher_pc S' = F_done"
    if at: "flusher_pc S \<in> {F_flushes, F_sleeps, F_tests}" and stopped: "\<not> log_running S" for S
  proof -
    obtain T where T: "flusher_runs S T" "flusher_pc T = F_tests" using flusher_to_test [OF at] by blast
    then have "\<not> log_running T" using stopped by (simp add: flusher_runs_def)
    with test [OF T(2)] T(1) show ?thesis by (blast intro: flusher_runs_trans)
  qed
  have q: "q_ok (log_queue (logger S))" "q_list (log_queue (logger S)) = []"
    using assms by (auto simp: logging_ok_def)
  then have wrote: "flusher_pc S \<noteq> F_wrote" using assms(1) by (auto simp: logging_ok_def written_ok_def)
  show ?thesis
  proof (cases "flusher_pc S")
    case F_reads
    let ?S = "S\<lparr>flusher_pc := F_flushes\<rparr>"
    have "flusher_runs S ?S" using lfq.front_None [OF q(1)] q(2) by (intro flusher_runs_step sees_empty [OF F_reads]) simp_all
    with later [of ?S] assms(2) show ?thesis by (auto intro: flusher_runs_trans)
  next
    case F_done
    then show ?thesis by (intro exI [of _ S]) simp
  qed (use wrote later assms(2) in auto)
qed

lemma fitting_stepI: "logging_step S S' \<Longrightarrow> logging_ok S \<Longrightarrow> log_fits S' \<Longrightarrow> fitting_step S S' \<and> logging_ok S'"
  by (simp add: fitting_step_def logging_step_ok)

lemma logging_closes:
  assumes "logging_ok S"
  shows "\<exists>S'. fitting_step\<^sup>*\<^sup>* S S' \<and> closer_pc S' = D_closed"
proof -
  let ?goal = "\<lambda>S. \<exists>S'. fitting_step\<^sup>*\<^sup>* S S' \<and> closer_pc S' = D_closed"
  have go: "?goal S" if "logging_step S S'" "logging_ok S" "log_fits S'" "logging_ok S' \<Longrightarrow> ?goal S'" for S S'
    using fitting_stepI [OF that(1-3)] that(4) by (blast intro: converse_rtranclp_into_rtranclp)
  have run: "?goal S" if "flusher_runs S T" "logging_ok S" "logging_ok T \<Longrightarrow> ?goal T" for S T
    using that unfolding flusher_runs_def by (metis logging_ok_fits rtranclp_trans)
  have closes: "?goal S" if S: "closer_pc S = D_closes" "logging_ok S" for S
    by (rule go [OF closes [OF S(1)] S(2)]) (use S(2) in \<open>auto intro: exI [of _ "S\<lparr>on_disk := log_file (logger S), closer_pc := D_closed\<rparr>"]\<close>)
  have joins: "?goal S" if S: "closer_pc S = D_joins" "logging_ok S" for S
  proof -
    obtain T where T: "flusher_runs S T" "flusher_pc T = F_done" using flusher_ends [of S] S by (auto simp: logging_ok_def)
    have "closer_pc T = D_joins" using T(1) S(1) by (simp add: flusher_runs_def)
    then show ?thesis using go [OF joins [OF _ T(2)]] closes by (intro run [OF T(1) S(2)]) simp
  qed
  have stops: "?goal S" if S: "closer_pc S = D_stops" "logging_ok S" for S
    by (rule go [OF stops [OF S(1)] S(2)]) (use S(2) joins in simp_all)
  have waits: "?goal S" if S: "closer_pc S = D_waits" "logging_ok S" for S
  proof -
    obtain T where T: "flusher_runs S T" "flusher_pc T = F_reads"
      using flusher_to_read [OF S(2)] S by (auto simp: logging_ok_def)
    then obtain U where U: "flusher_runs S U" "q_list (log_queue (logger U)) = []"
    proof -
      have "logging_ok T" using T(1) S(2) by (simp add: flusher_runs_def)
      from flusher_drains [OF this T(2)] that show thesis by (blast intro: flusher_runs_trans [OF T(1)])
    qed
    have "logging_step U (U\<lparr>closer_pc := D_stops\<rparr>)"
      using U S(1) by (intro queue_empty) (auto simp: flusher_runs_def Size_def simp flip: length_q_list)
    from go [OF this] stops show ?thesis by (intro run [OF U(1) S(2)]) simp
  qed
  have logs: "?goal S" if S: "closer_pc S = D_logging" "logging_ok S" for S
    by (rule go [OF destructor [OF S(1)] S(2)]) (use S(2) waits in simp_all)
  show ?thesis
    by (cases "closer_pc S") (use logs waits stops joins closes assms in blast)+
qed

section \<open>Property\<close>

text \<open>
  C30: Closing a logger loses nothing and does not hang. In every interleaving of the logging thread,
  which logs and then runs the destructor, and the flushing thread, in which the queue is never
  overrun (\<open>log_fits\<close>, which \<open>PushValue\<close> does not check), the file on disk holds the text of
  everything that was logged when the destructor is through; and from every state it can get there.
\<close>

theorem closed_log_complete:
  assumes "fitting_step\<^sup>*\<^sup>* Logging_init S"
  shows "(closer_pc S = D_closed \<longrightarrow> on_disk S = concat (map value_text (logged S))) \<and>
    (\<exists>S'. fitting_step\<^sup>*\<^sup>* S S' \<and> closer_pc S' = D_closed)"
proof -
  note ok = logging_reachable_ok [OF assms]
  then have "on_disk S = concat (map value_text (logged S))" if "closer_pc S = D_closed"
    using that by (auto simp: logging_ok_def written_ok_def log_texts_def)
  with logging_closes [OF ok] show ?thesis by blast
qed

text \<open>One value logged, and the destructor begun and carried through.\<close>

theorem closed_log_complete_witness:
  "\<exists>S S'. fitting_step\<^sup>*\<^sup>* Logging_init S \<and> closer_pc S = D_waits \<and> logged S = [V_int 7] \<and>
    fitting_step\<^sup>*\<^sup>* S S' \<and> closer_pc S' = D_closed \<and> on_disk S' = concat (map value_text (logged S'))"
proof -
  let ?S = "Logging_init\<lparr>logger := PushValue (V_int 7) Logger_new, logged := [V_int 7]\<rparr>"
  have "logging_step Logging_init ?S"
    using pushes [of Logging_init "V_int 7"] by (simp add: Logging_init_def)
  then have 1: "fitting_step Logging_init ?S"
    by (simp add: fitting_step_def log_fits_def Logging_init_def Logger_new_def PushValue_def PushElement_def
        LockFreeQueue_new_def LOG_QUEUE_SIZE_def)
  have "logging_step ?S (?S\<lparr>closer_pc := D_waits\<rparr>)" by (rule destructor) (simp add: Logging_init_def)
  then have "fitting_step ?S (?S\<lparr>closer_pc := D_waits\<rparr>)" using 1 by (simp add: fitting_step_def)
  with 1 have run: "fitting_step\<^sup>*\<^sup>* Logging_init (?S\<lparr>closer_pc := D_waits\<rparr>)"
    by (meson converse_rtranclp_into_rtranclp rtranclp.rtrancl_refl)
  from closed_log_complete [OF run] obtain S' where S': "fitting_step\<^sup>*\<^sup>* (?S\<lparr>closer_pc := D_waits\<rparr>) S'" "closer_pc S' = D_closed"
    by blast
  have "on_disk S' = concat (map value_text (logged S'))"
    using closed_log_complete [OF rtranclp_trans [OF run S'(1)]] S'(2) by blast
  with run S' show ?thesis by (intro exI [of _ "?S\<lparr>closer_pc := D_waits\<rparr>"] exI [of _ S']) simp
qed

end
