(* ===== verification/Handler_Log.thy ===== *)
theory Handler_Log
  imports Clock Trading_Strategies
begin

text \<open>
  The handlers of the trading engine and its strategies that only log: the default algorithm
  (\<open>src/src/include/trading_engine/trading_engine.hpp\<close>), \<open>OnTradeUpdate\<close> of the market maker
  (\<open>market_maker.hpp\<close>) and \<open>OnOrderBookUpdate\<close> of the liquidity taker (\<open>liquidity_taker.hpp\<close>), and the
  taker's \<open>OnOrderUpdate\<close>, which logs around the order manager. \<open>Log\<close> ends the process when a format does not
  fit its arguments, so that these handlers return is something to show. \<open>file\<close> is \<open>__FILE__\<close>, \<open>time_str\<close>
  what \<open>GetCurrentTimeStr\<close> gives.
\<close>

section \<open>Handlers\<close>

definition log_here :: "string \<Rightarrow> 32 word \<Rightarrow> string \<Rightarrow> string \<Rightarrow> log_value list" where
  "log_here file line func time_str = [V_cstr file, V_int line, V_cstr func, V_cstr time_str]"

definition DefaultAlgoOnOrderBookUpdate ::
  "string \<Rightarrow> string \<Rightarrow> TickerId \<Rightarrow> Price \<Rightarrow> Side \<Rightarrow> Logger \<Rightarrow> Logger result" where
  "DefaultAlgoOnOrderBookUpdate file time_str ticker_id price side =
     Log (''%:% %() % ticker:% price:% side:%'' @ [CHR 0x0A])
       (log_here file 111 ''DefaultAlgoOnOrderBookUpdate'' time_str @
        [V_unsigned ticker_id, V_cstr (PriceToString price), V_cstr (SideToString side)])"

definition DefaultAlgoOnTradeUpdate :: "string \<Rightarrow> string \<Rightarrow> MEMarketUpdate \<Rightarrow> Logger \<Rightarrow> Logger result" where
  "DefaultAlgoOnTradeUpdate file time_str market_update =
     Log (''%:% %() % %'' @ [CHR 0x0A])
       (log_here file 118 ''DefaultAlgoOnTradeUpdate'' time_str @ [V_cstr (MEMarketUpdate_ToString market_update)])"

definition DefaultAlgoOnOrderUpdate :: "string \<Rightarrow> string \<Rightarrow> MEClientResponse \<Rightarrow> Logger \<Rightarrow> Logger result" where
  "DefaultAlgoOnOrderUpdate file time_str client_response =
     Log (''%:% %() % %'' @ [CHR 0x0A])
       (log_here file 123 ''DefaultAlgoOnOrderUpdate'' time_str @ [V_cstr (MEClientResponse_ToString client_response)])"

definition MarketMaker_OnTradeUpdate :: "string \<Rightarrow> string \<Rightarrow> MEMarketUpdate \<Rightarrow> Logger \<Rightarrow> Logger result" where
  "MarketMaker_OnTradeUpdate file time_str market_update =
     Log (''%:% %() % %'' @ [CHR 0x0A])
       (log_here file 58 ''OnTradeUpdate'' time_str @ [V_cstr (MEMarketUpdate_ToString market_update)])"

definition LiquidityTaker_OnOrderBookUpdate ::
  "string \<Rightarrow> string \<Rightarrow> TickerId \<Rightarrow> Price \<Rightarrow> Side \<Rightarrow> Logger \<Rightarrow> Logger result" where
  "LiquidityTaker_OnOrderBookUpdate file time_str ticker_id price side =
     Log (''%:% %() % ticker:% price:% side:%'' @ [CHR 0x0A])
       (log_here file 33 ''OnOrderBookUpdate'' time_str @
        [V_unsigned ticker_id, V_cstr (PriceToString price), V_cstr (SideToString side)])"

text \<open>\<open>count\<close> and \<open>end_count\<close> are what the cycle counter says before and after, \<open>end_time_str\<close> is the later time.\<close>

definition LiquidityTaker_OnOrderUpdate ::
  "string \<Rightarrow> string \<Rightarrow> string \<Rightarrow> 64 word \<Rightarrow> 64 word \<Rightarrow> MEClientResponse \<Rightarrow> OrderManager \<Rightarrow> Logger \<Rightarrow>
   (OrderManager \<times> Logger) result" where
  "LiquidityTaker_OnOrderUpdate file time_str end_time_str count end_count client_response M L =
     rbind (Log (''%:% %() % %'' @ [CHR 0x0A])
              (log_here file 66 ''OnOrderUpdate'' time_str @ [V_cstr (MEClientResponse_ToString client_response)]) L) (\<lambda>L.
     rbind (OnOrderUpdate client_response M) (\<lambda>M.
     rbind (END_MEASURE end_time_str ''trading_order_manager_on_order_update'' count end_count L) (\<lambda>L.
     Inr (M, L))))"

section \<open>What they log\<close>

text \<open>The text of an argument, and of the place a line comes from.\<close>

definition cstr_text :: "string \<Rightarrow> string" where
  "cstr_text s = take 255 (c_str s)"

definition here_text :: "string \<Rightarrow> 32 word \<Rightarrow> string \<Rightarrow> string \<Rightarrow> string" where
  "here_text file line func time_str =
     cstr_text file @ '':'' @ int_string (sint line) @ '' '' @ cstr_text func @ ''() '' @ cstr_text time_str @ '' ''"

text \<open>A call of \<open>Log\<close> that succeeds with a text.\<close>

definition logs :: "(Logger \<Rightarrow> Logger result) \<Rightarrow> string \<Rightarrow> bool" where
  "logs f s \<longleftrightarrow> (\<exists>vs. (\<forall>L. f L = Inr (fold PushValue vs L)) \<and> concat (map value_text vs) = s)"

lemma logs_Log:
  assumes "length args = holes s"
  shows "logs (Log s args) (line_text s args)"
  unfolding logs_def line_text_def by (intro exI [of _ "fill (parts s) args"]) (simp add: Log_cases assms)

lemma message_format:
  "holes (''%:% %() % %'' @ [CHR 0x0A]) = 5"
  "line_text (''%:% %() % %'' @ [CHR 0x0A]) (log_here file line func time_str @ [v]) =
     here_text file line func time_str @ value_text v @ [CHR 0x0A]"
  by (simp_all add: holes_def line_text_def log_here_def here_text_def cstr_text_def parts.simps)

lemma book_format:
  "holes (''%:% %() % ticker:% price:% side:%'' @ [CHR 0x0A]) = 7"
  "line_text (''%:% %() % ticker:% price:% side:%'' @ [CHR 0x0A]) (log_here file line func time_str @ [u, v, w]) =
     here_text file line func time_str @ ''ticker:'' @ value_text u @ '' price:'' @ value_text v @ '' side:'' @
     value_text w @ [CHR 0x0A]"
  by (simp_all add: holes_def line_text_def log_here_def here_text_def cstr_text_def parts.simps)

lemma length_log_here [simp]: "length (log_here file line func time_str) = 4"
  by (simp add: log_here_def)

lemma logs_message:
  "logs (Log (''%:% %() % %'' @ [CHR 0x0A]) (log_here file line func time_str @ [V_cstr s]))
     (here_text file line func time_str @ cstr_text s @ [CHR 0x0A])"
  using logs_Log [of "log_here file line func time_str @ [V_cstr s]" "''%:% %() % %'' @ [CHR 0x0A]"]
  unfolding message_format by (simp add: cstr_text_def)

lemma logs_book:
  "logs (Log (''%:% %() % ticker:% price:% side:%'' @ [CHR 0x0A])
       (log_here file line func time_str @ [V_unsigned t, V_cstr p, V_cstr s]))
     (here_text file line func time_str @ ''ticker:'' @ dec_string (unat t) @ '' price:'' @ cstr_text p @ '' side:'' @
      cstr_text s @ [CHR 0x0A])"
  using logs_Log [of "log_here file line func time_str @ [V_unsigned t, V_cstr p, V_cstr s]"
      "''%:% %() % ticker:% price:% side:%'' @ [CHR 0x0A]"]
  unfolding book_format by (simp add: cstr_text_def)

text \<open>None of the handlers ends the process, and each logs its line.\<close>

lemma handlers_log:
  "logs (DefaultAlgoOnOrderBookUpdate file time_str t p sd)
     (here_text file 111 ''DefaultAlgoOnOrderBookUpdate'' time_str @ ''ticker:'' @ dec_string (unat t) @ '' price:'' @
      cstr_text (PriceToString p) @ '' side:'' @ cstr_text (SideToString sd) @ [CHR 0x0A])"
  "logs (LiquidityTaker_OnOrderBookUpdate file time_str t p sd)
     (here_text file 33 ''OnOrderBookUpdate'' time_str @ ''ticker:'' @ dec_string (unat t) @ '' price:'' @
      cstr_text (PriceToString p) @ '' side:'' @ cstr_text (SideToString sd) @ [CHR 0x0A])"
  "logs (DefaultAlgoOnTradeUpdate file time_str u)
     (here_text file 118 ''DefaultAlgoOnTradeUpdate'' time_str @ cstr_text (MEMarketUpdate_ToString u) @ [CHR 0x0A])"
  "logs (MarketMaker_OnTradeUpdate file time_str u)
     (here_text file 58 ''OnTradeUpdate'' time_str @ cstr_text (MEMarketUpdate_ToString u) @ [CHR 0x0A])"
  "logs (DefaultAlgoOnOrderUpdate file time_str r)
     (here_text file 123 ''DefaultAlgoOnOrderUpdate'' time_str @ cstr_text (MEClientResponse_ToString r) @ [CHR 0x0A])"
  using logs_book logs_message
  by (simp_all only: DefaultAlgoOnOrderBookUpdate_def LiquidityTaker_OnOrderBookUpdate_def DefaultAlgoOnTradeUpdate_def
      MarketMaker_OnTradeUpdate_def DefaultAlgoOnOrderUpdate_def)

text \<open>The taker's handler returns exactly when the order manager's does, with its result.\<close>

lemma LiquidityTaker_OnOrderUpdate_result:
  "case OnOrderUpdate r M of
     Inl e \<Rightarrow> LiquidityTaker_OnOrderUpdate file time_str end_time_str count end_count r M L = Inl e
   | Inr M' \<Rightarrow> \<exists>vs. LiquidityTaker_OnOrderUpdate file time_str end_time_str count end_count r M L =
       Inr (M', fold PushValue vs L)"
proof -
  obtain vs where vs: "Log (''%:% %() % %'' @ [CHR 0x0A])
      (log_here file 66 ''OnOrderUpdate'' time_str @ [V_cstr (MEClientResponse_ToString r)]) K = Inr (fold PushValue vs K)" for K
    using logs_message unfolding logs_def by blast
  have tag: "CHR 0x25 \<notin> set ''trading_order_manager_on_order_update''" by simp
  obtain ws where "END_MEASURE end_time_str ''trading_order_manager_on_order_update'' count end_count
      (fold PushValue vs L) = Inr (fold PushValue ws (fold PushValue vs L))"
    using END_MEASURE_logs [OF tag] by blast
  then have "OnOrderUpdate r M = Inr M' \<Longrightarrow>
      LiquidityTaker_OnOrderUpdate file time_str end_time_str count end_count r M L =
      Inr (M', fold PushValue (vs @ ws) L)" for M'
    unfolding LiquidityTaker_OnOrderUpdate_def vs by simp
  moreover have "OnOrderUpdate r M = Inl e \<Longrightarrow>
      LiquidityTaker_OnOrderUpdate file time_str end_time_str count end_count r M L = Inl e" for e
    unfolding LiquidityTaker_OnOrderUpdate_def vs by simp
  ultimately show ?thesis by (cases "OnOrderUpdate r M") (simp_all only: sum.case, blast+)
qed

end
