(* ===== verification/Life_Cycle.thy ===== *)
theory Life_Cycle
  imports Threads
begin

text \<open>
  The life of the components: \<open>Start\<close>, \<open>Stop\<close> and the destructors of the components that run a thread, and
  the order in which the two main programs call them. None of the threads is joined. A destructor clears
  \<open>run_\<close>, sleeps, and frees what the thread works on, so whether the thread has gone by then is a matter of
  time. Time is counted in milliseconds; one turn of a loop, with the test of \<open>run_\<close> that follows, takes at
  most \<open>turn c\<close> of them. Sleeps may take longer than asked for.
\<close>

section \<open>What the main thread does\<close>

datatype component =
    C_MatchingEngine | C_MarketDataPublisher | C_SnapshotSynthesizer | C_OrderServer
  | C_TradingEngine | C_GatewayClient | C_MarketDataConsumer

text \<open>
  \<open>Waits\<close> stands for what takes a time nobody knows: a call that waits for an empty queue, and the
  destructor of a logger. \<open>Frees c\<close> ends the members of \<open>c\<close>.
\<close>

datatype main_op =
    Sets_run component bool
  | Creates_thread component
  | Sleeps nat
  | Waits
  | Frees component

definition MatchingEngine_Start :: "main_op list" where
  "MatchingEngine_Start = [Sets_run C_MatchingEngine True, Creates_thread C_MatchingEngine]"

definition MatchingEngine_Stop :: "main_op list" where
  "MatchingEngine_Stop = [Sets_run C_MatchingEngine False]"

definition MatchingEngine_destructor :: "main_op list" where
  "MatchingEngine_destructor = [Sets_run C_MatchingEngine False, Sleeps 1000, Frees C_MatchingEngine]"

definition SnapshotSynthesizer_Start :: "main_op list" where
  "SnapshotSynthesizer_Start = [Sets_run C_SnapshotSynthesizer True, Creates_thread C_SnapshotSynthesizer]"

definition SnapshotSynthesizer_Stop :: "main_op list" where
  "SnapshotSynthesizer_Stop = [Sets_run C_SnapshotSynthesizer False]"

definition SnapshotSynthesizer_destructor :: "main_op list" where
  "SnapshotSynthesizer_destructor = SnapshotSynthesizer_Stop @ [Frees C_SnapshotSynthesizer]"

definition MarketDataPublisher_Start :: "main_op list" where
  "MarketDataPublisher_Start =
     [Sets_run C_MarketDataPublisher True, Creates_thread C_MarketDataPublisher] @ SnapshotSynthesizer_Start"

definition MarketDataPublisher_Stop :: "main_op list" where
  "MarketDataPublisher_Stop = Sets_run C_MarketDataPublisher False # SnapshotSynthesizer_Stop"

definition MarketDataPublisher_destructor :: "main_op list" where
  "MarketDataPublisher_destructor =
     MarketDataPublisher_Stop @ [Sleeps 5000] @ SnapshotSynthesizer_destructor @ [Frees C_MarketDataPublisher]"

text \<open>\<open>Listen\<close> opens the socket on this thread.\<close>

definition OrderServer_Start :: "main_op list" where
  "OrderServer_Start = [Sets_run C_OrderServer True, Waits, Creates_thread C_OrderServer]"

definition OrderServer_Stop :: "main_op list" where
  "OrderServer_Stop = [Sets_run C_OrderServer False]"

definition OrderServer_destructor :: "main_op list" where
  "OrderServer_destructor = OrderServer_Stop @ [Sleeps 1000, Frees C_OrderServer]"

definition TradingEngine_Start :: "main_op list" where
  "TradingEngine_Start = [Sets_run C_TradingEngine True, Creates_thread C_TradingEngine]"

text \<open>The engine's \<open>Stop\<close> first waits for its two queues to be empty.\<close>

definition TradingEngine_Stop :: "main_op list" where
  "TradingEngine_Stop = [Waits, Sets_run C_TradingEngine False]"

definition TradingEngine_destructor :: "main_op list" where
  "TradingEngine_destructor = [Sets_run C_TradingEngine False, Sleeps 1000, Frees C_TradingEngine]"

text \<open>\<open>Connect\<close> is on this thread.\<close>

definition GatewayClient_Start :: "main_op list" where
  "GatewayClient_Start = [Sets_run C_GatewayClient True, Waits, Creates_thread C_GatewayClient]"

definition GatewayClient_Stop :: "main_op list" where
  "GatewayClient_Stop = [Sets_run C_GatewayClient False]"

definition GatewayClient_destructor :: "main_op list" where
  "GatewayClient_destructor = GatewayClient_Stop @ [Sleeps 5000, Frees C_GatewayClient]"

definition MarketDataConsumer_Start :: "main_op list" where
  "MarketDataConsumer_Start = [Sets_run C_MarketDataConsumer True, Creates_thread C_MarketDataConsumer]"

definition MarketDataConsumer_Stop :: "main_op list" where
  "MarketDataConsumer_Stop = [Sets_run C_MarketDataConsumer False]"

definition MarketDataConsumer_destructor :: "main_op list" where
  "MarketDataConsumer_destructor = MarketDataConsumer_Stop @ [Sleeps 5000, Frees C_MarketDataConsumer]"

text \<open>
  The signal handler of the exchange. \<open>logger\<close> and the three pointers may still be null, which \<open>delete\<close>
  ignores; \<open>built\<close> are the components that have been made.
\<close>

definition SignalHandler :: "component set \<Rightarrow> main_op list" where
  "SignalHandler built =
     [Sleeps 10000, Waits] @
     (if C_MatchingEngine \<in> built then MatchingEngine_destructor else []) @
     (if C_MarketDataPublisher \<in> built then MarketDataPublisher_destructor else []) @
     (if C_OrderServer \<in> built then OrderServer_destructor else []) @
     [Sleeps 10000]"

text \<open>
  The main program of the exchange as the pointers are assigned and the components started; then it
  sleeps until the signal.
\<close>

definition exchange_main_starts :: "(component \<times> main_op list) list" where
  "exchange_main_starts =
     [(C_MatchingEngine, MatchingEngine_Start), (C_MarketDataPublisher, MarketDataPublisher_Start),
      (C_OrderServer, OrderServer_Start)]"

text \<open>
  The main program of the trader: it starts its components, waits ten seconds, runs the random algorithm or
  nothing, waits until the engine has been silent, and ends.
\<close>

definition trading_main_ops :: "main_op list" where
  "trading_main_ops =
     TradingEngine_Start @ GatewayClient_Start @ MarketDataConsumer_Start @ [Sleeps 10000, Waits, Waits] @
     TradingEngine_Stop @ MarketDataConsumer_Stop @ GatewayClient_Stop @ [Sleeps 10000, Waits] @
     TradingEngine_destructor @ MarketDataConsumer_destructor @ GatewayClient_destructor @ [Sleeps 10000]"

section \<open>Steps\<close>

text \<open>A component's thread: not created, about to test \<open>run_\<close>, in a turn of its loop, or returned.\<close>

datatype thread_at = T_none | T_tests | T_turns | T_done

text \<open>
  \<open>age\<close> is the time since a thread began the turn it is in, \<open>stopped_for\<close> the time since \<open>run_\<close> was last
  cleared (or a thread was made), \<open>todo\<close> what the main thread still has to do.
\<close>

record Process =
  run_flag :: "component \<Rightarrow> bool"
  thread_pc :: "component \<Rightarrow> thread_at"
  age :: "component \<Rightarrow> nat"
  stopped_for :: "component \<Rightarrow> nat"
  freed :: "component \<Rightarrow> bool"
  todo :: "main_op list"

definition Process_init :: "main_op list \<Rightarrow> Process" where
  "Process_init ops =
     \<lparr>run_flag = (\<lambda>_. False), thread_pc = (\<lambda>_. T_none), age = (\<lambda>_. 0), stopped_for = (\<lambda>_. 0),
      freed = (\<lambda>_. False), todo = ops\<rparr>"

definition in_loop :: "thread_at \<Rightarrow> bool" where
  "in_loop t \<longleftrightarrow> t = T_tests \<or> t = T_turns"

fun main_step :: "Process \<Rightarrow> Process" where
  "main_step P =
     (case todo P of
        Sets_run c b # ops \<Rightarrow>
          P\<lparr>run_flag := (run_flag P)(c := b),
            stopped_for := (if run_flag P c then (stopped_for P)(c := 0) else stopped_for P), todo := ops\<rparr>
      | Creates_thread c # ops \<Rightarrow>
          P\<lparr>thread_pc := (thread_pc P)(c := T_tests), age := (age P)(c := 0),
            stopped_for := (stopped_for P)(c := 0), todo := ops\<rparr>
      | Sleeps n # ops \<Rightarrow> if n = 0 then P\<lparr>todo := ops\<rparr> else P
      | Waits # ops \<Rightarrow> P\<lparr>todo := ops\<rparr>
      | Frees c # ops \<Rightarrow> P\<lparr>freed := (freed P)(c := True), todo := ops\<rparr>
      | [] \<Rightarrow> P)"

text \<open>A millisecond passes, for everybody.\<close>

definition tick :: "Process \<Rightarrow> Process" where
  "tick P =
     P\<lparr>age := (\<lambda>c. age P c + 1), stopped_for := (\<lambda>c. stopped_for P c + 1),
       todo := (case todo P of Sleeps n # ops \<Rightarrow> Sleeps (n - 1) # ops | ops \<Rightarrow> ops)\<rparr>"

inductive process_step :: "(component \<Rightarrow> nat) \<Rightarrow> Process \<Rightarrow> Process \<Rightarrow> bool" for turn :: "component \<Rightarrow> nat" where
  main_thread: "process_step turn P (main_step P)"
| begins_turn: "thread_pc P c = T_tests \<Longrightarrow> run_flag P c \<Longrightarrow>
     process_step turn P (P\<lparr>thread_pc := (thread_pc P)(c := T_turns), age := (age P)(c := 0)\<rparr>)"
| leaves_loop: "thread_pc P c = T_tests \<Longrightarrow> \<not> run_flag P c \<Longrightarrow>
     process_step turn P (P\<lparr>thread_pc := (thread_pc P)(c := T_done)\<rparr>)"
| ends_turn: "thread_pc P c = T_turns \<Longrightarrow>
     process_step turn P (P\<lparr>thread_pc := (thread_pc P)(c := T_tests)\<rparr>)"
| time_passes: "(\<And>c. in_loop (thread_pc P c) \<Longrightarrow> age P c < turn c) \<Longrightarrow> process_step turn P (tick P)"

text \<open>
  The exchange process: a component is built just before it is started. SIGINT ends the main program where
  it is, on the main thread.
\<close>

record Exchange_Process =
  process :: Process
  built :: "component set"
  next_start :: nat
  interrupted :: bool

definition Exchange_Process_init :: Exchange_Process where
  "Exchange_Process_init = \<lparr>process = Process_init [], built = {}, next_start = 0, interrupted = False\<rparr>"

inductive exchange_process_step :: "(component \<Rightarrow> nat) \<Rightarrow> Exchange_Process \<Rightarrow> Exchange_Process \<Rightarrow> bool"
  for turn :: "component \<Rightarrow> nat" where
  runs: "process_step turn (process X) P \<Longrightarrow> exchange_process_step turn X (X\<lparr>process := P\<rparr>)"
| builds: "todo (process X) = [] \<Longrightarrow> \<not> interrupted X \<Longrightarrow> next_start X < length exchange_main_starts \<Longrightarrow>
     exchange_process_step turn X
       (X\<lparr>built := insert (fst (exchange_main_starts ! next_start X)) (built X),
          process := (process X)\<lparr>todo := snd (exchange_main_starts ! next_start X)\<rparr>,
          next_start := next_start X + 1\<rparr>)"
| interrupt: "\<not> interrupted X \<Longrightarrow>
     exchange_process_step turn X
       (X\<lparr>process := (process X)\<lparr>todo := SignalHandler (built X)\<rparr>, interrupted := True\<rparr>)"

text \<open>The thread of a component works on members that are gone.\<close>

definition uses_freed :: "Process \<Rightarrow> bool" where
  "uses_freed P \<longleftrightarrow> (\<exists>c. freed P c \<and> in_loop (thread_pc P c))"

section \<open>A check of programs\<close>

text \<open>
  Reads a program of the main thread from a state (\<open>live\<close>: a thread was made; \<open>since\<close>: the least time
  \<open>run_\<close> has been cleared) and accepts it if members are freed only when every turn must have ended.
\<close>

fun safe_ops ::
  "(component \<Rightarrow> nat) \<Rightarrow> (component \<Rightarrow> bool) \<Rightarrow> (component \<Rightarrow> bool) \<Rightarrow> (component \<Rightarrow> nat) \<Rightarrow>
   (component \<Rightarrow> bool) \<Rightarrow> main_op list \<Rightarrow> bool" where
  "safe_ops turn live run since gone [] \<longleftrightarrow> True"
| "safe_ops turn live run since gone (Sets_run c b # ops) \<longleftrightarrow>
     safe_ops turn live (run(c := b)) (if run c then since(c := 0) else since) gone ops"
| "safe_ops turn live run since gone (Creates_thread c # ops) \<longleftrightarrow>
     \<not> gone c \<and> safe_ops turn (live(c := True)) run (since(c := 0)) gone ops"
| "safe_ops turn live run since gone (Sleeps n # ops) \<longleftrightarrow>
     safe_ops turn live run (\<lambda>c. since c + n) gone ops"
| "safe_ops turn live run since gone (Waits # ops) \<longleftrightarrow> safe_ops turn live run since gone ops"
| "safe_ops turn live run since gone (Frees c # ops) \<longleftrightarrow>
     (live c \<longrightarrow> \<not> run c \<and> turn c < since c) \<and> safe_ops turn live run since (gone(c := True)) ops"

lemma safe_ops_mono:
  "safe_ops turn live run since gone ops \<Longrightarrow> (\<And>c. since c \<le> since' c) \<Longrightarrow> safe_ops turn live run since' gone ops"
proof (induction turn live run since gone ops arbitrary: since' rule: safe_ops.induct)
  case (2 turn live run since gone c b ops)
  have "safe_ops turn live (run(c := b)) (if run c then since'(c := 0) else since') gone ops"
    by (rule "2.IH", use "2.prems"(1) in \<open>simp only: safe_ops.simps\<close>) (use "2.prems"(2) in auto)
  then show ?case by simp
next
  case (3 turn live run since gone c ops)
  have "safe_ops turn (live(c := True)) run (since'(c := 0)) gone ops" 
    by (rule "3.IH", use "3.prems"(1) in \<open>simp only: safe_ops.simps\<close>) (use "3.prems"(2) in auto)
  then show ?case using "3.prems"(1) by simp
next
  case (4 turn live run since gone n ops)
  have "safe_ops turn live run (\<lambda>c. since' c + n) gone ops" by (rule "4.IH") (use "4.prems" in auto)
  then show ?case by simp
next
  case (6 turn live run since gone c ops)
  have "safe_ops turn live run since' (gone(c := True)) ops" 
    by (rule "6.IH", use "6.prems"(1) in \<open>simp only: safe_ops.simps\<close>) (use "6.prems"(2) in auto)
  then show ?case using "6.prems" by (auto intro: less_le_trans)
qed simp_all

definition live_of :: "Process \<Rightarrow> component \<Rightarrow> bool" where
  "live_of P c \<longleftrightarrow> thread_pc P c \<noteq> T_none"

definition ops_ok :: "(component \<Rightarrow> nat) \<Rightarrow> Process \<Rightarrow> main_op list \<Rightarrow> bool" where
  "ops_ok turn P ops \<longleftrightarrow> safe_ops turn (live_of P) (run_flag P) (stopped_for P) (freed P) ops"

text \<open>A thread in its loop is in time, its turn has lasted since \<open>run_\<close> was cleared, and its members exist.\<close>

definition threads_ok :: "(component \<Rightarrow> nat) \<Rightarrow> Process \<Rightarrow> bool" where
  "threads_ok turn P \<longleftrightarrow>
     (\<forall>c. in_loop (thread_pc P c) \<longrightarrow>
        age P c \<le> turn c \<and> (\<not> run_flag P c \<longrightarrow> stopped_for P c \<le> age P c) \<and> \<not> freed P c)"

lemma in_loop_simps [simp]: "in_loop T_tests" "in_loop T_turns" "\<not> in_loop T_none" "\<not> in_loop T_done"
  by (simp_all add: in_loop_def)

lemma in_loop_live: "in_loop (thread_pc P c) \<Longrightarrow> live_of P c"
  by (auto simp: live_of_def)

lemma main_step_ok:
  assumes "threads_ok turn P" "ops_ok turn P (todo P)"
  shows "threads_ok turn (main_step P) \<and> ops_ok turn (main_step P) (todo (main_step P))"
proof (cases "todo P")
  case (Cons op ops)
  note ok = assms(2) [unfolded Cons ops_ok_def]
  show ?thesis
  proof (cases op)
    case (Sets_run c b)
    with assms(1) ok Cons show ?thesis by (auto simp: threads_ok_def ops_ok_def live_of_def [abs_def])
  next
    case (Creates_thread c)
    have "live_of (main_step P) = (live_of P)(c := True)" using Creates_thread Cons
      by (auto simp: live_of_def fun_eq_iff)
    with assms(1) ok Cons Creates_thread show ?thesis by (auto simp: threads_ok_def ops_ok_def)
  next
    case (Sleeps n)
    with assms ok Cons show ?thesis by (auto simp: threads_ok_def ops_ok_def live_of_def [abs_def])
  next
    case (Frees c)
    have "\<not> in_loop (thread_pc P c)"
    proof
      assume "in_loop (thread_pc P c)"
      with in_loop_live [OF this] ok Frees assms(1) show False
        by (fastforce simp: threads_ok_def dest: le_less_trans)
    qed
    with assms(1) ok Cons Frees show ?thesis by (auto simp: threads_ok_def ops_ok_def live_of_def [abs_def])
  qed (use assms ok Cons in \<open>auto simp: threads_ok_def ops_ok_def live_of_def [abs_def]\<close>)
qed (use assms in simp)

lemma tick_ok:
  assumes "threads_ok turn P" "ops_ok turn P (todo P)" "\<And>c. in_loop (thread_pc P c) \<Longrightarrow> age P c < turn c"
  shows "threads_ok turn (tick P) \<and> ops_ok turn (tick P) (todo (tick P))"
proof
  show "threads_ok turn (tick P)" using assms(1,3) by (auto simp: threads_ok_def tick_def Suc_le_eq)
  have "safe_ops turn (live_of P) (run_flag P) (\<lambda>c. stopped_for P c + 1) (freed P) (todo (tick P))"
  proof (cases "todo P")
    case (Cons op ops)
    have todo: "todo (tick P) = (case op of Sleeps n \<Rightarrow> Sleeps (n - 1) | _ \<Rightarrow> op) # ops"
      by (simp add: tick_def Cons split: main_op.split)
    show ?thesis
    proof (cases "\<exists>n. op = Sleeps (Suc n)")
      case True
      then show ?thesis using assms(2) todo by (auto simp: ops_ok_def Cons)
    next
      case False
      then have "todo (tick P) = todo P" using Cons todo by (cases op) (auto, metis not0_implies_Suc diff_0_eq_0)
      then show ?thesis using assms(2) safe_ops_mono [of turn "live_of P"] by (simp add: ops_ok_def)
    qed
  qed (simp add: tick_def)
  then show "ops_ok turn (tick P) (todo (tick P))" by (simp add: ops_ok_def tick_def live_of_def [abs_def])
qed

lemma process_step_ok:
  assumes "process_step turn P P'" "threads_ok turn P" "ops_ok turn P (todo P)"
  shows "threads_ok turn P' \<and> ops_ok turn P' (todo P')"
  using assms(1)
proof cases
  case main_thread
  then show ?thesis using main_step_ok assms(2,3) by blast
next
  case time_passes
  then show ?thesis using tick_ok assms(2,3) by blast
next
  case (begins_turn c)
  then have "live_of P' = live_of P" by (auto simp: live_of_def fun_eq_iff)
  with begins_turn assms(2,3) show ?thesis by (auto simp: threads_ok_def ops_ok_def)
next
  case (leaves_loop c)
  then have "live_of P' = live_of P" by (auto simp: live_of_def fun_eq_iff)
  with leaves_loop assms(2,3) show ?thesis by (auto simp: threads_ok_def ops_ok_def)
next
  case (ends_turn c)
  then have "live_of P' = live_of P" by (auto simp: live_of_def fun_eq_iff)
  with ends_turn assms(2,3) show ?thesis by (auto simp: threads_ok_def ops_ok_def)
qed

lemma process_reachable_ok:
  assumes "(process_step turn)\<^sup>*\<^sup>* P P'" "threads_ok turn P" "ops_ok turn P (todo P)"
  shows "threads_ok turn P' \<and> ops_ok turn P' (todo P')"
  using assms(1)
proof (induction rule: rtranclp_induct)
  case (step Q Q')
  then show ?case using process_step_ok by blast
qed (use assms in simp)

lemma threads_ok_safe: "threads_ok turn P \<Longrightarrow> \<not> uses_freed P"
  by (auto simp: threads_ok_def uses_freed_def)

section \<open>The two processes\<close>

lemmas exchange_op_defs = MatchingEngine_Start_def MatchingEngine_destructor_def SnapshotSynthesizer_Start_def
  SnapshotSynthesizer_Stop_def SnapshotSynthesizer_destructor_def MarketDataPublisher_Start_def
  MarketDataPublisher_Stop_def MarketDataPublisher_destructor_def OrderServer_Start_def OrderServer_Stop_def
  OrderServer_destructor_def

lemmas trading_op_defs = TradingEngine_Start_def TradingEngine_Stop_def TradingEngine_destructor_def
  GatewayClient_Start_def GatewayClient_Stop_def GatewayClient_destructor_def MarketDataConsumer_Start_def
  MarketDataConsumer_Stop_def MarketDataConsumer_destructor_def

text \<open>Every turn ends within the sleep of the destructor that frees the component.\<close>

definition exchange_in_time :: "(component \<Rightarrow> nat) \<Rightarrow> bool" where
  "exchange_in_time turn \<longleftrightarrow>
     turn C_MatchingEngine < 1000 \<and> turn C_MarketDataPublisher < 5000 \<and> turn C_SnapshotSynthesizer < 5000 \<and>
     turn C_OrderServer < 1000"

lemma safe_handler_part:
  assumes "exchange_in_time turn"
  shows "(\<And>run since gone. safe_ops turn live run since gone ops) \<Longrightarrow>
      safe_ops turn live run since gone (MatchingEngine_destructor @ ops)"
    "(\<And>run since gone. safe_ops turn live run since gone ops) \<Longrightarrow>
      safe_ops turn live run since gone (MarketDataPublisher_destructor @ ops)"
    "(\<And>run since gone. safe_ops turn live run since gone ops) \<Longrightarrow>
      safe_ops turn live run since gone (OrderServer_destructor @ ops)"
  using assms by (auto simp: exchange_op_defs exchange_in_time_def)

lemma safe_SignalHandler:
  assumes "exchange_in_time turn"
  shows "safe_ops turn live run since gone (SignalHandler bs)"
proof -
  let ?last = "[Sleeps 10000]"
  let ?os = "(if C_OrderServer \<in> bs then OrderServer_destructor else []) @ ?last"
  let ?mdp = "(if C_MarketDataPublisher \<in> bs then MarketDataPublisher_destructor else []) @ ?os"
  have os: "safe_ops turn live run since gone ?os" for run since gone
    using safe_handler_part(3) [OF assms, of live ?last] by simp
  have "safe_ops turn live run since gone ?mdp" for run since gone
    using safe_handler_part(2) [OF assms, of live ?os] os by simp
  then show ?thesis using safe_handler_part(1) [OF assms, of live ?mdp] by (simp add: SignalHandler_def)
qed

definition exchange_ok :: "(component \<Rightarrow> nat) \<Rightarrow> Exchange_Process \<Rightarrow> bool" where
  "exchange_ok turn X \<longleftrightarrow>
     threads_ok turn (process X) \<and> ops_ok turn (process X) (todo (process X)) \<and>
     (\<not> interrupted X \<longrightarrow> (\<forall>c. \<not> freed (process X) c \<and> Frees c \<notin> set (todo (process X))))"

lemma process_step_frees:
  assumes "process_step turn P P'" "\<forall>c. \<not> freed P c \<and> Frees c \<notin> set (todo P)"
  shows "\<forall>c. \<not> freed P' c \<and> Frees c \<notin> set (todo P')"
  using assms
  by cases (auto simp: tick_def split: list.splits main_op.splits)

lemma safe_starts:
  assumes "i < length exchange_main_starts" "\<forall>c. \<not> gone c"
  shows "safe_ops turn live run since gone (snd (exchange_main_starts ! i)) \<and>
    (\<forall>c. Frees c \<notin> set (snd (exchange_main_starts ! i)))"
proof -
  have "i = 0 \<or> i = 1 \<or> i = 2" using assms(1) by (auto simp: exchange_main_starts_def)
  then show ?thesis using assms(2) by (elim disjE) (simp_all add: exchange_main_starts_def exchange_op_defs)
qed

lemma exchange_step_ok:
  assumes "exchange_process_step turn X X'" "exchange_ok turn X" "exchange_in_time turn"
  shows "exchange_ok turn X'"
  using assms(1)
proof cases
  case (runs P)
  then show ?thesis
    using assms(2) process_step_ok [OF runs(2)] process_step_frees [OF runs(2)] by (auto simp: exchange_ok_def)
next
  case builds
  then show ?thesis using assms(2) safe_starts [OF builds(4), of "freed (process X)"]
    by (simp add: exchange_ok_def ops_ok_def threads_ok_def live_of_def [abs_def])
next
  case interrupt
  then show ?thesis using assms(2) safe_SignalHandler [OF assms(3)]
    by (simp add: exchange_ok_def ops_ok_def threads_ok_def)
qed

lemma exchange_reachable_ok:
  assumes "(exchange_process_step turn)\<^sup>*\<^sup>* Exchange_Process_init X" "exchange_in_time turn"
  shows "exchange_ok turn X"
  using assms(1)
proof (induction rule: rtranclp_induct)
  case base
  show ?case by (simp add: exchange_ok_def Exchange_Process_init_def Process_init_def threads_ok_def ops_ok_def)
qed (use exchange_step_ok assms(2) in blast)

definition trading_in_time :: "(component \<Rightarrow> nat) \<Rightarrow> bool" where
  "trading_in_time turn \<longleftrightarrow>
     turn C_TradingEngine < 11000 \<and> turn C_MarketDataConsumer < 16000 \<and> turn C_GatewayClient < 21000"

lemma trading_reachable_ok:
  assumes "(process_step turn)\<^sup>*\<^sup>* (Process_init trading_main_ops) P" "trading_in_time turn"
  shows "threads_ok turn P"
proof -
  let ?P = "Process_init trading_main_ops"
  have "live_of ?P = (\<lambda>_. False)" by (auto simp: live_of_def Process_init_def)
  then have "ops_ok turn ?P (todo ?P)" using assms(2)
    by (simp add: ops_ok_def Process_init_def trading_main_ops_def trading_op_defs trading_in_time_def)
  moreover have "threads_ok turn ?P" by (simp add: threads_ok_def Process_init_def)
  ultimately show ?thesis using process_reachable_ok [OF assms(1)] by blast
qed

section \<open>A turn that takes too long\<close>

text \<open>A sleep during which one thread \<open>c\<close> keeps turning, and one during which it stays in its turn.\<close>

definition only_thread :: "component \<Rightarrow> thread_at \<Rightarrow> component \<Rightarrow> thread_at" where
  "only_thread c t = (\<lambda>_. T_none)(c := t)"

lemma in_loop_only_thread: "in_loop (only_thread c t d) \<Longrightarrow> d = c"
  by (auto simp: only_thread_def split: if_splits)

lemma only_thread_same [simp]: "only_thread c t c = t" "(only_thread c t)(c := u) = only_thread c u"
  by (simp_all add: only_thread_def)

lemma sleeps_turning:
  assumes "thread_pc P = only_thread c T_tests" "run_flag P c" "todo P = Sleeps n # ops" "0 < turn c"
  shows "\<exists>P'. (process_step turn)\<^sup>*\<^sup>* P P' \<and> thread_pc P' = only_thread c T_tests \<and> run_flag P' = run_flag P \<and>
    todo P' = Sleeps 0 # ops"
  using assms
proof (induction n arbitrary: P)
  case (Suc n)
  let ?P1 = "P\<lparr>thread_pc := (thread_pc P)(c := T_turns), age := (age P)(c := 0)\<rparr>"
  let ?P3 = "(tick ?P1)\<lparr>thread_pc := (thread_pc (tick ?P1))(c := T_tests)\<rparr>"
  have "process_step turn P ?P1" using Suc.prems(1,2) by (intro begins_turn) simp_all
  moreover have "process_step turn ?P1 (tick ?P1)"
    using Suc.prems(1,4) by (intro time_passes) (auto dest: in_loop_only_thread)
  moreover have "process_step turn (tick ?P1) ?P3" by (intro ends_turn) (simp add: tick_def)
  ultimately have run: "(process_step turn)\<^sup>*\<^sup>* P ?P3" by (meson converse_rtranclp_into_rtranclp rtranclp.rtrancl_refl)
  obtain P' where "(process_step turn)\<^sup>*\<^sup>* ?P3 P'" "thread_pc P' = only_thread c T_tests" "run_flag P' = run_flag ?P3"
    "todo P' = Sleeps 0 # ops"
    using Suc.IH [of ?P3] Suc.prems by (auto simp: tick_def)
  with rtranclp_trans [OF run] show ?case by (intro exI [of _ P']) (simp add: tick_def)
qed blast

lemma sleeps_in_turn:
  assumes "thread_pc P = only_thread c T_turns" "todo P = Sleeps n # ops" "age P c + n \<le> turn c"
  shows "\<exists>P'. (process_step turn)\<^sup>*\<^sup>* P P' \<and> thread_pc P' = only_thread c T_turns \<and> todo P' = Sleeps 0 # ops"
  using assms
proof (induction n arbitrary: P)
  case (Suc n)
  have "process_step turn P (tick P)"
    using Suc.prems(1,3) by (intro time_passes) (auto dest: in_loop_only_thread)
  moreover obtain P' where "(process_step turn)\<^sup>*\<^sup>* (tick P) P'" "thread_pc P' = only_thread c T_turns"
    "todo P' = Sleeps 0 # ops"
    using Suc.IH [of "tick P"] Suc.prems by (auto simp: tick_def)
  ultimately show ?case by (meson converse_rtranclp_into_rtranclp)
qed blast

lemma runs_many:
  assumes "(process_step turn)\<^sup>*\<^sup>* (process X) P"
  shows "(exchange_process_step turn)\<^sup>*\<^sup>* X (X\<lparr>process := P\<rparr>)"
  using assms
proof (induction rule: rtranclp_induct)
  case (step P Q)
  have "exchange_process_step turn (X\<lparr>process := P\<rparr>) (X\<lparr>process := Q\<rparr>)"
    using exchange_process_step.runs [of turn "X\<lparr>process := P\<rparr>" Q] step(2) by simp
  with step(3) show ?case by simp
qed simp

lemma main_steps: "(process_step turn)\<^sup>*\<^sup>* P ((main_step ^^ n) P)"
proof (induction n)
  case (Suc n)
  then show ?case using process_step.main_thread [of turn "(main_step ^^ n) P"] by (simp del: main_step.simps)
qed simp

text \<open>
  The matching engine has just been started when SIGINT arrives, its thread turns through the first ten
  seconds and begins a turn as the destructor clears \<open>run_\<close>; after a second the books are deleted.
\<close>

lemma slow_turn_uses_freed:
  assumes "1000 \<le> turn C_MatchingEngine"
  shows "\<exists>X. (exchange_process_step turn)\<^sup>*\<^sup>* Exchange_Process_init X \<and> uses_freed (process X)"
proof -
  let ?step = "exchange_process_step turn" and ?c = C_MatchingEngine
  let ?rest = "[Sleeps 1000, Frees ?c, Sleeps 10000]"
  let ?X1 = "Exchange_Process_init\<lparr>built := {?c}, next_start := 1,
    process := (Process_init [])\<lparr>todo := MatchingEngine_Start\<rparr>\<rparr>"
  let ?P2 = "(main_step ^^ 2) (process ?X1)"
  let ?X2 = "?X1\<lparr>process := ?P2\<rparr>"
  let ?P3 = "?P2\<lparr>todo := SignalHandler {?c}\<rparr>"
  let ?X3 = "?X2\<lparr>process := ?P3, interrupted := True\<rparr>"
  have "?step Exchange_Process_init ?X1"
    using builds [of Exchange_Process_init turn] by (simp add: Exchange_Process_init_def exchange_main_starts_def Process_init_def)
  moreover have "?step\<^sup>*\<^sup>* ?X1 ?X2" by (rule runs_many [OF main_steps])
  moreover have "?step ?X2 ?X3" using interrupt [of ?X2 turn] by (simp add: Exchange_Process_init_def)
  ultimately have start: "?step\<^sup>*\<^sup>* Exchange_Process_init ?X3" by (meson converse_rtranclp_into_rtranclp rtranclp.rtrancl_into_rtrancl)
  have P3: "thread_pc ?P3 = only_thread ?c T_tests" "run_flag ?P3 ?c"
    "todo ?P3 = Sleeps 10000 # Waits # Sets_run ?c False # ?rest"
    by (simp_all add: numeral_2_eq_2 Process_init_def MatchingEngine_Start_def only_thread_def SignalHandler_def
        MatchingEngine_destructor_def)
  obtain P4 where P4: "(process_step turn)\<^sup>*\<^sup>* ?P3 P4" "thread_pc P4 = only_thread ?c T_tests" "run_flag P4 ?c"
    "todo P4 = Sleeps 0 # Waits # Sets_run ?c False # ?rest"
    using sleeps_turning [OF P3, of turn] assms P3(2) by auto
  let ?P5 = "P4\<lparr>thread_pc := (thread_pc P4)(?c := T_turns), age := (age P4)(?c := 0)\<rparr>"
  let ?P6 = "(main_step ^^ 3) ?P5"
  have P5: "process_step turn P4 ?P5" using P4 by (intro begins_turn) simp_all
  have "thread_pc ?P6 = only_thread ?c T_turns" "todo ?P6 = ?rest" "age ?P6 ?c = 0"
    using P4 by (simp_all add: numeral_3_eq_3)
  then obtain P7 where P7: "(process_step turn)\<^sup>*\<^sup>* ?P6 P7" "thread_pc P7 = only_thread ?c T_turns"
    "todo P7 = [Sleeps 0, Frees ?c, Sleeps 10000]"
    using sleeps_in_turn [of ?P6 ?c 1000 "[Frees ?c, Sleeps 10000]" turn] assms by auto
  let ?P8 = "(main_step ^^ 2) P7"
  have "(process_step turn)\<^sup>*\<^sup>* ?P3 ?P8"
    using P4(1) P5 main_steps [of turn ?P5 3] P7(1) main_steps [of turn P7 2]
    by (meson rtranclp_trans rtranclp.rtrancl_into_rtrancl)
  then have "(process_step turn)\<^sup>*\<^sup>* (process ?X3) ?P8" by simp
  from rtranclp_trans [OF start runs_many [OF this]]
  have "?step\<^sup>*\<^sup>* Exchange_Process_init (?X3\<lparr>process := ?P8\<rparr>)" .
  moreover have "uses_freed ?P8" using P7 by (auto simp: uses_freed_def numeral_2_eq_2)
  ultimately show ?thesis by (intro exI [of _ "?X3\<lparr>process := ?P8\<rparr>"]) simp
qed

section \<open>Property\<close>

text \<open>
  C29: Nothing is freed under a running thread, if the threads are quick. When every turn of a loop is
  shorter than the sleeps before its component is freed, then wherever SIGINT interrupts the main program
  of the exchange, and wherever the main program of the trader is, no component whose members are gone has a
  thread in its loop. The sleep of the matching engine's destructor is the exact bound.
\<close>

theorem shutdown_safe:
  assumes "exchange_in_time turn" "trading_in_time turn"
  shows "(\<forall>X. (exchange_process_step turn)\<^sup>*\<^sup>* Exchange_Process_init X \<longrightarrow> \<not> uses_freed (process X)) \<and>
    (\<forall>P. (process_step turn)\<^sup>*\<^sup>* (Process_init trading_main_ops) P \<longrightarrow> \<not> uses_freed P) \<and>
    (\<exists>X. (exchange_process_step (turn(C_MatchingEngine := 1000)))\<^sup>*\<^sup>* Exchange_Process_init X \<and> uses_freed (process X))"
proof (intro conjI allI impI)
  fix X assume "(exchange_process_step turn)\<^sup>*\<^sup>* Exchange_Process_init X"
  from exchange_reachable_ok [OF this assms(1)] show "\<not> uses_freed (process X)"
    using threads_ok_safe by (auto simp: exchange_ok_def)
next
  fix P assume "(process_step turn)\<^sup>*\<^sup>* (Process_init trading_main_ops) P"
  from trading_reachable_ok [OF this assms(2)] show "\<not> uses_freed P" by (rule threads_ok_safe)
qed (rule slow_turn_uses_freed, simp)

text \<open>An exchange whose turns take a tenth of a second, interrupted when its engine is being started.\<close>

theorem shutdown_safe_witness:
  "\<exists>X. (exchange_process_step (\<lambda>_. 100))\<^sup>*\<^sup>* Exchange_Process_init X \<and> interrupted X \<and>
    built X = {C_MatchingEngine} \<and> \<not> uses_freed (process X)"
proof -
  let ?X = "Exchange_Process_init\<lparr>built := {C_MatchingEngine}, next_start := 1,
    process := (Process_init [])\<lparr>todo := MatchingEngine_Start\<rparr>\<rparr>"
  let ?Y = "?X\<lparr>process := (process ?X)\<lparr>todo := SignalHandler {C_MatchingEngine}\<rparr>, interrupted := True\<rparr>"
  have "exchange_process_step (\<lambda>_. 100) Exchange_Process_init ?X"
    using builds [of Exchange_Process_init "\<lambda>_. 100"]
    by (simp add: Exchange_Process_init_def exchange_main_starts_def Process_init_def)
  moreover have "exchange_process_step (\<lambda>_. 100) ?X ?Y"
    using interrupt [of ?X "\<lambda>_. 100"] by (simp add: Exchange_Process_init_def)
  ultimately have run: "(exchange_process_step (\<lambda>_. 100))\<^sup>*\<^sup>* Exchange_Process_init ?Y"
    by (meson converse_rtranclp_into_rtranclp rtranclp.rtrancl_refl)
  have "exchange_in_time (\<lambda>_. 100)" "trading_in_time (\<lambda>_. 100)"
    by (simp_all add: exchange_in_time_def trading_in_time_def)
  from shutdown_safe [OF this] run have "\<not> uses_freed (process ?Y)" by blast
  with run show ?thesis by (intro exI [of _ ?Y]) simp
qed

end
