(* ===== verification/Book_Printing.thy ===== *)
theory Book_Printing
  imports Exchange_Properties Trading_Book_Refinement
begin

text \<open>
  The printers of the two order books with their validity check
  (\<open>src/src/matching_engine/exchange_order_book.cpp\<close> and \<open>src/src/trading_engine/trading_order_book.cpp\<close>,
  \<open>ToString\<close>; \<open>exchange_order.hpp\<close>, \<open>trading_order.hpp\<close>). The two copies of the code differ only in the
  text of the level that fails the check, which is an argument of the definitions they share. The
  text is compared with that of the abstract book, in which no pointer occurs.
\<close>

section \<open>Formats\<close>

definition endl :: string where
  "endl = [CHR 0x0A]"

text \<open>\<open>%3s\<close>, \<open>%-3s\<close>, and a \<open>sprintf\<close> into 4096 bytes.\<close>

definition pad_left :: "nat \<Rightarrow> string \<Rightarrow> string" where
  "pad_left n s = replicate (n - length s) (CHR '' '') @ s"

definition pad_right :: "nat \<Rightarrow> string \<Rightarrow> string" where
  "pad_right n s = s @ replicate (n - length s) (CHR '' '')"

definition sprintf :: "string \<Rightarrow> string result" where
  "sprintf s = (if length s < 4096 then Inr s else Inl Out_of_bounds)"

definition level_header :: "Price \<Rightarrow> Price \<Rightarrow> Price \<Rightarrow> Qty \<Rightarrow> 64 word \<Rightarrow> string" where
  "level_header price prev_price next_price qty num_orders =
     '' <px:'' @ pad_left 3 (PriceToString price) @ '' p:'' @ pad_left 3 (PriceToString prev_price) @
     '' n:'' @ pad_left 3 (PriceToString next_price) @ ''> '' @ pad_right 3 (PriceToString price) @ '' @ '' @
     pad_right 5 (QtyToString qty) @ ''('' @ pad_right 4 (dec_string (unat num_orders)) @ '')''"

definition order_details :: "OrderId \<Rightarrow> Qty \<Rightarrow> OrderId \<Rightarrow> OrderId \<Rightarrow> string" where
  "order_details oid qty prev_oid next_oid =
     ''[oid:'' @ OrderIdToString oid @ '' q:'' @ QtyToString qty @ '' p:'' @ OrderIdToString prev_oid @
     '' n:'' @ OrderIdToString next_oid @ ''] ''"

section \<open>Orders and levels\<close>

text \<open>The id behind a pointer to an order, the price behind a pointer to a level, or the sentinel.\<close>

definition oid_behind :: "('r TradingOrder_scheme, 'b) OrderBook_scheme \<Rightarrow> ptr \<Rightarrow> OrderId result" where
  "oid_behind b p = (if p \<noteq> None then rbind (order b p) (\<lambda>q. Inr (o_order_id q)) else Inr ORDER_ID_INVALID)"

definition price_behind :: "('o, 'b) OrderBook_scheme \<Rightarrow> ptr \<Rightarrow> Price result" where
  "price_behind b p = (if p \<noteq> None then rbind (level b p) (\<lambda>l. Inr (l_price l)) else Inr PRICE_INVALID)"

definition ExchangeOrder_ToString :: "ExchangeOrderBook \<Rightarrow> ExchangeOrder \<Rightarrow> string result" where
  "ExchangeOrder_ToString b q =
     rbind (oid_behind b (o_prev_order q)) (\<lambda>prev_oid.
     rbind (oid_behind b (o_next_order q)) (\<lambda>next_oid.
     Inr (''MEOrder['' @ ''ticker:'' @ TickerIdToString (o_ticker_id q) @ '' '' @
       ''cid:'' @ ClientIdToString (o_client_id q) @ '' '' @
       ''oid:'' @ OrderIdToString (o_client_order_id q) @ '' '' @
       ''moid:'' @ OrderIdToString (o_order_id q) @ '' '' @
       ''side:'' @ SideToString (o_side q) @ '' '' @
       ''price:'' @ PriceToString (o_price q) @ '' '' @
       ''qty:'' @ QtyToString (o_qty q) @ '' '' @
       ''prio:'' @ PriorityToString (o_priority q) @ '' '' @
       ''prev:'' @ OrderIdToString prev_oid @ '' '' @
       ''next:'' @ OrderIdToString next_oid @ '']'')))"

definition TradingOrder_ToString :: "TradingOrderBook \<Rightarrow> TradingOrder \<Rightarrow> string result" where
  "TradingOrder_ToString b q =
     rbind (oid_behind b (o_prev_order q)) (\<lambda>prev_oid.
     rbind (oid_behind b (o_next_order q)) (\<lambda>next_oid.
     Inr (''TradingOrder['' @ ''oid:'' @ OrderIdToString (o_order_id q) @ '' '' @
       ''side:'' @ SideToString (o_side q) @ '' '' @
       ''price:'' @ PriceToString (o_price q) @ '' '' @
       ''qty:'' @ QtyToString (o_qty q) @ '' '' @
       ''prio:'' @ PriorityToString (o_priority q) @ '' '' @
       ''prev:'' @ OrderIdToString prev_oid @ '' '' @
       ''next:'' @ OrderIdToString next_oid @ '']'')))"

definition OrdersAtPrice_ToString :: "ExchangeOrderBook \<Rightarrow> OrdersAtPrice \<Rightarrow> string result" where
  "OrdersAtPrice_ToString b l =
     rbind (if l_first_order l \<noteq> None then rbind (order b (l_first_order l)) (ExchangeOrder_ToString b)
            else Inr ''null'') (\<lambda>first_order.
     rbind (price_behind b (l_prev_entry l)) (\<lambda>prev_price.
     rbind (price_behind b (l_next_entry l)) (\<lambda>next_price.
     Inr (''MEOrdersAtPrice['' @ ''side:'' @ SideToString (l_side l) @ '' '' @
       ''price:'' @ PriceToString (l_price l) @ '' '' @
       ''first_me_order:'' @ first_order @ '' '' @
       ''prev:'' @ PriceToString prev_price @ '' '' @
       ''next:'' @ PriceToString next_price @ '']''))))"

definition TradingOrdersAtPrice_ToString :: "TradingOrderBook \<Rightarrow> OrdersAtPrice \<Rightarrow> string result" where
  "TradingOrdersAtPrice_ToString b l =
     rbind (if l_first_order l \<noteq> None then rbind (order b (l_first_order l)) (TradingOrder_ToString b)
            else Inr ''null'') (\<lambda>first_order.
     rbind (price_behind b (l_prev_entry l)) (\<lambda>prev_price.
     rbind (price_behind b (l_next_entry l)) (\<lambda>next_price.
     Inr (''TradingOrdersAtPrice['' @ ''side:'' @ SideToString (l_side l) @ '' '' @
       ''price:'' @ PriceToString (l_price l) @ '' '' @
       ''first_mkt_order:'' @ first_order @ '' '' @
       ''prev:'' @ PriceToString prev_price @ '' '' @
       ''next:'' @ PriceToString next_price @ '']''))))"

section \<open>The printer of a level\<close>

text \<open>Its two loops over the orders of a level: the first adds up, the second prints.\<close>

partial_function (option) add_up_orders ::
  "('r TradingOrder_scheme, 'b) OrderBook_scheme \<Rightarrow> ptr \<Rightarrow> ptr \<Rightarrow> Qty \<Rightarrow> 64 word \<Rightarrow> (Qty \<times> 64 word) result option" where
  "add_up_orders b first o_itr qty num_orders =
     (case order b o_itr of
        Inl e \<Rightarrow> Some (Inl e)
      | Inr q \<Rightarrow>
          if o_next_order q = first then Some (Inr (qty + o_qty q, num_orders + 1))
          else add_up_orders b first (o_next_order q) (qty + o_qty q) (num_orders + 1))"

definition print_order ::
  "('r TradingOrder_scheme, 'b) OrderBook_scheme \<Rightarrow> 'r TradingOrder_scheme \<Rightarrow> string result" where
  "print_order b q =
     rbind (oid_behind b (o_prev_order q)) (\<lambda>prev_oid.
     rbind (oid_behind b (o_next_order q)) (\<lambda>next_oid.
     sprintf (order_details (o_order_id q) (o_qty q) prev_oid next_oid)))"

partial_function (option) print_ring ::
  "('r TradingOrder_scheme, 'b) OrderBook_scheme \<Rightarrow> bool \<Rightarrow> ptr \<Rightarrow> ptr \<Rightarrow> string \<Rightarrow> string result option" where
  "print_ring b detailed first o_itr ss =
     (case rbind (order b o_itr) (\<lambda>q.
             rbind (if detailed then print_order b q else Inr []) (\<lambda>s. Inr (q, s))) of
        Inl e \<Rightarrow> Some (Inl e)
      | Inr (q, s) \<Rightarrow>
          if o_next_order q = first then Some (Inr (ss @ s))
          else print_ring b detailed first (o_next_order q) (ss @ s))"

text \<open>What the check of the level is: its price is not behind the last one.\<close>

definition out_of_order :: "Side \<Rightarrow> Price \<Rightarrow> Price \<Rightarrow> bool" where
  "out_of_order side last_price price \<longleftrightarrow>
     (side = Side_SELL \<and> last_price \<ge> price) \<or> (side = Side_BUY \<and> last_price \<le> price)"

definition print_level ::
  "(OrdersAtPrice \<Rightarrow> string result) \<Rightarrow> ('r TradingOrder_scheme, 'b) OrderBook_scheme \<Rightarrow> bool \<Rightarrow> bool \<Rightarrow>
   ptr \<Rightarrow> Side \<Rightarrow> Price \<Rightarrow> string \<Rightarrow> (string \<times> Price) result" where
  "print_level show_level b detailed sanity_check itr side last_price ss =
     rbind (level b itr) (\<lambda>l.
     rbind (loop_result (add_up_orders b (l_first_order l) (l_first_order l) 0 0)) (\<lambda>(qty, num_orders).
     rbind (level b (l_prev_entry l)) (\<lambda>prev.
     rbind (level b (l_next_entry l)) (\<lambda>nxt.
     rbind (sprintf (level_header (l_price l) (l_price prev) (l_price nxt) qty num_orders)) (\<lambda>buf.
     rbind (loop_result (print_ring b detailed (l_first_order l) (l_first_order l) (ss @ buf))) (\<lambda>ss.
     if sanity_check \<and> out_of_order side last_price (l_price l)
     then rbind (show_level l) (\<lambda>s.
          FATAL (''Bids/Asks not sorted by ascending/descending prices last:'' @ PriceToString last_price @
            '' itr:'' @ s))
     else Inr (ss @ endl, if sanity_check then l_price l else last_price)))))))"

text \<open>The loop over the levels of a side; \<open>name\<close> is \<open>ASKS\<close> or \<open>BIDS\<close>.\<close>

partial_function (option) print_side ::
  "(OrdersAtPrice \<Rightarrow> string result) \<Rightarrow> ('r TradingOrder_scheme, 'b) OrderBook_scheme \<Rightarrow> bool \<Rightarrow> bool \<Rightarrow>
   string \<Rightarrow> Side \<Rightarrow> ptr \<Rightarrow> nat \<Rightarrow> Price \<Rightarrow> string \<Rightarrow> string result option" where
  "print_side show_level b detailed validity_check name side itr count last_price ss =
     (if itr = None then Some (Inr ss)
      else
        (case rbind (level b itr) (\<lambda>l.
                rbind (print_level show_level b detailed validity_check itr side last_price
                         (ss @ name @ '' L:'' @ dec_string count @ '' => '')) (\<lambda>(ss, last_price).
                Inr (if l_next_entry l = best_by_price side b then None else l_next_entry l, last_price, ss))) of
           Inl e \<Rightarrow> Some (Inl e)
         | Inr (nxt, last_price, ss) \<Rightarrow>
             print_side show_level b detailed validity_check name side nxt (count + 1) last_price ss))"

definition print_book ::
  "(OrdersAtPrice \<Rightarrow> string result) \<Rightarrow> TickerId \<Rightarrow> ('r TradingOrder_scheme, 'b) OrderBook_scheme \<Rightarrow> bool \<Rightarrow> bool \<Rightarrow>
   string result" where
  "print_book show_level ticker_id b detailed validity_check =
     rbind (loop_result (print_side show_level b detailed validity_check ''ASKS'' Side_SELL (asks_by_price b) 0
       i64_min (''Ticker:'' @ TickerIdToString ticker_id @ endl))) (\<lambda>ss.
     loop_result (print_side show_level b detailed validity_check ''BIDS'' Side_BUY (bids_by_price b) 0
       i64_max (ss @ endl @ ''                          X'' @ endl @ endl)))"

definition ExchangeOrderBook_ToString :: "ExchangeOrderBook \<Rightarrow> bool \<Rightarrow> bool \<Rightarrow> string result" where
  "ExchangeOrderBook_ToString b = print_book (OrdersAtPrice_ToString b) (eb_ticker_id b) b"

definition TradingOrderBook_ToString :: "TradingOrderBook \<Rightarrow> bool \<Rightarrow> bool \<Rightarrow> string result" where
  "TradingOrderBook_ToString b = print_book (TradingOrdersAtPrice_ToString b) (tb_ticker_id b) b"


section \<open>The text of an abstract book\<close>

text \<open>Each element of a ring between its neighbours; \<open>p\<close> comes before the list and \<open>e\<close> after it.\<close>

fun around :: "'a \<Rightarrow> 'a \<Rightarrow> 'a list \<Rightarrow> ('a \<times> 'a \<times> 'a) list" where
  "around p e [] = []"
| "around p e [x] = [(p, x, e)]"
| "around p e (x # y # zs) = (p, x, y) # around x e (y # zs)"

definition neighbours :: "'a list \<Rightarrow> ('a \<times> 'a \<times> 'a) list" where
  "neighbours xs = around (last xs) (hd xs) xs"

text \<open>A queue of orders in levels of one price each.\<close>

function price_levels :: "'r TradingOrder_scheme list \<Rightarrow> 'r TradingOrder_scheme list list" where
  "price_levels [] = []"
| "price_levels (q # qs) =
     (q # takeWhile (\<lambda>r. o_price r = o_price q) qs) # price_levels (dropWhile (\<lambda>r. o_price r = o_price q) qs)"
  by pat_completeness auto
termination
  by (relation "measure length") (auto simp: le_imp_less_Suc length_dropWhile_le)

definition orders_text :: "bool \<Rightarrow> ('r TradingOrder_scheme \<times> 'r TradingOrder_scheme \<times> 'r TradingOrder_scheme) list \<Rightarrow> string" where
  "orders_text detailed qs =
     (if detailed
      then concat (map (\<lambda>(p, q, n). order_details (o_order_id q) (o_qty q) (o_order_id p) (o_order_id n)) qs)
      else [])"

definition level_text ::
  "bool \<Rightarrow> 'r TradingOrder_scheme list \<times> 'r TradingOrder_scheme list \<times> 'r TradingOrder_scheme list \<Rightarrow> string" where
  "level_text detailed = (\<lambda>(ps, qs, ns).
     level_header (o_price (hd qs)) (o_price (hd ps)) (o_price (hd ns)) (sum_list (map o_qty qs))
       (of_nat (length qs)) @ orders_text detailed (neighbours qs) @ endl)"

fun levels_text ::
  "bool \<Rightarrow> string \<Rightarrow> nat \<Rightarrow>
   ('r TradingOrder_scheme list \<times> 'r TradingOrder_scheme list \<times> 'r TradingOrder_scheme list) list \<Rightarrow> string" where
  "levels_text detailed name count [] = []"
| "levels_text detailed name count (l # ls) =
     name @ '' L:'' @ dec_string count @ '' => '' @ level_text detailed l @
     levels_text detailed name (count + 1) ls"

definition book_text ::
  "bool \<Rightarrow> TickerId \<Rightarrow> 'r TradingOrder_scheme list \<Rightarrow> 'r TradingOrder_scheme list \<Rightarrow> string" where
  "book_text detailed ticker_id bids asks =
     ''Ticker:'' @ TickerIdToString ticker_id @ endl @
     levels_text detailed ''ASKS'' 0 (neighbours (price_levels asks)) @
     endl @ ''                          X'' @ endl @ endl @
     levels_text detailed ''BIDS'' 0 (neighbours (price_levels bids))"

text \<open>What the check finds wrong with a sorted book: the sentinels the comparison starts from are prices.\<close>

definition extreme_price :: "'r TradingOrder_scheme list \<Rightarrow> 'r TradingOrder_scheme list \<Rightarrow> bool" where
  "extreme_price bids asks \<longleftrightarrow>
     (\<exists>q\<in>set asks. o_price q = i64_min) \<or> (\<exists>q\<in>set bids. o_price q = i64_max)"

section \<open>Buffers are large enough\<close>

lemma length_word_string: "length (dec_string (unat (w :: 64 word))) \<le> 20" "length (dec_string (unat (v :: 32 word))) \<le> 20"
proof -
  have "unat w < 2 ^ LENGTH(64)" "unat v < 2 ^ LENGTH(32)" by (rule unsigned_less)+
  then have "unat w < 10 ^ 20" "unat v < 10 ^ 20" by simp_all
  then show "length (dec_string (unat w)) \<le> 20" "length (dec_string (unat v)) \<le> 20"
    by (intro length_dec_string; simp)+
qed

lemma length_prints:
  "length (OrderIdToString oid) \<le> 20" "length (QtyToString q) \<le> 20" "length (PriceToString p) \<le> 21"
proof -
  show "length (OrderIdToString oid) \<le> 20" "length (QtyToString q) \<le> 20"
    by (simp_all add: OrderIdToString_def QtyToString_def length_word_string)
  have "- (2 ^ 63) \<le> sint (bits64 p)" "sint (bits64 p) < 2 ^ 63"
    using sint_ge [of "bits64 p"] sint_lt [of "bits64 p"] by simp_all
  then show "length (PriceToString p) \<le> 21"
    by (auto simp: PriceToString_def int_string_def intro!: length_dec_string order_trans [OF length_dec_string [of _ 20]])
qed

lemma sprintf_details [simp]: "sprintf (order_details oid qty p n) = Inr (order_details oid qty p n)"
  using length_prints(1) [of oid] length_prints(2) [of qty] length_prints(1) [of p] length_prints(1) [of n]
  by (simp add: sprintf_def order_details_def)

lemma sprintf_header [simp]: "sprintf (level_header p pp np q n) = Inr (level_header p pp np q n)"
  using length_prints(3) [of p] length_prints(3) [of pp] length_prints(3) [of np] length_prints(2) [of q]
    length_word_string(1) [of n]
  by (simp add: sprintf_def level_header_def pad_left_def pad_right_def)


section \<open>The loops over a ring\<close>

lemma loop_next:
  assumes "ring nxt prv (us @ x # xs)"
  shows "nxt x = Some (hd (xs @ [hd (us @ [x])]))" "prv x = Some (if us = [] then last (x # xs) else last us)"
    "xs \<noteq> [] \<Longrightarrow> hd xs \<noteq> hd (us @ [x])"
proof -
  show "nxt x = Some (hd (xs @ [hd (us @ [x])]))"
    using ring_next [OF assms] by (cases xs; cases us) auto
  show "prv x = Some (if us = [] then last (x # xs) else last us)"
    using ring_prev [OF assms] by auto
  show "xs \<noteq> [] \<Longrightarrow> hd xs \<noteq> hd (us @ [x])"
    using ring_distinct [OF assms] by (cases us; cases xs) auto
qed

lemma hd_append_two [simp]: "hd (us @ x # y # zs) = hd (us @ [x])"
  by (cases us) auto

lemma add_up_orders_ring:
  assumes "ring (\<lambda>x. o_next_order (ord b x)) prv (us @ x # xs)"
  shows "add_up_orders b (Some (hd (us @ [x]))) (Some x) qty n =
    Some (Inr (qty + sum_list (map (\<lambda>x. o_qty (ord b x)) (x # xs)), n + of_nat (Suc (length xs))))"
  using assms
proof (induction xs arbitrary: us x qty n)
  case Nil
  then show ?case using loop_next(1) [OF Nil] by (subst add_up_orders.simps) simp
next
  case (Cons y ys)
  have "add_up_orders b (Some (hd ((us @ [x]) @ [y]))) (Some y) (qty + o_qty (ord b x)) (n + 1) =
    Some (Inr (qty + o_qty (ord b x) + sum_list (map (\<lambda>x. o_qty (ord b x)) (y # ys)), n + 1 + of_nat (Suc (length ys))))"
    using Cons.prems by (intro Cons.IH) simp
  then show ?case
    using loop_next(1,3) [OF Cons.prems] by (subst add_up_orders.simps) (simp add: ac_simps)
qed

lemma print_ring_ok:
  assumes "ring (\<lambda>x. o_next_order (ord b x)) (\<lambda>x. o_prev_order (ord b x)) (us @ x # xs)"
  shows "print_ring b detailed (Some (hd (us @ [x]))) (Some x) ss =
    Some (Inr (ss @ orders_text detailed (around (ord b (if us = [] then last (x # xs) else last us))
      (ord b (hd (us @ [x]))) (map (ord b) (x # xs)))))"
  using assms
proof (induction xs arbitrary: us x ss)
  case Nil
  then show ?case using loop_next(1,2) [OF Nil]
    by (subst print_ring.simps) (auto simp: print_order_def oid_behind_def orders_text_def)
next
  case (Cons y ys)
  have IH: "print_ring b detailed (Some (hd ((us @ [x]) @ [y]))) (Some y) ss =
    Some (Inr (ss @ orders_text detailed (around (ord b (if us @ [x] = [] then last (y # ys) else last (us @ [x])))
      (ord b (hd ((us @ [x]) @ [y]))) (map (ord b) (y # ys)))))" for ss
    using Cons.prems by (intro Cons.IH) simp
  show ?case
    using loop_next [OF Cons.prems] IH
    by (subst print_ring.simps) (auto simp: print_order_def oid_behind_def orders_text_def)
qed


section \<open>A level and a side\<close>

definition level_orders :: "('r TradingOrder_scheme, 'b) OrderBook_scheme \<Rightarrow> nat \<times> nat list \<Rightarrow> 'r TradingOrder_scheme list" where
  "level_orders b lv = map (\<lambda>x. strip (ord b x)) (snd lv)"

lemma level_orders_price: "level_ok b s lv \<Longrightarrow> o_price (hd (level_orders b lv)) = lprice b lv"
  by (cases "snd lv") (auto simp: level_orders_def level_ok_def)

lemma around_map: "around (f p) (f e) (map f xs) = map (\<lambda>(x, y, z). (f x, f y, f z)) (around p e xs)"
  by (induction p e xs rule: around.induct) auto

lemma neighbours_map: "neighbours (map f xs) = map (\<lambda>(x, y, z). (f x, f y, f z)) (neighbours xs)"
  by (cases "xs = []") (simp_all add: neighbours_def last_map hd_map flip: around_map)

lemma orders_text_map:
  assumes "\<And>q. o_order_id (f q) = o_order_id q \<and> o_qty (f q) = o_qty q"
  shows "orders_text detailed (map (\<lambda>(x, y, z). (f x, f y, f z)) qs) = orders_text detailed qs"
  using assms by (auto simp: orders_text_def intro!: arg_cong [where f = concat])

lemma out_of_order_iff: "trade_side s \<Longrightarrow> out_of_order s p q \<longleftrightarrow> \<not> goes_after s q p"
  by (auto simp: out_of_order_def goes_after_def)

lemma print_level_ok:
  assumes "level_ok b s lv" "level_ok b s u" "level_ok b s w"
    and "l_prev_entry (lvl b (fst lv)) = Some (fst u)" "l_next_entry (lvl b (fst lv)) = Some (fst w)"
  shows "print_level show_level b detailed check (Some (fst lv)) s last_price ss =
    (if check \<and> out_of_order s last_price (lprice b lv)
     then rbind (show_level (lvl b (fst lv))) (\<lambda>s.
          FATAL (''Bids/Asks not sorted by ascending/descending prices last:'' @ PriceToString last_price @
            '' itr:'' @ s))
     else Inr (ss @ level_text detailed (level_orders b u, level_orders b lv, level_orders b w),
            if check then lprice b lv else last_price))"
proof -
  obtain x xs where os: "snd lv = x # xs" using assms(1) by (cases "snd lv") (auto simp: level_ok_def)
  with assms(1) have ring: "ring (\<lambda>x. o_next_order (ord b x)) (\<lambda>x. o_prev_order (ord b x)) ([] @ x # xs)"
    and first: "l_first_order (lvl b (fst lv)) = Some x" by (simp_all add: level_ok_def)
  have "neighbours (map (ord b) (x # xs)) = around (ord b (last (x # xs))) (ord b x) (map (ord b) (x # xs))"
    unfolding neighbours_def by (subst last_map) simp_all
  moreover have "level_orders b lv = map strip (map (ord b) (x # xs))" by (simp add: level_orders_def os)
  ultimately have "orders_text detailed (neighbours (level_orders b lv)) =
      orders_text detailed (around (ord b (last (x # xs))) (ord b x) (map (ord b) (x # xs)))"
    using orders_text_map [of strip detailed "neighbours (map (ord b) (x # xs))"] by (simp only: neighbours_map strip_get simp_thms)
  then show ?thesis
    using add_up_orders_ring [OF ring, of 0 0] print_ring_ok [OF ring, of detailed] first assms(4,5)
      assms(1,2,3) [THEN level_orders_price]
    by (simp add: print_level_def level_text_def lprice_def)
      (simp add: level_orders_def os comp_def)
qed

lemma print_side_ok:
  assumes "ring (\<lambda>a. l_next_entry (lvl b a)) (\<lambda>a. l_prev_entry (lvl b a)) (map fst (us @ lv # ls))"
    and "\<forall>lv\<in>set (us @ lv # ls). level_ok b s lv" "trade_side s"
    and "best_by_price s b = Some (fst (hd (us @ [lv])))"
    and "check \<Longrightarrow> sorted_wrt (\<lambda>p q. goes_after s q p) (last_price # map (lprice b) (lv # ls))"
  shows "print_side show_level b detailed check name s (Some (fst lv)) count last_price ss =
    Some (Inr (ss @ levels_text detailed name count
      (around (level_orders b (if us = [] then last (lv # ls) else last us)) (level_orders b (hd (us @ [lv])))
        (map (level_orders b) (lv # ls)))))"
  using assms
proof (induction ls arbitrary: us lv count last_price ss)
  case Nil
  have r: "ring (\<lambda>a. l_next_entry (lvl b a)) (\<lambda>a. l_prev_entry (lvl b a)) (map fst us @ fst lv # [])"
    using Nil(1) by simp
  let ?u = "if us = [] then lv else last us" and ?w = "hd (us @ [lv])"
  have w: "level_ok b s ?u" "level_ok b s ?w" "level_ok b s lv" using Nil(2) by (auto simp: hd_append)
  have "l_next_entry (lvl b (fst lv)) = Some (fst ?w)" "l_prev_entry (lvl b (fst lv)) = Some (fst ?u)"
    using loop_next(1,2) [OF r] by (auto simp: hd_append hd_map last_map)
  moreover have "\<not> (check \<and> out_of_order s last_price (lprice b lv))"
    using Nil(3,5) by (auto simp: out_of_order_iff)
  ultimately show ?case
    using print_level_ok [OF w(3) w(1) w(2), of show_level detailed check last_price] Nil(4)
    by (subst print_side.simps) (auto simp: print_side.simps [of _ _ _ _ _ _ None])
next
  case (Cons l ls)
  have r: "ring (\<lambda>a. l_next_entry (lvl b a)) (\<lambda>a. l_prev_entry (lvl b a)) (map fst us @ fst lv # map fst (l # ls))"
    using Cons.prems(1) by simp
  let ?u = "if us = [] then last (l # ls) else last us"
  have w: "level_ok b s ?u" "level_ok b s l" "level_ok b s lv" using Cons.prems(2) by auto
  have nxt: "l_next_entry (lvl b (fst lv)) = Some (fst l)" "l_prev_entry (lvl b (fst lv)) = Some (fst ?u)"
    "fst l \<noteq> fst (hd (us @ [lv]))"
    using loop_next [OF r] by (auto simp: hd_append hd_map last_map)
  let ?last = "if check then lprice b lv else last_price"
  have IH: "print_side show_level b detailed check name s (Some (fst l)) (count + 1) ?last ss =
    Some (Inr (ss @ levels_text detailed name (count + 1)
      (around (level_orders b (if us @ [lv] = [] then last (l # ls) else last (us @ [lv])))
        (level_orders b (hd ((us @ [lv]) @ [l]))) (map (level_orders b) (l # ls)))))" for ss
  proof (rule Cons.IH)
    show "sorted_wrt (\<lambda>p q. goes_after s q p) (?last # map (lprice b) (l # ls))" if check
      using Cons.prems(5) [OF that] that by simp
  qed (use Cons.prems(1-4) in auto)
  have "\<not> (check \<and> out_of_order s last_price (lprice b lv))"
    using Cons.prems(3,5) by (auto simp: out_of_order_iff)
  then show ?case
    using print_level_ok [OF w(3) w(1) w(2) nxt(2,1), of show_level detailed check last_price] nxt Cons.prems(4) IH
    by (subst print_side.simps) auto
qed


section \<open>The whole book\<close>

lemma price_levels_addrs:
  assumes "\<forall>lv\<in>set ls. level_ok b s lv" "sorted_wrt (\<lambda>p q. goes_after s q p) (map (lprice b) ls)"
  shows "price_levels (map (\<lambda>x. strip (ord b x)) (addrs ls)) = map (level_orders b) ls"
  using assms
proof (induction ls)
  case (Cons lv ls)
  obtain x xs where os: "snd lv = x # xs" using Cons.prems(1) by (cases "snd lv") (auto simp: level_ok_def)
  have p: "o_price (ord b y) = lprice b lv" if "y \<in> set (x # xs)" for y
    using Cons.prems(1) os that by (auto simp: level_ok_def)
  let ?f = "\<lambda>x. strip (ord b x)" and ?P = "\<lambda>r. o_price r = lprice b lv"
  have rest: "\<not> ?P (hd (map ?f (addrs ls)))" if ne: "addrs ls \<noteq> []"
  proof -
    obtain w ws where w: "ls = w # ws" using ne by (cases ls) auto
    then have "hd (addrs ls) \<in> set (snd w)" using Cons.prems(1) by (auto simp: level_ok_def)
    with Cons.prems w have "o_price (ord b (hd (addrs ls))) = lprice b w" by (auto simp: level_ok_def)
    moreover have "lprice b w \<noteq> lprice b lv" using Cons.prems(2) w by auto
    ultimately show ?thesis using ne by (simp add: hd_map)
  qed
  have "takeWhile ?P (map ?f xs @ map ?f (addrs ls)) = map ?f xs \<and>
    dropWhile ?P (map ?f xs @ map ?f (addrs ls)) = map ?f (addrs ls)"
    using p rest by (intro conjI takeWhile_dropWhile_mid) (auto simp: takeWhile_append dropWhile_append dropWhile_eq_self_iff takeWhile_eq_Nil_iff)
  with Cons show ?case by (simp add: level_orders_def os p)
qed simp

definition start_price :: "Side \<Rightarrow> Price" where
  "start_price s = (if s = Side_SELL then i64_min else i64_max)"

lemma i64_bounds [simp]: "i64_min \<le> p" "p \<le> i64_max" for p :: i64
  using sint_ge [of "bits64 p"] sint_lt [of "bits64 p"] by (simp_all add: less_eq_i64_def i64_min_def i64_max_def)

lemma goes_after_start: "trade_side s \<Longrightarrow> goes_after s p (start_price s) \<longleftrightarrow> p \<noteq> start_price s"
  using i64_bounds [of p] by (auto simp: goes_after_def start_price_def order.strict_iff_order)

lemma not_beyond_start: "trade_side s \<Longrightarrow> \<not> goes_after s (start_price s) p"
  by (auto simp: goes_after_def start_price_def not_less)

lemma side_start:
  assumes "side_ok b s ls" "trade_side s" "ls \<noteq> []"
  shows "lprice b (hd ls) = start_price s \<longleftrightarrow> (\<exists>x\<in>set (addrs ls). o_price (ord b x) = start_price s)"
proof
  have price: "o_price (ord b x) = lprice b w" if "w \<in> set ls" "x \<in> set (snd w)" for w x
    using assms(1) that by (auto simp: side_ok_def level_ok_def)
  obtain lv ws where ls: "ls = lv # ws" using assms(3) by (cases ls) auto
  show "lprice b (hd ls) = start_price s" if e: "\<exists>x\<in>set (addrs ls). o_price (ord b x) = start_price s"
  proof -
    obtain w x where w: "w \<in> set ls" "x \<in> set (snd w)" "o_price (ord b x) = start_price s"
      using e unfolding Bex_def in_addrs_iff by blast
    then have "lprice b w = start_price s" using price by auto
    moreover have "w = lv \<or> goes_after s (lprice b w) (lprice b lv)" using assms(1) w(1) ls by (auto simp: side_ok_def)
    ultimately show ?thesis using not_beyond_start [OF assms(2)] ls by auto
  qed
  show "\<exists>x\<in>set (addrs ls). o_price (ord b x) = start_price s" if "lprice b (hd ls) = start_price s"
  proof
    have "level_ok b s lv" using assms(1) ls by (auto simp: side_ok_def)
    then show hd: "hd (snd lv) \<in> set (addrs ls)" using ls by (auto simp: level_ok_def)
    have "hd (snd lv) \<in> set (snd lv)" using \<open>level_ok b s lv\<close> by (auto simp: level_ok_def)
    then show "o_price (ord b (hd (snd lv))) = start_price s" using price [of lv] that ls by simp
  qed
qed

lemma print_side_text:
  assumes so: "side_ok b s ls" and s: "trade_side s"
    and show_level: "\<And>lv. lv \<in> set ls \<Longrightarrow> \<exists>t. show_level (lvl b (fst lv)) = Inr t"
  shows "if check \<and> (\<exists>x\<in>set (addrs ls). o_price (ord b x) = start_price s)
    then \<exists>msg. print_side show_level b detailed check name s (best_by_price s b) 0 (start_price s) ss = Some (Inl (Fatal msg))
    else print_side show_level b detailed check name s (best_by_price s b) 0 (start_price s) ss =
      Some (Inr (ss @ levels_text detailed name 0 (neighbours (price_levels (map (\<lambda>x. strip (ord b x)) (addrs ls))))))"
proof (cases ls)
  case Nil
  then show ?thesis using so by (simp add: side_ok_def print_side.simps neighbours_def)
next
  case (Cons lv ws)
  from so have ring: "ring (\<lambda>a. l_next_entry (lvl b a)) (\<lambda>a. l_prev_entry (lvl b a)) (map fst ([] @ lv # ws))"
    and lok: "\<forall>lv\<in>set ([] @ lv # ws). level_ok b s lv" and best: "best_by_price s b = Some (fst (hd ([] @ [lv])))"
    and srt: "sorted_wrt (\<lambda>p q. goes_after s q p) (map (lprice b) (lv # ws))"
    using Cons by (simp_all add: side_ok_def)
  have lines: "neighbours (price_levels (map (\<lambda>x. strip (ord b x)) (addrs ls))) =
      around (level_orders b (last (lv # ws))) (level_orders b lv) (map (level_orders b) (lv # ws))"
    using price_levels_addrs [of "lv # ws" b s] lok srt by (simp add: Cons neighbours_def last_map)
  have start: "lprice b lv = start_price s \<longleftrightarrow> (\<exists>x\<in>set (addrs ls). o_price (ord b x) = start_price s)"
    using side_start [OF so s] Cons by simp
  show ?thesis
  proof (cases "check \<and> lprice b lv = start_price s")
    case True
    obtain t where t: "show_level (lvl b (fst lv)) = Inr t" using show_level [of lv] Cons by auto
    have r: "ring (\<lambda>a. l_next_entry (lvl b a)) (\<lambda>a. l_prev_entry (lvl b a)) (map fst [] @ fst lv # map fst ws)"
      using ring by simp
    have "l_next_entry (lvl b (fst lv)) = Some (fst (hd (ws @ [lv])))" "l_prev_entry (lvl b (fst lv)) = Some (fst (last (lv # ws)))"
      using loop_next(1,2) [OF r] by (cases ws; auto simp: last_map)+
    moreover have "level_ok b s (hd (ws @ [lv]))" "level_ok b s (last (lv # ws))" "level_ok b s lv"
      using lok by (cases ws; auto)+
    ultimately have "\<exists>msg. print_level show_level b detailed check (Some (fst lv)) s (start_price s) ss = Inl (Fatal msg)" for ss
      using print_level_ok [of b s lv "last (lv # ws)" "hd (ws @ [lv])" show_level detailed check] True t
      by (simp add: out_of_order_iff [OF s] FATAL_def)
    from this [of "ss @ name @ '' L:'' @ dec_string 0 @ '' => ''"] show ?thesis
      using True start best by (auto simp: print_side.simps)
  next
    case False
    then have "check \<Longrightarrow> sorted_wrt (\<lambda>p q. goes_after s q p) (start_price s # map (lprice b) (lv # ws))"
      using srt goes_after_start [OF s] not_beyond_start [OF s, of "lprice b lv"] by auto
    from print_side_ok [OF ring lok s best this, where show_level = show_level and detailed = detailed and name = name and count = 0 and ss = ss] False show ?thesis
      using start best lines by auto
  qed
qed


lemma print_book_text:
  assumes ok: "book_ok b L" and show_level: "\<And>l. \<exists>t. show_level l = Inr t"
  shows "let orders = \<lambda>s. map (\<lambda>x. strip (ord b x)) (addrs (L s));
             r = print_book show_level ticker_id b detailed check
         in if check \<and> extreme_price (orders Side_BUY) (orders Side_SELL) then \<exists>msg. r = Inl (Fatal msg)
            else r = Inr (book_text detailed ticker_id (orders Side_BUY) (orders Side_SELL))"
proof -
  have side: "\<And>name ss. if check \<and> (\<exists>x\<in>set (addrs (L s)). o_price (ord b x) = start_price s)
    then \<exists>msg. print_side show_level b detailed check name s (best_by_price s b) 0 (start_price s) ss = Some (Inl (Fatal msg))
    else print_side show_level b detailed check name s (best_by_price s b) 0 (start_price s) ss =
      Some (Inr (ss @ levels_text detailed name 0 (neighbours (price_levels (map (\<lambda>x. strip (ord b x)) (addrs (L s)))))))"
    if "trade_side s" for s
    by (rule print_side_text [OF book_okD(1) [OF ok that] that show_level])
  let ?orders = "\<lambda>s. map (\<lambda>x. strip (ord b x)) (addrs (L s))"
  let ?bad = "\<lambda>s. check \<and> (\<exists>x\<in>set (addrs (L s)). o_price (ord b x) = start_price s)"
  have bad: "check \<and> extreme_price (?orders Side_BUY) (?orders Side_SELL) \<longleftrightarrow> ?bad Side_SELL \<or> ?bad Side_BUY"
    by (auto simp: extreme_price_def start_price_def)
  define head where "head = ''Ticker:'' @ TickerIdToString ticker_id @ endl"
  define mid where "mid = ''                          X'' @ endl @ endl"
  have r: "print_book show_level ticker_id b detailed check =
    rbind (loop_result (print_side show_level b detailed check ''ASKS'' Side_SELL (best_by_price Side_SELL b) 0
      (start_price Side_SELL) head)) (\<lambda>ss.
    loop_result (print_side show_level b detailed check ''BIDS'' Side_BUY (best_by_price Side_BUY b) 0
      (start_price Side_BUY) (ss @ endl @ mid)))"
    by (simp add: print_book_def best_by_price_def start_price_def head_def mid_def)
  have whole: "book_text detailed ticker_id (?orders Side_BUY) (?orders Side_SELL) =
    head @ levels_text detailed ''ASKS'' 0 (neighbours (price_levels (?orders Side_SELL))) @ endl @ mid @
    levels_text detailed ''BIDS'' 0 (neighbours (price_levels (?orders Side_BUY)))"
    by (simp add: book_text_def head_def mid_def)
  show ?thesis
    unfolding Let_def bad r whole
    using side [of Side_SELL "''ASKS''" head] side [of Side_BUY "''BIDS''" "head @ levels_text detailed ''ASKS'' 0
        (neighbours (price_levels (?orders Side_SELL))) @ endl @ mid"]
    by (cases "?bad Side_SELL"; cases "?bad Side_BUY") (auto simp del: append.simps)
qed

lemma oid_behind_Inr: "\<exists>i. oid_behind b p = Inr i"
  by (cases p) (auto simp: oid_behind_def)

lemma price_behind_Inr: "\<exists>i. price_behind b p = Inr i"
  by (cases p) (auto simp: price_behind_def)

lemma OrdersAtPrice_ToString_Inr: "\<exists>t. OrdersAtPrice_ToString b l = Inr t"
proof -
  have "\<exists>t. ExchangeOrder_ToString b q = Inr t" for q
    using oid_behind_Inr [of b "o_prev_order q"] oid_behind_Inr [of b "o_next_order q"] by (auto simp: ExchangeOrder_ToString_def)
  then have "\<exists>t. (if l_first_order l \<noteq> None then rbind (order b (l_first_order l)) (ExchangeOrder_ToString b) else Inr ''null'') = Inr t"
    by (cases "l_first_order l") auto
  then show ?thesis
    using price_behind_Inr [of b "l_prev_entry l"] price_behind_Inr [of b "l_next_entry l"]
    unfolding OrdersAtPrice_ToString_def by auto
qed

lemma TradingOrdersAtPrice_ToString_Inr: "\<exists>t. TradingOrdersAtPrice_ToString b l = Inr t"
proof -
  have "\<exists>t. TradingOrder_ToString b q = Inr t" for q
    using oid_behind_Inr [of b "o_prev_order q"] oid_behind_Inr [of b "o_next_order q"] by (auto simp: TradingOrder_ToString_def)
  then have "\<exists>t. (if l_first_order l \<noteq> None then rbind (order b (l_first_order l)) (TradingOrder_ToString b) else Inr ''null'') = Inr t"
    by (cases "l_first_order l") auto
  then show ?thesis
    using price_behind_Inr [of b "l_prev_entry l"] price_behind_Inr [of b "l_next_entry l"]
    unfolding TradingOrdersAtPrice_ToString_def by auto
qed

section \<open>Properties\<close>

theorem trading_book_printed:
  assumes "tb_ok b L"
  shows "let bids = tb_orders b L Side_BUY; asks = tb_orders b L Side_SELL;
             r = TradingOrderBook_ToString b detailed check
         in if check \<and> extreme_price bids asks then \<exists>msg. r = Inl (Fatal msg)
            else r = Inr (book_text detailed (tb_ticker_id b) bids asks)"
  using print_book_text [where b = b and L = L and show_level = "TradingOrdersAtPrice_ToString b"
      and check = check and ticker_id = "tb_ticker_id b" and detailed = detailed]
    assms TradingOrdersAtPrice_ToString_Inr
  by (simp add: tb_ok_def tb_orders_def TradingOrderBook_ToString_def Let_def)

text \<open>
  C28: Printing a reachable book of the exchange gives the text of its two order queues, level by level with
  quantities, counts and neighbours, without following a wrong pointer or overrunning the buffer; its
  validity check passes unless an ask has the lowest or a bid the highest price there is, which are the
  values the comparison starts from: then it ends the process.
\<close>

theorem exchange_book_printed:
  assumes "exchange_inv b L"
  shows "let bids = abs_orders b L Side_BUY; asks = abs_orders b L Side_SELL;
             r = ExchangeOrderBook_ToString b detailed check
         in if check \<and> extreme_price bids asks then \<exists>msg. r = Inl (Fatal msg)
            else r = Inr (book_text detailed (eb_ticker_id b) bids asks)"
  using print_book_text [where b = b and L = L and show_level = "OrdersAtPrice_ToString b"
      and check = check and ticker_id = "eb_ticker_id b" and detailed = detailed]
    assms OrdersAtPrice_ToString_Inr eob_okD(1) [of b L]
  by (simp add: exchange_inv_def abs_orders_def ExchangeOrderBook_ToString_def Let_def)

lemma one_bid_text:
  assumes "o_price q = I64 100" "o_qty q = 5" "o_order_id q = 1"
  shows "book_text True 0 [q] [] = ''Ticker:0'' @ endl @ endl @ ''                          X'' @ endl @ endl @
    ''BIDS L:0 =>  <px:100 p:100 n:100> 100 @ 5    (1   )[oid:1 q:5 p:1 n:1] '' @ endl"
proof -
  have "dec_string 0 = ''0''" "dec_string 1 = ''1''" "dec_string 5 = ''5''" "dec_string 100 = ''100''"
    by (simp_all add: dec_string.simps digit_char_def char_of_def bit_0)
  moreover have "replicate 4 (CHR '' '') = ''    ''" "replicate 3 (CHR '' '') = ''   ''"
    by (simp_all add: numeral_eq_Suc)
  ultimately show ?thesis using assms
    by (simp add: book_text_def neighbours_def level_text_def orders_text_def level_header_def order_details_def
        pad_left_def pad_right_def PriceToString_def QtyToString_def OrderIdToString_def TickerIdToString_def
        int_string_def PRICE_INVALID_def QTY_INVALID_def ORDER_ID_INVALID_def TICKER_ID_INVALID_def i64_max_def)
qed

theorem exchange_book_printed_witness:
  "\<exists>b. Add 3 7 0 Side_BUY (I64 100) 5 (empty_book 0) = Inr b \<and>
    ExchangeOrderBook_ToString b True True =
      Inr (''Ticker:0'' @ endl @ endl @ ''                          X'' @ endl @ endl @
        ''BIDS L:0 =>  <px:100 p:100 n:100> 100 @ 5    (1   )[oid:1 q:5 p:1 n:1] '' @ endl)"
proof -
  obtain b L where b: "Add 3 7 0 Side_BUY (I64 100) 5 (empty_book 0) = Inr b" "exchange_inv b L"
    "abs_book b L = spec_add 3 7 0 Side_BUY (I64 100) 5 (abs_book (empty_book 0) (\<lambda>_. []))"
    by (rule Add_inv [OF empty_book_inv empty_book_can_add])
  have "abs_orders b L = sp_orders (abs_book b L)" by (simp add: abs_book_def)
  then have "abs_orders b L Side_SELL = []" "\<exists>q. abs_orders b L Side_BUY = [q] \<and> o_price q = I64 100 \<and>
      o_qty q = 5 \<and> o_order_id q = 1"
    unfolding b(3)
    by (simp_all add: abs_book_def spec_add_def spec_insert_def spec_order_def other_side_def abs_orders_def
        empty_book_def ExchangeOrderBook_new_def)
  moreover have "\<exists>b. Add 3 7 0 Side_BUY (I64 100) 5 (empty_book 0) = Inr b \<and> eb_ticker_id b = 0"
    by (simp add: exchange_eval)
  then have "eb_ticker_id b = 0" using b(1) by auto
  ultimately show ?thesis using exchange_book_printed [OF b(2), of True True] b(1)
    by (auto simp: Let_def extreme_price_def i64_max_def one_bid_text simp del: append.simps)
qed

end
