(* ===== verification/Trading_Printing.thy ===== *)
theory Trading_Printing
  imports Double_Print Risk_Manager
begin

text \<open>
  The printers of positions and limits: \<open>ToString\<close> of \<open>PositionInfo\<close> and \<open>PositionKeeper\<close>
  (\<open>src/src/include/trading_engine/position_keeper.hpp\<close>), of \<open>RiskInfo\<close> (\<open>risk_manager.hpp\<close>) and of
  \<open>RiskCfg\<close> and \<open>TradeEngineCfg\<close> (\<open>src/src/include/common/types.hpp\<close>). \<open>bbo_\<close> points into a book, so the
  quotes of the books are an argument.
\<close>

definition RiskCfg_ToString :: "RiskCfg \<Rightarrow> string" where
  "RiskCfg_ToString c =
     ''RiskCfg{'' @ ''max-order-size:'' @ QtyToString (max_order_size c) @ '' '' @
     ''max-position:'' @ QtyToString (max_position c) @ '' '' @
     ''max-loss:'' @ show_double (max_loss c) @ ''}''"

definition TradeEngineCfg_ToString :: "TradeEngineCfg \<Rightarrow> string" where
  "TradeEngineCfg_ToString c =
     ''TradeEngineCfg{'' @ ''clip:'' @ QtyToString (clip c) @ '' '' @
     ''thresh:'' @ show_double (threshold c) @ '' '' @
     ''risk:'' @ RiskCfg_ToString (risk_cfg c) @ ''}''"

text \<open>The average price of the open position on a side.\<close>

definition open_average :: "Side \<Rightarrow> PositionInfo \<Rightarrow> double result" where
  "open_average side P =
     (if position P \<noteq> 0 then
        rbind (vwap_at (SideToIndex side) P) (\<lambda>v.
        rbind (abs32 (sint (position P))) (\<lambda>n.
        Inr (ddiv v (d_of_int n))))
      else Inr dzero)"

definition PositionInfo_ToString :: "(nat \<Rightarrow> BBO) \<Rightarrow> PositionInfo \<Rightarrow> string result" where
  "PositionInfo_ToString quotes P =
     rbind (open_average Side_BUY P) (\<lambda>buy_vwap.
     rbind (open_average Side_SELL P) (\<lambda>sell_vwap.
     Inr (''Position{'' @ ''pos:'' @ int_string (sint (position P)) @
       '' u-pnl:'' @ show_double (unreal_pnl P) @ '' r-pnl:'' @ show_double (real_pnl P) @
       '' t-pnl:'' @ show_double (total_pnl P) @ '' vol:'' @ QtyToString (volume P) @
       '' vwaps:['' @ show_double buy_vwap @ ''X'' @ show_double sell_vwap @ ''] '' @
       (case pi_bbo P of None \<Rightarrow> [] | Some t \<Rightarrow> BBO_ToString (quotes t)) @ ''}'')))"

text \<open>One turn of the loop over the instruments: the text so far, the profit and the volume.\<close>

definition print_position ::
  "(nat \<Rightarrow> BBO) \<Rightarrow> PositionKeeper \<Rightarrow> nat \<Rightarrow> string \<times> double \<times> Qty \<Rightarrow> (string \<times> double \<times> Qty) result" where
  "print_position quotes K i = (\<lambda>(ss, total_pnl', total_vol).
     rbind (PositionInfo_ToString quotes (K i)) (\<lambda>s.
     Inr (ss @ ''TickerId:'' @ TickerIdToString (of_nat i) @ '' '' @ s @ [CHR 0x0A],
          dadd total_pnl' (total_pnl (K i)), total_vol + volume (K i))))"

definition PositionKeeper_ToString :: "(nat \<Rightarrow> BBO) \<Rightarrow> PositionKeeper \<Rightarrow> string result" where
  "PositionKeeper_ToString quotes K =
     rbind (rfold (print_position quotes K) [0..<ME_MAX_TICKERS] ([], dzero, 0)) (\<lambda>(ss, pnl, vol).
     Inr (ss @ ''Total PnL:'' @ show_double pnl @ '' Vol:'' @ dec_string (unat vol) @ [CHR 0x0A]))"

definition RiskInfo_ToString :: "(nat \<Rightarrow> BBO) \<Rightarrow> PositionInfo \<Rightarrow> RiskCfg \<Rightarrow> string result" where
  "RiskInfo_ToString quotes P cfg =
     rbind (PositionInfo_ToString quotes P) (\<lambda>s.
     Inr (''RiskInfo'' @ ''['' @ ''pos:'' @ s @ '' '' @ RiskCfg_ToString cfg @ '']''))"

section \<open>Facts\<close>

text \<open>A position can be printed unless it is the one whose absolute value is no \<open>int\<close>.\<close>

lemma open_average_fails_iff:
  assumes "side = Side_BUY \<or> side = Side_SELL"
  shows "succeeds (open_average side P) \<longleftrightarrow> sint (position P) \<noteq> - (2 ^ 31)"
proof -
  have "- (2 ^ 31) \<le> sint (position P)" "sint (position P) < 2 ^ 31"
    using sint_ge [of "position P"] sint_lt [of "position P"] by simp_all
  moreover have "SideToIndex side < 4" using assms by (auto simp: SideToIndex_def)
  ultimately show ?thesis
    by (auto simp: open_average_def vwap_at_def abs32_def int32_def)
qed

lemma PositionInfo_ToString_fails_iff:
  "succeeds (PositionInfo_ToString quotes P) \<longleftrightarrow> sint (position P) \<noteq> - (2 ^ 31)"
  using open_average_fails_iff [of Side_BUY P] open_average_fails_iff [of Side_SELL P]
  by (cases "open_average Side_BUY P"; cases "open_average Side_SELL P") (auto simp: PositionInfo_ToString_def)

lemma print_positions:
  assumes "\<And>i. i \<in> set is \<Longrightarrow> sint (position (K i)) \<noteq> - (2 ^ 31)"
  shows "\<exists>ss. rfold (print_position quotes K) is (s, pnl, vol) =
    Inr (ss, fold (\<lambda>i p. dadd p (total_pnl (K i))) is pnl, vol + (\<Sum>i\<leftarrow>is. volume (K i)))"
  using assms
proof (induction "is" arbitrary: s pnl vol)
  case (Cons i "is")
  have "succeeds (PositionInfo_ToString quotes (K i))"
    using Cons.prems [of i] PositionInfo_ToString_fails_iff by auto
  then obtain t where "PositionInfo_ToString quotes (K i) = Inr t"
    by (cases "PositionInfo_ToString quotes (K i)") auto
  then obtain s' where "print_position quotes K i (s, pnl, vol) = Inr (s', dadd pnl (total_pnl (K i)), vol + volume (K i))"
    by (simp add: print_position_def)
  moreover obtain ss where "rfold (print_position quotes K) is (s', dadd pnl (total_pnl (K i)), vol + volume (K i)) =
    Inr (ss, fold (\<lambda>i p. dadd p (total_pnl (K i))) is (dadd pnl (total_pnl (K i))),
      vol + volume (K i) + (\<Sum>i\<leftarrow>is. volume (K i)))"
    using Cons.IH [of s' "dadd pnl (total_pnl (K i))" "vol + volume (K i)"] Cons.prems by auto
  ultimately show ?case by (simp add: ac_simps)
qed simp

theorem positions_printed:
  assumes "\<And>i. i < ME_MAX_TICKERS \<Longrightarrow> sint (position (K i)) \<noteq> - (2 ^ 31)"
  shows "\<exists>ss. PositionKeeper_ToString quotes K =
    Inr (ss @ ''Total PnL:'' @ show_double (fold (\<lambda>i p. dadd p (total_pnl (K i))) [0..<ME_MAX_TICKERS] dzero) @
      '' Vol:'' @ dec_string (unat (\<Sum>i\<leftarrow>[0..<ME_MAX_TICKERS]. volume (K i))) @ [CHR 0x0A])"
proof -
  obtain ss where "rfold (print_position quotes K) [0..<ME_MAX_TICKERS] ([], dzero, 0) =
    Inr (ss, fold (\<lambda>i p. dadd p (total_pnl (K i))) [0..<ME_MAX_TICKERS] dzero, 0 + (\<Sum>i\<leftarrow>[0..<ME_MAX_TICKERS]. volume (K i)))"
    using print_positions [of "[0..<ME_MAX_TICKERS]" K quotes "[]" dzero 0] assms by (auto simp: atLeast_upt)
  then show ?thesis by (auto simp: PositionKeeper_ToString_def)
qed

end
