(* ===== verification/Socket_Utils.thy ===== *)
theory Socket_Utils
  imports Sockets
begin

unbundle bit_operations_syntax

text \<open>
  Making sockets (\<open>src/src/include/network/socket_utils.hpp\<close>) and what the socket classes do with it
  (\<open>tcp_socket.cpp\<close>, \<open>mcast_socket.cpp\<close>, \<open>tcp_server.cpp\<close>). The operating system is a function from the
  calls it has answered and the next call to its answer, which may be any number; the result of an
  operation comes with the calls made. \<open>ASSERT\<close> has an effect only in a build without \<open>NDEBUG\<close>, which is
  the argument \<open>checked\<close>; its condition is evaluated in either.
\<close>

section \<open>The system\<close>

datatype address = Resolved string int | Any_address int

datatype syscall =
    Sys_socket address bool
  | Sys_getfl int
  | Sys_setfl int int
  | Sys_nodelay int
  | Sys_connect int address
  | Sys_reuseaddr int
  | Sys_bind int address
  | Sys_listen int int
  | Sys_timestamp int
  | Sys_add_membership int string
  | Sys_close int
  | Sys_epoll_create
  | Sys_epoll_add int int

type_synonym calls = "(syscall \<times> int) list"

text \<open>
  An interface as \<open>getifaddrs\<close> lists it: its name and, if it has an address of the internet family, what
  \<open>getnameinfo\<close> prints for it. \<open>getaddrinfo\<close> gets the address, the service, and whether the socket is to
  listen and to be a datagram socket.
\<close>

record OS =
  os_call :: "calls \<Rightarrow> syscall \<Rightarrow> int"
  os_getifaddrs :: "(string \<times> string option) list option"
  os_getaddrinfo :: "string \<Rightarrow> string \<Rightarrow> bool \<Rightarrow> bool \<Rightarrow> int \<times> address list"

type_synonym 'a sys = "calls \<Rightarrow> 'a result \<times> calls"

definition sys_return :: "'a \<Rightarrow> 'a sys" where
  "sys_return x = (\<lambda>cs. (Inr x, cs))"

definition sys_bind :: "'a sys \<Rightarrow> ('a \<Rightarrow> 'b sys) \<Rightarrow> 'b sys" where
  "sys_bind m f = (\<lambda>cs. case m cs of (Inl e, cs) \<Rightarrow> (Inl e, cs) | (Inr x, cs) \<Rightarrow> f x cs)"

definition sys_call :: "OS \<Rightarrow> syscall \<Rightarrow> int sys" where
  "sys_call os c = (\<lambda>cs. (Inr (os_call os cs c), cs @ [(c, os_call os cs c)]))"

definition sys_ASSERT :: "bool \<Rightarrow> bool \<Rightarrow> string \<Rightarrow> unit sys" where
  "sys_ASSERT checked cond msg = (\<lambda>cs. (if checked then ASSERT cond msg else Inr (), cs))"

section \<open>Configuration of a socket\<close>

record SocketCfg =
  cfg_ip :: string
  cfg_iface :: string
  cfg_port :: int
  cfg_is_udp :: bool
  cfg_is_listening :: bool
  cfg_needs_so_timestamp :: bool

text \<open>A \<open>bool\<close> prints as a digit.\<close>

definition SocketCfg_ToString :: "SocketCfg \<Rightarrow> string" where
  "SocketCfg_ToString cfg =
     (let bit = (\<lambda>b. if b then ''1'' else ''0'')
      in ''SocketCfg[ip:'' @ cfg_ip cfg @ '' iface:'' @ cfg_iface cfg @ '' port:'' @ int_string (cfg_port cfg) @
         '' is_udp:'' @ bit (cfg_is_udp cfg) @ '' is_listening:'' @ bit (cfg_is_listening cfg) @
         '' needs_SO_timestamp:'' @ bit (cfg_needs_so_timestamp cfg) @ '']'')"

definition MAX_TCP_SERVER_BACKLOG :: int where
  "MAX_TCP_SERVER_BACKLOG = 1024"

text \<open>The first interface of that name with an internet address; the empty string without one.\<close>

definition GetIfaceIp :: "OS \<Rightarrow> string \<Rightarrow> string" where
  "GetIfaceIp os iface =
     (case os_getifaddrs os of
        None \<Rightarrow> []
      | Some ifas \<Rightarrow>
          (case find (\<lambda>(name, ip). ip \<noteq> None \<and> iface = name) ifas of
             Some (_, Some ip) \<Rightarrow> ip
           | _ \<Rightarrow> []))"

text \<open>On Linux.\<close>

definition O_NONBLOCK :: int where
  "O_NONBLOCK = 2048"

text \<open>A failing \<open>F_GETFL\<close> returns -1, which has the bit set.\<close>

definition SetNonBlocking :: "OS \<Rightarrow> int \<Rightarrow> bool sys" where
  "SetNonBlocking os fd =
     sys_bind (sys_call os (Sys_getfl fd)) (\<lambda>flags.
     if flags AND O_NONBLOCK \<noteq> 0 then sys_return True
     else sys_bind (sys_call os (Sys_setfl fd (flags OR O_NONBLOCK))) (\<lambda>rc. sys_return (rc \<noteq> - 1)))"

definition DisableNagle :: "OS \<Rightarrow> int \<Rightarrow> bool sys" where
  "DisableNagle os fd = sys_bind (sys_call os (Sys_nodelay fd)) (\<lambda>rc. sys_return (rc \<noteq> - 1))"

definition SetSoTimestamp :: "OS \<Rightarrow> int \<Rightarrow> bool sys" where
  "SetSoTimestamp os fd = sys_bind (sys_call os (Sys_timestamp fd)) (\<lambda>rc. sys_return (rc \<noteq> - 1))"

definition socket_Join :: "OS \<Rightarrow> int \<Rightarrow> string \<Rightarrow> bool sys" where
  "socket_Join os fd ip = sys_bind (sys_call os (Sys_add_membership fd ip)) (\<lambda>rc. sys_return (rc \<noteq> - 1))"

section \<open>CreateSocket\<close>

text \<open>One step of the configuration under a condition.\<close>

definition sys_when :: "bool \<Rightarrow> unit sys \<Rightarrow> unit sys" where
  "sys_when cond m = (if cond then m else sys_return ())"

text \<open>The body of the loop over the addresses; the failure texts are followed by that of \<open>errno\<close>.\<close>

definition open_socket :: "bool \<Rightarrow> OS \<Rightarrow> SocketCfg \<Rightarrow> address \<Rightarrow> int sys" where
  "open_socket checked os cfg rp =
     sys_bind (sys_call os (Sys_socket rp (cfg_is_udp cfg))) (\<lambda>fd.
     sys_bind (sys_ASSERT checked (fd \<noteq> - 1) ''socket() failed. errno:'') (\<lambda>_.
     sys_bind (sys_bind (SetNonBlocking os fd)
       (\<lambda>b. sys_ASSERT checked b ''setNonBlocking() failed. errno:'')) (\<lambda>_.
     sys_bind (sys_when (\<not> cfg_is_udp cfg) (sys_bind (DisableNagle os fd)
       (\<lambda>b. sys_ASSERT checked b ''disableNagle() failed. errno:''))) (\<lambda>_.
     sys_bind (sys_when (\<not> cfg_is_listening cfg) (sys_bind (sys_call os (Sys_connect fd rp))
       (\<lambda>rc. sys_ASSERT checked (rc \<noteq> 1) ''connect() failed. errno:''))) (\<lambda>_.
     sys_bind (sys_when (cfg_is_listening cfg) (sys_bind (sys_call os (Sys_reuseaddr fd))
       (\<lambda>rc. sys_ASSERT checked (rc = 0) ''setsockopt() SO_REUSEADDR failed. errno:''))) (\<lambda>_.
     sys_bind (sys_when (cfg_is_listening cfg)
       (sys_bind (sys_call os (Sys_bind fd (if cfg_is_udp cfg then Any_address (cfg_port cfg) else rp)))
       (\<lambda>rc. sys_ASSERT checked (rc = 0) ''bind() failed. errno:%''))) (\<lambda>_.
     sys_bind (sys_when (\<not> cfg_is_udp cfg \<and> cfg_is_listening cfg)
       (sys_bind (sys_call os (Sys_listen fd MAX_TCP_SERVER_BACKLOG))
       (\<lambda>rc. sys_ASSERT checked (rc = 0) ''listen() failed. errno:''))) (\<lambda>_.
     sys_bind (sys_when (cfg_needs_so_timestamp cfg) (sys_bind (SetSoTimestamp os fd)
       (\<lambda>b. sys_ASSERT checked b ''setSOTimestamp() failed. errno:''))) (\<lambda>_.
     sys_return fd)))))))))"

text \<open>The loop: every address gets a socket, the last one is returned.\<close>

fun open_sockets :: "bool \<Rightarrow> OS \<Rightarrow> SocketCfg \<Rightarrow> address list \<Rightarrow> int \<Rightarrow> int sys" where
  "open_sockets checked os cfg [] fd = sys_return fd"
| "open_sockets checked os cfg (rp # rps) fd =
     sys_bind (open_socket checked os cfg rp) (open_sockets checked os cfg rps)"

definition resolve :: "OS \<Rightarrow> SocketCfg \<Rightarrow> int \<times> address list" where
  "resolve os cfg =
     (let ip = (if cfg_ip cfg = [] then GetIfaceIp os (cfg_iface cfg) else cfg_ip cfg)
      in os_getaddrinfo os ip (int_string (cfg_port cfg)) (cfg_is_listening cfg) (cfg_is_udp cfg))"

definition CreateSocket :: "bool \<Rightarrow> OS \<Rightarrow> SocketCfg \<Rightarrow> int sys" where
  "CreateSocket checked os cfg =
     (let (rc, rps) = resolve os cfg
      in sys_bind (sys_ASSERT checked (rc = 0) ''getaddrinfo() failed. error:'') (\<lambda>_.
         open_sockets checked os cfg rps (- 1)))"

section \<open>The socket classes\<close>

definition TCPSocket_Connect :: "bool \<Rightarrow> OS \<Rightarrow> string \<Rightarrow> string \<Rightarrow> int \<Rightarrow> bool \<Rightarrow> Socket \<Rightarrow> Socket sys" where
  "TCPSocket_Connect checked os ip iface port is_listening s =
     sys_bind (CreateSocket checked os \<lparr>cfg_ip = ip, cfg_iface = iface, cfg_port = port, cfg_is_udp = False,
       cfg_is_listening = is_listening, cfg_needs_so_timestamp = True\<rparr>) (\<lambda>fd.
     sys_return (s\<lparr>socket_fd := fd\<rparr>))"

definition McastSocket_Init :: "bool \<Rightarrow> OS \<Rightarrow> string \<Rightarrow> string \<Rightarrow> int \<Rightarrow> bool \<Rightarrow> Socket \<Rightarrow> Socket sys" where
  "McastSocket_Init checked os ip iface port is_listening s =
     sys_bind (CreateSocket checked os \<lparr>cfg_ip = ip, cfg_iface = iface, cfg_port = port, cfg_is_udp = True,
       cfg_is_listening = is_listening, cfg_needs_so_timestamp = False\<rparr>) (\<lambda>fd.
     sys_return (s\<lparr>socket_fd := fd\<rparr>))"

definition McastSocket_Join :: "OS \<Rightarrow> string \<Rightarrow> Socket \<Rightarrow> bool sys" where
  "McastSocket_Join os ip s = socket_Join os (socket_fd s) ip"

definition McastSocket_Leave :: "OS \<Rightarrow> Socket \<Rightarrow> Socket sys" where
  "McastSocket_Leave os s =
     sys_bind (sys_call os (Sys_close (socket_fd s))) (\<lambda>_. sys_return (s\<lparr>socket_fd := - 1\<rparr>))"

definition AddToEpollList :: "OS \<Rightarrow> int \<Rightarrow> Socket \<Rightarrow> bool sys" where
  "AddToEpollList os epoll_fd s =
     sys_bind (sys_call os (Sys_epoll_add epoll_fd (socket_fd s))) (\<lambda>rc. sys_return (rc = 0))"

text \<open>The descriptor of the event queue and the listening socket.\<close>

definition TCPServer_Listen :: "bool \<Rightarrow> OS \<Rightarrow> string \<Rightarrow> int \<Rightarrow> Socket \<Rightarrow> (int \<times> Socket) sys" where
  "TCPServer_Listen checked os iface port listener =
     sys_bind (sys_call os Sys_epoll_create) (\<lambda>epoll_fd.
     sys_bind (sys_ASSERT checked (epoll_fd \<ge> 0) ''epoll_create() failed error:'') (\<lambda>_.
     sys_bind (TCPSocket_Connect checked os [] iface port True listener) (\<lambda>listener.
     sys_bind (sys_ASSERT checked (socket_fd listener \<ge> 0) ''Listener socket failed to connect. iface:'') (\<lambda>_.
     sys_bind (AddToEpollList os epoll_fd listener) (\<lambda>b.
     sys_bind (sys_ASSERT checked b ''epoll_ctl() failed. error:'') (\<lambda>_.
     sys_return (epoll_fd, listener)))))))"


section \<open>Results\<close>

named_theorems sys_simps

lemma sys_return_iff [sys_simps]: "sys_return x cs = (Inr y, cs') \<longleftrightarrow> y = x \<and> cs' = cs"
  by (auto simp: sys_return_def)

lemma sys_bind_iff [sys_simps]:
  "sys_bind m f cs = (Inr y, cs') \<longleftrightarrow> (\<exists>x cs1. m cs = (Inr x, cs1) \<and> f x cs1 = (Inr y, cs'))"
  by (auto simp: sys_bind_def split: prod.splits sum.splits)

lemma sys_call_iff [sys_simps]:
  "sys_call os c cs = (Inr y, cs') \<longleftrightarrow> y = os_call os cs c \<and> cs' = cs @ [(c, y)]"
  by (auto simp: sys_call_def)

lemma sys_ASSERT_iff [sys_simps]:
  "sys_ASSERT checked cond msg cs = (Inr u, cs') \<longleftrightarrow> (checked \<longrightarrow> cond) \<and> cs' = cs"
  by (auto simp: sys_ASSERT_def ASSERT_def)

text \<open>
  The calls that configure a socket, with answers that let \<open>CreateSocket\<close> go on. The answer of \<open>F_GETFL\<close>
  is any number, -1 for a failure included, which has the bit of \<open>O_NONBLOCK\<close> set.
\<close>

definition configured :: "SocketCfg \<Rightarrow> int \<Rightarrow> address \<Rightarrow> calls \<Rightarrow> bool" where
  "configured cfg fd rp cs \<longleftrightarrow>
     (\<exists>flags r1 r2 r3 r4. r1 \<noteq> - 1 \<and> r2 \<noteq> - 1 \<and> r3 \<noteq> 1 \<and> r4 \<noteq> - 1 \<and>
       cs = [(Sys_getfl fd, flags)] @
         (if flags AND O_NONBLOCK \<noteq> 0 then [] else [(Sys_setfl fd (flags OR O_NONBLOCK), r1)]) @
         (if cfg_is_udp cfg then [] else [(Sys_nodelay fd, r2)]) @
         (if cfg_is_listening cfg
          then [(Sys_reuseaddr fd, 0), (Sys_bind fd (if cfg_is_udp cfg then Any_address (cfg_port cfg) else rp), 0)] @
            (if cfg_is_udp cfg then [] else [(Sys_listen fd MAX_TCP_SERVER_BACKLOG, 0)])
          else [(Sys_connect fd rp, r3)]) @
         (if cfg_needs_so_timestamp cfg then [(Sys_timestamp fd, r4)] else []))"

lemma SetNonBlocking_true:
  "SetNonBlocking os fd cs = (Inr True, cs') \<longleftrightarrow>
    (\<exists>flags r. r \<noteq> - 1 \<and> flags = os_call os cs (Sys_getfl fd) \<and>
      (flags AND O_NONBLOCK = 0 \<longrightarrow> r = os_call os (cs @ [(Sys_getfl fd, flags)]) (Sys_setfl fd (flags OR O_NONBLOCK))) \<and>
      cs' = cs @ [(Sys_getfl fd, flags)] @
        (if flags AND O_NONBLOCK \<noteq> 0 then [] else [(Sys_setfl fd (flags OR O_NONBLOCK), r)]))"
  by (auto simp: SetNonBlocking_def sys_simps intro: exI [of _ "0 :: int"])

lemma sys_bindE:
  assumes "sys_bind m f cs = (Inr y, cs')"
  obtains x cs1 where "m cs = (Inr x, cs1)" "f x cs1 = (Inr y, cs')"
  using assms by (auto simp: sys_bind_iff)

text \<open>A call under a condition whose answer is checked.\<close>

lemma checked_call:
  assumes "sys_when c (sys_bind m (\<lambda>rc. sys_ASSERT True (P rc) msg)) cs = (Inr u, cs')"
    and "m = sys_bind (sys_call os x) (\<lambda>rc. sys_return (g rc))" "P (g r0)"
  obtains r where "P (g r)" "cs' = cs @ (if c then [(x, r)] else [])"
  using assms that by (cases c) (auto simp: sys_when_def sys_simps)

lemma sys_bind_return: "sys_bind m sys_return = m"
  by (auto simp: sys_bind_def sys_return_def fun_eq_iff split: prod.splits sum.splits)

lemma open_socket_configured:
  assumes "open_socket True os cfg rp cs = (Inr fd, cs')"
  shows "fd \<noteq> - 1 \<and> (\<exists>calls. cs' = cs @ (Sys_socket rp (cfg_is_udp cfg), fd) # calls \<and> configured cfg fd rp calls)"
  using assms [unfolded open_socket_def]
proof (elim sys_bindE)
  fix x c1 c2 b c3 c4 c5 c6 c7 c8 c9 c10 and u1 u2 u3 u4 u5 u6 u7 u8 :: unit
  assume s: "sys_call os (Sys_socket rp (cfg_is_udp cfg)) cs = (Inr x, c1)"
    "sys_ASSERT True (x \<noteq> - 1) ''socket() failed. errno:'' c1 = (Inr u1, c2)"
    and nb: "SetNonBlocking os x c2 = (Inr b, c3)"
    "sys_ASSERT True b ''setNonBlocking() failed. errno:'' c3 = (Inr u2, c4)"
    and nd: "sys_when (\<not> cfg_is_udp cfg) (sys_bind (DisableNagle os x)
       (\<lambda>b. sys_ASSERT True b ''disableNagle() failed. errno:'')) c4 = (Inr u3, c5)"
    and cn: "sys_when (\<not> cfg_is_listening cfg) (sys_bind (sys_call os (Sys_connect x rp))
       (\<lambda>rc. sys_ASSERT True (rc \<noteq> 1) ''connect() failed. errno:'')) c5 = (Inr u4, c6)"
    and ra: "sys_when (cfg_is_listening cfg) (sys_bind (sys_call os (Sys_reuseaddr x))
       (\<lambda>rc. sys_ASSERT True (rc = 0) ''setsockopt() SO_REUSEADDR failed. errno:'')) c6 = (Inr u5, c7)"
    and bd: "sys_when (cfg_is_listening cfg)
       (sys_bind (sys_call os (Sys_bind x (if cfg_is_udp cfg then Any_address (cfg_port cfg) else rp)))
       (\<lambda>rc. sys_ASSERT True (rc = 0) ''bind() failed. errno:%'')) c7 = (Inr u6, c8)"
    and ls: "sys_when (\<not> cfg_is_udp cfg \<and> cfg_is_listening cfg)
       (sys_bind (sys_call os (Sys_listen x MAX_TCP_SERVER_BACKLOG))
       (\<lambda>rc. sys_ASSERT True (rc = 0) ''listen() failed. errno:'')) c8 = (Inr u7, c9)"
    and ts: "sys_when (cfg_needs_so_timestamp cfg) (sys_bind (SetSoTimestamp os x)
       (\<lambda>b. sys_ASSERT True b ''setSOTimestamp() failed. errno:'')) c9 = (Inr u8, c10)"
    and ret: "sys_return x c10 = (Inr fd, cs')"
  have x: "x = fd" "fd \<noteq> - 1" "c2 = cs @ [(Sys_socket rp (cfg_is_udp cfg), fd)]" "cs' = c10" "c4 = c3" "b"
    using s nb(2) ret by (simp_all add: sys_simps)
  obtain flags r1 where f: "r1 \<noteq> - 1" "c3 = c2 @ [(Sys_getfl fd, flags)] @
      (if flags AND O_NONBLOCK \<noteq> 0 then [] else [(Sys_setfl fd (flags OR O_NONBLOCK), r1)])"
    using nb(1) x unfolding SetNonBlocking_true by (auto simp: SetNonBlocking_true)
  obtain r2 where r2: "r2 \<noteq> - 1" "c5 = c4 @ (if \<not> cfg_is_udp cfg then [(Sys_nodelay x, r2)] else [])"
    by (rule checked_call [OF nd DisableNagle_def, of 0]) simp_all
  obtain r3 where r3: "r3 \<noteq> 1" "c6 = c5 @ (if \<not> cfg_is_listening cfg then [(Sys_connect x rp, r3)] else [])"
    by (rule checked_call [OF cn sys_bind_return [symmetric], of 0]) simp_all
  obtain r5 where r5: "r5 = 0" "c7 = c6 @ (if cfg_is_listening cfg then [(Sys_reuseaddr x, r5)] else [])"
    by (rule checked_call [OF ra sys_bind_return [symmetric], of 0]) simp_all
  obtain r6 where r6: "r6 = 0" "c8 = c7 @ (if cfg_is_listening cfg
      then [(Sys_bind x (if cfg_is_udp cfg then Any_address (cfg_port cfg) else rp), r6)] else [])"
    by (rule checked_call [OF bd sys_bind_return [symmetric], of 0]) simp_all
  obtain r7 where r7: "r7 = 0" "c9 = c8 @ (if \<not> cfg_is_udp cfg \<and> cfg_is_listening cfg
      then [(Sys_listen x MAX_TCP_SERVER_BACKLOG, r7)] else [])"
    by (rule checked_call [OF ls sys_bind_return [symmetric], of 0]) simp_all
  obtain r4 where r4: "r4 \<noteq> - 1" "c10 = c9 @ (if cfg_needs_so_timestamp cfg then [(Sys_timestamp x, r4)] else [])"
    by (rule checked_call [OF ts SetSoTimestamp_def, of 0]) simp_all
  let ?calls = "[(Sys_getfl fd, flags)] @
     (if flags AND O_NONBLOCK \<noteq> 0 then [] else [(Sys_setfl fd (flags OR O_NONBLOCK), r1)]) @
     (if cfg_is_udp cfg then [] else [(Sys_nodelay fd, r2)]) @
     (if cfg_is_listening cfg
      then [(Sys_reuseaddr fd, 0), (Sys_bind fd (if cfg_is_udp cfg then Any_address (cfg_port cfg) else rp), 0)] @
        (if cfg_is_udp cfg then [] else [(Sys_listen fd MAX_TCP_SERVER_BACKLOG, 0)])
      else [(Sys_connect fd rp, r3)]) @
     (if cfg_needs_so_timestamp cfg then [(Sys_timestamp fd, r4)] else [])"
  have "configured cfg fd rp ?calls"
    unfolding configured_def using f(1) r2(1) r3(1) r4(1) by blast
  moreover have "cs' = cs @ (Sys_socket rp (cfg_is_udp cfg), fd) # ?calls"
    unfolding x(4) r4(2) r7(2) r6(2) r5(2) r3(2) r2(2) x(5) f(2) x(3) x(1)
    by (cases "cfg_is_udp cfg"; cases "cfg_is_listening cfg") (simp_all add: r5(1) r6(1) r7(1) split del: if_split)
  ultimately show ?thesis using x(2) by blast
qed

lemma open_sockets_last:
  "open_sockets True os cfg (rps @ [rp]) fd0 cs = (Inr fd, cs') \<Longrightarrow>
    \<exists>pre. open_socket True os cfg rp (cs @ pre) = (Inr fd, cs')"
proof (induction rps arbitrary: fd0 cs)
  case Nil
  then have "open_socket True os cfg rp (cs @ []) = (Inr fd, cs')" by (auto simp: sys_simps)
  then show ?case by blast
next
  case (Cons r rps)
  then obtain x c1 where x: "open_socket True os cfg r cs = (Inr x, c1)"
    "open_sockets True os cfg (rps @ [rp]) x c1 = (Inr fd, cs')" by (auto elim!: sys_bindE)
  obtain us where "c1 = cs @ us" using open_socket_configured [OF x(1)] by blast
  moreover obtain pre where "open_socket True os cfg rp (c1 @ pre) = (Inr fd, cs')" using Cons.IH [OF x(2)] by blast
  ultimately have "open_socket True os cfg rp (cs @ (us @ pre)) = (Inr fd, cs')" by simp
  then show ?case by blast
qed

text \<open>
  The descriptor does not block: its flags were read and had the bit, or the bit was set without an error.
\<close>

definition non_blocking :: "int \<Rightarrow> calls \<Rightarrow> bool" where
  "non_blocking fd cs \<longleftrightarrow>
     (\<exists>(c, r)\<in>set cs. r \<noteq> - 1 \<and>
        (case c of Sys_getfl d \<Rightarrow> d = fd \<and> r AND O_NONBLOCK \<noteq> 0
         | Sys_setfl d flags \<Rightarrow> d = fd \<and> flags AND O_NONBLOCK \<noteq> 0
         | _ \<Rightarrow> False))"

lemma O_NONBLOCK_set: "(flags OR O_NONBLOCK) AND O_NONBLOCK \<noteq> 0"
proof -
  have "(flags OR O_NONBLOCK) AND O_NONBLOCK = O_NONBLOCK" by (rule bit_eqI) (auto simp: bit_and_iff bit_or_iff)
  then show ?thesis by (simp add: O_NONBLOCK_def)
qed

lemma configured_non_blocking:
  assumes "configured cfg fd rp cs" "(Sys_getfl fd, - 1) \<notin> set cs"
  shows "non_blocking fd cs"
proof -
  obtain flags r1 rest where cs: "r1 \<noteq> - 1" "cs = (Sys_getfl fd, flags) #
      (if flags AND O_NONBLOCK \<noteq> 0 then [] else [(Sys_setfl fd (flags OR O_NONBLOCK), r1)]) @ rest"
    using assms(1) unfolding configured_def by auto
  then show ?thesis
    using assms(2) O_NONBLOCK_set [of flags] by (auto simp: non_blocking_def split: if_splits)
qed

section \<open>Property\<close>

text \<open>
  C32: A socket that \<open>CreateSocket\<close> returns in a build with assertions is a descriptor on which, in order,
  its flags were read and \<open>O_NONBLOCK\<close> was set unless they had it, Nagle's algorithm switched off for TCP, and
  then either the address was reused, bound and (TCP) listened on, or a connection was asked for, and time stamps
  switched on where needed. Each of these calls succeeded, with two exceptions: nothing is known of
  \<open>connect\<close> (the check compares its result with 1 instead of -1), nor of reading the flags
  (\<open>F_GETFL\<close>), whose failure is taken for flags that have the bit. The socket does not block unless that call
  failed.
\<close>

theorem created_socket_configured:
  assumes "CreateSocket True os cfg cs = (Inr fd, cs')" "snd (resolve os cfg) = rps @ [rp]"
  shows "fst (resolve os cfg) = 0 \<and> fd \<noteq> - 1 \<and>
    (\<exists>pre calls. cs' = cs @ pre @ (Sys_socket rp (cfg_is_udp cfg), fd) # calls \<and> configured cfg fd rp calls \<and>
      ((Sys_getfl fd, - 1) \<notin> set calls \<longrightarrow> non_blocking fd calls))"
proof -
  have "fst (resolve os cfg) = 0" "open_sockets True os cfg (rps @ [rp]) (- 1) cs = (Inr fd, cs')"
    using assms by (auto simp: CreateSocket_def case_prod_unfold sys_simps)
  moreover obtain pre where "open_socket True os cfg rp (cs @ pre) = (Inr fd, cs')"
    using open_sockets_last [OF calculation(2)] by blast
  then obtain calls where "fd \<noteq> - 1" "cs' = (cs @ pre) @ (Sys_socket rp (cfg_is_udp cfg), fd) # calls" "configured cfg fd rp calls"
    using open_socket_configured by blast
  ultimately show ?thesis using configured_non_blocking by (intro conjI exI [of _ pre] exI [of _ calls]) auto
qed

text \<open>A system that refuses every connection: the client gets its socket all the same.\<close>

definition refusing_os :: OS where
  "refusing_os =
     \<lparr>os_call = (\<lambda>_ c. case c of Sys_socket _ _ \<Rightarrow> 5 | Sys_connect _ _ \<Rightarrow> - 1 | _ \<Rightarrow> 0),
      os_getifaddrs = Some [(''lo'', Some ''127.0.0.1'')],
      os_getaddrinfo = (\<lambda>ip port passive udp. (0, [Resolved ip 12345]))\<rparr>"

definition client_cfg :: SocketCfg where
  "client_cfg = \<lparr>cfg_ip = [], cfg_iface = ''lo'', cfg_port = 12345, cfg_is_udp = False, cfg_is_listening = False,
     cfg_needs_so_timestamp = True\<rparr>"

lemmas run_simps = CreateSocket_def resolve_def client_cfg_def refusing_os_def GetIfaceIp_def open_socket_def
  SetNonBlocking_def DisableNagle_def SetSoTimestamp_def sys_when_def sys_bind_def sys_call_def sys_return_def
  sys_ASSERT_def ASSERT_def O_NONBLOCK_def

theorem created_socket_configured_witness:
  "\<exists>cs'. CreateSocket True refusing_os client_cfg [] = (Inr 5, cs') \<and>
    (Sys_connect 5 (Resolved ''127.0.0.1'' 12345), - 1) \<in> set cs' \<and>
    (\<exists>pre calls. cs' = pre @ (Sys_socket (Resolved ''127.0.0.1'' 12345) False, 5) # calls \<and>
      configured client_cfg 5 (Resolved ''127.0.0.1'' 12345) calls \<and> non_blocking 5 calls)"
proof -
  let ?cs = "[(Sys_socket (Resolved ''127.0.0.1'' 12345) False, 5), (Sys_getfl 5, 0), (Sys_setfl 5 2048, 0), (Sys_nodelay 5, 0),
    (Sys_connect 5 (Resolved ''127.0.0.1'' 12345), - 1), (Sys_timestamp 5, 0)] :: calls"
  have run: "CreateSocket True refusing_os client_cfg [] = (Inr 5, ?cs)"
    by (simp add: run_simps)
  have "snd (resolve refusing_os client_cfg) = [] @ [Resolved ''127.0.0.1'' 12345]"
    by (simp add: run_simps)
  from created_socket_configured [OF run this] obtain pre calls where
    c: "?cs = pre @ (Sys_socket (Resolved ''127.0.0.1'' 12345) False, 5) # calls"
      "configured client_cfg 5 (Resolved ''127.0.0.1'' 12345) calls"
      "(Sys_getfl 5, - 1) \<notin> set calls \<longrightarrow> non_blocking 5 calls"
    by (auto simp: client_cfg_def)
  have "(Sys_getfl 5, - 1) \<notin> set ?cs" by simp
  then have "(Sys_getfl 5, - 1) \<notin> set calls" unfolding c(1) by simp
  then have "non_blocking 5 calls" using c(3) by blast
  moreover have "(Sys_connect 5 (Resolved ''127.0.0.1'' 12345), - 1) \<in> set ?cs" by simp
  ultimately show ?thesis using run c(1,2) by blast
qed

text \<open>
  The exception is real: a system whose \<open>F_GETFL\<close> fails gives a server its socket, and \<open>F_SETFL\<close> was never called.
\<close>

definition flagless_os :: OS where
  "flagless_os =
     \<lparr>os_call = (\<lambda>_ c. case c of Sys_socket _ _ \<Rightarrow> 5 | Sys_getfl _ \<Rightarrow> - 1 | _ \<Rightarrow> 0),
      os_getifaddrs = Some [(''lo'', Some ''127.0.0.1'')],
      os_getaddrinfo = (\<lambda>ip port passive udp. (0, [Resolved ip 12345]))\<rparr>"

lemma getfl_failure_unnoticed:
  "\<exists>cs. CreateSocket True flagless_os (client_cfg\<lparr>cfg_is_listening := True\<rparr>) [] = (Inr 5, cs) \<and>
    (Sys_getfl 5, - 1) \<in> set cs \<and> \<not> non_blocking 5 cs"
  by (simp add: run_simps flagless_os_def non_blocking_def)

end
