(* ===== verification/Exchange_Main.thy ===== *)
theory Exchange_Main
  imports Matching_Engine Order_Server Market_Data_Publisher
begin

text \<open>
  The main program of the exchange (\<open>src/src/exchange_main.cpp\<close>): three queues and the three components
  that share them. Afterwards every component runs in its own thread, and \<open>main\<close> sleeps until a signal
  ends the process.
\<close>

record Exchange =
  matching_engine :: MatchingEngine
  market_data_publisher :: MarketDataPublisher
  order_server :: OrderServer

text \<open>\<open>cid_oid\<close> and \<open>slots\<close> are the first contents of arrays of the books that have no initialiser.\<close>

definition exchange_main_start :: "(nat \<Rightarrow> nat \<Rightarrow> nat \<Rightarrow> ptr) \<Rightarrow> (nat \<Rightarrow> nat \<Rightarrow> ptr) \<Rightarrow> Exchange" where
  "exchange_main_start cid_oid slots =
     (let client_requests = LockFreeQueue_new ME_MAX_CLIENT_UPDATES MEClientRequest_default;
          client_responses = LockFreeQueue_new ME_MAX_CLIENT_UPDATES MEClientResponse_default;
          market_updates = LockFreeQueue_new ME_MAX_MARKET_UPDATES MEMarketUpdate_default
      in \<lparr>matching_engine = MatchingEngine_new cid_oid slots client_requests client_responses market_updates,
          market_data_publisher = MarketDataPublisher_new market_updates,
          order_server = OrderServer_new client_requests client_responses\<rparr>)"

text \<open>
  If the uninitialised arrays happen to hold null pointers, the engine starts in a state of its
  invariant, with room for every message of a first request.
\<close>

theorem exchange_starts_well:
  "engine_ok (matching_engine (exchange_main_start (\<lambda>_ _ _. None) (\<lambda>_ _. None))) (\<lambda>_ _. [])"
  using empty_book_inv [unfolded empty_book_def]
  by (simp add: exchange_main_start_def Let_def engine_ok_def MatchingEngine_new_def ME_MAX_CLIENT_UPDATES_def
      ME_MAX_MARKET_UPDATES_def) (simp add: ExchangeOrderBook_new_def)

end
